(* ===== verification/BG_Prelude.thy ===== *)
theory BG_Prelude
  imports Main "HOL-Library.Word" "HOL-Library.Sublist" "HOL-Library.Multiset"
    "HOL-Library.List_Lexorder" "HOL-Library.Char_ord"
begin

text \<open>
  What every component of the development shares: the collections of simplification
  rules, the shape of a Go \<^verbatim>\<open>error\<close> result, and the generic facts on lists, options and maps.

  A Go function that returns only an \<^verbatim>\<open>error\<close> is modelled by an option: \<open>None\<close> is the
  \<^verbatim>\<open>nil\<close> error, \<open>Some e\<close> the error \<open>e\<close>. A function that returns a value and an error is
  modelled by a sum, \<open>Inl e\<close> for the error. Instants and durations are integers that count
  nanoseconds.
\<close>

named_theorems go_defs \<open>definitions of the Go standard library's string and address functions\<close>
named_theorems err_simps \<open>when a sequence of checks reports no error\<close>

type_synonym time = int
type_synonym duration = int
type_synonym uint16 = "16 word"
type_synonym uint32 = "32 word"
type_synonym uint64 = "64 word"

section \<open>Sequences of checks\<close>

text \<open>\<^verbatim>\<open>if err := a(); err != nil { return err }\<close> followed by the rest of the function.\<close>

definition err_seq :: "'e option \<Rightarrow> 'e option \<Rightarrow> 'e option" where
  "err_seq a b = (case a of Some e \<Rightarrow> Some e | None \<Rightarrow> b)"

text \<open>\<^verbatim>\<open>if cond { return e }\<close>.\<close>

definition fail_if :: "bool \<Rightarrow> 'e \<Rightarrow> 'e option" where
  "fail_if c e = (if c then Some e else None)"

fun first_err :: "'e option list \<Rightarrow> 'e option" where
  "first_err [] = None"
| "first_err (x # xs) = err_seq x (first_err xs)"

lemma err_seq_None [err_simps]: "err_seq a b = None \<longleftrightarrow> a = None \<and> b = None"
  by (auto simp: err_seq_def split: option.splits)

lemma fail_if_None [err_simps]: "fail_if c e = None \<longleftrightarrow> \<not> c"
  by (simp add: fail_if_def)

lemma first_err_None [err_simps]: "first_err xs = None \<longleftrightarrow> (\<forall>x\<in>set xs. x = None)"
  by (induction xs) (auto simp: err_simps)

lemma err_seq_simps [simp]:
  "err_seq None b = b" "err_seq (Some e) b = Some e"
  by (simp_all add: err_seq_def)

lemma fail_if_simps [simp]:
  "fail_if True e = Some e" "fail_if False e = None"
  by (simp_all add: fail_if_def)

text \<open>\<^verbatim>\<open>fmt.Errorf("...: %w", err)\<close> around the error of a check.\<close>

abbreviation wrap_err :: "('e \<Rightarrow> 'f) \<Rightarrow> 'e option \<Rightarrow> 'f option" where
  "wrap_err \<equiv> map_option"

section \<open>Lists and maps\<close>

lemma find_None_conv: "find P xs = None \<longleftrightarrow> (\<forall>x\<in>set xs. \<not> P x)"
  by (induction xs) auto

lemma find_SomeD: "find P xs = Some x \<Longrightarrow> x \<in> set xs \<and> P x"
  by (induction xs) (auto split: if_splits)

lemma find_unique:
  assumes "x \<in> set xs" "P x" "\<And>y. y \<in> set xs \<Longrightarrow> P y \<Longrightarrow> y = x"
  shows "find P xs = Some x"
proof (cases "find P xs")
  case None
  with assms(1,2) show ?thesis by (simp add: find_None_conv)
next
  case (Some y)
  then have "y = x" using find_SomeD [OF Some] assms(3) by blast
  with Some show ?thesis by simp
qed

lemma find_map: "find P (map f xs) = map_option f (find (P \<circ> f) xs)"
  by (induction xs) auto

lemma map_add_fold_upd:
  "fold (\<lambda>(k, v) m. m(k \<mapsto> v)) kvs m0 = m0 ++ map_of (rev kvs)"
  by (induction kvs arbitrary: m0) (auto simp: map_add_def fun_eq_iff split: option.splits)

lemma append_sep_inj:
  assumes "a @ c # x = b @ c # y" "c \<notin> set a" "c \<notin> set b"
  shows "a = b \<and> x = y"
  using assms
proof (induction a arbitrary: b)
  case Nil
  then show ?case by (cases b) auto
next
  case (Cons z a)
  then show ?case by (cases b) auto
qed

section \<open>Integer division\<close>

text \<open>Go's \<^verbatim>\<open>/\<close> and \<^verbatim>\<open>%\<close> on signed integers, for a positive divisor: they truncate towards zero.\<close>

definition go_div :: "int \<Rightarrow> int \<Rightarrow> int" where
  "go_div a b = (if a \<ge> 0 then a div b else - ((- a) div b))"

definition go_mod :: "int \<Rightarrow> int \<Rightarrow> int" where
  "go_mod a b = a - go_div a b * b"

lemma go_div_nonneg [simp]: "0 \<le> a \<Longrightarrow> go_div a b = a div b"
  by (simp add: go_div_def)

lemma go_mod_nonneg [simp]: "0 \<le> a \<Longrightarrow> go_mod a b = a mod b"
  by (simp add: go_mod_def minus_div_mult_eq_mod)

end
