(* ===== verification/Go_Strings.thy ===== *)
theory Go_Strings
  imports BG_Prelude
begin

text \<open>
  The functions of Go's \<^verbatim>\<open>strings\<close> and \<^verbatim>\<open>strconv\<close> packages the program calls. A Go string is
  a sequence of bytes and so is a HOL \<open>string\<close>. Case mapping and white space are those of
  the ASCII range, where they agree with Go's Unicode tables; a letter outside it is left
  alone by the model.
\<close>

section \<open>Characters\<close>

definition char_lower :: "char \<Rightarrow> char" where
  "char_lower c = (let n = (of_char c :: nat) in
     if 65 \<le> n \<and> n \<le> 90 then char_of (n + 32) else c)"

definition char_upper :: "char \<Rightarrow> char" where
  "char_upper c = (let n = (of_char c :: nat) in
     if 97 \<le> n \<and> n \<le> 122 then char_of (n - 32) else c)"

definition is_space :: "char \<Rightarrow> bool" where
  "is_space c = (let n = (of_char c :: nat) in (9 \<le> n \<and> n \<le> 13) \<or> n = 32)"

definition is_digit :: "char \<Rightarrow> bool" where
  "is_digit c = (let n = (of_char c :: nat) in 48 \<le> n \<and> n \<le> 57)"

definition digit_val :: "char \<Rightarrow> nat" where
  "digit_val c = of_char c - 48"

definition digit_char :: "nat \<Rightarrow> char" where
  "digit_char n = char_of (48 + n)"

lemma char_lower_idem [simp]: "char_lower (char_lower c) = char_lower c"
  by (auto simp: char_lower_def Let_def)

lemma char_lower_eq_dot [simp]: "char_lower c = CHR ''.'' \<longleftrightarrow> c = CHR ''.''"
  by (auto simp: char_lower_def Let_def dest: arg_cong [where f = "of_char :: char \<Rightarrow> nat"])

lemma is_digit_digit_char [simp]: "n < 10 \<Longrightarrow> is_digit (digit_char n)"
  by (simp add: is_digit_def digit_char_def Let_def)

lemma digit_val_digit_char [simp]: "n < 10 \<Longrightarrow> digit_val (digit_char n) = n"
  by (simp add: digit_val_def digit_char_def)


section \<open>The strings package\<close>

definition toLower :: "string \<Rightarrow> string" where
  [go_defs]: "toLower s = map char_lower s"

definition toUpper :: "string \<Rightarrow> string" where
  [go_defs]: "toUpper s = map char_upper s"

text \<open>\<^verbatim>\<open>strings.EqualFold\<close>, on the ASCII range.\<close>

definition equalFold :: "string \<Rightarrow> string \<Rightarrow> bool" where
  [go_defs]: "equalFold a b = (toLower a = toLower b)"

definition trimSpace :: "string \<Rightarrow> string" where
  [go_defs]: "trimSpace s = rev (dropWhile is_space (rev (dropWhile is_space s)))"

text \<open>\<^verbatim>\<open>strings.Trim\<close> with a cutset of one character.\<close>

definition trimChar :: "char \<Rightarrow> string \<Rightarrow> string" where
  [go_defs]: "trimChar c s = rev (dropWhile (\<lambda>x. x = c) (rev (dropWhile (\<lambda>x. x = c) s)))"

definition hasPrefix :: "string \<Rightarrow> string \<Rightarrow> bool" where
  [go_defs]: "hasPrefix s p = (take (length p) s = p)"

definition hasSuffix :: "string \<Rightarrow> string \<Rightarrow> bool" where
  [go_defs]: "hasSuffix s suf =
     (length suf \<le> length s \<and> drop (length s - length suf) s = suf)"

definition trimSuffix :: "string \<Rightarrow> string \<Rightarrow> string" where
  [go_defs]: "trimSuffix s suf =
     (if hasSuffix s suf then take (length s - length suf) s else s)"

fun containsStr :: "string \<Rightarrow> string \<Rightarrow> bool" where
  "containsStr [] sub = (sub = [])"
| "containsStr (c # s) sub = (hasPrefix (c # s) sub \<or> containsStr s sub)"

text \<open>\<^verbatim>\<open>strings.Split\<close> with a separator of one character: never the empty list.\<close>

fun splitOn :: "char \<Rightarrow> string \<Rightarrow> string list" where
  "splitOn c [] = [[]]"
| "splitOn c (x # s) =
     (if x = c then [] # splitOn c s
      else (case splitOn c s of [] \<Rightarrow> [[x]] | w # ws \<Rightarrow> (x # w) # ws))"

fun joinStr :: "string \<Rightarrow> string list \<Rightarrow> string" where
  "joinStr sep [] = []"
| "joinStr sep [w] = w"
| "joinStr sep (w # ws) = w @ sep @ joinStr sep ws"

text \<open>\<^verbatim>\<open>strings.Cut\<close> at one character: the part before it and, if it occurs, the part after.\<close>

fun cutAt :: "char \<Rightarrow> string \<Rightarrow> string \<times> string option" where
  "cutAt c [] = ([], None)"
| "cutAt c (x # s) =
     (if x = c then ([], Some s) else (let (a, r) = cutAt c s in (x # a, r)))"

lemma toLower_append [simp]: "toLower (a @ b) = toLower a @ toLower b"
  by (simp add: toLower_def)

lemma toLower_idem [simp]: "toLower (toLower s) = toLower s"
  by (simp add: toLower_def)

lemma length_toLower [simp]: "length (toLower s) = length s"
  by (simp add: toLower_def)

lemma toLower_Nil [simp]: "toLower s = [] \<longleftrightarrow> s = []" "toLower [] = []"
  by (simp_all add: toLower_def)

lemma hasSuffix_iff: "hasSuffix s suf \<longleftrightarrow> suffix suf s"
proof
  assume "hasSuffix s suf"
  then show "suffix suf s" by (metis hasSuffix_def suffix_drop)
next
  assume "suffix suf s"
  then obtain p where "s = p @ suf" by (auto simp: suffix_def)
  then show "hasSuffix s suf" by (simp add: hasSuffix_def)
qed

lemma hasSuffix_append [simp]: "hasSuffix (p @ suf) suf"
  by (auto simp: hasSuffix_iff suffix_def)

lemma hasSuffix_dot: "hasSuffix s ''.'' \<longleftrightarrow> s \<noteq> [] \<and> last s = CHR ''.''"
  by (cases s rule: rev_cases) (auto simp: hasSuffix_iff)

lemma trimSuffix_append [simp]: "trimSuffix (p @ suf) suf = p"
  by (simp add: trimSuffix_def)

lemma trimSuffix_id [simp]: "\<not> hasSuffix s suf \<Longrightarrow> trimSuffix s suf = s"
  by (simp add: trimSuffix_def)

lemma dropWhile_idem' [simp]: "dropWhile P (dropWhile P xs) = dropWhile P xs"
  by (induction xs) auto

lemma hasPrefix_iff: "hasPrefix s p \<longleftrightarrow> prefix p s"
  by (metis hasPrefix_def prefix_def append_eq_conv_conj take_is_prefix)

lemma containsStr_iff: "containsStr s sub \<longleftrightarrow> sublist sub s"
  by (induction s) (auto simp: hasPrefix_iff sublist_Cons_right)

lemma splitOn_not_Nil [simp]: "splitOn c s \<noteq> []"
  by (induction s) (auto split: list.splits)

lemma joinStr_splitOn: "joinStr [c] (splitOn c s) = s"
proof (induction s)
  case (Cons x s)
  obtain w ws where w: "splitOn c s = w # ws" by (cases "splitOn c s") auto
  with Cons show ?case by (cases ws) auto
qed simp

lemma splitOn_no_sep: "w \<in> set (splitOn c s) \<Longrightarrow> c \<notin> set w"
  by (induction s arbitrary: w) (auto split: list.splits if_splits)

section \<open>The strconv package\<close>

fun itoa_nat :: "nat \<Rightarrow> string" where
  "itoa_nat n = (if n < 10 then [digit_char n]
     else itoa_nat (n div 10) @ [digit_char (n mod 10)])"

declare itoa_nat.simps [simp del]

text \<open>\<^verbatim>\<open>strconv.Itoa\<close> and the verb \<^verbatim>\<open>%d\<close>.\<close>

definition itoa :: "int \<Rightarrow> string" where
  "itoa i = (if i < 0 then CHR ''-'' # itoa_nat (nat (- i)) else itoa_nat (nat i))"

definition parse_digits :: "string \<Rightarrow> nat option" where
  "parse_digits s = (if s \<noteq> [] \<and> list_all is_digit s
     then Some (fold (\<lambda>c n. 10 * n + digit_val c) s 0) else None)"

text \<open>
  \<^verbatim>\<open>strconv.Atoi\<close>: an optional sign, at least one digit, and a value in the range of the
  64-bit \<^verbatim>\<open>int\<close>.
\<close>

definition atoi :: "string \<Rightarrow> int option" where
  "atoi s =
     (let (neg, ds) = (case s of [] \<Rightarrow> (False, [])
                       | c # r \<Rightarrow> if c = CHR ''-'' then (True, r)
                                  else if c = CHR ''+'' then (False, r) else (False, s))
      in case parse_digits ds of
           None \<Rightarrow> None
         | Some n \<Rightarrow> (let i = (if neg then - int n else int n)
                      in if - (2 ^ 63) \<le> i \<and> i < 2 ^ 63 then Some i else None))"

text \<open>\<^verbatim>\<open>strconv.ParseUint(s, 10, bits)\<close>: no sign, and a value below \<open>2 ^ bits\<close>.\<close>

definition parseUint :: "nat \<Rightarrow> string \<Rightarrow> nat option" where
  "parseUint bits s = (case parse_digits s of
     None \<Rightarrow> None | Some n \<Rightarrow> if n < 2 ^ bits then Some n else None)"

lemma itoa_nat_digits: "itoa_nat n \<noteq> [] \<and> list_all is_digit (itoa_nat n)"
proof (induction n rule: itoa_nat.induct)
  case (1 n)
  then show ?case by (cases "n < 10") (auto simp: itoa_nat.simps [of n])
qed

lemma fold_itoa_nat: "fold (\<lambda>c n. 10 * n + digit_val c) (itoa_nat n) 0 = n"
proof (induction n rule: itoa_nat.induct)
  case (1 n)
  then show ?case by (cases "n < 10") (simp_all add: itoa_nat.simps [of n])
qed

lemma parse_digits_itoa_nat [simp]: "parse_digits (itoa_nat n) = Some n"
  by (simp add: parse_digits_def itoa_nat_digits fold_itoa_nat)

lemma parseUint_itoa:
  "0 \<le> i \<Longrightarrow> i < 2 ^ bits \<Longrightarrow> parseUint bits (itoa i) = Some (nat i)"
  by (simp add: parseUint_def itoa_def nat_less_iff)

lemma digit_not_sign: "is_digit c \<Longrightarrow> c \<noteq> CHR ''-'' \<and> c \<noteq> CHR ''+'' \<and> c \<noteq> CHR '':''"
  by (auto simp: is_digit_def Let_def)

lemma atoi_itoa:
  assumes "- (2 ^ 63) \<le> i" "i < 2 ^ 63"
  shows "atoi (itoa i) = Some i"
proof -
  obtain c r where cr: "itoa_nat (nat i) = c # r" and dc: "is_digit c"
    using itoa_nat_digits [of "nat i"] by (cases "itoa_nat (nat i)") auto
  then show ?thesis
    using assms parse_digits_itoa_nat [of "nat i"] digit_not_sign [OF dc]
    by (auto simp: atoi_def itoa_def Let_def)
qed

lemma set_trimSpace: "set (trimSpace s) \<subseteq> set s"
  by (auto simp: trimSpace_def dest!: set_dropWhileD)

lemma dropWhile_rev_head:
  assumes "dropWhile P s = s"
  shows "dropWhile P (rev (dropWhile P (rev s))) = rev (dropWhile P (rev s))"
proof (cases "rev (dropWhile P (rev s))")
  case (Cons c r)
  have "s = rev (dropWhile P (rev s)) @ rev (takeWhile P (rev s))"
    by (metis rev_append rev_rev_ident takeWhile_dropWhile_id)
  then have "s = c # r @ rev (takeWhile P (rev s))" using Cons by simp
  then have "hd s = c" "s \<noteq> []" by (metis list.sel(1), metis list.distinct(1))
  then have "\<not> P c" using assms by (metis hd_dropWhile)
  then show ?thesis using Cons by simp
next
  case Nil
  then show ?thesis by (simp only: dropWhile.simps)
qed

lemma trimSpace_idem [simp]: "trimSpace (trimSpace s) = trimSpace s"
  unfolding trimSpace_def by (subst dropWhile_rev_head) simp_all

end
