(* ===== verification/Go_Net.thy ===== *)
theory Go_Net
  imports Go_Strings
begin

unbundle bit_operations_syntax

text \<open>
  The parts of Go's \<^verbatim>\<open>net\<close> and \<^verbatim>\<open>net/netip\<close> packages the program calls: textual addresses
  and prefixes, masks, and the containment test of \<^verbatim>\<open>net.IPNet\<close>. An address is the byte
  slice Go has: empty for \<^verbatim>\<open>nil\<close>, four bytes, or sixteen.

  The last section proves what the rest of the development rests on: two networks with
  CIDR masks share an address exactly when one of them contains the base address of the
  other, and the networks \<^verbatim>\<open>ParseCIDR\<close> returns have CIDR masks.
\<close>

type_synonym byte = "8 word"
type_synonym ip = "byte list"

record ipnet =
  net_ip :: ip
  net_mask :: "byte list"

section \<open>Textual addresses\<close>

fun v4_fields :: "string \<Rightarrow> nat \<Rightarrow> nat \<Rightarrow> byte list \<Rightarrow> byte list option" where
  "v4_fields [] val digs fs = (if length fs < 3 then None else Some (fs @ [of_nat val]))"
| "v4_fields (c # s) val digs fs =
     (if is_digit c then
        (if digs = 1 \<and> val = 0 then None
         else let v = val * 10 + digit_val c in
           if v > 255 then None else v4_fields s v (digs + 1) fs)
      else if c = CHR ''.'' then
        (if digs = 0 \<or> s = [] then None
         else if length fs = 3 then None
         else v4_fields s 0 0 (fs @ [of_nat val]))
      else None)"

definition parseIPv4 :: "string \<Rightarrow> byte list option" where
  "parseIPv4 s = v4_fields s 0 0 []"

definition hex_val :: "char \<Rightarrow> nat option" where
  "hex_val c = (let n = (of_char c :: nat) in
     if is_digit c then Some (digit_val c)
     else if 97 \<le> n \<and> n \<le> 102 then Some (n - 87)
     else if 65 \<le> n \<and> n \<le> 70 then Some (n - 55) else None)"

fun hex_run :: "nat \<Rightarrow> nat \<Rightarrow> string \<Rightarrow> (nat \<times> nat \<times> string) option" where
  "hex_run off acc [] = Some (off, acc, [])"
| "hex_run off acc (c # s) = (case hex_val c of
     None \<Rightarrow> Some (off, acc, c # s)
   | Some d \<Rightarrow> (let a = acc * 16 + d in
       if off > 3 then None else if a > 65535 then None else hex_run (off + 1) a s))"

text \<open>
  One round of the loop of \<^verbatim>\<open>parseIPv6\<close>: \<open>acc\<close> holds the bytes written so far, so its
  length is the loop's \<^verbatim>\<open>i\<close>; \<open>ell\<close> is the position of the ellipsis, if one was seen. The
  round fails, leaves the loop (\<open>Inl\<close>) or goes on (\<open>Inr\<close>).
\<close>

type_synonym v6_state = "string \<times> byte list \<times> nat option"

definition v6_step :: "string \<Rightarrow> byte list \<Rightarrow> nat option \<Rightarrow> (v6_state + v6_state) option" where
  "v6_step s acc ell = (case hex_run 0 0 s of
        None \<Rightarrow> None
      | Some (off, a, r) \<Rightarrow>
          if off = 0 then None
          else if r \<noteq> [] \<and> hd r = CHR ''.'' then
            (if ell = None \<and> length acc \<noteq> 12 then None
             else if length acc + 4 > 16 then None
             else case parseIPv4 s of
                    None \<Rightarrow> None
                  | Some fs \<Rightarrow> Some (Inl ([], acc @ fs, ell)))
          else (let acc' = acc @ [of_nat (a div 256), of_nat a] in
            case r of
              [] \<Rightarrow> Some (Inl ([], acc', ell))
            | c # r1 \<Rightarrow>
                if c \<noteq> CHR '':'' then None
                else (case r1 of
                  [] \<Rightarrow> None
                | d # r2 \<Rightarrow>
                    if d = CHR '':'' then
                      (if ell \<noteq> None then None
                       else if r2 = [] then Some (Inl ([], acc', Some (length acc')))
                       else Some (Inr (r2, acc', Some (length acc'))))
                    else Some (Inr (r1, acc', ell)))))"

lemma v6_step_Inr: "v6_step s acc ell = Some (Inr (s', acc', ell')) \<Longrightarrow> length acc' = length acc + 2"
  by (auto simp: v6_step_def Let_def split: option.splits prod.splits if_splits list.splits)

function v6_loop :: "string \<Rightarrow> byte list \<Rightarrow> nat option \<Rightarrow> v6_state option" where
  "v6_loop s acc ell =
     (if length acc \<ge> 16 then Some (s, acc, ell)
      else case v6_step s acc ell of
        None \<Rightarrow> None
      | Some (Inl r) \<Rightarrow> Some r
      | Some (Inr (s', acc', ell')) \<Rightarrow> v6_loop s' acc' ell')"
  by pat_completeness auto
termination
  by (relation "measure (\<lambda>(s, acc, ell). 16 - length acc)") (auto dest: v6_step_Inr)

declare v6_loop.simps [simp del]

definition v6_finish :: "string \<times> byte list \<times> nat option \<Rightarrow> byte list option" where
  "v6_finish r = (case r of (s, acc, ell) \<Rightarrow>
     if s \<noteq> [] then None
     else if length acc < 16 then
       (case ell of None \<Rightarrow> None
        | Some e \<Rightarrow> Some (take e acc @ replicate (16 - length acc) 0 @ drop e acc))
     else if ell \<noteq> None then None else Some acc)"

definition parseIPv6 :: "string \<Rightarrow> byte list option" where
  "parseIPv6 s =
     (if take 2 s = ''::'' then
        (if drop 2 s = [] then Some (replicate 16 0)
         else Option.bind (v6_loop (drop 2 s) [] (Some 0)) v6_finish)
      else Option.bind (v6_loop s [] None) v6_finish)"

definition v4InV6Prefix :: ip where
  "v4InV6Prefix = [0, 0, 0, 0, 0, 0, 0, 0, 0, 0, 255, 255]"

text \<open>
  \<^verbatim>\<open>netip.ParseAddr\<close> without zones (an address with a zone is refused by every caller):
  whether the address is a plain IPv4 one, and its sixteen-byte form.
\<close>

definition parseAddr :: "string \<Rightarrow> (bool \<times> ip) option" where
  "parseAddr s = (case find (\<lambda>c. c \<in> set ''.:%'') s of
     None \<Rightarrow> None
   | Some c \<Rightarrow>
       if c = CHR ''.'' then map_option (\<lambda>b. (True, v4InV6Prefix @ b)) (parseIPv4 s)
       else if c = CHR '':'' then
         (if CHR ''%'' \<in> set s then None else map_option (\<lambda>b. (False, b)) (parseIPv6 s))
       else None)"

definition parseIP :: "string \<Rightarrow> ip" where
  "parseIP s = (case parseAddr s of None \<Rightarrow> [] | Some (_, b) \<Rightarrow> b)"

definition to4 :: "ip \<Rightarrow> ip" where
  "to4 a = (if length a = 4 then a
     else if length a = 16 \<and> take 12 a = v4InV6Prefix then drop 12 a else [])"

definition to16 :: "ip \<Rightarrow> ip" where
  "to16 a = (if length a = 4 then v4InV6Prefix @ a else if length a = 16 then a else [])"

section \<open>Masks and networks\<close>

text \<open>\<^verbatim>\<open>net.CIDRMask\<close>, for a mask of \<open>l\<close> bytes; the last byte is \<^verbatim>\<open>^byte(0xff >> n)\<close>.\<close>

fun cidr_mask :: "nat \<Rightarrow> nat \<Rightarrow> byte list" where
  "cidr_mask n 0 = []"
| "cidr_mask n (Suc l) =
     (if n \<ge> 8 then 255 # cidr_mask (n - 8) l
      else NOT (drop_bit n 255) # cidr_mask 0 l)"

definition ip_mask :: "ip \<Rightarrow> byte list \<Rightarrow> ip" where
  "ip_mask a m =
     (let m' = (if length m = 16 \<and> length a = 4 \<and> list_all (\<lambda>b. b = 255) (take 12 m)
                then drop 12 m else m);
          a' = (if length m' = 4 \<and> length a = 16 \<and> take 12 a = v4InV6Prefix
                then drop 12 a else a)
      in if length a' = length m' then map2 (AND) a' m' else [])"

definition networkNumberAndMask :: "ipnet \<Rightarrow> ip \<times> byte list" where
  "networkNumberAndMask n =
     (let a = (if to4 (net_ip n) \<noteq> [] then to4 (net_ip n) else net_ip n);
          m = net_mask n
      in if length a \<noteq> 4 \<and> length a \<noteq> 16 then ([], [])
         else if length m = 4 then (if length a \<noteq> 4 then ([], []) else (a, m))
         else if length m = 16 then (a, if length a = 4 then drop 12 m else m)
         else ([], []))"

definition net_contains :: "ipnet \<Rightarrow> ip \<Rightarrow> bool" where
  "net_contains n a =
     (let (nn, m) = networkNumberAndMask n;
          x = (if to4 a \<noteq> [] then to4 a else a)
      in length x = length nn \<and> map2 (AND) nn m = map2 (AND) x m)"

text \<open>
  \<^verbatim>\<open>dtoi\<close>: a decimal number below \<^verbatim>\<open>0xFFFFFF\<close> at the start of the text; \<^verbatim>\<open>ParseCIDR\<close>
  wants it to be the whole text.
\<close>

definition dtoi :: "string \<Rightarrow> nat option" where
  "dtoi s = (case parse_digits s of None \<Rightarrow> None
     | Some n \<Rightarrow> if n < 16777215 then Some n else None)"

definition parseCIDR :: "string \<Rightarrow> ipnet option" where
  "parseCIDR s = (case cutAt (CHR ''/'') s of
     (a, Some m) \<Rightarrow>
       (case parseAddr a of
          None \<Rightarrow> None
        | Some (is4, b) \<Rightarrow>
            (case dtoi m of
               None \<Rightarrow> None
             | Some n \<Rightarrow>
                 (let bytes = (if is4 then 4 else 16) in
                  if n > 8 * bytes then None
                  else let mask = cidr_mask n bytes in
                    Some \<lparr> net_ip = ip_mask b mask, net_mask = mask \<rparr>)))
   | (_, None) \<Rightarrow> None)"

section \<open>Classes of addresses, host and port\<close>

definition isLoopback :: "ip \<Rightarrow> bool" where
  "isLoopback a = (if to4 a \<noteq> [] then hd (to4 a) = 127 else a = replicate 15 0 @ [1])"

definition isPrivate :: "ip \<Rightarrow> bool" where
  "isPrivate a = (case to4 a of
     b0 # b1 # _ \<Rightarrow> b0 = 10 \<or> (b0 = 172 \<and> b1 AND 240 = 16) \<or> (b0 = 192 \<and> b1 = 168)
   | _ \<Rightarrow> length a = 16 \<and> hd a AND 254 = 252)"

definition isLinkLocalUnicast :: "ip \<Rightarrow> bool" where
  "isLinkLocalUnicast a = (case to4 a of
     b0 # b1 # _ \<Rightarrow> b0 = 169 \<and> b1 = 254
   | _ \<Rightarrow> length a = 16 \<and> a ! 0 = 254 \<and> a ! 1 AND 192 = 128)"

definition ip_equal :: "ip \<Rightarrow> ip \<Rightarrow> bool" where
  "ip_equal a b =
     (if length a = length b then a = b
      else if length a = 4 \<and> length b = 16 then v4InV6Prefix @ a = b
      else if length a = 16 \<and> length b = 4 then a = v4InV6Prefix @ b
      else False)"

text \<open>\<^verbatim>\<open>IPMask.Size\<close>: the number of leading ones, 0 for a mask that is not of that form.\<close>

definition mask_size :: "byte list \<Rightarrow> nat" where
  "mask_size m = (case find (\<lambda>p. cidr_mask p (length m) = m) [0..<8 * length m + 1] of
     Some p \<Rightarrow> p | None \<Rightarrow> 0)"

text \<open>
  \<^verbatim>\<open>IP.String\<close>: dotted decimal, or the IPv6 text with the longest run of at least two zero
  groups, the first of them if there are several, written as a double colon.
\<close>

definition hex_digit :: "nat \<Rightarrow> char" where
  "hex_digit n = (if n < 10 then char_of (48 + n) else char_of (87 + n))"

fun hexStr :: "nat \<Rightarrow> string" where
  "hexStr n = (if n < 16 then [hex_digit n] else hexStr (n div 16) @ [hex_digit (n mod 16)])"

fun v6_groups :: "byte list \<Rightarrow> nat list" where
  "v6_groups (a # b # r) = (unat a * 256 + unat b) # v6_groups r"
| "v6_groups _ = []"

definition zero_run :: "nat list \<Rightarrow> nat \<times> nat" where
  "zero_run gs = fold (\<lambda>i (st, len). let l = length (takeWhile (\<lambda>g. g = 0) (drop i gs)) in
     if 2 \<le> l \<and> len < l then (i, l) else (st, len)) [0..<length gs] (0, 0)"

definition v6_string :: "byte list \<Rightarrow> string" where
  "v6_string a = (let gs = v6_groups a; (st, len) = zero_run gs; hex = map hexStr gs in
     if len = 0 then joinStr '':'' hex
     else joinStr '':'' (take st hex) @ ''::'' @ joinStr '':'' (drop (st + len) hex))"

definition ip_string :: "ip \<Rightarrow> string" where
  "ip_string a =
     (if a = [] then ''<nil>''
      else if to4 a \<noteq> [] then joinStr ''.'' (map (\<lambda>b. itoa_nat (unat b)) (to4 a))
      else if length a = 16 then v6_string a
      else CHR ''?'' # concat (map (\<lambda>b. [hex_digit (unat b div 16), hex_digit (unat b mod 16)]) a))"

datatype addr_error = MissingPort | TooManyColons | MissingBracket | UnexpectedBracket

definition index_of :: "char \<Rightarrow> string \<Rightarrow> nat option" where
  "index_of c s = (if c \<in> set s then Some (length (takeWhile (\<lambda>x. x \<noteq> c) s)) else None)"

definition last_index_of :: "char \<Rightarrow> string \<Rightarrow> nat option" where
  "last_index_of c s = map_option (\<lambda>i. length s - 1 - i) (index_of c (rev s))"

definition splitHostPort :: "string \<Rightarrow> addr_error + (string \<times> string)" where
  "splitHostPort s = (case last_index_of (CHR '':'') s of
     None \<Rightarrow> Inl MissingPort
   | Some i \<Rightarrow>
       (let checks = (\<lambda>host j k.
              if CHR ''['' \<in> set (drop j s) \<or> CHR '']'' \<in> set (drop k s)
              then Inl UnexpectedBracket else Inr (host, drop (i + 1) s))
        in if hd s = CHR ''['' then
             (case index_of (CHR '']'') s of
                None \<Rightarrow> Inl MissingBracket
              | Some e \<Rightarrow>
                  if e + 1 = length s then Inl MissingPort
                  else if e + 1 = i then checks (take (e - 1) (drop 1 s)) 1 (e + 1)
                  else if s ! (e + 1) = CHR '':'' then Inl TooManyColons else Inl MissingPort)
           else if CHR '':'' \<in> set (take i s) then Inl TooManyColons
           else checks (take i s) 0 0))"

section \<open>Evaluation of closed terms\<close>

lemma cidr_mask_rec:
  "cidr_mask n l =
     (if l = 0 then [] else if n \<ge> 8 then 255 # cidr_mask (n - 8) (l - 1)
      else NOT (drop_bit n 255) # cidr_mask 0 (l - 1))"
  by (cases l) simp_all

lemma replicate_rec: "replicate n x = (if n = 0 then [] else x # replicate (n - 1) x)"
  by (cases n) simp_all

lemmas ip_eval = parseIP_def parseAddr_def parseIPv4_def parseIPv6_def v6_loop.simps
  v6_step_def v6_finish_def hex_val_def is_digit_def digit_val_def v4InV6Prefix_def to4_def ip_mask_def
  networkNumberAndMask_def net_contains_def dtoi_def parseCIDR_def parse_digits_def
  cidr_mask_rec replicate_rec Let_def

section \<open>Lengths\<close>

lemma length_v4InV6Prefix [simp]: "length v4InV6Prefix = 12"
  by (simp add: v4InV6Prefix_def)

lemma v4_fields_length:
  "v4_fields s v d fs = Some r \<Longrightarrow> length fs \<le> 3 \<Longrightarrow> length r = 4"
  by (induction s v d fs rule: v4_fields.induct) (auto simp: Let_def split: if_splits)

lemma parseIPv4_length: "parseIPv4 s = Some r \<Longrightarrow> length r = 4"
  by (auto simp: parseIPv4_def dest: v4_fields_length)

lemma v6_step_Inl:
  "v6_step s acc ell = Some (Inl (s', acc', ell')) \<Longrightarrow> length acc + 2 \<le> 16 \<Longrightarrow> length acc' \<le> 16"
  by (auto simp: v6_step_def Let_def parseIPv4_length
      split: option.splits prod.splits if_splits list.splits)

lemma v6_loop_length:
  "v6_loop s acc ell = Some (s', acc', ell') \<Longrightarrow> even (length acc) \<Longrightarrow> length acc \<le> 16
     \<Longrightarrow> length acc' \<le> 16"
proof (induction s acc ell rule: v6_loop.induct)
  case (1 s acc ell)
  show ?case
  proof (cases "length acc \<ge> 16")
    case True
    with "1.prems" show ?thesis by (simp add: v6_loop.simps)
  next
    case False
    with "1.prems"(2) have room: "length acc + 2 \<le> 16" by presburger
    show ?thesis
    proof (cases "v6_step s acc ell")
      case None
      with "1.prems" False show ?thesis by (simp add: v6_loop.simps)
    next
      case (Some r)
      show ?thesis
      proof (cases r)
        case (Inl t)
        with Some False "1.prems" room show ?thesis
          by (simp add: v6_loop.simps v6_step_Inl)
      next
        case (Inr t)
        obtain s2 acc2 ell2 where t: "t = (s2, acc2, ell2)" by (cases t)
        with Some Inr have st: "v6_step s acc ell = Some (Inr (s2, acc2, ell2))" by simp
        note len = v6_step_Inr [OF st]
        have "v6_loop s2 acc2 ell2 = Some (s', acc', ell')"
          using "1.prems"(1) False st by (simp add: v6_loop.simps [of s])
        with "1.IH" [OF False Some Inr t [symmetric] refl] len room "1.prems"(2) show ?thesis by simp
      qed
    qed
  qed
qed

lemma v6_finish_length:
  "v6_finish (s, acc, ell) = Some r \<Longrightarrow> length acc \<le> 16 \<Longrightarrow> length r = 16"
  by (auto simp: v6_finish_def split: if_splits option.splits)

lemma parseIPv6_length: "parseIPv6 s = Some r \<Longrightarrow> length r = 16"
  by (auto simp: parseIPv6_def bind_eq_Some_conv split: if_splits
      dest!: v6_loop_length intro: v6_finish_length)

lemma parseAddr_length: "parseAddr s = Some (is4, b) \<Longrightarrow> length b = 16"
  by (auto simp: parseAddr_def split: option.splits if_splits
      dest: parseIPv4_length parseIPv6_length)

lemma parseAddr_v4: "parseAddr s = Some (True, b) \<Longrightarrow> take 12 b = v4InV6Prefix"
  by (auto simp: parseAddr_def split: option.splits if_splits)

lemma parseIP_length: "parseIP s = [] \<or> length (parseIP s) = 16"
  by (auto simp: parseIP_def dest: parseAddr_length split: option.splits)

lemma to4_length: "to4 a = [] \<or> length (to4 a) = 4"
  by (auto simp: to4_def)

section \<open>Networks with CIDR masks\<close>

abbreviation and_bytes :: "byte list \<Rightarrow> byte list \<Rightarrow> byte list" where
  "and_bytes \<equiv> map2 (AND)"

definition norm_ip :: "ip \<Rightarrow> ip" where
  "norm_ip a = (if to4 a \<noteq> [] then to4 a else a)"

lemma length_cidr_mask [simp]: "length (cidr_mask n l) = l"
  by (induction n l rule: cidr_mask.induct) auto

lemma drop_cidr_mask: "drop k (cidr_mask n l) = cidr_mask (n - 8 * k) (l - k)"
proof (induction n l arbitrary: k rule: cidr_mask.induct)
  case (2 n l)
  then show ?case by (cases k) auto
qed simp

lemma less_8_cases: "(n::nat) < 8 \<Longrightarrow> n \<in> {0, 1, 2, 3, 4, 5, 6, 7}"
  by auto

lemma mask_byte_absorb:
  assumes "n \<le> m" "m < (8::nat)"
  shows "NOT (drop_bit m (255 :: byte)) AND NOT (drop_bit n 255) = NOT (drop_bit n 255)"
  using less_8_cases [OF assms(2)] less_8_cases [OF le_less_trans [OF assms]] assms(1) by auto

lemma cidr_mask_absorb:
  "n \<le> m \<Longrightarrow> and_bytes (cidr_mask m l) (cidr_mask n l) = cidr_mask n l"
proof (induction l arbitrary: n m)
  case (Suc l)
  have "(255 :: byte) = - 1" by simp
  then have "(255 :: byte) AND x = x" for x by (simp only: and.left_neutral)
  then show ?case using Suc by (auto simp: mask_byte_absorb)
qed simp

lemma and_bytes_assoc: "and_bytes (and_bytes a b) c = and_bytes a (and_bytes b c)"
proof (induction a arbitrary: b c)
  case (Cons x a)
  then show ?case by (cases b; cases c) (auto simp: and.assoc)
qed simp

lemma net_contains_iff:
  "net_contains n a \<longleftrightarrow>
     length (norm_ip a) = length (fst (networkNumberAndMask n)) \<and>
     and_bytes (fst (networkNumberAndMask n)) (snd (networkNumberAndMask n))
       = and_bytes (norm_ip a) (snd (networkNumberAndMask n))"
  by (simp add: net_contains_def norm_ip_def Let_def case_prod_unfold)

text \<open>A network whose number is valid and whose mask is a CIDR mask of the same length.\<close>

definition cidr_net :: "ipnet \<Rightarrow> nat \<Rightarrow> nat \<Rightarrow> bool" where
  "cidr_net n p l = (networkNumberAndMask n = (norm_ip (net_ip n), cidr_mask p l) \<and>
     length (norm_ip (net_ip n)) = l \<and> (l = 4 \<or> l = 16))"

definition is_cidr_net :: "ipnet \<Rightarrow> bool" where
  "is_cidr_net n = (\<exists>p l. cidr_net n p l)"

lemma cidr_net_contains_own: "cidr_net n p l \<Longrightarrow> net_contains n (net_ip n)"
  by (auto simp: cidr_net_def net_contains_iff)

lemma cidr_net_sub:
  assumes a: "cidr_net a p l" and b: "cidr_net b q l" and "p \<le> q"
    and x: "net_contains a x" "net_contains b x"
  shows "net_contains a (net_ip b)"
proof -
  let ?P = "cidr_mask p l" and ?Q = "cidr_mask q l"
  have "and_bytes (norm_ip (net_ip b)) ?P = and_bytes (and_bytes (norm_ip (net_ip b)) ?Q) ?P"
    using \<open>p \<le> q\<close> by (simp add: and_bytes_assoc cidr_mask_absorb)
  also have "\<dots> = and_bytes (and_bytes (norm_ip x) ?Q) ?P"
    using b x(2) by (simp add: cidr_net_def net_contains_iff)
  also have "\<dots> = and_bytes (norm_ip x) ?P"
    using \<open>p \<le> q\<close> by (simp add: and_bytes_assoc cidr_mask_absorb)
  also have "\<dots> = and_bytes (norm_ip (net_ip a)) ?P"
    using a x(1) by (simp add: cidr_net_def net_contains_iff)
  finally show ?thesis
    using a b by (simp add: cidr_net_def net_contains_iff)
qed

lemma nets_share_iff:
  assumes "is_cidr_net a" "is_cidr_net b"
  shows "(net_contains a (net_ip b) \<or> net_contains b (net_ip a)) \<longleftrightarrow>
    (\<exists>x. net_contains a x \<and> net_contains b x)"
proof -
  obtain p l q l' where a: "cidr_net a p l" and b: "cidr_net b q l'"
    using assms by (auto simp: is_cidr_net_def)
  show ?thesis
  proof
    assume "net_contains a (net_ip b) \<or> net_contains b (net_ip a)"
    then show "\<exists>x. net_contains a x \<and> net_contains b x"
      using cidr_net_contains_own [OF a] cidr_net_contains_own [OF b] by blast
  next
    assume "\<exists>x. net_contains a x \<and> net_contains b x"
    then obtain x where x: "net_contains a x" "net_contains b x" by blast
    then have "l' = l" using a b by (simp add: cidr_net_def net_contains_iff)
    then show "net_contains a (net_ip b) \<or> net_contains b (net_ip a)"
      using cidr_net_sub [of a p l b q x] cidr_net_sub [of b q l a p x] a b x
      by (meson nle_le)
  qed
qed

lemma ip_mask_v4: "length b = 16 \<Longrightarrow> take 12 b = v4InV6Prefix
    \<Longrightarrow> ip_mask b (cidr_mask n 4) = and_bytes (drop 12 b) (cidr_mask n 4)"
  by (simp add: ip_mask_def Let_def)

lemma ip_mask_v6: "length b = 16 \<Longrightarrow> ip_mask b (cidr_mask n 16) = and_bytes b (cidr_mask n 16)"
  by (simp add: ip_mask_def Let_def)

lemma is_cidr_net_v4: "length a = 4 \<Longrightarrow> is_cidr_net \<lparr>net_ip = a, net_mask = cidr_mask n 4\<rparr>"
  unfolding is_cidr_net_def
  by (rule exI [of _ n], rule exI [of _ 4])
    (auto simp: cidr_net_def networkNumberAndMask_def norm_ip_def to4_def Let_def)

lemma is_cidr_net_v6: "length a = 16 \<Longrightarrow> is_cidr_net \<lparr>net_ip = a, net_mask = cidr_mask n 16\<rparr>"
  by (auto simp: is_cidr_net_def cidr_net_def networkNumberAndMask_def norm_ip_def to4_def Let_def
      drop_cidr_mask)

lemma parseCIDR_is_cidr_net: "parseCIDR s = Some n \<Longrightarrow> is_cidr_net n"
  by (auto simp: parseCIDR_def Let_def ip_mask_v4 ip_mask_v6 parseAddr_v4
      parseAddr_length split: prod.splits option.splits if_splits
      intro!: is_cidr_net_v4 is_cidr_net_v6)

lemma and_bytes_idem: "and_bytes m m = m"
  by (induction m) auto

lemma and_bytes_same: "and_bytes (and_bytes a m) m = and_bytes a m"
  by (simp add: and_bytes_assoc and_bytes_idem)

lemma cidr_mask_Nil [simp]: "cidr_mask n l = [] \<longleftrightarrow> l = 0"
  by (metis length_0_conv length_cidr_mask)

lemma scope_covers_v4:
  assumes "length a = 16" "to4 a \<noteq> []"
  shows "net_contains \<lparr>net_ip = ip_mask a (cidr_mask n 4), net_mask = cidr_mask n 4\<rparr> a"
proof -
  have a: "take 12 a = v4InV6Prefix" "to4 a = drop 12 a"
    using assms by (auto simp: to4_def split: if_splits)
  have l: "length (and_bytes (drop 12 a) (cidr_mask n 4)) = 4" "length (drop 12 a) = 4"
    using assms(1) by simp_all
  then have "and_bytes (drop 12 a) (cidr_mask n 4) \<noteq> []" by (metis list.size(3) zero_neq_numeral)
  with l show ?thesis
    unfolding net_contains_iff ip_mask_v4 [OF assms(1) a(1)]
    using a by (simp add: networkNumberAndMask_def Let_def and_bytes_same norm_ip_def to4_def)
qed

lemma take_cidr_mask: "8 * k \<le> n \<Longrightarrow> k \<le> l \<Longrightarrow> take k (cidr_mask n l) = replicate k 255"
proof (induction k arbitrary: n l)
  case (Suc k)
  then show ?case by (cases l) auto
qed simp

lemma and_bytes_full: "length x = k \<Longrightarrow> and_bytes x (replicate k (255::byte)) = x"
proof (induction x arbitrary: k)
  case (Cons b x)
  have "(255::byte) = - 1" by simp
  then have "b AND 255 = b" by (metis and.right_neutral)
  with Cons show ?case by (cases k) auto
qed simp

lemma low_mask_even:
  assumes "n < 8" shows "even (NOT (drop_bit n 255) :: byte)"
  using less_8_cases [OF assms] by auto

lemma masked_v6:
  assumes "length a = 16" "to4 a = []"
  shows "to4 (and_bytes a (cidr_mask n 16)) = []"
proof (rule ccontr)
  let ?m = "cidr_mask n 16"
  assume "to4 (and_bytes a ?m) \<noteq> []"
  then have p: "take 12 (and_bytes a ?m) = v4InV6Prefix" using assms(1) by (auto simp: to4_def split: if_splits)
  have t: "take 12 (and_bytes a ?m) = and_bytes (take 12 a) (take 12 ?m)"
    by (simp add: take_map take_zip)
  show False
  proof (cases "96 \<le> n")
    case True
    then have "take 12 ?m = replicate 12 255" by (intro take_cidr_mask) auto
    then have "take 12 a = v4InV6Prefix" using p t assms(1) by (simp add: and_bytes_full)
    then show False using assms by (simp add: to4_def)
  next
    case False
    have "?m ! 11 = hd (drop 11 ?m)" by (simp add: hd_drop_conv_nth)
    also have "\<dots> = hd (cidr_mask (n - 88) (Suc 4))" by (simp add: drop_cidr_mask)
    also have "\<dots> = NOT (drop_bit (n - 88) 255)" using False by (simp only: cidr_mask.simps) simp
    finally have "even (?m ! 11)" using False low_mask_even [of "n - 88"] by simp
    then have e: "even (a ! 11 AND ?m ! 11)" by (simp add: even_and_iff)
    have "(and_bytes a ?m) ! 11 = v4InV6Prefix ! 11"
      using nth_take [of 11 12 "and_bytes a ?m"] unfolding p by simp
    then have f: "a ! 11 AND ?m ! 11 = 255" using assms(1) by (simp add: v4InV6Prefix_def)
    show False using e unfolding f by simp
  qed
qed
lemma scope_covers_v6:
  assumes "length a = 16" "to4 a = []"
  shows "net_contains \<lparr>net_ip = ip_mask a (cidr_mask n 16), net_mask = cidr_mask n 16\<rparr> a"
  unfolding net_contains_iff ip_mask_v6 [OF assms(1)]
  using assms masked_v6 [OF assms, of n]
  by (simp add: networkNumberAndMask_def Let_def and_bytes_same norm_ip_def)

end
