(* ===== verification/Model_Types.thy ===== *)
theory Model_Types
  imports Go_Net
begin

text \<open>
  The package \<^verbatim>\<open>model\<close>: the settings, records and hosts the GUI writes, configgen reads and
  the runtime is built from (\<^verbatim>\<open>model/*.go\<close>). Structs are records; a Go map of a selector's TXT
  conditions is an association list with distinct keys; a nil pointer is \<open>None\<close>. The name
  functions of the package (\<^verbatim>\<open>NormalizedName\<close>, \<^verbatim>\<open>ParseDomainName\<close>) follow the types, with what
  they guarantee: a parsed name is canonical, and normal forms are stable.
\<close>

section \<open>Selectors\<close>

record selector =
  sel_service :: string
  sel_instance :: string
  sel_host :: string
  sel_txt :: "(string \<times> string) list"
  sel_vlan :: string
  sel_family :: string

definition sel_isZero :: "selector \<Rightarrow> bool" where
  "sel_isZero s = (sel_service s = [] \<and> sel_instance s = [] \<and> sel_host s = [] \<and>
     length (sel_txt s) = 0 \<and> sel_vlan s = [] \<and> sel_family s = [])"

record namingRule =
  nr_match :: selector
  nr_suffix :: string

section \<open>Settings\<close>

record clientNames =
  clientNames_enabled :: bool
  ptrUpstream :: string
  refreshHostnames :: string

record queryLogCfg =
  queryLog_enabled :: bool
  capacity :: int
  retentionDays :: int
  maxRows :: int
  flushIntervalSeconds :: int

record observability =
  obs_health :: bool
  obs_ready :: bool
  obs_prometheus :: bool

record cacheTuning =
  serveStaleDisabled :: bool
  prefetchDisabled :: bool

record logTuning =
  log_disabled :: bool
  log_classes :: "string list"

record errorsTuning =
  consolidateDisabled :: bool

record vlan =
  vlan_name :: string
  vlan_cidrs :: "string list"

record upstreamTarget =
  up_address :: string
  up_protocol :: string
  up_ecs :: bool
  up_maxFails :: "uint32 option"
  up_healthCheckSeconds :: uint32
  up_expireSeconds :: uint32
  up_preferUDP :: bool
  up_maxConcurrent :: uint32

record listener =
  ln_enabled :: bool
  ln_port :: int

record quicListener = listener +
  ln_maxStreams :: int
  ln_workerPoolSize :: int

record listeners =
  ls_plain :: listener
  ls_dot :: listener
  ls_doh :: listener
  ls_doq :: quicListener
  ls_doh3 :: quicListener

record acme =
  acme_enabled :: bool
  acme_domain :: string
  acme_email :: string
  acme_dnsProvider :: string
  acme_production :: bool
  acme_caDirectoryURL :: string
  acme_renewBeforeDays :: int
  acme_selfSignedFallback :: bool

record mdnsAdvertise =
  adv_enabled :: bool

record mdns =
  mdns_enabled :: bool
  mdns_interfaces :: "string list"
  mdns_serviceTypes :: "string list"
  mdns_suffix :: string
  mdns_autoPublish :: "selector list"
  mdns_naming :: "namingRule list"
  mdns_advertise :: mdnsAdvertise

record settings =
  st_vlans :: "vlan list"
  st_upstream :: upstreamTarget
  st_listeners :: listeners
  st_acme :: acme
  st_mdns :: mdns
  st_cache :: cacheTuning
  st_log :: logTuning
  st_errors :: errorsTuning
  st_bufsizeDisabled :: bool
  st_observability :: observability
  st_queryLog :: queryLogCfg
  st_clientNames :: clientNames

text \<open>The zero values of the nested structs, as Go initialises them.\<close>

definition zero_listener :: listener where
  "zero_listener = \<lparr>ln_enabled = False, ln_port = 0\<rparr>"

definition zero_quic :: quicListener where
  "zero_quic = \<lparr>ln_enabled = False, ln_port = 0, ln_maxStreams = 0, ln_workerPoolSize = 0\<rparr>"

definition zero_upstream :: upstreamTarget where
  "zero_upstream = \<lparr>up_address = [], up_protocol = [], up_ecs = False, up_maxFails = None,
     up_healthCheckSeconds = 0, up_expireSeconds = 0, up_preferUDP = False, up_maxConcurrent = 0\<rparr>"

definition zero_acme :: acme where
  "zero_acme = \<lparr>acme_enabled = False, acme_domain = [], acme_email = [], acme_dnsProvider = [],
     acme_production = False, acme_caDirectoryURL = [], acme_renewBeforeDays = 0,
     acme_selfSignedFallback = False\<rparr>"

definition zero_mdns :: mdns where
  "zero_mdns = \<lparr>mdns_enabled = False, mdns_interfaces = [], mdns_serviceTypes = [],
     mdns_suffix = [], mdns_autoPublish = [], mdns_naming = [], mdns_advertise = \<lparr>adv_enabled = False\<rparr>\<rparr>"

definition defaultSettings :: settings where
  "defaultSettings = \<lparr>st_vlans = [],
     st_upstream = zero_upstream\<lparr>up_address := ''1.1.1.1:53'', up_protocol := ''plain''\<rparr>,
     st_listeners = \<lparr>ls_plain = \<lparr>ln_enabled = True, ln_port = 53\<rparr>, ls_dot = zero_listener,
       ls_doh = zero_listener, ls_doq = zero_quic, ls_doh3 = zero_quic\<rparr>,
     st_acme = zero_acme\<lparr>acme_renewBeforeDays := 30\<rparr>,
     st_mdns = zero_mdns,
     st_cache = \<lparr>serveStaleDisabled = False, prefetchDisabled = False\<rparr>,
     st_log = \<lparr>log_disabled = False, log_classes = []\<rparr>,
     st_errors = \<lparr>consolidateDisabled = False\<rparr>,
     st_bufsizeDisabled = False,
     st_observability = \<lparr>obs_health = False, obs_ready = False, obs_prometheus = False\<rparr>,
     st_queryLog = \<lparr>queryLog_enabled = False, capacity = 0, retentionDays = 0, maxRows = 0,
       flushIntervalSeconds = 0\<rparr>,
     st_clientNames = \<lparr>clientNames_enabled = False, ptrUpstream = [], refreshHostnames = []\<rparr>\<rparr>"

definition encryptedListenerEnabled :: "settings \<Rightarrow> bool" where
  "encryptedListenerEnabled s = (ln_enabled (ls_dot (st_listeners s)) \<or>
     ln_enabled (ls_doh (st_listeners s)) \<or> ln_enabled (ls_doq (st_listeners s)) \<or>
     ln_enabled (ls_doh3 (st_listeners s)))"

section \<open>Records and hosts\<close>

text \<open>\<^verbatim>\<open>RecordType\<close> is a string type with four named constants.\<close>

type_synonym recordType = string

abbreviation typeA :: recordType where "typeA \<equiv> ''A''"
abbreviation typeAAAA :: recordType where "typeAAAA \<equiv> ''AAAA''"
abbreviation typeCNAME :: recordType where "typeCNAME \<equiv> ''CNAME''"
abbreviation typeMDNS :: recordType where "typeMDNS \<equiv> ''mdns''"

record vlanOverride =
  ov_vlan :: string
  ov_value :: string
  ov_ttl :: uint32
  ov_nxdomain :: bool

record dnsRecord =
  rec_name :: string
  rec_type :: recordType
  rec_default :: string
  rec_ttl :: uint32
  rec_overrides :: "vlanOverride list"
  rec_match :: "selector option"

type_synonym recordSet = "dnsRecord list"

definition isMDNS :: "dnsRecord \<Rightarrow> bool" where
  "isMDNS r = (rec_type r = typeMDNS)"

record host =
  host_ip :: string
  host_hostname :: string
  host_aliases :: "string list"

type_synonym hostSet = "host list"

definition host_names :: "host \<Rightarrow> string list" where
  "host_names h = host_hostname h # host_aliases h"

definition normalizedHostName :: "string \<Rightarrow> string" where
  "normalizedHostName name =
     (let n = toLower (trimSpace name) in if hasSuffix n ''.'' then n else n @ ''.'')"

text \<open>\<^verbatim>\<open>Record.NormalizedName\<close>: the same computation on the record's name.\<close>

definition rec_normalizedName :: "dnsRecord \<Rightarrow> string" where
  "rec_normalizedName r =
     (let n = toLower (trimSpace (rec_name r)) in if hasSuffix n ''.'' then n else n @ ''.'')"

section \<open>Domain names\<close>

definition maxLabelLen :: nat where "maxLabelLen = 63"
definition maxDomainLen :: nat where "maxDomainLen = 253"

datatype domain_error = EmptyName | HasScheme | HasPath | IsIP | HasPort | HasSpace | HasWildcard
  | InvalidChar char | NameTooLong | EmptyLabel | LabelTooLong string

definition label_err :: "string \<Rightarrow> domain_error option" where
  "label_err l = (if l = [] then Some EmptyLabel
     else if length l > maxLabelLen then Some (LabelTooLong l) else None)"

definition parseDomainName :: "string \<Rightarrow> domain_error + string" where
  "parseDomainName s0 = (let s = trimSpace s0 in
     if s = [] \<or> s = ''.'' then Inl EmptyName
     else if containsStr s ''://'' then Inl HasScheme
     else if CHR ''/'' \<in> set s then Inl HasPath
     else if parseIP s \<noteq> [] then Inl IsIP
     else if CHR '':'' \<in> set s then Inl HasPort
     else if list_ex is_space s then Inl HasSpace
     else if CHR ''*'' \<in> set s then Inl HasWildcard
     else case find (\<lambda>c. (of_char c :: nat) < 33 \<or> (of_char c :: nat) > 126) s of
       Some c \<Rightarrow> Inl (InvalidChar c)
     | None \<Rightarrow>
        (let name = toLower (trimSuffix s ''.'') in
         if length name > maxDomainLen then Inl NameTooLong
         else case first_err (map label_err (splitOn (CHR ''.'') name)) of
           Some e \<Rightarrow> Inl e
         | None \<Rightarrow> Inr (name @ ''.'')))"

section \<open>Canonical names\<close>

lemma char_lower_eq_punct:
  "char_lower c = CHR '':'' \<longleftrightarrow> c = CHR '':''" "char_lower c = CHR ''/'' \<longleftrightarrow> c = CHR ''/''"
  "char_lower c = CHR ''*'' \<longleftrightarrow> c = CHR ''*''"
  by (auto simp: char_lower_def Let_def dest: arg_cong [where f = "of_char :: char \<Rightarrow> nat"])

lemma set_toLower_punct:
  "CHR '':'' \<in> set (toLower s) \<longleftrightarrow> CHR '':'' \<in> set s"
  "CHR ''/'' \<in> set (toLower s) \<longleftrightarrow> CHR ''/'' \<in> set s"
  "CHR ''*'' \<in> set (toLower s) \<longleftrightarrow> CHR ''*'' \<in> set s"
  by (auto simp: toLower_def char_lower_eq_punct image_iff) (metis char_lower_eq_punct)+

lemma is_space_lower [simp]: "is_space (char_lower c) = is_space c"
  by (auto simp: is_space_def char_lower_def Let_def)

lemma printable_lower:
  "(of_char (char_lower c) :: nat) < 33 \<or> (of_char (char_lower c) :: nat) > 126 \<longleftrightarrow>
   (of_char c :: nat) < 33 \<or> (of_char c :: nat) > 126"
  by (auto simp: char_lower_def Let_def)

lemma trimSpace_id: "\<not> list_ex is_space s \<Longrightarrow> trimSpace s = s"
proof -
  have d: "\<not> list_ex is_space t \<Longrightarrow> dropWhile is_space t = t" for t by (cases t) auto
  assume "\<not> list_ex is_space s"
  then show ?thesis by (simp add: trimSpace_def d list_ex_iff)
qed

lemma v4_fields_trailing_dot: "v4_fields (s @ ''.'') v d fs = None"
  by (induction s arbitrary: v d fs) (auto simp: Let_def is_digit_def)

lemma parseIP_trailing_dot: "CHR '':'' \<notin> set s \<Longrightarrow> parseIP (s @ ''.'') = []"
  using find_SomeD [of "\<lambda>c. c \<in> set ''.:%''" "s @ ''.''"]
  by (auto simp: parseIP_def parseAddr_def parseIPv4_def v4_fields_trailing_dot split: option.splits)

lemma containsStr_colon: "containsStr s ''://'' \<Longrightarrow> CHR '':'' \<in> set s"
  by (auto simp: containsStr_iff sublist_def)

lemma normalized_lower: "toLower (normalizedHostName s) = normalizedHostName s"
  by (simp add: normalizedHostName_def Let_def char_lower_def toLower_def)

lemma rec_normalizedName_eq: "rec_normalizedName r = normalizedHostName (rec_name r)"
  by (simp add: rec_normalizedName_def normalizedHostName_def)

text \<open>The checks a name has passed when \<^verbatim>\<open>ParseDomainName\<close> accepts it.\<close>

lemma parseDomainName_InrD:
  assumes "parseDomainName s0 = Inr n"
  defines "s \<equiv> trimSpace s0"
  defines "name \<equiv> toLower (trimSuffix s ''.'')"
  shows "n = name @ ''.''" "CHR '':'' \<notin> set s" "CHR ''/'' \<notin> set s" "CHR ''*'' \<notin> set s"
    "\<not> list_ex is_space s" "\<forall>c\<in>set s. 33 \<le> (of_char c :: nat) \<and> (of_char c :: nat) \<le> 126"
    "length name \<le> maxDomainLen" "\<forall>l\<in>set (splitOn (CHR ''.'') name). label_err l = None"
    "s \<noteq> []" "s \<noteq> ''.''"
  using assms(1) unfolding parseDomainName_def s_def [symmetric] Let_def
  by (auto simp: name_def find_None_conv err_simps split: if_splits option.splits)

lemma set_trimSuffix: "set (trimSuffix s x) \<subseteq> set s"
  by (auto simp: trimSuffix_def dest: in_set_takeD)

lemma parseDomainName_stable:
  assumes "parseDomainName s = Inr n"
  shows "parseDomainName n = Inr n"
proof -
  note P = parseDomainName_InrD [OF assms]
  define name where "name = toLower (trimSuffix (trimSpace s) ''.'')"
  have n: "n = name @ ''.''" using P(1) by (simp add: name_def)
  have sub: "set (trimSuffix (trimSpace s) ''.'') \<subseteq> set (trimSpace s)" by (rule set_trimSuffix)
  have "name \<noteq> []" using P(8) by (auto simp: name_def label_err_def)
  have punct: "CHR '':'' \<notin> set n" "CHR ''/'' \<notin> set n" "CHR ''*'' \<notin> set n"
    using P(2-4) sub by (auto simp: n name_def set_toLower_punct)
  have sp: "\<not> list_ex is_space n"
    using P(5) sub by (auto simp: n name_def list_ex_iff toLower_def) (simp add: is_space_def)
  have pr: "\<forall>c\<in>set n. \<not> ((of_char c :: nat) < 33 \<or> (of_char c :: nat) > 126)"
    using P(6) sub by (auto simp: n name_def toLower_def) (metis printable_lower not_less subsetD)+
  have tr: "trimSuffix n ''.'' = name" by (simp add: n)
  have low: "toLower name = name" by (simp add: name_def)
  have "find (\<lambda>c. (of_char c :: nat) < 33 \<or> (of_char c :: nat) > 126) n = None"
    using pr by (simp only: find_None_conv simp_thms)
  moreover have "first_err (map label_err (splitOn (CHR ''.'') name)) = None"
    using P(8) by (simp add: err_simps name_def)
  moreover have "\<not> containsStr n ''://''" using punct(1) containsStr_colon by blast
  moreover have "parseIP n = []" using punct(1) by (simp add: n parseIP_trailing_dot)
  moreover have "trimSpace n = n" by (rule trimSpace_id [OF sp])
  moreover have "n \<noteq> []" "n \<noteq> ''.''" using \<open>name \<noteq> []\<close> by (simp_all add: n)
  moreover have "length name \<le> maxDomainLen" using P(7) by (simp add: name_def)
  ultimately show ?thesis
    using punct sp by (simp add: parseDomainName_def Let_def tr low n [symmetric])
qed

lemma parseDomainName_normalized:
  assumes "parseDomainName s = Inr n"
  shows "n = normalizedHostName s"
proof (cases "hasSuffix (trimSpace s) ''.''")
  case True
  then obtain p where "trimSpace s = p @ ''.''" by (auto simp: hasSuffix_iff suffix_def)
  then show ?thesis
    using parseDomainName_InrD(1) [OF assms]
    by (simp add: normalizedHostName_def Let_def toLower_def char_lower_def)
next
  case False
  then have "\<not> hasSuffix (toLower (trimSpace s)) ''.''"
    by (auto simp: hasSuffix_dot toLower_def last_map)
  with False show ?thesis
    using parseDomainName_InrD(1) [OF assms] by (simp add: normalizedHostName_def Let_def)
qed

section \<open>Properties\<close>

text \<open>
  A name \<^verbatim>\<open>ParseDomainName\<close> accepts is returned in the form records and hosts are keyed
  on (\<^verbatim>\<open>NormalizedName\<close>), that form is a fixed point of the parser, it respects the length
  limits of RFC 1035 and every label is between 1 and 63 characters long.
\<close>

theorem parse_domain_canonical:
  assumes "parseDomainName s = Inr n"
  shows "n = normalizedHostName s \<and> parseDomainName n = Inr n \<and> length n \<le> 254 \<and>
    (\<forall>l\<in>set (splitOn (CHR ''.'') (trimSuffix n ''.'')). 1 \<le> length l \<and> length l \<le> 63)"
proof (intro conjI)
  note P = parseDomainName_InrD [OF assms]
  show "n = normalizedHostName s" by (rule parseDomainName_normalized [OF assms])
  show "parseDomainName n = Inr n" by (rule parseDomainName_stable [OF assms])
  show "length n \<le> 254" using P(1,7) by (simp add: maxDomainLen_def)
  show "\<forall>l\<in>set (splitOn (CHR ''.'') (trimSuffix n ''.'')). 1 \<le> length l \<and> length l \<le> 63"
    using P(8) unfolding P(1)
    by (auto simp: label_err_def maxLabelLen_def not_less Suc_le_eq split: if_splits)
qed

theorem parse_domain_canonical_witness:
  "parseDomainName '' NAS.Home.arpa '' = Inr ''nas.home.arpa.'' \<and>
   ''nas.home.arpa.'' = normalizedHostName '' NAS.Home.arpa '' \<and>
   parseDomainName ''nas.home.arpa.'' = Inr ''nas.home.arpa.''"
proof -
  have "parseDomainName '' NAS.Home.arpa '' = Inr ''nas.home.arpa.''" by code_simp
  from this parse_domain_canonical [OF this] show ?thesis by blast
qed

end
