(* ===== verification/Vlan_Match.thy ===== *)
theory Vlan_Match
  imports Model_Types
begin

text \<open>
  The package \<^verbatim>\<open>vlanmatch\<close> (which VLAN is an address in) and \<^verbatim>\<open>internal/vlancfg\<close>. A table is
  the list of declared VLANs with the networks that parsed; the process-wide table is a state
  component that \<open>setCurrent\<close> replaces and \<open>current\<close> reads.

  The locale \<open>vlan_matcher\<close> is the contract the DNS plugins rely on: a lookup answers with a
  declared VLAN that claims the address, it answers whenever one does, and it answers nothing
  for a nil address. Where the VLANs are disjoint the answer does not depend on the order of
  the declarations.
\<close>

section \<open>The table\<close>

record vm_vlan =
  vm_name :: string
  vm_cidrs :: "string list"

record vlanNets =
  vn_name :: string
  vn_nets :: "ipnet list"

type_synonym vtable = "vlanNets list"

definition newTable :: "vm_vlan list \<Rightarrow> vtable" where
  "newTable vlans =
     map (\<lambda>v. \<lparr>vn_name = vm_name v, vn_nets = List.map_filter parseCIDR (vm_cidrs v)\<rparr>) vlans"

text \<open>\<^verbatim>\<open>Lookup\<close>: the two nested loops, in declaration order; \<open>None\<close> is \<^verbatim>\<open>ok = false\<close>.\<close>

definition vt_lookup :: "vtable \<Rightarrow> ip \<Rightarrow> string option" where
  "vt_lookup t a =
     (if a = [] then None
      else map_option vn_name (find (\<lambda>v. list_ex (\<lambda>n. net_contains n a) (vn_nets v)) t))"

text \<open>The name a caller sees that ignores \<^verbatim>\<open>ok\<close>: \<open>[]\<close> when nothing matches.\<close>

definition vt_name :: "vtable \<Rightarrow> ip \<Rightarrow> string" where
  "vt_name t a = (case vt_lookup t a of None \<Rightarrow> [] | Some n \<Rightarrow> n)"

text \<open>The zero \<^verbatim>\<open>Table\<close> and the process-wide one.\<close>

definition zeroTable :: vtable where
  "zeroTable = []"

record vm_state =
  vm_current :: vtable

definition setCurrent :: "vtable \<Rightarrow> vm_state \<Rightarrow> vm_state" where
  "setCurrent t s = s\<lparr>vm_current := t\<rparr>"

definition current :: "vm_state \<Rightarrow> vtable" where
  "current s = vm_current s"

text \<open>\<^verbatim>\<open>vlancfg.Build\<close>.\<close>

definition vlancfg_build :: "vlan list \<Rightarrow> vm_vlan list" where
  "vlancfg_build vlans = map (\<lambda>v. \<lparr>vm_name = vlan_name v, vm_cidrs = vlan_cidrs v\<rparr>) vlans"

section \<open>The contract of a matcher\<close>

text \<open>
  \<open>look t a\<close> is the answer, \<open>claims t n a\<close> says that \<open>t\<close> declares a VLAN \<open>n\<close> one of whose
  networks contains \<open>a\<close>.
\<close>

locale vlan_matcher =
  fixes look :: "'t \<Rightarrow> ip \<Rightarrow> string option"
    and claims :: "'t \<Rightarrow> string \<Rightarrow> ip \<Rightarrow> bool"
  assumes look_sound: "look t a = Some n \<Longrightarrow> claims t n a"
    and look_complete: "a \<noteq> [] \<Longrightarrow> claims t n a \<Longrightarrow> \<exists>m. look t a = Some m"
    and look_nil: "look t [] = None"
begin

definition unambiguous :: "'t \<Rightarrow> bool" where
  "unambiguous t = (\<forall>a m n. claims t m a \<longrightarrow> claims t n a \<longrightarrow> m = n)"

lemma look_iff:
  "unambiguous t \<Longrightarrow> look t a = Some n \<longleftrightarrow> a \<noteq> [] \<and> claims t n a"
  using look_sound look_complete look_nil unfolding unambiguous_def by (metis option.distinct(1))

lemma look_None: "look t a = None \<longleftrightarrow> a = [] \<or> (\<forall>n. \<not> claims t n a)"
  using look_sound look_complete look_nil by (metis not_None_eq)

lemma look_agree:
  assumes "unambiguous t" "\<And>n a. claims t n a \<longleftrightarrow> claims u n a"
  shows "look t a = look u a"
proof (cases "look t a")
  case None
  then show ?thesis using look_None [of u a] look_None [of t a] assms(2) by metis
next
  case (Some n)
  have "unambiguous u" using assms unfolding unambiguous_def by metis
  with Some show ?thesis
    using look_iff [OF assms(1)] look_iff [of u a n] assms(2) by metis
qed

end

definition vt_claims :: "vtable \<Rightarrow> string \<Rightarrow> ip \<Rightarrow> bool" where
  "vt_claims t n a = list_ex (\<lambda>v. vn_name v = n \<and> list_ex (\<lambda>w. net_contains w a) (vn_nets v)) t"

interpretation vm: vlan_matcher vt_lookup vt_claims
proof
  fix t a n
  assume "vt_lookup t a = Some n"
  then show "vt_claims t n a"
    by (auto simp: vt_lookup_def vt_claims_def list_ex_iff split: if_splits dest!: find_SomeD)
next
  fix t a n
  assume "a \<noteq> []" "vt_claims t n a"
  then show "\<exists>m. vt_lookup t a = Some m"
    by (cases "find (\<lambda>v. list_ex (\<lambda>n. net_contains n a) (vn_nets v)) t")
      (auto simp: vt_lookup_def vt_claims_def find_None_conv list_ex_iff)
qed (simp add: vt_lookup_def)

lemma vt_claims_perm: "mset t = mset u \<Longrightarrow> vt_claims t n a = vt_claims u n a"
  by (auto simp: vt_claims_def list_ex_iff dest: mset_eq_setD)

lemma setCurrent_current [simp]: "current (setCurrent t s) = t"
  by (simp add: setCurrent_def current_def)

lemma zeroTable_lookup [simp]: "vt_lookup zeroTable a = None"
  by (simp add: zeroTable_def vt_lookup_def)

lemma vt_lookup_newTable:
  "vt_lookup (newTable vs) a = (if a = [] then None else
     map_option vm_name (find (\<lambda>v. \<exists>c\<in>set (vm_cidrs v). \<exists>n. parseCIDR c = Some n \<and> net_contains n a) vs))"
proof -
  have "list_ex (\<lambda>n. net_contains n a) (List.map_filter parseCIDR cs) \<longleftrightarrow>
      (\<exists>c\<in>set cs. \<exists>n. parseCIDR c = Some n \<and> net_contains n a)" for cs
    by (induction cs) (auto simp: List.map_filter_simps split: option.splits)
  then show ?thesis
    by (simp add: vt_lookup_def newTable_def find_map o_def option.map_comp)
qed

section \<open>Properties\<close>

text \<open>
  A lookup in the table built from the settings answers with the first declared VLAN, in
  declaration order, that has a well-formed CIDR containing the address, and with nothing when
  there is none or the address is nil.
\<close>

theorem lookup_first_declared:
  "vt_lookup (newTable (vlancfg_build vs)) a =
     (if a = [] then None
      else map_option vlan_name
        (find (\<lambda>v. \<exists>c\<in>set (vlan_cidrs v). \<exists>n. parseCIDR c = Some n \<and> net_contains n a) vs))"
  by (simp add: vt_lookup_newTable vlancfg_build_def find_map o_def option.map_comp)

end
