(* ===== verification/Zones.thy ===== *)
theory Zones
  imports Model_Types
begin

text \<open>
  The zones the server owns and the designated-resolver records it derives from the settings:
  the first part of \<^verbatim>\<open>internal/configgen/configgen.go\<close>.
\<close>

definition ownedZone :: string where "ownedZone = ''home.arpa''"

definition ddrZone :: string where "ddrZone = ''resolver.arpa''"

definition normalizedACMEDomain :: "settings \<Rightarrow> string" where
  "normalizedACMEDomain s =
     (if \<not> acme_enabled (st_acme s) then []
      else toLower (trimSpace (acme_domain (st_acme s))))"

record ddrParam =
  ddr_key :: string
  ddr_value :: string

record ddrRecord =
  ddr_priority :: uint16
  ddr_target :: string
  ddr_params :: "ddrParam list"

abbreviation ddr_param :: "string \<Rightarrow> string \<Rightarrow> ddrParam" where
  "ddr_param k v \<equiv> \<lparr>ddr_key = k, ddr_value = v\<rparr>"

definition ddrRecords :: "settings \<Rightarrow> ddrRecord list" where
  "ddrRecords s = (let domain = normalizedACMEDomain s; l = st_listeners s in
     if domain = [] then []
     else
       (if ln_enabled (ls_dot l) then
          [\<lparr>ddr_priority = 1, ddr_target = domain,
            ddr_params = [ddr_param ''alpn'' ''dot'', ddr_param ''port'' (itoa (ln_port (ls_dot l)))]\<rparr>]
        else []) @
       (if ln_enabled (ls_doh l) then
          [\<lparr>ddr_priority = 1, ddr_target = domain,
            ddr_params = [ddr_param ''alpn'' ''h2'', ddr_param ''port'' (itoa (ln_port (ls_doh l))),
              ddr_param ''dohpath'' ''/dns-query{?dns}'']\<rparr>]
        else []) @
       (if ln_enabled (ls_doq l) then
          [\<lparr>ddr_priority = 1, ddr_target = domain,
            ddr_params = [ddr_param ''alpn'' ''doq'', ddr_param ''port'' (itoa (ln_port (ls_doq l)))]\<rparr>]
        else []) @
       (if ln_enabled (ls_doh3 l) then
          [\<lparr>ddr_priority = 1, ddr_target = domain,
            ddr_params = [ddr_param ''alpn'' ''h3'', ddr_param ''port'' (itoa (ln_port (ls_doh3 l))),
              ddr_param ''dohpath'' ''/dns-query{?dns}'']\<rparr>]
        else []))"

definition ownedZones :: "settings \<Rightarrow> string list" where
  "ownedZones s =
     [ownedZone] @
     (if normalizedACMEDomain s \<noteq> [] then [normalizedACMEDomain s] else []) @
     (if length (ddrRecords s) > 0 then [ddrZone] else [])"

definition fallthroughZones :: "settings \<Rightarrow> string list" where
  "fallthroughZones s =
     (if normalizedACMEDomain s \<noteq> [] then [normalizedACMEDomain s] else [])"

lemma fallthrough_subset_owned: "set (fallthroughZones s) \<subseteq> set (ownedZones s)"
  by (auto simp: fallthroughZones_def ownedZones_def)

lemma ddrRecords_target: "d \<in> set (ddrRecords s) \<Longrightarrow> ddr_target d = normalizedACMEDomain s"
  by (auto simp: ddrRecords_def Let_def split: if_splits)

lemma ddrRecords_acme_off: "\<not> acme_enabled (st_acme s) \<Longrightarrow> ddrRecords s = []"
  by (simp add: ddrRecords_def normalizedACMEDomain_def)

end
