(* ===== verification/Validate.thy ===== *)
theory Validate
  imports Vlan_Match Zones
begin

text \<open>
  \<^verbatim>\<open>internal/configgen/validate.go\<close>: the checks a configuration passes before anything is
  rendered from it. Every \<^verbatim>\<open>return\<close> of an error is a constructor of an error datatype that
  carries what the message names; a check returns \<open>None\<close> where the source returns \<^verbatim>\<open>nil\<close>. A Go map used
  as a set of names is the list of the names put in it.

  The main results: accepted VLANs are pairwise disjoint, so that a lookup does not depend on
  their order; accepted records are distinct, lie in an owned zone and can answer; accepted
  host names are distinct.
\<close>

datatype client_names_error = PTRUpstreamBad string addr_error | PTRUpstreamNoHost string
  | PTRUpstreamPort string | RefreshModeBad string

datatype hosts_error = HostBadIP string | HostNoHostname string | HostEmptyAlias string
  | HostBadName string string domain_error | HostDuplicate string

datatype log_error = LogClassBad string

datatype suffix_error = SuffixBad string domain_error | SuffixOutside string

datatype selector_error = SelectorVLAN string string | SelectorFamily string string

datatype mdns_error = MdnsSuffix suffix_error | MdnsSelector selector_error
  | MdnsNamingSuffix nat suffix_error

datatype acme_error = AcmeNoDomain | AcmeBadDomain string domain_error | AcmeNoEmail
  | AcmeNoProvider | AcmeNegativeRenew

datatype listeners_error = PortRange string int | NoListeners | DoqStreams | DoqPool
  | Doh3Streams | Doh3Pool

datatype upstream_error = UpstreamEmpty | UpstreamBad string addr_error | UpstreamNoHost string
  | UpstreamPort string | UpstreamProtocol string | EcsHostname string | EcsPublic string

datatype vlan_error = VlanNoName | VlanDuplicate string | VlanNoCIDR string
  | VlanBadCIDR string string | VlanOverlap string string string string

datatype value_error = NotIPv4 string | NotIPv6 string | CnameEmpty | CnameBad string domain_error

datatype override_error = OverrideVLAN string string | OverrideDuplicate string string
  | OverrideMixed string string | OverrideNoop string string
  | OverrideValue string string value_error | OverrideTtlOnly string string

datatype record_error = RecordNoName | RecordBadName string domain_error | RecordOutside string
  | RecordDuplicate string string | RecordType string string | RecordMatch string
  | RecordDefault string value_error | RecordOverride override_error | RecordNoAnswer string
  | MdnsRecordNoMatch string | MdnsRecordStatic string | MdnsRecordSelector selector_error

datatype cert_error = SelfSignedNoDomain | NoCertSource

datatype cfg_error = ListenersErr listeners_error | UpstreamErr upstream_error
  | VlanErr vlan_error | CertErr cert_error | AcmeErr acme_error | MdnsErr mdns_error
  | LogErr log_error | RecordErr record_error | ClientNamesErr client_names_error
  | HostsErr hosts_error

section \<open>The checks\<close>

definition domain_err :: "string \<Rightarrow> domain_error option" where
  "domain_err s = (case parseDomainName s of Inl e \<Rightarrow> Some e | Inr _ \<Rightarrow> None)"

definition validateClientNames :: "clientNames \<Rightarrow> client_names_error option" where
  "validateClientNames c =
     err_seq
       (if ptrUpstream c \<noteq> [] then
          (case splitHostPort (ptrUpstream c) of
             Inl e \<Rightarrow> Some (PTRUpstreamBad (ptrUpstream c) e)
           | Inr (host, port) \<Rightarrow>
               err_seq (fail_if (host = []) (PTRUpstreamNoHost (ptrUpstream c)))
                 (fail_if (atoi port = None) (PTRUpstreamPort (ptrUpstream c))))
        else None)
       (fail_if (refreshHostnames c \<notin> {[], ''ipv4_only'', ''all'', ''none''})
          (RefreshModeBad (refreshHostnames c)))"

text \<open>The inner loop of \<^verbatim>\<open>validateHosts\<close> threads \<open>seen\<close>; \<open>Inr\<close> carries it to the next host.\<close>

fun validateHostNames :: "string \<Rightarrow> string list \<Rightarrow> string list \<Rightarrow> hosts_error + string list" where
  "validateHostNames ip [] seen = Inr seen"
| "validateHostNames ip (name # ns) seen =
     (if trimSpace name = [] then Inl (HostEmptyAlias ip)
      else case domain_err name of
        Some e \<Rightarrow> Inl (HostBadName ip name e)
      | None \<Rightarrow>
          if normalizedHostName name \<in> set seen then Inl (HostDuplicate name)
          else validateHostNames ip ns (normalizedHostName name # seen))"

fun validateHostsFrom :: "hostSet \<Rightarrow> string list \<Rightarrow> hosts_error option" where
  "validateHostsFrom [] seen = None"
| "validateHostsFrom (h # hs) seen =
     (if parseIP (host_ip h) = [] then Some (HostBadIP (host_ip h))
      else if trimSpace (host_hostname h) = [] then Some (HostNoHostname (host_ip h))
      else case validateHostNames (host_ip h) (host_names h) seen of
        Inl e \<Rightarrow> Some e
      | Inr seen' \<Rightarrow> validateHostsFrom hs seen')"

definition validateHosts :: "hostSet \<Rightarrow> hosts_error option" where
  "validateHosts hs = validateHostsFrom hs []"

definition validateLog :: "logTuning \<Rightarrow> log_error option" where
  "validateLog l = first_err (map (\<lambda>c. fail_if
     (toLower (trimSpace c) \<notin> {''success'', ''denial'', ''error'', ''all''}) (LogClassBad c))
     (log_classes l))"

definition validateSuffix :: "string \<Rightarrow> suffix_error option" where
  "validateSuffix suf =
     (if suf = [] then None
      else case domain_err suf of
        Some e \<Rightarrow> Some (SuffixBad suf e)
      | None \<Rightarrow> (let s = trimSuffix (toLower suf) ''.'' in
          fail_if (s \<noteq> ownedZone \<and> \<not> hasSuffix s (''.'' @ ownedZone)) (SuffixOutside suf)))"

definition validateSelector :: "selector \<Rightarrow> string list \<Rightarrow> string \<Rightarrow> selector_error option" where
  "validateSelector s vlanNames ctx =
     err_seq (fail_if (sel_vlan s \<noteq> [] \<and> sel_vlan s \<notin> set vlanNames) (SelectorVLAN ctx (sel_vlan s)))
       (fail_if (toLower (sel_family s) \<notin> {[], ''ipv4'', ''ipv6''}) (SelectorFamily ctx (sel_family s)))"

definition validateMDNS :: "mdns \<Rightarrow> vlan list \<Rightarrow> mdns_error option" where
  "validateMDNS m vlans =
     (if \<not> mdns_enabled m then None
      else let vlanNames = map vlan_name vlans in
        err_seq (wrap_err MdnsSuffix (validateSuffix (mdns_suffix m)))
        (err_seq (first_err (map (\<lambda>(i, s). wrap_err MdnsSelector (validateSelector s vlanNames
              (''mdns.auto_publish['' @ itoa (int i) @ '']'')))
            (enumerate 0 (mdns_autoPublish m))))
         (first_err (map (\<lambda>(i, r). err_seq
              (wrap_err MdnsSelector (validateSelector (nr_match r) vlanNames
                 (''mdns.naming['' @ itoa (int i) @ ''].match'')))
              (wrap_err (MdnsNamingSuffix i) (validateSuffix (nr_suffix r))))
            (enumerate 0 (mdns_naming m))))))"

definition validateACME :: "acme \<Rightarrow> acme_error option" where
  "validateACME a =
     (if \<not> acme_enabled a then None
      else if trimSpace (acme_domain a) = [] then Some AcmeNoDomain
      else case domain_err (acme_domain a) of
        Some e \<Rightarrow> Some (AcmeBadDomain (acme_domain a) e)
      | None \<Rightarrow>
          if trimSpace (acme_email a) = [] then Some AcmeNoEmail
          else if trimSpace (acme_dnsProvider a) = [] then Some AcmeNoProvider
          else fail_if (acme_renewBeforeDays a < 0) AcmeNegativeRenew)"

text \<open>
  The five listeners under their names. Go ranges over a map here, so which of several
  out-of-range ports is reported is not determined; the model reports the first.
\<close>

definition named_listeners :: "listeners \<Rightarrow> (string \<times> bool \<times> int) list" where
  "named_listeners l =
     [(''plain'', ln_enabled (ls_plain l), ln_port (ls_plain l)),
      (''dot'', ln_enabled (ls_dot l), ln_port (ls_dot l)),
      (''doh'', ln_enabled (ls_doh l), ln_port (ls_doh l)),
      (''doq'', ln_enabled (ls_doq l), ln_port (ls_doq l)),
      (''doh3'', ln_enabled (ls_doh3 l), ln_port (ls_doh3 l))]"

definition validateListeners :: "listeners \<Rightarrow> listeners_error option" where
  "validateListeners l =
     err_seq (first_err (map (\<lambda>(name, en, port).
         fail_if (en \<and> (port \<le> 0 \<or> port > 65535)) (PortRange name port)) (named_listeners l)))
     (err_seq (fail_if (\<not> list_ex (\<lambda>(_, en, _). en) (named_listeners l)) NoListeners)
     (err_seq (fail_if (ln_maxStreams (ls_doq l) < 0) DoqStreams)
     (err_seq (fail_if (ln_workerPoolSize (ls_doq l) < 0) DoqPool)
     (err_seq (fail_if (ln_maxStreams (ls_doh3 l) < 0) Doh3Streams)
       (fail_if (ln_workerPoolSize (ls_doh3 l) \<noteq> 0) Doh3Pool)))))"

definition isTrustedECSUpstream :: "ip \<Rightarrow> bool" where
  "isTrustedECSUpstream a = (isLoopback a \<or> isPrivate a \<or> isLinkLocalUnicast a)"

definition validateUpstream :: "upstreamTarget \<Rightarrow> upstream_error option" where
  "validateUpstream u =
     (if trimSpace (up_address u) = [] then Some UpstreamEmpty
      else case splitHostPort (up_address u) of
        Inl e \<Rightarrow> Some (UpstreamBad (up_address u) e)
      | Inr (host, port) \<Rightarrow>
          if host = [] then Some (UpstreamNoHost (up_address u))
          else if atoi port = None then Some (UpstreamPort (up_address u))
          else if up_protocol u \<notin> {[], ''plain'', ''dot'', ''doh''} then
            Some (UpstreamProtocol (up_protocol u))
          else if up_ecs u then
            (if parseIP host = [] then Some (EcsHostname host)
             else fail_if (\<not> isTrustedECSUpstream (parseIP host)) (EcsPublic host))
          else None)"

record ownedCIDR =
  oc_vlan :: string
  oc_cidr :: string
  oc_net :: ipnet

definition netsOverlap :: "ipnet \<Rightarrow> ipnet \<Rightarrow> bool" where
  "netsOverlap a b = (net_contains a (net_ip b) \<or> net_contains b (net_ip a))"

fun validateCIDRs :: "string \<Rightarrow> string list \<Rightarrow> ownedCIDR list \<Rightarrow> vlan_error + ownedCIDR list" where
  "validateCIDRs name [] nets = Inr nets"
| "validateCIDRs name (c # cs) nets =
     (case parseCIDR c of
        None \<Rightarrow> Inl (VlanBadCIDR name c)
      | Some n \<Rightarrow>
          (case find (\<lambda>other. netsOverlap n (oc_net other)) nets of
             Some other \<Rightarrow> Inl (VlanOverlap name c (oc_vlan other) (oc_cidr other))
           | None \<Rightarrow>
               validateCIDRs name cs (nets @ [\<lparr>oc_vlan = name, oc_cidr = c, oc_net = n\<rparr>])))"

fun validateVLANsFrom :: "vlan list \<Rightarrow> ownedCIDR list \<Rightarrow> string list \<Rightarrow> vlan_error option" where
  "validateVLANsFrom [] nets seen = None"
| "validateVLANsFrom (v # vs) nets seen =
     (if trimSpace (vlan_name v) = [] then Some VlanNoName
      else if vlan_name v \<in> set seen then Some (VlanDuplicate (vlan_name v))
      else if vlan_cidrs v = [] then Some (VlanNoCIDR (vlan_name v))
      else case validateCIDRs (vlan_name v) (vlan_cidrs v) nets of
        Inl e \<Rightarrow> Some e
      | Inr nets' \<Rightarrow> validateVLANsFrom vs nets' (vlan_name v # seen))"

definition validateVLANs :: "vlan list \<Rightarrow> vlan_error option" where
  "validateVLANs vs = validateVLANsFrom vs [] []"

definition inAnyZone :: "string \<Rightarrow> string list \<Rightarrow> bool" where
  "inAnyZone name zones = list_ex (\<lambda>zone.
     (let z = toLower (trimSuffix zone ''.'') @ ''.'' in
      name = z \<or> hasSuffix name (''.'' @ z))) zones"

definition anyOverrideProvidesValue :: "dnsRecord \<Rightarrow> bool" where
  "anyOverrideProvidesValue r =
     list_ex (\<lambda>o'. \<not> ov_nxdomain o' \<and> ov_value o' \<noteq> []) (rec_overrides r)"

definition validateValue :: "recordType \<Rightarrow> string \<Rightarrow> value_error option" where
  "validateValue t v =
     (if t = typeA then fail_if (parseIP v = [] \<or> to4 (parseIP v) = []) (NotIPv4 v)
      else if t = typeAAAA then fail_if (parseIP v = [] \<or> to4 (parseIP v) \<noteq> []) (NotIPv6 v)
      else if t = typeCNAME then
        err_seq (fail_if (trimSpace v = []) CnameEmpty) (wrap_err (CnameBad v) (domain_err v))
      else None)"

definition overrideCheck :: "dnsRecord \<Rightarrow> vlanOverride \<Rightarrow> override_error option" where
  "overrideCheck r o' =
     err_seq (fail_if (ov_nxdomain o' \<and> (ov_value o' \<noteq> [] \<or> ov_ttl o' \<noteq> 0))
                (OverrideMixed (rec_name r) (ov_vlan o')))
     (err_seq (fail_if (\<not> ov_nxdomain o' \<and> ov_value o' = [] \<and> ov_ttl o' = 0)
                (OverrideNoop (rec_name r) (ov_vlan o')))
     (err_seq (if \<not> ov_nxdomain o' \<and> ov_value o' \<noteq> []
               then wrap_err (OverrideValue (rec_name r) (ov_vlan o'))
                      (validateValue (rec_type r) (ov_value o'))
               else None)
       (fail_if (\<not> ov_nxdomain o' \<and> ov_value o' = [] \<and> rec_default r = [])
          (OverrideTtlOnly (rec_name r) (ov_vlan o')))))"

fun validateOverridesFrom ::
    "dnsRecord \<Rightarrow> string list \<Rightarrow> vlanOverride list \<Rightarrow> string list \<Rightarrow> override_error option" where
  "validateOverridesFrom r vlanNames [] seen = None"
| "validateOverridesFrom r vlanNames (o' # os) seen =
     (if ov_vlan o' \<notin> set vlanNames then Some (OverrideVLAN (rec_name r) (ov_vlan o'))
      else if ov_vlan o' \<in> set seen then Some (OverrideDuplicate (rec_name r) (ov_vlan o'))
      else err_seq (overrideCheck r o') (validateOverridesFrom r vlanNames os (ov_vlan o' # seen)))"

definition validateOverrides :: "dnsRecord \<Rightarrow> string list \<Rightarrow> override_error option" where
  "validateOverrides r vlanNames = validateOverridesFrom r vlanNames (rec_overrides r) []"

definition validateMDNSRecord :: "dnsRecord \<Rightarrow> string list \<Rightarrow> record_error option" where
  "validateMDNSRecord r vlanNames = (case rec_match r of
     None \<Rightarrow> Some (MdnsRecordNoMatch (rec_name r))
   | Some m \<Rightarrow>
       if sel_isZero m then Some (MdnsRecordNoMatch (rec_name r))
       else if rec_default r \<noteq> [] \<or> rec_ttl r \<noteq> 0 \<or> rec_overrides r \<noteq> [] then
         Some (MdnsRecordStatic (rec_name r))
       else wrap_err MdnsRecordSelector
         (validateSelector m vlanNames (''mdns record '' @ rec_name r)))"

definition validateStaticRecord :: "dnsRecord \<Rightarrow> string list \<Rightarrow> record_error option" where
  "validateStaticRecord r vlanNames =
     err_seq (fail_if (rec_type r \<notin> {typeA, typeAAAA, typeCNAME}) (RecordType (rec_name r) (rec_type r)))
     (err_seq (fail_if (rec_match r \<noteq> None) (RecordMatch (rec_name r)))
     (err_seq (if rec_default r \<noteq> []
               then wrap_err (RecordDefault (rec_name r)) (validateValue (rec_type r) (rec_default r))
               else None)
     (err_seq (wrap_err RecordOverride (validateOverrides r vlanNames))
       (fail_if (rec_default r = [] \<and> \<not> anyOverrideProvidesValue r) (RecordNoAnswer (rec_name r))))))"

definition record_key :: "dnsRecord \<Rightarrow> string" where
  "record_key r = rec_normalizedName r @ ''/'' @ rec_type r"

fun validateRecordsFrom ::
    "recordSet \<Rightarrow> string list \<Rightarrow> string list \<Rightarrow> string list \<Rightarrow> record_error option" where
  "validateRecordsFrom [] vlanNames zones seen = None"
| "validateRecordsFrom (r # rs) vlanNames zones seen =
     (if trimSpace (rec_name r) = [] then Some RecordNoName
      else case domain_err (rec_name r) of
        Some e \<Rightarrow> Some (RecordBadName (rec_name r) e)
      | None \<Rightarrow>
          if \<not> inAnyZone (rec_normalizedName r) zones then Some (RecordOutside (rec_name r))
          else if record_key r \<in> set seen then Some (RecordDuplicate (rec_name r) (rec_type r))
          else err_seq (if isMDNS r then validateMDNSRecord r vlanNames
                        else validateStaticRecord r vlanNames)
                 (validateRecordsFrom rs vlanNames zones (record_key r # seen)))"

definition validateRecords :: "recordSet \<Rightarrow> vlan list \<Rightarrow> string list \<Rightarrow> record_error option" where
  "validateRecords rs vlans zones = validateRecordsFrom rs (map vlan_name vlans) zones []"

definition certSourceCheck :: "settings \<Rightarrow> cert_error option" where
  "certSourceCheck s =
     (if encryptedListenerEnabled s then
        (if acme_enabled (st_acme s) then None
         else if acme_selfSignedFallback (st_acme s) then
           fail_if (trimSpace (acme_domain (st_acme s)) = []) SelfSignedNoDomain
         else Some NoCertSource)
      else None)"

definition validate :: "settings \<Rightarrow> recordSet \<Rightarrow> hostSet \<Rightarrow> cfg_error option" where
  "validate s rs hs =
     err_seq (wrap_err ListenersErr (validateListeners (st_listeners s)))
     (err_seq (wrap_err UpstreamErr (validateUpstream (st_upstream s)))
     (err_seq (wrap_err VlanErr (validateVLANs (st_vlans s)))
     (err_seq (wrap_err CertErr (certSourceCheck s))
     (err_seq (wrap_err AcmeErr (validateACME (st_acme s)))
     (err_seq (wrap_err MdnsErr (validateMDNS (st_mdns s) (st_vlans s)))
     (err_seq (wrap_err LogErr (validateLog (st_log s)))
     (err_seq (wrap_err RecordErr (validateRecords rs (st_vlans s) (ownedZones s)))
     (err_seq (wrap_err ClientNamesErr (validateClientNames (st_clientNames s)))
       (wrap_err HostsErr (validateHosts hs))))))))))"

section \<open>Accepted VLANs are disjoint\<close>

definition owned_nets :: "vlan \<Rightarrow> ownedCIDR list" where
  "owned_nets v = map (\<lambda>c. \<lparr>oc_vlan = vlan_name v, oc_cidr = c, oc_net = the (parseCIDR c)\<rparr>)
     (vlan_cidrs v)"

abbreviation nonoverlapping :: "ownedCIDR list \<Rightarrow> bool" where
  "nonoverlapping \<equiv> sorted_wrt (\<lambda>x y. \<not> netsOverlap (oc_net y) (oc_net x))"

lemma validateCIDRs_Inr:
  "validateCIDRs name cs nets = Inr nets' \<Longrightarrow>
     nets' = nets @ map (\<lambda>c. \<lparr>oc_vlan = name, oc_cidr = c, oc_net = the (parseCIDR c)\<rparr>) cs \<and>
     (\<forall>c\<in>set cs. parseCIDR c \<noteq> None) \<and> (nonoverlapping nets \<longrightarrow> nonoverlapping nets')"
proof (induction cs arbitrary: nets)
  case (Cons c cs)
  then obtain n where n: "parseCIDR c = Some n"
    and no: "find (\<lambda>other. netsOverlap n (oc_net other)) nets = None"
    and rest: "validateCIDRs name cs (nets @ [\<lparr>oc_vlan = name, oc_cidr = c, oc_net = n\<rparr>]) = Inr nets'"
    by (auto split: option.splits)
  from Cons.IH [OF rest] n no show ?case
    by (auto simp: find_None_conv sorted_wrt_append)
qed simp

lemma validateVLANsFrom_None:
  "validateVLANsFrom vs nets seen = None \<Longrightarrow> nonoverlapping nets \<Longrightarrow>
     nonoverlapping (nets @ concat (map owned_nets vs)) \<and>
     (\<forall>v\<in>set vs. \<forall>c\<in>set (vlan_cidrs v). parseCIDR c \<noteq> None) \<and>
     distinct (map vlan_name vs) \<and> set seen \<inter> set (map vlan_name vs) = {} \<and>
     (\<forall>v\<in>set vs. vlan_name v \<noteq> [] \<and> vlan_cidrs v \<noteq> [])"
proof (induction vs nets seen rule: validateVLANsFrom.induct)
  case (2 v vs nets seen)
  from "2.prems"(1) obtain nets' where c: "validateCIDRs (vlan_name v) (vlan_cidrs v) nets = Inr nets'"
    and rest: "validateVLANsFrom vs nets' (vlan_name v # seen) = None"
    and g: "trimSpace (vlan_name v) \<noteq> []" "vlan_name v \<notin> set seen" "vlan_cidrs v \<noteq> []"
    by (auto split: if_splits sum.splits)
  note C = validateCIDRs_Inr [OF c]
  have nets': "nets' = nets @ owned_nets v" using C by (simp add: owned_nets_def)
  have no: "nonoverlapping nets'" using C "2.prems"(2) by blast
  have "vlan_name v \<noteq> []" using g(1) by (auto simp: trimSpace_def)
  with "2.IH" [OF g(1,2,3) c rest no] g C show ?case by (auto simp: nets')
qed simp

lemma vt_claims_build:
  assumes "\<forall>v\<in>set vs. \<forall>c\<in>set (vlan_cidrs v). parseCIDR c \<noteq> None"
  shows "vt_claims (newTable (vlancfg_build vs)) n a \<longleftrightarrow>
    (\<exists>w\<in>set (concat (map owned_nets vs)). oc_vlan w = n \<and> net_contains (oc_net w) a)"
proof -
  have "(\<exists>w\<in>set (List.map_filter parseCIDR cs). net_contains w a) \<longleftrightarrow>
      (\<exists>c\<in>set cs. net_contains (the (parseCIDR c)) a)"
    if "\<forall>c\<in>set cs. parseCIDR c \<noteq> None" for cs
    using that by (induction cs) (auto simp: List.map_filter_simps split: option.splits)
  with assms show ?thesis
    by (fastforce simp: vt_claims_def newTable_def vlancfg_build_def list_ex_iff owned_nets_def)
qed

lemma nonoverlapping_claim_unique:
  assumes "nonoverlapping ws" "\<forall>w\<in>set ws. is_cidr_net (oc_net w)"
    and "x \<in> set ws" "y \<in> set ws" "net_contains (oc_net x) a" "net_contains (oc_net y) a"
  shows "x = y"
proof (rule ccontr)
  assume "x \<noteq> y"
  with assms(3,4) obtain i j where ij: "i < length ws" "j < length ws" "ws ! i = x" "ws ! j = y" "i \<noteq> j"
    by (metis in_set_conv_nth)
  have ov: "netsOverlap (oc_net u) (oc_net v)"
    if "u \<in> set ws" "v \<in> set ws" "net_contains (oc_net u) a" "net_contains (oc_net v) a" for u v
    unfolding netsOverlap_def using nets_share_iff [of "oc_net u" "oc_net v"] assms(2) that by blast
  from ij(5) consider "i < j" | "j < i" by linarith
  then show False
  proof cases
    case 1
    with ij(2-4) sorted_wrt_nth_less [OF assms(1)] ov [OF assms(4,3,6,5)] show False by blast
  next
    case 2
    with ij(1,3,4) sorted_wrt_nth_less [OF assms(1)] ov [OF assms(3,4,5,6)] show False by blast
  qed
qed

lemma validateVLANs_unambiguous:
  assumes "validateVLANs vs = None"
  shows "vm.unambiguous (newTable (vlancfg_build vs))"
proof -
  let ?ws = "concat (map owned_nets vs)"
  have V: "nonoverlapping ?ws" "\<forall>v\<in>set vs. \<forall>c\<in>set (vlan_cidrs v). parseCIDR c \<noteq> None"
    using validateVLANsFrom_None [of vs "[]" "[]"] assms by (simp_all add: validateVLANs_def)
  have cidr: "\<forall>w\<in>set ?ws. is_cidr_net (oc_net w)"
    using V(2) by (fastforce simp: owned_nets_def intro: parseCIDR_is_cidr_net)
  show ?thesis
    unfolding vm.unambiguous_def vt_claims_build [OF V(2)]
    using nonoverlapping_claim_unique [OF V(1) cidr] by metis
qed

lemma validateVLANsFrom_named:
  "validateVLANsFrom vs nets seen = None \<Longrightarrow> v \<in> set vs \<Longrightarrow> vlan_name v \<noteq> []"
  by (induction vs nets seen rule: validateVLANsFrom.induct)
    (auto simp: trimSpace_def split: if_splits sum.splits)

section \<open>Accepted records and hosts\<close>

lemma domain_err_None: "domain_err s = None \<longleftrightarrow> (\<exists>n. parseDomainName s = Inr n)"
  by (auto simp: domain_err_def split: sum.splits)

lemma validateHostNames_Inr:
  "validateHostNames ip ns seen = Inr seen' \<Longrightarrow> distinct seen \<Longrightarrow>
     distinct seen' \<and> set seen' = set (map normalizedHostName ns) \<union> set seen \<and>
     distinct (map normalizedHostName ns) \<and> set seen \<inter> set (map normalizedHostName ns) = {} \<and>
     (\<forall>n\<in>set ns. \<exists>m. parseDomainName n = Inr m)"
  by (induction ip ns seen rule: validateHostNames.induct)
    (auto simp: domain_err_None split: if_splits option.splits)

lemma validateHostsFrom_None:
  "validateHostsFrom hs seen = None \<Longrightarrow> distinct seen \<Longrightarrow>
     distinct (map normalizedHostName (concat (map host_names hs))) \<and>
     set seen \<inter> set (map normalizedHostName (concat (map host_names hs))) = {} \<and>
     (\<forall>h\<in>set hs. parseIP (host_ip h) \<noteq> [] \<and> (\<forall>n\<in>set (host_names h). \<exists>m. parseDomainName n = Inr m))"
proof (induction hs seen rule: validateHostsFrom.induct)
  case (2 h hs seen)
  from "2.prems"(1) obtain seen' where g: "parseIP (host_ip h) \<noteq> []" "trimSpace (host_hostname h) \<noteq> []"
    and c: "validateHostNames (host_ip h) (host_names h) seen = Inr seen'"
    and rest: "validateHostsFrom hs seen' = None"
    by (auto split: if_splits sum.splits)
  note N = validateHostNames_Inr [OF c "2.prems"(2)]
  note IH = "2.IH" [OF g c rest]
  from N have "distinct seen'" by simp
  from IH [OF this] N g show ?case by auto
qed simp

lemma validateOverridesFrom_None:
  "validateOverridesFrom r vn os seen = None \<Longrightarrow>
     distinct (map ov_vlan os) \<and> set seen \<inter> set (map ov_vlan os) = {} \<and>
     (\<forall>o'\<in>set os. ov_vlan o' \<in> set vn \<and> overrideCheck r o' = None)"
  by (induction r vn os seen rule: validateOverridesFrom.induct)
    (auto simp: err_simps split: if_splits)

lemma validateRecordsFrom_None:
  "validateRecordsFrom rs vn zones seen = None \<Longrightarrow>
     distinct (map record_key rs) \<and> set seen \<inter> set (map record_key rs) = {} \<and>
     (\<forall>r\<in>set rs. (\<exists>n. parseDomainName (rec_name r) = Inr n) \<and> inAnyZone (rec_normalizedName r) zones \<and>
        (if isMDNS r then validateMDNSRecord r vn = None else validateStaticRecord r vn = None))"
  by (induction rs vn zones seen rule: validateRecordsFrom.induct)
    (auto simp: err_simps domain_err_None split: if_splits option.splits)

lemma validateStaticRecord_None:
  assumes "validateStaticRecord r vn = None"
  shows "rec_type r \<in> {typeA, typeAAAA, typeCNAME}"
    "rec_default r \<noteq> [] \<Longrightarrow> validateValue (rec_type r) (rec_default r) = None"
    "distinct (map ov_vlan (rec_overrides r))"
    "\<forall>o'\<in>set (rec_overrides r). ov_vlan o' \<in> set vn \<and> overrideCheck r o' = None"
    "rec_default r \<noteq> [] \<or> anyOverrideProvidesValue r"
  using assms validateOverridesFrom_None [of r vn "rec_overrides r" "[]"]
  by (auto simp: validateStaticRecord_def err_simps validateOverrides_def split: if_splits)

lemma validate_None:
  assumes "validate s rs hs = None"
  shows "validateListeners (st_listeners s) = None" "validateUpstream (st_upstream s) = None"
    "validateVLANs (st_vlans s) = None" "certSourceCheck s = None"
    "validateACME (st_acme s) = None" "validateMDNS (st_mdns s) (st_vlans s) = None"
    "validateLog (st_log s) = None" "validateRecords rs (st_vlans s) (ownedZones s) = None"
    "validateClientNames (st_clientNames s) = None" "validateHosts hs = None"
  using assms by (simp_all add: validate_def err_simps)

section \<open>Trusted upstreams\<close>

text \<open>The private, loopback and link-local networks, as prefixes.\<close>

definition private_prefixes :: "string list" where
  "private_prefixes = [''127.0.0.0/8'', ''10.0.0.0/8'', ''172.16.0.0/12'', ''192.168.0.0/16'',
     ''169.254.0.0/16'', ''::1/128'', ''fc00::/7'', ''fe80::/10'']"

definition in_prefix :: "string \<Rightarrow> ip \<Rightarrow> bool" where
  "in_prefix c a = (case parseCIDR c of None \<Rightarrow> False | Some n \<Rightarrow> net_contains n a)"

lemma parse_private:
  "parseCIDR ''127.0.0.0/8'' = Some \<lparr>net_ip = [127, 0, 0, 0], net_mask = [255, 0, 0, 0]\<rparr>"
  "parseCIDR ''10.0.0.0/8'' = Some \<lparr>net_ip = [10, 0, 0, 0], net_mask = [255, 0, 0, 0]\<rparr>"
  "parseCIDR ''172.16.0.0/12'' = Some \<lparr>net_ip = [172, 16, 0, 0], net_mask = [255, 240, 0, 0]\<rparr>"
  "parseCIDR ''192.168.0.0/16'' = Some \<lparr>net_ip = [192, 168, 0, 0], net_mask = [255, 255, 0, 0]\<rparr>"
  "parseCIDR ''169.254.0.0/16'' = Some \<lparr>net_ip = [169, 254, 0, 0], net_mask = [255, 255, 0, 0]\<rparr>"
  "parseCIDR ''::1/128'' = Some \<lparr>net_ip = replicate 15 0 @ [1], net_mask = replicate 16 255\<rparr>"
  "parseCIDR ''fc00::/7'' = Some \<lparr>net_ip = 252 # replicate 15 0, net_mask = 254 # replicate 15 0\<rparr>"
  "parseCIDR ''fe80::/10'' =
     Some \<lparr>net_ip = 254 # 128 # replicate 14 0, net_mask = 255 # 192 # replicate 14 0\<rparr>"
  by (simp_all add: ip_eval)

lemma byte_and_255 [simp]: "(x :: byte) AND 255 = x"
proof -
  have "(255 :: byte) = - 1" by simp
  then show ?thesis by (simp only: and.right_neutral)
qed

lemma length_16_conv: "length a = 16 \<longleftrightarrow> (\<exists>a0 a1 a2 a3 a4 a5 a6 a7 a8 a9 b0 b1 b2 b3 b4 b5.
    a = [a0, a1, a2, a3, a4, a5, a6, a7, a8, a9, b0, b1, b2, b3, b4, b5])"
  by (auto simp: length_Suc_conv numeral_eq_Suc)

lemma net_contains_v4:
  "length m = 4 \<Longrightarrow> length n = 4 \<Longrightarrow> net_contains \<lparr>net_ip = n, net_mask = m\<rparr> a \<longleftrightarrow>
     to4 a \<noteq> [] \<and> and_bytes n m = and_bytes (to4 a) m \<or> to4 a = [] \<and> length a = 4 \<and> and_bytes n m = and_bytes a m"
  using to4_length [of a]
  by (auto simp: net_contains_iff networkNumberAndMask_def norm_ip_def Let_def to4_def [of n])

lemma net_contains_v6:
  "length m = 16 \<Longrightarrow> length n = 16 \<Longrightarrow> to4 n = [] \<Longrightarrow> net_contains \<lparr>net_ip = n, net_mask = m\<rparr> a \<longleftrightarrow>
     to4 a = [] \<and> length a = 16 \<and> and_bytes n m = and_bytes a m"
  using to4_length [of a]
  by (auto simp: net_contains_iff networkNumberAndMask_def norm_ip_def Let_def)

lemma trusted_v4:
  assumes "a = v4InV6Prefix @ [b0, b1, b2, b3]"
  shows "isTrustedECSUpstream a \<longleftrightarrow> list_ex (\<lambda>c. in_prefix c a) private_prefixes"
  unfolding assms
  by (simp add: isTrustedECSUpstream_def isLoopback_def isPrivate_def isLinkLocalUnicast_def
      private_prefixes_def in_prefix_def parse_private net_contains_v4 net_contains_v6 to4_def
      v4InV6Prefix_def replicate_rec eq_commute [of _ b0] eq_commute [of _ b1]
      eq_commute [of 16] disj_ac)

lemma and_bytes_zeros: "length a = n \<Longrightarrow> and_bytes a (replicate n 0) = replicate n 0"
  by (auto simp: list_eq_iff_nth_eq)

lemma trusted_v6:
  assumes "length a = 16" "to4 a = []"
  shows "isTrustedECSUpstream a \<longleftrightarrow> list_ex (\<lambda>c. in_prefix c a) private_prefixes"
proof -
  obtain a0 a1 r where a: "a = a0 # a1 # r" "length r = 14"
    using assms(1) by (cases a; cases "tl a") auto
  have t: "to4 (254 # 128 # replicate 14 0) = []" "to4 (252 # replicate 15 0) = []"
    "to4 (replicate 15 0 @ [1]) = []"
    by (simp_all add: to4_def v4InV6Prefix_def replicate_rec)
  have loop: "net_contains \<lparr>net_ip = replicate 15 0 @ [1], net_mask = replicate 16 255\<rparr> a
      \<longleftrightarrow> a = replicate 15 0 @ [1]"
    using assms t(3) by (subst net_contains_v6) (auto simp: and_bytes_full)
  have ula: "net_contains \<lparr>net_ip = 252 # replicate 15 0, net_mask = 254 # replicate 15 0\<rparr> a
      \<longleftrightarrow> a0 AND 254 = 252"
    using assms t(2) a by (subst net_contains_v6) (auto simp: and_bytes_zeros)
  have ll: "net_contains \<lparr>net_ip = 254 # 128 # replicate 14 0, net_mask = 255 # 192 # replicate 14 0\<rparr> a
      \<longleftrightarrow> a0 = 254 \<and> a1 AND 192 = 128"
    using assms t(1) a by (subst net_contains_v6) (auto simp: and_bytes_zeros)
  have no4: "\<not> net_contains \<lparr>net_ip = n, net_mask = m\<rparr> a" if "length n = 4" "length m = 4" for n m
    using assms that by (simp add: net_contains_v4)
  show ?thesis
    using assms
    by (auto simp: isTrustedECSUpstream_def isLoopback_def isPrivate_def isLinkLocalUnicast_def
        private_prefixes_def in_prefix_def parse_private loop ula ll no4) (auto simp: a)
qed

section \<open>Properties\<close>

text \<open>
  C4. If the VLANs of the settings pass validation, the VLAN a client address is matched to
  does not depend on the order the VLANs are declared in: the first-match rule of the lookup
  never has two candidates.
\<close>

theorem accepted_vlans_order_free:
  assumes "validateVLANs vs = None" "mset vs = mset ws"
  shows "vt_lookup (newTable (vlancfg_build vs)) a = vt_lookup (newTable (vlancfg_build ws)) a"
proof (rule vm.look_agree)
  show "vm.unambiguous (newTable (vlancfg_build vs))"
    by (rule validateVLANs_unambiguous [OF assms(1)])
  have "mset (newTable (vlancfg_build vs)) = mset (newTable (vlancfg_build ws))"
    using assms(2) by (simp add: newTable_def vlancfg_build_def)
  then show "vt_claims (newTable (vlancfg_build vs)) n a = vt_claims (newTable (vlancfg_build ws)) n a"
    for n a by (rule vt_claims_perm)
qed

theorem accepted_vlans_order_free_witness:
  "validateVLANs [\<lparr>vlan_name = ''lan'', vlan_cidrs = [''10.1.0.0/16'']\<rparr>,
      \<lparr>vlan_name = ''guest'', vlan_cidrs = [''10.2.0.0/16'', ''fd00::/64'']\<rparr>] = None \<and>
   vt_lookup (newTable (vlancfg_build
     [\<lparr>vlan_name = ''lan'', vlan_cidrs = [''10.1.0.0/16'']\<rparr>,
      \<lparr>vlan_name = ''guest'', vlan_cidrs = [''10.2.0.0/16'', ''fd00::/64'']\<rparr>])) (parseIP ''10.2.3.4'')
   = vt_lookup (newTable (vlancfg_build
     [\<lparr>vlan_name = ''guest'', vlan_cidrs = [''10.2.0.0/16'', ''fd00::/64'']\<rparr>,
      \<lparr>vlan_name = ''lan'', vlan_cidrs = [''10.1.0.0/16'']\<rparr>])) (parseIP ''10.2.3.4'')"
  (is "?ok \<and> ?eq")
proof
  show ok: ?ok
    by (simp add: validateVLANs_def netsOverlap_def ip_eval trimSpace_def is_space_def)
  show ?eq by (rule accepted_vlans_order_free [OF ok]) simp
qed

text \<open>
  Two networks the validator parsed overlap, in the sense of its test, exactly when some
  address lies in both: the overlap test misses nothing and reports nothing spurious.
\<close>

theorem netsOverlap_exact:
  assumes "parseCIDR c = Some m" "parseCIDR d = Some n"
  shows "netsOverlap m n \<longleftrightarrow> (\<exists>a. net_contains m a \<and> net_contains n a)"
  unfolding netsOverlap_def
  by (rule nets_share_iff) (use assms in \<open>auto intro: parseCIDR_is_cidr_net\<close>)

theorem netsOverlap_exact_witness:
  "netsOverlap \<lparr>net_ip = [10, 0, 0, 0], net_mask = [255, 0, 0, 0]\<rparr>
     \<lparr>net_ip = [172, 16, 0, 0], net_mask = [255, 240, 0, 0]\<rparr> \<longleftrightarrow>
   (\<exists>a. net_contains \<lparr>net_ip = [10, 0, 0, 0], net_mask = [255, 0, 0, 0]\<rparr> a \<and>
      net_contains \<lparr>net_ip = [172, 16, 0, 0], net_mask = [255, 240, 0, 0]\<rparr> a)"
  by (rule netsOverlap_exact [OF parse_private(2,3)])

text \<open>
  With client subnets switched on, an upstream that passes validation is a literal address
  in one of the private, loopback or link-local prefixes, so the source addresses of clients
  are never sent to a public resolver.
\<close>

theorem ecs_upstream_private:
  assumes "validateUpstream u = None" "up_ecs u"
  shows "\<exists>host port. splitHostPort (up_address u) = Inr (host, port) \<and> parseIP host \<noteq> [] \<and>
    (\<exists>c\<in>set private_prefixes. in_prefix c (parseIP host))"
proof -
  obtain host port where h: "splitHostPort (up_address u) = Inr (host, port)"
    "parseIP host \<noteq> []" "isTrustedECSUpstream (parseIP host)"
    using assms by (auto simp: validateUpstream_def err_simps split: sum.splits if_splits)
  then have len: "length (parseIP host) = 16" using parseIP_length by blast
  have "list_ex (\<lambda>c. in_prefix c (parseIP host)) private_prefixes"
  proof (cases "to4 (parseIP host) = []")
    case True
    with trusted_v6 [OF len] h show ?thesis by simp
  next
    case False
    with len have "parseIP host = v4InV6Prefix @ to4 (parseIP host)" "length (to4 (parseIP host)) = 4"
      by (auto simp: to4_def split: if_splits) (metis append_take_drop_id)
    then obtain b0 b1 b2 b3 where "parseIP host = v4InV6Prefix @ [b0, b1, b2, b3]"
      by (auto simp: length_Suc_conv numeral_eq_Suc)
    with trusted_v4 [OF this] h show ?thesis by simp
  qed
  with h show ?thesis by (auto simp: list_ex_iff)
qed

theorem ecs_upstream_private_witness:
  "validateUpstream (zero_upstream\<lparr>up_address := ''192.168.10.5:53'', up_ecs := True\<rparr>) = None \<and>
   (\<exists>host port. splitHostPort ''192.168.10.5:53'' = Inr (host, port) \<and> parseIP host \<noteq> [] \<and>
     (\<exists>c\<in>set private_prefixes. in_prefix c (parseIP host)))"
proof -
  have s: "splitHostPort ''192.168.10.5:53'' = Inr (''192.168.10.5'', ''53'')" by code_simp
  have ok: "validateUpstream (zero_upstream\<lparr>up_address := ''192.168.10.5:53'', up_ecs := True\<rparr>) = None"
    by (simp add: validateUpstream_def zero_upstream_def s atoi_def isTrustedECSUpstream_def
        isPrivate_def ip_eval trimSpace_def is_space_def)
  from ok ecs_upstream_private [OF ok] show ?thesis by simp
qed

end
