(* ===== verification/Configgen.thy ===== *)
theory Configgen
  imports Validate
begin

text \<open>
  \<^verbatim>\<open>internal/configgen\<close>: what is rendered from an accepted configuration. The Corefile is built
  block by block (\<^verbatim>\<open>corefile/block.go\<close>); the zone data is kept as the structure that is
  marshalled, since the JSON text only carries it to the plugin; the hosts file is its text.
  The configuration directory is a clean, non-empty path, so that joining path elements is
  putting slashes between them.
\<close>

section \<open>Corefile blocks\<close>

record block =
  blk_addr :: string
  blk_lines :: "string list"

definition newBlock :: "string \<Rightarrow> block" where
  "newBlock addr = \<lparr>blk_addr = addr, blk_lines = []\<rparr>"

definition directive :: "string \<Rightarrow> block \<Rightarrow> block" where
  "directive l b = b\<lparr>blk_lines := blk_lines b @ [l]\<rparr>"

definition directiveIf :: "bool \<Rightarrow> string \<Rightarrow> block \<Rightarrow> block" where
  "directiveIf c l b = (if c then directive l b else b)"

definition subBlock :: "string \<Rightarrow> (block \<Rightarrow> block) \<Rightarrow> block \<Rightarrow> block" where
  "subBlock header inner b =
     (let nested = inner (newBlock []) in
      b\<lparr>blk_lines := blk_lines b @ [header @ '' {''] @ map (\<lambda>l. CHR 0x09 # l) (blk_lines nested) @ [''}'']\<rparr>)"

definition block_string :: "block \<Rightarrow> string" where
  "block_string b = blk_addr b @ '' {'' @ [CHR 0x0A] @
     concat (map (\<lambda>l. CHR 0x09 # l @ [CHR 0x0A]) (blk_lines b)) @ ''}'' @ [CHR 0x0A]"

section \<open>Runtime paths\<close>

definition runtimeCorefilePath :: "string \<Rightarrow> string" where
  "runtimeCorefilePath dir = dir @ ''/.runtime/Corefile''"

definition zoneDataPath :: "string \<Rightarrow> string" where
  "zoneDataPath dir = dir @ ''/.runtime/zones/records.json''"

definition hostsDataPath :: "string \<Rightarrow> string" where
  "hostsDataPath dir = dir @ ''/.runtime/zones/hosts.txt''"

definition queryLogDBPath :: "string \<Rightarrow> string" where
  "queryLogDBPath dir = dir @ ''/.runtime/querylog.db''"

section \<open>Synthesised records\<close>

record vlanAddrs =
  va_v4 :: string
  va_v6 :: string

text \<open>\<^verbatim>\<open>selfip.Result\<close>; the map from VLAN names is an association list with distinct keys.\<close>

record selfip_result =
  si_perVLAN :: "(string \<times> vlanAddrs) list"
  si_primary :: vlanAddrs

definition sortedVLANNames :: "(string \<times> vlanAddrs) list \<Rightarrow> string list" where
  "sortedVLANNames m = sort (map fst m)"

definition pick_family :: "bool \<Rightarrow> vlanAddrs \<Rightarrow> string" where
  "pick_family v4 va = (if v4 then va_v4 va else va_v6 va)"

definition family_override :: "selfip_result \<Rightarrow> bool \<Rightarrow> string \<Rightarrow> vlanOverride list" where
  "family_override ips v4 vl =
     (let v = (case map_of (si_perVLAN ips) vl of None \<Rightarrow> [] | Some va \<Rightarrow> pick_family v4 va) in
      if v \<noteq> [] then [\<lparr>ov_vlan = vl, ov_value = v, ov_ttl = 0, ov_nxdomain = False\<rparr>] else [])"

definition buildFamilyRecord :: "string \<Rightarrow> recordType \<Rightarrow> selfip_result \<Rightarrow> bool \<Rightarrow> dnsRecord option" where
  "buildFamilyRecord name t ips v4 =
     (let r = \<lparr>rec_name = name, rec_type = t, rec_default = pick_family v4 (si_primary ips),
           rec_ttl = 0,
           rec_overrides = concat (map (family_override ips v4) (sortedVLANNames (si_perVLAN ips))),
           rec_match = None\<rparr>
      in if rec_default r = [] \<and> rec_overrides r = [] then None else Some r)"

definition declaredHas :: "recordSet \<Rightarrow> string \<Rightarrow> recordType \<Rightarrow> bool" where
  "declaredHas declared normalized t =
     list_ex (\<lambda>r. rec_normalizedName r = normalized \<and> rec_type r = t) declared"

definition acmeSelfRecords :: "settings \<Rightarrow> recordSet \<Rightarrow> selfip_result \<Rightarrow> recordSet" where
  "acmeSelfRecords s declared ips =
     (let name = normalizedACMEDomain s in
      if name = [] then []
      else let normalized = normalizedHostName name;
               add = (\<lambda>t v4. case buildFamilyRecord name t ips v4 of
                        Some r \<Rightarrow> if \<not> declaredHas declared normalized t then [r] else []
                      | None \<Rightarrow> [])
           in add typeA True @ add typeAAAA False)"

definition hasAddressRecord :: "recordSet \<Rightarrow> string \<Rightarrow> bool" where
  "hasAddressRecord records name = (let normalized = normalizedHostName name in
     list_ex (\<lambda>r. (rec_type r = typeA \<or> rec_type r = typeAAAA) \<and>
       rec_normalizedName r = normalized \<and>
       (rec_default r \<noteq> [] \<or> list_ex (\<lambda>o'. ov_value o' \<noteq> []) (rec_overrides r))) records)"

section \<open>The Corefile\<close>

record options =
  opt_configDir :: string
  opt_certFile :: string
  opt_keyFile :: string
  opt_acmeSelfIPs :: selfip_result

definition itoa_u32 :: "uint32 \<Rightarrow> string" where
  "itoa_u32 w = itoa (uint w)"

definition forwardTarget :: "upstreamTarget \<Rightarrow> string" where
  "forwardTarget u =
     (if up_protocol u = ''dot'' then ''tls://'' @ up_address u
      else if up_protocol u = ''doh'' then ''https://'' @ up_address u
      else up_address u)"

definition writeForward :: "upstreamTarget \<Rightarrow> block \<Rightarrow> block" where
  "writeForward u b =
     (if up_maxFails u = None \<and> up_healthCheckSeconds u = 0 \<and> up_expireSeconds u = 0 \<and>
         \<not> up_preferUDP u \<and> up_maxConcurrent u = 0
      then directive (''forward . '' @ forwardTarget u) b
      else subBlock (''forward . '' @ forwardTarget u) (\<lambda>i.
        directiveIf (up_maxConcurrent u > 0) (''max_concurrent '' @ itoa_u32 (up_maxConcurrent u))
        (directiveIf (up_preferUDP u) ''prefer_udp''
        (directiveIf (up_expireSeconds u > 0) (''expire '' @ itoa_u32 (up_expireSeconds u) @ ''s'')
        (directiveIf (up_healthCheckSeconds u > 0)
           (''health_check '' @ itoa_u32 (up_healthCheckSeconds u) @ ''s'')
        (case up_maxFails u of
           Some f \<Rightarrow> directive (''max_fails '' @ itoa_u32 f) i | None \<Rightarrow> i))))) b)"

definition writeLog :: "settings \<Rightarrow> block \<Rightarrow> block" where
  "writeLog s b =
     (if log_disabled (st_log s) then b
      else if log_classes (st_log s) = [] then directive ''log'' b
      else subBlock ''log'' (directive (''class '' @ joinStr '' '' (log_classes (st_log s)))) b)"

definition writeErrors :: "settings \<Rightarrow> block \<Rightarrow> block" where
  "writeErrors s b =
     (if consolidateDisabled (st_errors s) then directive ''errors'' b
      else subBlock ''errors'' (directive ''consolidate 5m \".* i/o timeout$\" warning'') b)"

definition writeCache :: "settings \<Rightarrow> block \<Rightarrow> block" where
  "writeCache s b = (let c = st_cache s in
     if serveStaleDisabled c \<and> prefetchDisabled c then directive ''vlancache'' b
     else subBlock ''vlancache'' (\<lambda>i.
       directiveIf (\<not> serveStaleDisabled c) ''serve_stale 1h''
         (directiveIf (\<not> prefetchDisabled c) ''prefetch'' i)) b)"

definition writeQueryLog :: "settings \<Rightarrow> block \<Rightarrow> block" where
  "writeQueryLog s b =
     (if \<not> queryLog_enabled (st_queryLog s) then b
      else if capacity (st_queryLog s) \<le> 0 then directive ''querylog'' b
      else subBlock ''querylog'' (directive (''capacity '' @ itoa (capacity (st_queryLog s)))) b)"

definition writeObservability :: "settings \<Rightarrow> block \<Rightarrow> block" where
  "writeObservability s b = (let obs = st_observability s in
     directiveIf (obs_prometheus obs) ''prometheus :9153''
       (directiveIf (obs_ready obs) ''ready :9191''
         (directiveIf (obs_health obs) ''health :9090'' b)))"

definition writeQuic :: "quicListener option \<Rightarrow> string \<Rightarrow> block \<Rightarrow> block" where
  "writeQuic quic plug b = (case quic of
     None \<Rightarrow> b
   | Some q \<Rightarrow>
       if ln_maxStreams q > 0 \<or> ln_workerPoolSize q > 0 then
         subBlock plug (\<lambda>i.
           directiveIf (ln_workerPoolSize q > 0) (''worker_pool_size '' @ itoa (ln_workerPoolSize q))
             (directiveIf (ln_maxStreams q > 0) (''max_streams '' @ itoa (ln_maxStreams q)) i)) b
       else b)"

definition writeLocalRecords :: "settings \<Rightarrow> options \<Rightarrow> block \<Rightarrow> block" where
  "writeLocalRecords s opts b =
     subBlock (''localrecords '' @ joinStr '' '' (ownedZones s)) (\<lambda>i.
       directiveIf (fallthroughZones s \<noteq> []) (''fallthrough '' @ joinStr '' '' (fallthroughZones s))
         (directive (''zonedata '' @ zoneDataPath (opt_configDir opts)) i)) b"

definition buildServerBlock ::
    "string \<Rightarrow> bool \<Rightarrow> quicListener option \<Rightarrow> string \<Rightarrow> settings \<Rightarrow> options \<Rightarrow> bool \<Rightarrow> block" where
  "buildServerBlock addr tls quic plug s opts obs =
     (let b0 = newBlock addr;
          b1 = directiveIf tls (''tls '' @ opt_certFile opts @ '' '' @ opt_keyFile opts) b0;
          b2 = writeQuic quic plug b1;
          b3 = (if tls then subBlock ''timeouts'' (directive ''idle 3m'') b2 else b2);
          b4 = directiveIf (\<not> st_bufsizeDisabled s) ''bufsize 1232'' b3;
          b5 = (if obs then writeObservability s b4 else b4);
          b6 = writeQueryLog s b5;
          b7 = subBlock (''hosts '' @ hostsDataPath (opt_configDir opts) @ '' .'')
                 (directive ''fallthrough'') b6;
          b8 = directiveIf (mdns_enabled (st_mdns s)) ''mdnsbridge'' b7;
          b9 = writeLocalRecords s opts b8;
          b10 = directiveIf (up_ecs (st_upstream s)) ''rewrite edns0 subnet set 32 128'' b9
      in writeLog s (writeErrors s (writeCache s (writeForward (st_upstream s) b10))))"

text \<open>
  The enabled listeners in the fixed order of \<^verbatim>\<open>buildCorefile\<close>: bind address, whether it is
  encrypted, the QUIC tuning and the plugin it is written for.
\<close>

definition enabledListeners :: "settings \<Rightarrow> (string \<times> bool \<times> quicListener option \<times> string) list" where
  "enabledListeners s = (let l = st_listeners s in
     (if ln_enabled (ls_plain l)
      then [(''.:'' @ itoa (ln_port (ls_plain l)), False, None, [])] else []) @
     (if ln_enabled (ls_dot l)
      then [(''tls://.:'' @ itoa (ln_port (ls_dot l)), True, None, [])] else []) @
     (if ln_enabled (ls_doh l)
      then [(''https://.:'' @ itoa (ln_port (ls_doh l)), True, None, [])] else []) @
     (if ln_enabled (ls_doq l)
      then [(''quic://.:'' @ itoa (ln_port (ls_doq l)), True, Some (ls_doq l), ''quic'')] else []) @
     (if ln_enabled (ls_doh3 l)
      then [(''https3://.:'' @ itoa (ln_port (ls_doh3 l)), True, Some (ls_doh3 l), ''https3'')] else []))"

text \<open>\<^verbatim>\<open>nextBlock\<close>: the first block rendered carries the observability directives.\<close>

fun serverBlocks ::
    "settings \<Rightarrow> options \<Rightarrow> bool \<Rightarrow> (string \<times> bool \<times> quicListener option \<times> string) list \<Rightarrow> block list" where
  "serverBlocks s opts obs [] = []"
| "serverBlocks s opts obs ((addr, tls, quic, plug) # ls) =
     buildServerBlock addr tls quic plug s opts obs # serverBlocks s opts False ls"

definition buildCorefile :: "settings \<Rightarrow> options \<Rightarrow> string" where
  "buildCorefile s opts = concat (map block_string (serverBlocks s opts True (enabledListeners s)))"

section \<open>Rendering\<close>

definition renderHostsFile :: "hostSet \<Rightarrow> string" where
  "renderHostsFile hs = ''# generated '' @ [CHR 0xE2, CHR 0x80, CHR 0x94] @ '' do not edit; see /config/hosts.yaml'' @ [CHR 0x0A] @
     concat (map (\<lambda>h. host_ip h @ concat (map (\<lambda>n. CHR '' '' # n) (host_names h)) @ [CHR 0x0A]) hs)"

text \<open>A shadow warning names the host entry and its address.\<close>

definition hostsShadowWarnings :: "hostSet \<Rightarrow> recordSet \<Rightarrow> (string \<times> string) list" where
  "hostsShadowWarnings hs rs = (let recordNames = map rec_normalizedName rs in
     concat (map (\<lambda>h. map (\<lambda>n. (n, host_ip h))
       (filter (\<lambda>n. normalizedHostName n \<in> set recordNames) (host_names h))) hs))"

record zoneData =
  zd_defaultTTL :: uint32
  zd_zones :: "string list"
  zd_records :: recordSet
  zd_ddr :: "ddrRecord list"

record rendered =
  rd_corefile :: string
  rd_zoneData :: zoneData
  rd_hostsData :: string
  rd_warnings :: "(string \<times> string) list"

definition configDefaultTTL :: uint32 where "configDefaultTTL = 300"

datatype render_error = RenderInvalid cfg_error | RenderDDR string

definition staticRecords :: "settings \<Rightarrow> recordSet \<Rightarrow> options \<Rightarrow> recordSet" where
  "staticRecords s rs opts =
     filter (\<lambda>r. \<not> isMDNS r) rs @ acmeSelfRecords s rs (opt_acmeSelfIPs opts)"

definition render :: "settings \<Rightarrow> recordSet \<Rightarrow> hostSet \<Rightarrow> options \<Rightarrow> render_error + rendered" where
  "render s rs hs opts = (case validate s rs hs of
     Some e \<Rightarrow> Inl (RenderInvalid e)
   | None \<Rightarrow>
      (let static = staticRecords s rs opts; ddr = ddrRecords s in
       if ddr \<noteq> [] \<and> \<not> hasAddressRecord static (ddr_target (hd ddr)) then
         Inl (RenderDDR (ddr_target (hd ddr)))
       else Inr \<lparr>rd_corefile = buildCorefile s opts,
         rd_zoneData = \<lparr>zd_defaultTTL = configDefaultTTL, zd_zones = ownedZones s,
           zd_records = static, zd_ddr = ddrRecords s\<rparr>,
         rd_hostsData = renderHostsFile hs,
         rd_warnings = hostsShadowWarnings hs rs\<rparr>))"

section \<open>The records of the zone data\<close>

lemma parsed_no_slash:
  assumes "parseDomainName s = Inr n"
  shows "CHR ''/'' \<notin> set (normalizedHostName s)"
proof -
  have "CHR ''/'' \<notin> set (toLower (trimSuffix (trimSpace s) ''.''))"
    using parseDomainName_InrD(3) [OF assms] set_trimSuffix [of "trimSpace s" "''.''"]
    by (auto simp: set_toLower_punct)
  with parseDomainName_InrD(1) [OF assms] have "CHR ''/'' \<notin> set n" by simp
  then show ?thesis by (simp add: parseDomainName_normalized [OF assms])
qed

lemma dropWhile_toLower: "dropWhile is_space (toLower s) = toLower (dropWhile is_space s)"
  by (induction s) (auto simp: toLower_def)

lemma toLower_rev: "toLower (rev s) = rev (toLower s)"
  by (simp add: toLower_def rev_map)

lemma trimSpace_toLower: "trimSpace (toLower s) = toLower (trimSpace s)"
  by (simp add: trimSpace_def dropWhile_toLower toLower_rev [symmetric])

lemma normalizedHostName_lower_trim:
  "normalizedHostName (toLower (trimSpace s)) = normalizedHostName s"
  by (simp add: normalizedHostName_def trimSpace_toLower)

lemma normalized_acme: "acme_enabled (st_acme s) \<Longrightarrow>
    normalizedHostName (normalizedACMEDomain s) = normalizedHostName (acme_domain (st_acme s))"
  by (simp add: normalizedACMEDomain_def normalizedHostName_lower_trim)

lemma acme_name_in_zone:
  assumes "d = toLower (trimSpace x)" "d \<in> set zones"
  shows "inAnyZone (normalizedHostName d) zones"
proof -
  have d: "toLower d = d" "trimSpace d = d"
    unfolding assms(1) by (simp_all add: trimSpace_toLower)
  have "normalizedHostName d = toLower (trimSuffix d ''.'') @ ''.''"
  proof (cases "hasSuffix d ''.''")
    case True
    then obtain p where p: "d = p @ ''.''" by (auto simp: hasSuffix_iff suffix_def)
    with d(1) have "toLower p = p" by (simp add: toLower_def)
    with p True d show ?thesis by (simp add: normalizedHostName_def Let_def)
  next
    case False
    with d show ?thesis by (simp add: normalizedHostName_def Let_def)
  qed
  with assms(2) show ?thesis by (auto simp: inAnyZone_def list_ex_iff Let_def)
qed

lemma family_override_val:
  "o' \<in> set (family_override ips v4 vl) \<Longrightarrow> ov_value o' \<noteq> [] \<and> \<not> ov_nxdomain o'"
  by (auto simp: family_override_def Let_def split: if_splits)

lemma buildFamilyRecord_Some:
  assumes "buildFamilyRecord name t ips v4 = Some r"
  shows "rec_name r = name" "rec_type r = t" "rec_match r = None"
    "rec_default r \<noteq> [] \<or> anyOverrideProvidesValue r"
proof -
  from assms show "rec_name r = name" "rec_type r = t" "rec_match r = None"
    by (auto simp: buildFamilyRecord_def Let_def split: if_splits)
  from assms have ov: "rec_overrides r = concat (map (family_override ips v4) (sortedVLANNames (si_perVLAN ips)))"
    and "rec_default r \<noteq> [] \<or> rec_overrides r \<noteq> []"
    by (auto simp: buildFamilyRecord_def Let_def split: if_splits)
  moreover have "anyOverrideProvidesValue r" if "rec_overrides r \<noteq> []"
  proof -
    from that have "hd (rec_overrides r) \<in> set (rec_overrides r)" by simp
    then show ?thesis
      unfolding anyOverrideProvidesValue_def list_ex_iff ov by (auto dest: family_override_val)
  qed
  ultimately show "rec_default r \<noteq> [] \<or> anyOverrideProvidesValue r" by blast
qed

lemma acmeSelfRecords_cases:
  assumes "r \<in> set (acmeSelfRecords s declared ips)"
  obtains t v4 where "buildFamilyRecord (normalizedACMEDomain s) t ips v4 = Some r"
    "t \<in> {typeA, typeAAAA}" "normalizedACMEDomain s \<noteq> []"
    "\<not> declaredHas declared (normalizedHostName (normalizedACMEDomain s)) t"
  using assms
  by (auto simp: acmeSelfRecords_def Let_def split: if_splits option.splits)

lemma acmeSelfRecords_types:
  "distinct (map rec_type (acmeSelfRecords s declared ips))"
  by (auto simp: acmeSelfRecords_def Let_def dest!: buildFamilyRecord_Some(2) split: option.splits)

lemma acme_valid:
  assumes "validate s rs hs = None" "normalizedACMEDomain s \<noteq> []"
  shows "acme_enabled (st_acme s)" "\<exists>n. parseDomainName (acme_domain (st_acme s)) = Inr n"
  using validate_None(5) [OF assms(1)] assms(2)
  by (auto simp: normalizedACMEDomain_def validateACME_def domain_err_None split: if_splits option.splits)

lemma staticRecords_distinct:
  assumes v: "validate s rs hs = None"
  shows "distinct (map record_key (staticRecords s rs opts))"
proof -
  let ?A = "acmeSelfRecords s rs (opt_acmeSelfIPs opts)"
  let ?d = "normalizedACMEDomain s"
  have R: "distinct (map record_key rs)" "\<forall>r\<in>set rs. \<exists>n. parseDomainName (rec_name r) = Inr n"
    using validateRecordsFrom_None [of rs _ _ "[]"] validate_None(8) [OF v]
    by (auto simp: validateRecords_def)
  have key: "record_key r = normalizedHostName ?d @ ''/'' @ rec_type r" if "r \<in> set ?A" for r
    using that by (auto elim!: acmeSelfRecords_cases dest: buildFamilyRecord_Some(1)
        simp: record_key_def rec_normalizedName_eq)
  have "inj_on record_key (set ?A)" if "distinct (map rec_type ?A)"
    using that key by (auto intro!: inj_onI simp: distinct_map dest: inj_onD)
  then have dA: "distinct (map record_key ?A)"
    using acmeSelfRecords_types [of s rs "opt_acmeSelfIPs opts"] by (auto simp: distinct_map)
  have "record_key q \<noteq> record_key r" if q: "q \<in> set rs" and r: "r \<in> set ?A" for q r
  proof
    assume eq: "record_key q = record_key r"
    from r obtain t v4 where t: "buildFamilyRecord ?d t (opt_acmeSelfIPs opts) v4 = Some r"
      "?d \<noteq> []" "\<not> declaredHas rs (normalizedHostName ?d) t"
      by (rule acmeSelfRecords_cases)
    have "CHR ''/'' \<notin> set (normalizedHostName ?d)"
      using acme_valid [OF v t(2)] parsed_no_slash normalized_acme by metis
    moreover have "CHR ''/'' \<notin> set (rec_normalizedName q)"
      using R(2) q parsed_no_slash by (auto simp: rec_normalizedName_eq)
    ultimately have "rec_normalizedName q = normalizedHostName ?d \<and> rec_type q = rec_type r"
      using eq key [OF r] append_sep_inj [of "rec_normalizedName q" "CHR ''/''" "rec_type q"
          "normalizedHostName ?d" "rec_type r"] by (simp add: record_key_def)
    with q t(3) buildFamilyRecord_Some [OF t(1)] show False
      by (auto simp: declaredHas_def list_ex_iff)
  qed
  with R(1) dA show ?thesis
    by (auto simp: staticRecords_def distinct_map filter_map intro: inj_on_subset distinct_filter)
qed

lemma inAnyZone_static:
  assumes v: "validate s rs hs = None" and r: "r \<in> set (staticRecords s rs opts)"
  shows "inAnyZone (rec_normalizedName r) (ownedZones s)"
proof (cases "r \<in> set rs")
  case True
  then show ?thesis
    using validateRecordsFrom_None [of rs _ _ "[]"] validate_None(8) [OF v]
    by (auto simp: validateRecords_def)
next
  case False
  with r have "r \<in> set (acmeSelfRecords s rs (opt_acmeSelfIPs opts))"
    by (simp add: staticRecords_def)
  then obtain t v4 where t: "buildFamilyRecord (normalizedACMEDomain s) t (opt_acmeSelfIPs opts) v4 = Some r"
    "normalizedACMEDomain s \<noteq> []"
    by (rule acmeSelfRecords_cases)
  have "inAnyZone (normalizedHostName (normalizedACMEDomain s)) (ownedZones s)"
    by (rule acme_name_in_zone [where x = "acme_domain (st_acme s)"])
      (use t(2) acme_valid(1) [OF v t(2)] in \<open>auto simp: normalizedACMEDomain_def ownedZones_def\<close>)
  with buildFamilyRecord_Some(1) [OF t(1)] show ?thesis by (simp add: rec_normalizedName_eq)
qed

lemma static_answers:
  assumes v: "validate s rs hs = None" and r: "r \<in> set (staticRecords s rs opts)"
  shows "rec_type r \<in> {typeA, typeAAAA, typeCNAME} \<and> (rec_default r \<noteq> [] \<or> anyOverrideProvidesValue r)"
proof (cases "r \<in> set rs")
  case True
  with r have "\<not> isMDNS r \<or> r \<in> set (acmeSelfRecords s rs (opt_acmeSelfIPs opts))"
    by (auto simp: staticRecords_def)
  then show ?thesis
  proof
    assume "\<not> isMDNS r"
    with True have "validateStaticRecord r (map vlan_name (st_vlans s)) = None"
      using validateRecordsFrom_None [of rs _ _ "[]"] validate_None(8) [OF v]
      by (auto simp: validateRecords_def)
    from validateStaticRecord_None(1,5) [OF this] show ?thesis by blast
  qed (auto elim!: acmeSelfRecords_cases dest: buildFamilyRecord_Some)
next
  case False
  with r show ?thesis
    by (auto simp: staticRecords_def elim!: acmeSelfRecords_cases dest: buildFamilyRecord_Some)
qed

section \<open>The lines of a block\<close>

lemma blk_lines_simps [simp]:
  "blk_lines (newBlock a) = []"
  "blk_lines (directive l b) = blk_lines b @ [l]"
  "blk_lines (directiveIf c l b) = blk_lines b @ (if c then [l] else [])"
  "blk_lines (subBlock h f b) = blk_lines b @ [h @ '' {''] @
     map (\<lambda>l. CHR 0x09 # l) (blk_lines (f (newBlock []))) @ [''}'']"
  by (simp_all add: newBlock_def directive_def directiveIf_def subBlock_def Let_def)

definition obs_line :: "string \<Rightarrow> bool" where
  "obs_line l \<longleftrightarrow> l \<in> {''health :9090'', ''ready :9191'', ''prometheus :9153''}"

lemma obs_line_intros [simp]:
  "obs_line ''health :9090''" "obs_line ''ready :9191''" "obs_line ''prometheus :9153''"
  by (simp_all add: obs_line_def)

lemma obs_line_hd: "obs_line l \<Longrightarrow> c \<notin> {CHR ''h'', CHR ''r'', CHR ''p''} \<Longrightarrow> c # x \<noteq> l"
  by (auto simp: obs_line_def)

lemma obs_line_last: "obs_line l \<Longrightarrow> h @ '' {'' \<noteq> l"
  by (auto simp: obs_line_def dest!: arg_cong [where f = last])

lemma obs_line_rewrite: "obs_line l \<Longrightarrow> ''rewrite edns0 subnet set 32 128'' \<noteq> l"
  by (auto simp: obs_line_def)

lemma count_tabbed: "obs_line l \<Longrightarrow> count_list (map (\<lambda>x. CHR 0x09 # x) xs) l = 0"
  by (induction xs) (simp_all add: obs_line_hd)

lemma count_sub: "obs_line l \<Longrightarrow> count_list (blk_lines (subBlock h f b)) l = count_list (blk_lines b) l"
  by (simp add: count_tabbed obs_line_last obs_line_hd)

lemma count_other:
  "x \<noteq> l \<Longrightarrow> count_list (blk_lines (directive x b)) l = count_list (blk_lines b) l"
  "x \<noteq> l \<Longrightarrow> count_list (blk_lines (directiveIf g x b)) l = count_list (blk_lines b) l"
  by (simp, cases g) simp_all

lemma count_dir:
  assumes l: "obs_line l"
  shows "c \<notin> {CHR ''h'', CHR ''r'', CHR ''p''} \<Longrightarrow>
      count_list (blk_lines (directive (c # x) b)) l = count_list (blk_lines b) l"
    "c \<notin> {CHR ''h'', CHR ''r'', CHR ''p''} \<Longrightarrow>
      count_list (blk_lines (directiveIf g (c # x) b)) l = count_list (blk_lines b) l"
    "count_list (blk_lines (directiveIf g ''rewrite edns0 subnet set 32 128'' b)) l =
      count_list (blk_lines b) l"
  by (rule count_other, erule obs_line_hd [OF l])+ (rule count_other, rule obs_line_rewrite [OF l])

lemmas count_rules = count_sub count_dir

lemma count_write:
  assumes "obs_line l"
  shows "count_list (blk_lines (writeForward u b)) l = count_list (blk_lines b) l"
    "count_list (blk_lines (writeLog s b)) l = count_list (blk_lines b) l"
    "count_list (blk_lines (writeErrors s b)) l = count_list (blk_lines b) l"
    "count_list (blk_lines (writeCache s b)) l = count_list (blk_lines b) l"
    "count_list (blk_lines (writeQueryLog s b)) l = count_list (blk_lines b) l"
    "count_list (blk_lines (writeQuic q plug b)) l = count_list (blk_lines b) l"
    "count_list (blk_lines (writeLocalRecords s opts b)) l = count_list (blk_lines b) l"
  using assms
  by (simp_all del: blk_lines_simps add: writeForward_def writeLog_def writeErrors_def
      writeCache_def writeQueryLog_def writeQuic_def writeLocalRecords_def Let_def count_rules
      split: option.split)

lemma count_observability:
  "count_list (blk_lines (writeObservability s b)) l =
     count_list (blk_lines b) l + count_list (blk_lines (writeObservability s (newBlock []))) l"
  by (simp add: writeObservability_def Let_def)

lemma count_block:
  assumes "obs_line l"
  shows "count_list (blk_lines (buildServerBlock addr tls quic plug s opts obs)) l =
     (if obs then count_list (blk_lines (writeObservability s (newBlock []))) l else 0)"
proof -
  obtain m where m: "count_list (blk_lines (writeObservability s (newBlock []))) l = m" by blast
  have obs: "count_list (blk_lines (writeObservability s b)) l = count_list (blk_lines b) l + m" for b
    using count_observability [of s b l] unfolding m .
  have "count_list (blk_lines (newBlock a)) l = 0" for a by simp
  then show ?thesis
    using assms
    by (simp del: blk_lines_simps add: buildServerBlock_def Let_def count_rules count_write obs)
qed

lemma count_blocks:
  assumes "obs_line l"
  shows "sum_list (map (\<lambda>b. count_list (blk_lines b) l) (serverBlocks s opts obs ls)) =
     (if obs \<and> ls \<noteq> [] then count_list (blk_lines (writeObservability s (newBlock []))) l else 0)"
proof (induction ls arbitrary: obs)
  case (Cons x ls)
  obtain addr tls quic plug where "x = (addr, tls, quic, plug)" by (cases x)
  with Cons show ?case using count_block [OF assms] by simp
qed simp

lemma serverBlocks_length: "length (serverBlocks s opts obs ls) = length ls"
  by (induction s opts obs ls rule: serverBlocks.induct) auto

section \<open>A sample configuration\<close>

text \<open>An encrypted listener with an ACME domain, one alias and one VLAN with an address of its own.\<close>

definition exSettings :: settings where
  "exSettings = defaultSettings\<lparr>
     st_acme := zero_acme\<lparr>acme_enabled := True, acme_domain := ''dns.example.org'',
       acme_email := ''a@example.org'', acme_dnsProvider := ''cloudflare''\<rparr>,
     st_listeners := (st_listeners defaultSettings)\<lparr>ls_dot := \<lparr>ln_enabled = True, ln_port = 853\<rparr>\<rparr>\<rparr>"

definition exRecords :: recordSet where
  "exRecords = [\<lparr>rec_name = ''www.home.arpa'', rec_type = typeCNAME, rec_default = ''nas.home.arpa'',
     rec_ttl = 0, rec_overrides = [], rec_match = None\<rparr>]"

definition exOptions :: options where
  "exOptions = \<lparr>opt_configDir = ''/config'', opt_certFile = ''/c.pem'', opt_keyFile = ''/k.pem'',
     opt_acmeSelfIPs = \<lparr>si_perVLAN = [(''lan'', \<lparr>va_v4 = ''10.0.0.2'', va_v6 = []\<rparr>)],
       si_primary = \<lparr>va_v4 = ''10.0.0.3'', va_v6 = []\<rparr>\<rparr>\<rparr>"

lemma exSettings_valid: "validate exSettings exRecords [] = None"
  by code_simp

lemma exSettings_ddr: "ddrRecords exSettings \<noteq> []"
  "hasAddressRecord (staticRecords exSettings exRecords exOptions) (ddr_target (hd (ddrRecords exSettings)))"
  by code_simp+

lemma exSettings_renders: "\<exists>out. render exSettings exRecords [] exOptions = Inr out \<and> zd_ddr (rd_zoneData out) \<noteq> []"
  using exSettings_valid exSettings_ddr by (simp add: render_def Let_def)

section \<open>Properties\<close>

text \<open>
  C29. A configuration is rendered only if it is valid, and the zone data it is rendered to is
  well formed: no live mDNS record is in it, every record is of a type the plugin loads and has
  a value for some client, every name lies in an owned zone, no two records share a name and a
  type (the synthesised address records of the ACME domain included), and if designated
  resolvers are announced their target has an address record.
\<close>

theorem render_wellformed:
  assumes "render s rs hs opts = Inr out"
  shows "validate s rs hs = None \<and>
    (\<forall>r\<in>set (zd_records (rd_zoneData out)).
       rec_type r \<in> {typeA, typeAAAA, typeCNAME} \<and> \<not> isMDNS r \<and>
       (rec_default r \<noteq> [] \<or> anyOverrideProvidesValue r) \<and>
       inAnyZone (rec_normalizedName r) (zd_zones (rd_zoneData out))) \<and>
    distinct (map record_key (zd_records (rd_zoneData out))) \<and>
    filter (\<lambda>r. \<not> isMDNS r) rs = take (length (filter (\<lambda>r. \<not> isMDNS r) rs)) (zd_records (rd_zoneData out)) \<and>
    (zd_ddr (rd_zoneData out) \<noteq> [] \<longrightarrow>
       hasAddressRecord (zd_records (rd_zoneData out)) (normalizedACMEDomain s))"
proof -
  from assms have v: "validate s rs hs = None"
    and z: "rd_zoneData out = \<lparr>zd_defaultTTL = configDefaultTTL, zd_zones = ownedZones s,
      zd_records = staticRecords s rs opts, zd_ddr = ddrRecords s\<rparr>"
    and d: "ddrRecords s = [] \<or> hasAddressRecord (staticRecords s rs opts) (ddr_target (hd (ddrRecords s)))"
    by (auto simp: render_def Let_def split: option.splits if_splits)
  have "ddr_target (hd (ddrRecords s)) = normalizedACMEDomain s" if "ddrRecords s \<noteq> []"
    using that by (auto intro: ddrRecords_target)
  with d have dd: "ddrRecords s \<noteq> [] \<longrightarrow> hasAddressRecord (staticRecords s rs opts) (normalizedACMEDomain s)"
    by auto
  have recs: "rec_type r \<in> {typeA, typeAAAA, typeCNAME} \<and> \<not> isMDNS r \<and>
      (rec_default r \<noteq> [] \<or> anyOverrideProvidesValue r) \<and>
      inAnyZone (rec_normalizedName r) (ownedZones s)"
    if r: "r \<in> set (staticRecords s rs opts)" for r
    using static_answers [OF v r] inAnyZone_static [OF v r] by (auto simp: isMDNS_def)
  have pre: "filter (\<lambda>r. \<not> isMDNS r) rs =
      take (length (filter (\<lambda>r. \<not> isMDNS r) rs)) (staticRecords s rs opts)"
    by (simp add: staticRecords_def)
  show ?thesis
    unfolding z
    using v dd recs pre staticRecords_distinct [OF v] by simp
qed

theorem render_wellformed_witness:
  "\<exists>out. render exSettings exRecords [] exOptions = Inr out \<and>
     distinct (map record_key (zd_records (rd_zoneData out))) \<and> zd_ddr (rd_zoneData out) \<noteq> [] \<and>
     hasAddressRecord (zd_records (rd_zoneData out)) (normalizedACMEDomain exSettings)"
proof -
  obtain out where o: "render exSettings exRecords [] exOptions = Inr out" "zd_ddr (rd_zoneData out) \<noteq> []"
    using exSettings_renders by blast
  with render_wellformed [OF o(1)] show ?thesis by blast
qed

text \<open>
  Each of the process-wide directives \<^verbatim>\<open>health\<close>, \<^verbatim>\<open>ready\<close> and \<^verbatim>\<open>prometheus\<close> is rendered exactly once
  in the whole Corefile when it is switched on and some listener is enabled, and not at all
  otherwise, whatever the number of listeners; and there is one server block per enabled
  listener.
\<close>

theorem observability_once:
  "length (serverBlocks s opts True (enabledListeners s)) = length (enabledListeners s) \<and>
   sum_list (map (\<lambda>b. count_list (blk_lines b) ''health :9090'') (serverBlocks s opts True (enabledListeners s)))
     = (if enabledListeners s \<noteq> [] \<and> obs_health (st_observability s) then 1 else 0) \<and>
   sum_list (map (\<lambda>b. count_list (blk_lines b) ''ready :9191'') (serverBlocks s opts True (enabledListeners s)))
     = (if enabledListeners s \<noteq> [] \<and> obs_ready (st_observability s) then 1 else 0) \<and>
   sum_list (map (\<lambda>b. count_list (blk_lines b) ''prometheus :9153'') (serverBlocks s opts True (enabledListeners s)))
     = (if enabledListeners s \<noteq> [] \<and> obs_prometheus (st_observability s) then 1 else 0)"
  by (simp add: count_blocks serverBlocks_length writeObservability_def Let_def)

end
