(* ===== verification/Dns_Chain.thy ===== *)
theory Dns_Chain
  imports Vlan_Match
begin

text \<open>
  What the DNS plugins share: resource records and messages as far as the plugins build and
  read them, what \<^verbatim>\<open>request.Request\<close> reports of a query, the query-log entry that travels in
  the request context (\<^verbatim>\<open>plugins/querylog/entry.go\<close>, \<^verbatim>\<open>context.go\<close>), and the type of the
  next handler of the chain.

  The rest of the chain is third-party code or another plugin. It is an argument of the model:
  a function of the query, of the entry in the context and of a state of a type of its own, so
  that "the query is not passed on" is the statement that this state is unchanged. The entry is
  a pointer in the code; a handler returns it updated.
\<close>

section \<open>Records and messages\<close>

definition dnsTypeA :: uint16 where [simp, code_abbrev]: "dnsTypeA = 1"
definition dnsTypeCNAME :: uint16 where [simp, code_abbrev]: "dnsTypeCNAME = 5"
definition dnsTypeSOA :: uint16 where [simp, code_abbrev]: "dnsTypeSOA = 6"
definition dnsTypeAAAA :: uint16 where [simp, code_abbrev]: "dnsTypeAAAA = 28"
definition dnsTypeOPT :: uint16 where [simp, code_abbrev]: "dnsTypeOPT = 41"
definition dnsTypeSVCB :: uint16 where [simp, code_abbrev]: "dnsTypeSVCB = 64"

abbreviation (input) rcodeSuccess :: int where "rcodeSuccess \<equiv> 0"
abbreviation (input) rcodeServerFailure :: int where "rcodeServerFailure \<equiv> 2"
abbreviation (input) rcodeNameError :: int where "rcodeNameError \<equiv> 3"

record rr_hdr =
  hdr_name :: string
  hdr_rrtype :: uint16
  hdr_ttl :: uint32

datatype svcb_kv = Alpn "string list" | SvcPort uint16 | DohPath string

text \<open>An option of an OPT record: a client subnet with its family and scope, or another one.\<close>

datatype edns_option = Subnet nat nat | OtherOption string

text \<open>The records the plugins build or look into; any other record is \<open>OtherRR\<close> with its content unread.\<close>

datatype rr =
    RR_A rr_hdr ip
  | RR_AAAA rr_hdr ip
  | RR_CNAME rr_hdr string
  | RR_DNAME rr_hdr string
  | RR_OPT rr_hdr "edns_option list"
  | RR_SVCB rr_hdr uint16 string "svcb_kv list"
  | RR_SOA rr_hdr string string uint32 uint32 uint32 uint32 uint32
  | OtherRR rr_hdr string

fun rr_header :: "rr \<Rightarrow> rr_hdr" where
  "rr_header (RR_A h _) = h"
| "rr_header (RR_AAAA h _) = h"
| "rr_header (RR_CNAME h _) = h"
| "rr_header (RR_DNAME h _) = h"
| "rr_header (RR_OPT h _) = h"
| "rr_header (RR_SVCB h _ _ _) = h"
| "rr_header (RR_SOA h _ _ _ _ _ _ _) = h"
| "rr_header (OtherRR h _) = h"

text \<open>A copy of a record with another header.\<close>

fun rr_set_header :: "rr_hdr \<Rightarrow> rr \<Rightarrow> rr" where
  "rr_set_header h (RR_A _ a) = RR_A h a"
| "rr_set_header h (RR_AAAA _ a) = RR_AAAA h a"
| "rr_set_header h (RR_CNAME _ t) = RR_CNAME h t"
| "rr_set_header h (RR_DNAME _ t) = RR_DNAME h t"
| "rr_set_header h (RR_OPT _ os) = RR_OPT h os"
| "rr_set_header h (RR_SVCB _ p t kvs) = RR_SVCB h p t kvs"
| "rr_set_header h (RR_SOA _ n m s r t e i) = RR_SOA h n m s r t e i"
| "rr_set_header h (OtherRR _ d) = OtherRR h d"

lemma rr_header_set [simp]: "rr_header (rr_set_header h r) = h"
  by (cases r) simp_all

lemma rr_set_header_set [simp]: "rr_set_header h (rr_set_header g r) = rr_set_header h r"
  by (cases r) simp_all

record msg =
  m_id :: uint16
  m_rcode :: int
  m_response :: bool
  m_authoritative :: bool
  m_ad :: bool
  m_rd :: bool
  m_ra :: bool
  m_cd :: bool
  m_truncated :: bool
  m_question :: "(string \<times> uint16) list"
  m_answer :: "rr list"
  m_ns :: "rr list"
  m_extra :: "rr list"

section \<open>Requests and the query-log entry\<close>

text \<open>What \<^verbatim>\<open>request.Request\<close> reports of the query and its connection.\<close>

record request =
  rq_name :: string
  rq_qtype :: uint16
  rq_do :: bool
  rq_ip :: string
  rq_family :: nat
  rq_localAddr :: string
  rq_proto :: string
  rq_msg :: msg

record entry =
  e_timestamp :: time
  e_clientIP :: string
  e_clientVLAN :: string
  e_qname :: string
  e_qtype :: uint16
  e_verdict :: string
  e_source :: string
  e_rcode :: int
  e_latency :: duration
  e_cacheOutcome :: string
  e_listener :: string
  e_proto :: string
  e_authenticatedData :: bool
  e_answerType :: string

text \<open>\<^verbatim>\<open>NewContext\<close> and \<^verbatim>\<open>FromContext\<close>: the context carries an entry or none.\<close>

type_synonym context_entry = "entry option"

definition newContext :: "entry \<Rightarrow> context_entry \<Rightarrow> context_entry" where
  "newContext e ctx = Some e"

definition fromContext :: "context_entry \<Rightarrow> entry option" where
  "fromContext ctx = ctx"

section \<open>Handlers\<close>

text \<open>
  What a handler leaves behind: the return code, whether an error is returned, the message
  written to the client, if any, and the entry of the context.
\<close>

record outcome =
  oc_rcode :: int
  oc_err :: bool
  oc_written :: "msg option"
  oc_ctx :: context_entry

type_synonym 's handler = "request \<Rightarrow> context_entry \<Rightarrow> 's \<Rightarrow> outcome \<times> 's"

text \<open>The documented behaviour of the helpers of the CoreDNS and miekg/dns packages.\<close>

text \<open>\<^verbatim>\<open>plugin.Zones.Matches\<close>: a zone of the list that is a suffix of the name, \<open>[]\<close> if none is.\<close>

definition zones_matches_doc :: "(string list \<Rightarrow> string \<Rightarrow> string) \<Rightarrow> bool" where
  "zones_matches_doc m \<longleftrightarrow>
     (\<forall>zs q. (m zs q \<noteq> [] \<longrightarrow> m zs q \<in> set zs \<and> hasSuffix q (m zs q)) \<and>
       ((\<exists>z\<in>set zs. z \<noteq> [] \<and> (q = z \<or> hasSuffix q (CHR ''.'' # z))) \<longrightarrow> m zs q \<noteq> []))"

text \<open>
  \<^verbatim>\<open>dns.CanonicalName\<close>: lower-case and fully qualified. A name with a backslash may end in an
  escaped dot; nothing is said of those.
\<close>

definition canonical_doc :: "(string \<Rightarrow> string) \<Rightarrow> bool" where
  "canonical_doc canon \<longleftrightarrow>
     (\<forall>s. CHR 0x5C \<notin> set s \<longrightarrow>
        canon s = toLower (if hasSuffix s ''.'' then s else s @ ''.''))"

text \<open>\<^verbatim>\<open>Msg.SetReply\<close>: a reply with the question of the request and no records.\<close>

definition set_reply_doc :: "(msg \<Rightarrow> msg) \<Rightarrow> bool" where
  "set_reply_doc sr \<longleftrightarrow>
     (\<forall>r. m_id (sr r) = m_id r \<and> m_response (sr r) \<and> m_rcode (sr r) = rcodeSuccess \<and>
        m_answer (sr r) = [] \<and> m_ns (sr r) = [] \<and> m_extra (sr r) = [])"

section \<open>Instances of the helpers\<close>

text \<open>Concrete functions with the documented behaviour, for evaluating examples.\<close>

definition simpleMatches :: "string list \<Rightarrow> string \<Rightarrow> string" where
  "simpleMatches zs q = (case find (\<lambda>z. z \<noteq> [] \<and> (q = z \<or> hasSuffix q (CHR ''.'' # z))) zs of
     None \<Rightarrow> [] | Some z \<Rightarrow> z)"

definition simpleCanon :: "string \<Rightarrow> string" where
  "simpleCanon s = toLower (if hasSuffix s ''.'' then s else s @ ''.'')"

definition simpleReply :: "msg \<Rightarrow> msg" where
  "simpleReply r = r\<lparr>m_response := True, m_rcode := rcodeSuccess, m_authoritative := False,
     m_ad := False, m_answer := [], m_ns := [], m_extra := []\<rparr>"

lemma simpleMatches_doc: "zones_matches_doc simpleMatches"
  by (auto simp: zones_matches_doc_def simpleMatches_def hasSuffix_iff find_None_conv
      split: option.splits dest!: find_SomeD dest: suffix_ConsD)

lemma simpleCanon_doc: "canonical_doc simpleCanon"
  by (simp add: canonical_doc_def simpleCanon_def)

lemma simpleReply_doc: "set_reply_doc simpleReply"
  by (simp add: set_reply_doc_def simpleReply_def)

definition zero_msg :: msg where
  "zero_msg = \<lparr>m_id = 0, m_rcode = rcodeSuccess, m_response = False, m_authoritative = False,
     m_ad = False, m_rd = False, m_ra = False, m_cd = False, m_truncated = False,
     m_question = [], m_answer = [], m_ns = [], m_extra = []\<rparr>"

end
