(* ===== verification/Log_Ring.thy ===== *)
theory Log_Ring
  imports Dns_Chain
begin

text \<open>
  The live query log: \<^verbatim>\<open>plugins/querylog/ring.go\<close> (a ring buffer of the latest entries and the
  filter of a snapshot) and \<^verbatim>\<open>current.go\<close> (the process-wide ring).

  The locale \<open>bounded_log\<close> is what its readers rely on: a log of bounded capacity that shows
  the latest pushes, newest first. The ring is an interpretation of it.
\<close>

section \<open>Filters\<close>

record log_filter =
  f_qname :: string
  f_client :: string
  f_vlan :: string
  f_qtype :: uint16

definition containsFold :: "string \<Rightarrow> string \<Rightarrow> bool" where
  "containsFold s sub = containsStr (toLower s) (toLower sub)"

definition filter_matches :: "log_filter \<Rightarrow> entry \<Rightarrow> bool" where
  "filter_matches f e =
     (if f_qname f \<noteq> [] \<and> \<not> containsFold (e_qname e) (f_qname f) then False
      else if f_client f \<noteq> [] \<and> \<not> containsFold (e_clientIP e) (f_client f) then False
      else if f_vlan f \<noteq> [] \<and> e_clientVLAN e \<noteq> f_vlan f then False
      else if f_qtype f \<noteq> 0 \<and> e_qtype e \<noteq> f_qtype f then False
      else True)"

definition no_filter :: log_filter where
  "no_filter = \<lparr>f_qname = [], f_client = [], f_vlan = [], f_qtype = 0\<rparr>"

section \<open>The ring\<close>

text \<open>The zero value of an entry fills the buffer of a new ring.\<close>

definition zero_entry :: entry where
  "zero_entry = \<lparr>e_timestamp = 0, e_clientIP = [], e_clientVLAN = [], e_qname = [], e_qtype = 0,
     e_verdict = [], e_source = [], e_rcode = 0, e_latency = 0, e_cacheOutcome = [], e_listener = [],
     e_proto = [], e_authenticatedData = False, e_answerType = []\<rparr>"

record ring =
  rb_buf :: "entry list"
  rb_head :: nat
  rb_size :: nat

definition newRing :: "nat \<Rightarrow> ring" where
  "newRing n = \<lparr>rb_buf = replicate n zero_entry, rb_head = 0, rb_size = 0\<rparr>"

definition ring_cap :: "ring \<Rightarrow> nat" where
  "ring_cap r = length (rb_buf r)"

text \<open>\<^verbatim>\<open>Push\<close>; \<open>None\<close> is the panic of writing past the end of the buffer.\<close>

definition ring_push :: "entry \<Rightarrow> ring \<Rightarrow> ring option" where
  "ring_push e r =
     (if rb_head r < length (rb_buf r) then
        Some (r\<lparr>rb_buf := (rb_buf r)[rb_head r := e],
          rb_head := (rb_head r + 1) mod length (rb_buf r),
          rb_size := (if rb_size r < length (rb_buf r) then rb_size r + 1 else rb_size r)\<rparr>)
      else None)"

text \<open>The entry \<open>i\<close> steps back from the latest; \<open>i\<close> is below the size, so nothing is negative.\<close>

definition ring_at :: "ring \<Rightarrow> nat \<Rightarrow> entry" where
  "ring_at r i = rb_buf r ! ((rb_head r + length (rb_buf r) - 1 - i) mod length (rb_buf r))"

definition snapshot :: "log_filter \<Rightarrow> ring \<Rightarrow> entry list" where
  "snapshot f r = filter (filter_matches f) (map (ring_at r) [0..<rb_size r])"

section \<open>The process-wide ring\<close>

record ring_state =
  rs_current :: "ring option"

definition setCurrentRing :: "ring \<Rightarrow> ring_state \<Rightarrow> ring_state" where
  "setCurrentRing r s = s\<lparr>rs_current := Some r\<rparr>"

definition currentRing :: "ring_state \<Rightarrow> ring option" where
  "currentRing s = rs_current s"

definition defaultCapacity :: nat where "defaultCapacity = 4096"

text \<open>
  The decision \<^verbatim>\<open>setup\<close> makes for every server block of a parse: the first block replaces the
  ring if there is none or its capacity changed, the later ones take what is there. \<open>marked\<close>
  is the marker kept for the parse.
\<close>

definition setupRing :: "nat \<Rightarrow> bool \<Rightarrow> ring_state \<Rightarrow> bool \<times> ring_state" where
  "setupRing capacity' marked s =
     (if \<not> marked then
        (True, case currentRing s of
           None \<Rightarrow> setCurrentRing (newRing capacity') s
         | Some r \<Rightarrow> if ring_cap r \<noteq> capacity' then setCurrentRing (newRing capacity') s else s)
      else (marked, s))"

fun setupBlocks :: "nat list \<Rightarrow> bool \<Rightarrow> ring_state \<Rightarrow> ring option list \<times> ring_state" where
  "setupBlocks [] marked s = ([], s)"
| "setupBlocks (c # cs) marked s =
     (let (marked', s') = setupRing c marked s; (rs, s'') = setupBlocks cs marked' s' in
      (currentRing s' # rs, s''))"

section \<open>The contract of a bounded log\<close>

locale bounded_log =
  fixes push :: "'a \<Rightarrow> 'q \<Rightarrow> 'q"
    and cap :: "'q \<Rightarrow> nat"
    and recent :: "'q \<Rightarrow> 'a list"
    and invar :: "'q \<Rightarrow> bool"
  assumes invar_push: "invar q \<Longrightarrow> invar (push x q)"
    and cap_push: "invar q \<Longrightarrow> cap (push x q) = cap q"
    and recent_push: "invar q \<Longrightarrow> recent (push x q) = take (cap q) (x # recent q)"
    and recent_bound: "invar q \<Longrightarrow> length (recent q) \<le> cap q"
begin

lemma invar_pushes: "invar q \<Longrightarrow> invar (fold push xs q) \<and> cap (fold push xs q) = cap q"
  by (induction xs arbitrary: q) (auto simp: invar_push cap_push)

lemma recent_pushes: "invar q \<Longrightarrow> recent (fold push xs q) = take (cap q) (rev xs @ recent q)"
proof (induction xs arbitrary: q)
  case Nil
  then show ?case by (simp add: recent_bound)
next
  case (Cons x xs)
  have "recent (fold push (x # xs) q) = take (cap q) (rev xs @ take (cap q) (x # recent q))"
    using Cons by (simp add: invar_push cap_push recent_push)
  also have "\<dots> = take (cap q) (rev xs @ x # recent q)" by (simp add: min_def)
  finally show ?case by simp
qed

text \<open>Nothing is shown that was not pushed or there before, and the order is that of the pushes.\<close>

lemma recent_pushed: "invar q \<Longrightarrow> set (recent (fold push xs q)) \<subseteq> set xs \<union> set (recent q)"
  by (auto simp: recent_pushes dest!: in_set_takeD)

lemma recent_complete: "invar q \<Longrightarrow> length xs \<le> cap q \<Longrightarrow> set xs \<subseteq> set (recent (fold push xs q))"
  by (auto simp: recent_pushes)

end

definition ring_inv :: "ring \<Rightarrow> bool" where
  "ring_inv r \<longleftrightarrow> rb_head r < length (rb_buf r) \<and> rb_size r \<le> length (rb_buf r) \<and>
     (rb_size r < length (rb_buf r) \<longrightarrow> rb_head r = rb_size r)"

definition ring_recent :: "ring \<Rightarrow> entry list" where
  "ring_recent r = map (ring_at r) [0..<rb_size r]"

definition ring_pushed :: "entry \<Rightarrow> ring \<Rightarrow> ring" where
  "ring_pushed e r = (case ring_push e r of Some r' \<Rightarrow> r' | None \<Rightarrow> r)"

lemma ring_push_Some: "ring_inv r \<Longrightarrow> ring_push e r = Some (ring_pushed e r)"
  by (simp add: ring_pushed_def ring_push_def ring_inv_def)

lemma ring_inv_new: "0 < n \<Longrightarrow> ring_inv (newRing n)"
  by (simp add: ring_inv_def newRing_def)

lemma ring_inv_push: "ring_inv r \<Longrightarrow> ring_inv (ring_pushed e r)"
proof -
  assume inv: "ring_inv r"
  let ?n = "length (rb_buf r)"
  have "(rb_head r + 1) mod ?n = rb_size r + 1" if "rb_size r + 1 < ?n"
    using inv that by (auto simp: ring_inv_def)
  moreover have "(rb_head r + 1) mod ?n < ?n"
    using inv by (intro mod_less_divisor) (auto simp: ring_inv_def)
  ultimately show ?thesis using inv by (auto simp: ring_pushed_def ring_push_def ring_inv_def)
qed

lemma ring_at_pushed:
  assumes inv: "ring_inv r" and i: "i < length (rb_buf r)"
  shows "ring_at (ring_pushed e r) i = (if i = 0 then e else ring_at r (i - 1))"
proof -
  let ?n = "length (rb_buf r)" and ?h = "rb_head r"
  have h: "?h < ?n" using inv by (simp add: ring_inv_def)
  have idx: "((?h + 1) mod ?n + ?n - 1 - i) mod ?n = (?h + ?n - i) mod ?n"
  proof (cases "?h + 1 = ?n")
    case True
    then have eq: "?h + ?n - i = ?n - 1 - i + ?n" using i by simp
    show ?thesis unfolding eq using True by simp
  next
    case False
    with h i show ?thesis by (intro arg_cong [where f = "\<lambda>x. x mod ?n"]) auto
  qed
  have buf: "rb_buf (ring_pushed e r) = (rb_buf r)[?h := e]" "rb_head (ring_pushed e r) = (?h + 1) mod ?n"
    using h by (simp_all add: ring_pushed_def ring_push_def)
  show ?thesis
  proof (cases "i = 0")
    case True
    then show ?thesis using h idx by (simp add: ring_at_def buf)
  next
    case False
    have "(?h + ?n - i) mod ?n \<noteq> ?h"
    proof (cases "i \<le> ?h")
      case True
      then have eq: "?h + ?n - i = ?h - i + ?n" by simp
      have "(?h - i + ?n) mod ?n = ?h - i" using h by simp
      then show ?thesis unfolding eq using False True by simp
    next
      case False
      then have "(?h + ?n - i) mod ?n = ?h + ?n - i" using h by simp
      with False i show ?thesis by simp
    qed
    moreover have "?h + ?n - 1 - (i - 1) = ?h + ?n - i" using False i by simp
    ultimately show ?thesis using idx False by (simp add: ring_at_def buf)
  qed
qed

interpretation lr: bounded_log ring_pushed ring_cap ring_recent ring_inv
proof
  fix r e
  assume inv: "ring_inv r"
  show "ring_inv (ring_pushed e r)" by (rule ring_inv_push [OF inv])
  show "ring_cap (ring_pushed e r) = ring_cap r"
    using inv by (simp add: ring_cap_def ring_pushed_def ring_push_def ring_inv_def)
  let ?n = "length (rb_buf r)"
  have size: "rb_size (ring_pushed e r) = min ?n (Suc (rb_size r))"
    using inv by (auto simp: ring_pushed_def ring_push_def ring_inv_def)
  show "ring_recent (ring_pushed e r) = take (ring_cap r) (e # ring_recent r)"
  proof (rule nth_equalityI)
    show "length (ring_recent (ring_pushed e r)) = length (take (ring_cap r) (e # ring_recent r))"
      by (simp add: ring_recent_def ring_cap_def size)
    fix i
    assume "i < length (ring_recent (ring_pushed e r))"
    then have i: "i < ?n" "i < Suc (rb_size r)" by (simp_all add: ring_recent_def size)
    with inv show "ring_recent (ring_pushed e r) ! i = take (ring_cap r) (e # ring_recent r) ! i"
      by (cases i) (simp_all add: ring_recent_def ring_cap_def size ring_at_pushed)
  qed
  show "length (ring_recent r) \<le> ring_cap r"
    using inv by (simp add: ring_recent_def ring_cap_def ring_inv_def)
qed

lemma setupBlocks_marked:
  "setupBlocks cs True s = (map (\<lambda>_. currentRing s) cs, s)"
  by (induction cs) (simp_all add: setupRing_def)

section \<open>Properties\<close>

text \<open>
  A snapshot of a ring of positive capacity, after any sequence of pushes, is the list of
  the pushed entries that match the filter among the latest \<open>capacity\<close> ones, newest first; no
  push panics.
\<close>

theorem ring_shows_latest:
  assumes "0 < n"
  shows "snapshot f (fold ring_pushed es (newRing n)) = filter (filter_matches f) (take n (rev es)) \<and>
    ring_push e (fold ring_pushed es (newRing n)) = Some (ring_pushed e (fold ring_pushed es (newRing n)))"
proof -
  have inv: "ring_inv (newRing n)" by (rule ring_inv_new [OF assms])
  have "ring_recent (newRing n) = []" "ring_cap (newRing n) = n"
    by (simp_all add: ring_recent_def ring_cap_def newRing_def)
  then have "ring_recent (fold ring_pushed es (newRing n)) = take n (rev es)"
    using lr.recent_pushes [OF inv, of es] by simp
  then show ?thesis
    using ring_push_Some lr.invar_pushes [OF inv] by (simp add: snapshot_def ring_recent_def)
qed

theorem ring_shows_latest_witness:
  "snapshot no_filter (fold ring_pushed [zero_entry\<lparr>e_rcode := 1\<rparr>, zero_entry\<lparr>e_rcode := 2\<rparr>,
     zero_entry\<lparr>e_rcode := 3\<rparr>] (newRing 2)) = [zero_entry\<lparr>e_rcode := 3\<rparr>, zero_entry\<lparr>e_rcode := 2\<rparr>]"
  using ring_shows_latest [of 2 no_filter "[zero_entry\<lparr>e_rcode := 1\<rparr>, zero_entry\<lparr>e_rcode := 2\<rparr>,
     zero_entry\<lparr>e_rcode := 3\<rparr>]"] by (simp add: filter_matches_def no_filter_def)

text \<open>
  Every listener of a reload logs to the same ring, the one readers see: whatever blocks
  are set up with the capacity of the configuration, each gets the ring that is current
  afterwards, and a ring of that capacity that was there before is kept with its entries.
\<close>

theorem listeners_share_ring:
  assumes "0 < k" "setupBlocks (replicate k c) False s = (rs, s')"
  shows "\<exists>r. rs = replicate k (Some r) \<and> currentRing s' = Some r \<and> ring_cap r = c \<and>
    (\<forall>r0. currentRing s = Some r0 \<longrightarrow> ring_cap r0 = c \<longrightarrow> r = r0)"
proof -
  obtain m where k: "k = Suc m" using assms(1) by (cases k) auto
  obtain s1 where s1: "setupRing c False s = (True, s1)" by (simp add: setupRing_def)
  obtain r where r: "currentRing s1 = Some r" "ring_cap r = c"
    "\<forall>r0. currentRing s = Some r0 \<longrightarrow> ring_cap r0 = c \<longrightarrow> r = r0"
    using s1 by (auto simp: setupRing_def setCurrentRing_def currentRing_def ring_cap_def newRing_def
        split: option.splits if_splits)
  have "rs = Some r # map (\<lambda>_. currentRing s1) (replicate m c)" "s' = s1"
    using assms(2) r(1) by (simp_all add: k s1 setupBlocks_marked)
  with r show ?thesis by (auto simp: k map_replicate)
qed

theorem listeners_share_ring_witness:
  "\<exists>r. fst (setupBlocks (replicate 3 8) False \<lparr>rs_current = None\<rparr>) = replicate 3 (Some r) \<and> ring_cap r = 8"
proof -
  obtain rs s' where s: "setupBlocks (replicate 3 8) False \<lparr>rs_current = None\<rparr> = (rs, s')"
    by (cases "setupBlocks (replicate 3 8) False \<lparr>rs_current = None\<rparr>")
  from listeners_share_ring [OF _ s] show ?thesis by (auto simp: s)
qed

end
