(* ===== verification/Log_Stats.thy ===== *)
theory Log_Stats
  imports Log_Ring
begin

text \<open>
  The in-memory rollups of the query log, \<^verbatim>\<open>plugins/querylog/stats.go\<close>: counters since the
  process started and a ring of time buckets. A counter map is a function that reads 0 for a
  missing key; times are nanoseconds, \<^verbatim>\<open>t.Unix()\<close> is their floor in seconds, and the width of
  a bucket is a positive number of whole seconds.
\<close>

section \<open>The rollup\<close>

abbreviation (input) second_ns :: int where "second_ns \<equiv> 1000000000"

definition unix :: "time \<Rightarrow> int" where
  "unix t = t div second_ns"

record statsBucket =
  sb_epoch :: int
  sb_count :: int

record statsRollup =
  sr_queries :: int
  sr_byVerdict :: "string \<Rightarrow> int"
  sr_bySource :: "string \<Rightarrow> int"
  sr_byVLAN :: "string \<Rightarrow> int"
  sr_byQType :: "uint16 \<Rightarrow> int"
  sr_byCacheOutcome :: "string \<Rightarrow> int"
  sr_bucketWidth :: duration
  sr_buckets :: "statsBucket list"

definition statsBucketWidth :: duration where "statsBucketWidth = 600 * second_ns"
definition statsBucketCount :: nat where "statsBucketCount = 144"

definition newStatsRollup :: "duration \<Rightarrow> nat \<Rightarrow> statsRollup" where
  "newStatsRollup width n = \<lparr>sr_queries = 0, sr_byVerdict = (\<lambda>_. 0), sr_bySource = (\<lambda>_. 0),
     sr_byVLAN = (\<lambda>_. 0), sr_byQType = (\<lambda>_. 0), sr_byCacheOutcome = (\<lambda>_. 0),
     sr_bucketWidth = width, sr_buckets = replicate n \<lparr>sb_epoch = 0, sb_count = 0\<rparr>\<rparr>"

definition bucketEpoch :: "time \<Rightarrow> duration \<Rightarrow> int" where
  "bucketEpoch t width = (let sec = unix t; w = go_div width second_ns in sec - go_mod sec w)"

definition bucketIndex :: "int \<Rightarrow> duration \<Rightarrow> nat \<Rightarrow> nat" where
  "bucketIndex epoch width n =
     (let w = go_div width second_ns; slot = go_mod (go_div epoch w) (int n) in
      nat (if slot < 0 then slot + int n else slot))"

definition incr :: "'k \<Rightarrow> ('k \<Rightarrow> int) \<Rightarrow> 'k \<Rightarrow> int" where
  "incr k m = m(k := m k + 1)"

definition bumpBucket :: "int \<Rightarrow> statsBucket \<Rightarrow> statsBucket" where
  "bumpBucket epoch b =
     (let b' = (if sb_epoch b \<noteq> epoch then \<lparr>sb_epoch = epoch, sb_count = 0\<rparr> else b) in
      b'\<lparr>sb_count := sb_count b' + 1\<rparr>)"

definition stats_observe :: "entry \<Rightarrow> statsRollup \<Rightarrow> statsRollup" where
  "stats_observe e s =
     (let epoch = bucketEpoch (e_timestamp e) (sr_bucketWidth s);
          idx = bucketIndex epoch (sr_bucketWidth s) (length (sr_buckets s)) in
      s\<lparr>sr_queries := sr_queries s + 1,
        sr_byVerdict := incr (e_verdict e) (sr_byVerdict s),
        sr_bySource := incr (e_source e) (sr_bySource s),
        sr_byVLAN := incr (e_clientVLAN e) (sr_byVLAN s),
        sr_byQType := incr (e_qtype e) (sr_byQType s),
        sr_byCacheOutcome := incr (e_cacheOutcome e) (sr_byCacheOutcome s),
        sr_buckets := (sr_buckets s)[idx := bumpBucket epoch (sr_buckets s ! idx)]\<rparr>)"

record totals =
  t_queries :: int
  t_byVerdict :: "string \<Rightarrow> int"
  t_bySource :: "string \<Rightarrow> int"
  t_byVLAN :: "string \<Rightarrow> int"
  t_byQType :: "uint16 \<Rightarrow> int"
  t_byCacheOutcome :: "string \<Rightarrow> int"

definition stats_totals :: "statsRollup \<Rightarrow> totals" where
  "stats_totals s = \<lparr>t_queries = sr_queries s, t_byVerdict = sr_byVerdict s, t_bySource = sr_bySource s,
     t_byVLAN = sr_byVLAN s, t_byQType = sr_byQType s, t_byCacheOutcome = sr_byCacheOutcome s\<rparr>"

record bucket =
  bk_start :: time
  bk_count :: int

definition seriesEpoch :: "statsRollup \<Rightarrow> time \<Rightarrow> nat \<Rightarrow> int" where
  "seriesEpoch s now i =
     bucketEpoch now (sr_bucketWidth s) - int (length (sr_buckets s) - 1 - i) * go_div (sr_bucketWidth s) second_ns"

definition recentSeries :: "statsRollup \<Rightarrow> time \<Rightarrow> bucket list" where
  "recentSeries s now =
     map (\<lambda>i.
       let epoch = seriesEpoch s now i;
           b = sr_buckets s ! bucketIndex epoch (sr_bucketWidth s) (length (sr_buckets s)) in
       \<lparr>bk_start = epoch * second_ns, bk_count = (if sb_epoch b = epoch then sb_count b else 0)\<rparr>)
     [0..<length (sr_buckets s)]"

section \<open>Counters\<close>

lemma fold_incr: "fold (\<lambda>e. incr (f e)) es m k = m k + int (length (filter (\<lambda>e. f e = k) es))"
  by (induction es arbitrary: m) (auto simp: incr_def)

lemma stats_observe_fields [simp]:
  "sr_bucketWidth (stats_observe e s) = sr_bucketWidth s"
  "length (sr_buckets (stats_observe e s)) = length (sr_buckets s)"
  by (simp_all add: stats_observe_def Let_def)

lemma observe_nth:
  "i < length (sr_buckets s) \<Longrightarrow> sr_buckets (stats_observe e s) ! i =
     (let epoch = bucketEpoch (e_timestamp e) (sr_bucketWidth s) in
      if i = bucketIndex epoch (sr_bucketWidth s) (length (sr_buckets s))
      then bumpBucket epoch (sr_buckets s ! i) else sr_buckets s ! i)"
  by (auto simp: stats_observe_def Let_def)

lemma fold_observe_fields [simp]:
  "sr_bucketWidth (fold stats_observe es s) = sr_bucketWidth s"
  "length (sr_buckets (fold stats_observe es s)) = length (sr_buckets s)"
  by (induction es arbitrary: s) simp_all

lemma fold_observe_counts:
  "sr_queries (fold stats_observe es s) = sr_queries s + int (length es)"
  "sr_byVerdict (fold stats_observe es s) = fold (\<lambda>e. incr (e_verdict e)) es (sr_byVerdict s)"
  "sr_bySource (fold stats_observe es s) = fold (\<lambda>e. incr (e_source e)) es (sr_bySource s)"
  "sr_byVLAN (fold stats_observe es s) = fold (\<lambda>e. incr (e_clientVLAN e)) es (sr_byVLAN s)"
  "sr_byQType (fold stats_observe es s) = fold (\<lambda>e. incr (e_qtype e)) es (sr_byQType s)"
  "sr_byCacheOutcome (fold stats_observe es s) = fold (\<lambda>e. incr (e_cacheOutcome e)) es (sr_byCacheOutcome s)"
  by (induction es arbitrary: s) (simp_all add: stats_observe_def Let_def)

section \<open>Buckets\<close>

text \<open>A width of \<open>w\<close> whole seconds.\<close>

definition epochOf :: "int \<Rightarrow> entry \<Rightarrow> int" where
  "epochOf w e = bucketEpoch (e_timestamp e) (w * second_ns)"

lemma bucketEpoch_eq: "0 < w \<Longrightarrow> 0 \<le> t \<Longrightarrow> bucketEpoch t (w * second_ns) = unix t div w * w"
  by (simp add: bucketEpoch_def Let_def unix_def minus_mod_eq_div_mult)

lemma bucketEpoch_nonneg: "0 < w \<Longrightarrow> 0 \<le> t \<Longrightarrow> 0 \<le> bucketEpoch t (w * second_ns)"
  by (simp add: bucketEpoch_eq unix_def pos_imp_zdiv_nonneg_iff)

lemma bucketEpoch_dvd: "0 < w \<Longrightarrow> 0 \<le> t \<Longrightarrow> w dvd bucketEpoch t (w * second_ns)"
  by (simp add: bucketEpoch_eq)

lemma bucketIndex_eq:
  assumes "0 < w" "0 \<le> E" "0 < n"
  shows "int (bucketIndex E (w * second_ns) n) = (E div w) mod int n"
proof -
  have "0 \<le> E div w mod int n" "0 \<le> E div w" using assms by (simp_all add: pos_imp_zdiv_nonneg_iff)
  then show ?thesis using assms by (simp add: bucketIndex_def Let_def not_less [symmetric])
qed

lemma bucketIndex_less: "0 < w \<Longrightarrow> 0 \<le> E \<Longrightarrow> 0 < n \<Longrightarrow> bucketIndex E (w * second_ns) n < n"
  using bucketIndex_eq [of w E n] pos_mod_bound [of "int n" "E div w"] by linarith

text \<open>Two epochs with the same slot are a whole number of laps apart.\<close>

lemma same_slot:
  assumes w: "0 < w" and n: "0 < n" and E: "0 \<le> E" "w dvd E" and F: "0 \<le> F" "w dvd F"
    and eq: "bucketIndex E (w * second_ns) n = bucketIndex F (w * second_ns) n" and lt: "E < F"
  shows "E + int n * w \<le> F"
proof -
  obtain a b where ab: "E = w * a" "F = w * b" using E(2) F(2) by (elim dvdE)
  then have "b mod int n = a mod int n"
    using bucketIndex_eq [OF w E(1) n] bucketIndex_eq [OF w F(1) n] eq w by simp
  moreover have "a < b" using lt w by (simp add: ab)
  ultimately have "int n dvd b - a" by (simp add: mod_eq_dvd_iff)
  then have "int n \<le> b - a" using \<open>a < b\<close> by (intro zdvd_imp_le) auto
  then have "w * int n \<le> w * (b - a)" using w by (intro mult_left_mono) auto
  then show ?thesis by (simp add: ab algebra_simps)
qed

text \<open>What a slot holds after the entries \<open>es\<close>: the count of its latest epoch.\<close>

definition slot_ok :: "int \<Rightarrow> nat \<Rightarrow> entry list \<Rightarrow> nat \<Rightarrow> statsBucket \<Rightarrow> bool" where
  "slot_ok w n es i b \<longleftrightarrow>
     (let hits = filter (\<lambda>e. bucketIndex (epochOf w e) (w * second_ns) n = i) es in
      (\<forall>e\<in>set hits. epochOf w e \<le> sb_epoch b) \<and>
      sb_count b = int (length (filter (\<lambda>e. epochOf w e = sb_epoch b) hits)) \<and>
      (hits \<noteq> [] \<longrightarrow> (\<exists>e\<in>set hits. epochOf w e = sb_epoch b)))"

text \<open>No entry is observed after one that is a whole lap newer.\<close>

definition in_lap :: "int \<Rightarrow> nat \<Rightarrow> entry list \<Rightarrow> bool" where
  "in_lap w n es \<longleftrightarrow> sorted_wrt (\<lambda>d e. epochOf w d < epochOf w e + int n * w) es"

lemma slot_ok_bump:
  assumes w: "0 < w" and n: "0 < n" and pos: "\<forall>d\<in>set (es @ [e]). 0 \<le> e_timestamp d"
    and lap: "in_lap w n (es @ [e])"
    and i: "bucketIndex (epochOf w e) (w * second_ns) n = i" and ok: "slot_ok w n es i b"
  shows "slot_ok w n (es @ [e]) i (bumpBucket (epochOf w e) b)"
proof -
  let ?E = "epochOf w" and ?hit = "\<lambda>e. bucketIndex (epochOf w e) (w * second_ns) n = i"
  have nn: "0 \<le> ?E d" "w dvd ?E d" if "d \<in> set (es @ [e])" for d
  proof -
    have "0 \<le> e_timestamp d" using that pos by blast
    then show "0 \<le> ?E d" "w dvd ?E d" using w by (simp_all add: epochOf_def bucketEpoch_nonneg bucketEpoch_dvd)
  qed
  have older: "?E d \<le> ?E e" if "d \<in> set es" "?hit d" for d
  proof (rule ccontr)
    assume "\<not> ?E d \<le> ?E e"
    then have "?E e + int n * w \<le> ?E d" using that i nn by (intro same_slot [OF w n]) auto
    moreover have "?E d < ?E e + int n * w" using lap that(1) by (simp add: in_lap_def sorted_wrt_append)
    ultimately show False by simp
  qed
  show ?thesis
  proof (cases "sb_epoch b = ?E e")
    case True
    then show ?thesis using ok i by (auto simp: slot_ok_def Let_def bumpBucket_def)
  next
    case False
    have none: "filter (\<lambda>d. ?E d = ?E e) (filter ?hit es) = []"
    proof (rule ccontr)
      assume "filter (\<lambda>d. ?E d = ?E e) (filter ?hit es) \<noteq> []"
      then obtain d where d: "d \<in> set es" "?hit d" "?E d = ?E e" by (auto simp: filter_empty_conv)
      from d(1,2) have "filter ?hit es \<noteq> []" unfolding filter_empty_conv by blast
      then obtain h where "h \<in> set es" "?hit h" "?E h = sb_epoch b" using ok by (auto simp: slot_ok_def Let_def)
      moreover have "?E d \<le> sb_epoch b" using ok d by (auto simp: slot_ok_def Let_def)
      ultimately have "?E d < ?E h" "?E h \<le> ?E e" using False d older [of h] by auto
      with d(3) show False by simp
    qed
    have "\<forall>d\<in>set (filter ?hit (es @ [e])). ?E d \<le> ?E e" using older by auto
    with False i none show ?thesis by (auto simp: slot_ok_def Let_def bumpBucket_def)
  qed
qed

lemma slot_ok_skip:
  "bucketIndex (epochOf w e) (w * second_ns) n \<noteq> i \<Longrightarrow> slot_ok w n es i b \<Longrightarrow> slot_ok w n (es @ [e]) i b"
  by (simp add: slot_ok_def)

lemma buckets_ok:
  assumes w: "0 < w" and n: "0 < n" and "\<forall>d\<in>set es. 0 \<le> e_timestamp d" "in_lap w n es" "i < n"
  shows "slot_ok w n es i (sr_buckets (fold stats_observe es (newStatsRollup (w * second_ns) n)) ! i)"
  using assms(3-5)
proof (induction es rule: rev_induct)
  case Nil
  then show ?case by (simp add: slot_ok_def newStatsRollup_def)
next
  case (snoc e es)
  let ?s = "fold stats_observe es (newStatsRollup (w * second_ns) n)"
  let ?j = "bucketIndex (epochOf w e) (w * second_ns) n"
  have len: "length (sr_buckets ?s) = n" "sr_bucketWidth ?s = w * second_ns"
    by (simp_all add: newStatsRollup_def)
  have "in_lap w n es" using snoc.prems(2) by (simp add: in_lap_def sorted_wrt_append)
  then have IH: "slot_ok w n es i (sr_buckets ?s ! i)" using snoc by simp
  have j: "?j < n" using snoc.prems(1) w n
    by (intro bucketIndex_less) (simp_all add: epochOf_def bucketEpoch_nonneg)
  have "sr_buckets (stats_observe e ?s) ! i =
      (if i = ?j then bumpBucket (epochOf w e) (sr_buckets ?s ! i) else sr_buckets ?s ! i)"
    using j snoc.prems(3) observe_nth [of i ?s e] len by (simp add: epochOf_def Let_def)
  then show ?case
    using slot_ok_bump [OF w n snoc.prems(1,2) _ IH] slot_ok_skip [OF _ IH, of e] by (cases "i = ?j") simp_all
qed

lemma slot_count:
  assumes w: "0 < w" and n: "0 < n" and pos: "\<forall>e\<in>set es. 0 \<le> e_timestamp e"
    and now: "\<forall>e\<in>set es. epochOf w e < E + int n * w" and E: "0 \<le> E" "w dvd E"
    and ok: "slot_ok w n es (bucketIndex E (w * second_ns) n) b"
  shows "(if sb_epoch b = E then sb_count b else 0) = int (length (filter (\<lambda>e. epochOf w e = E) es))"
proof (cases "sb_epoch b = E")
  case True
  have "filter (\<lambda>e. epochOf w e = E) es = filter (\<lambda>e. epochOf w e = E)
      (filter (\<lambda>e. bucketIndex (epochOf w e) (w * second_ns) n = bucketIndex E (w * second_ns) n) es)"
    by (auto intro!: filter_cong)
  with True ok show ?thesis by (simp add: slot_ok_def Let_def)
next
  case False
  have "filter (\<lambda>e. epochOf w e = E) es = []"
  proof (rule ccontr)
    assume "filter (\<lambda>e. epochOf w e = E) es \<noteq> []"
    then obtain d where d: "d \<in> set es" "epochOf w d = E" by (auto simp: filter_empty_conv)
    then obtain h where h: "h \<in> set es" "epochOf w h = sb_epoch b"
        "bucketIndex (epochOf w h) (w * second_ns) n = bucketIndex E (w * second_ns) n" and le: "E \<le> sb_epoch b"
      using ok unfolding slot_ok_def Let_def by (auto simp: filter_empty_conv)
    have "0 \<le> e_timestamp h" using pos h(1) by blast
    then have "0 \<le> epochOf w h" "w dvd epochOf w h"
      using w by (simp_all add: epochOf_def bucketEpoch_nonneg bucketEpoch_dvd)
    then have "E + int n * w \<le> epochOf w h"
      using h(2,3) le False by (intro same_slot [OF w n E]) auto
    then show False using now h(1) by fastforce
  qed
  with False show ?thesis by simp
qed

section \<open>Properties\<close>

text \<open>
  The totals are exact counts: after any sequence of entries the number of queries is the
  length of the sequence and each breakdown counts the entries with that key.
\<close>

theorem totals_exact:
  "stats_totals (fold stats_observe es (newStatsRollup width n)) =
     \<lparr>t_queries = int (length es),
      t_byVerdict = (\<lambda>k. int (length (filter (\<lambda>e. e_verdict e = k) es))),
      t_bySource = (\<lambda>k. int (length (filter (\<lambda>e. e_source e = k) es))),
      t_byVLAN = (\<lambda>k. int (length (filter (\<lambda>e. e_clientVLAN e = k) es))),
      t_byQType = (\<lambda>k. int (length (filter (\<lambda>e. e_qtype e = k) es))),
      t_byCacheOutcome = (\<lambda>k. int (length (filter (\<lambda>e. e_cacheOutcome e = k) es)))\<rparr>"
  by (simp add: stats_totals_def fold_observe_counts fold_incr newStatsRollup_def fun_eq_iff)

text \<open>
  The recent series is dense and exact. It has one point per bucket, and the count of a
  bucket is the number of entries whose time lies in it, although the buckets are reused every
  lap: as long as times are after 1970, no entry lies after the current bucket, and no entry is
  observed after one that is a whole lap newer.
\<close>

theorem recent_series_exact:
  assumes w: "0 < w" and n: "0 < n" and pos: "\<forall>e\<in>set es. 0 \<le> e_timestamp e" and lap: "in_lap w n es"
    and now: "\<forall>e\<in>set es. epochOf w e \<le> bucketEpoch now (w * second_ns)"
    and start: "(int n - 1) * w \<le> bucketEpoch now (w * second_ns)" "0 \<le> now"
  shows "recentSeries (fold stats_observe es (newStatsRollup (w * second_ns) n)) now =
    map (\<lambda>i. let E = bucketEpoch now (w * second_ns) - (int n - 1 - int i) * w in
       \<lparr>bk_start = E * second_ns, bk_count = int (length (filter (\<lambda>e. epochOf w e = E) es))\<rparr>) [0..<n]"
proof -
  let ?s = "fold stats_observe es (newStatsRollup (w * second_ns) n)"
  let ?N = "bucketEpoch now (w * second_ns)"
  have len: "length (sr_buckets ?s) = n" "sr_bucketWidth ?s = w * second_ns"
    by (simp_all add: newStatsRollup_def)
  have count: "(if sb_epoch b = E then sb_count b else 0) = int (length (filter (\<lambda>e. epochOf w e = E) es))"
    if i: "i < n" and E: "E = ?N - int (n - 1 - i) * w"
      and b: "b = sr_buckets ?s ! bucketIndex E (w * second_ns) n" for i E b
  proof -
    have "int (n - 1 - i) * w \<le> (int n - 1) * w" using w i by (intro mult_right_mono) auto
    then have E0: "0 \<le> E" using start(1) E by simp
    have Ed: "w dvd E" using bucketEpoch_dvd [OF w start(2)] by (simp add: E)
    have "int (n - 1 - i) * w < int n * w" using w i by (intro mult_strict_right_mono) auto
    then have "\<forall>e\<in>set es. epochOf w e < E + int n * w" using now by (fastforce simp: E)
    then show ?thesis
      unfolding b by (rule slot_count [OF w n pos _ E0 Ed buckets_ok [OF w n pos lap bucketIndex_less [OF w E0 n]]])
  qed
  have idx: "int n - 1 - int i = int (n - 1 - i)" if "i < n" for i using that by auto
  have "go_div (w * second_ns) second_ns = w" using w by simp
  then show ?thesis
    unfolding recentSeries_def seriesEpoch_def len Let_def
    by (intro map_cong refl) (simp only: set_upt atLeastLessThan_iff idx count [OF _ refl refl])
qed

theorem recent_series_exact_witness:
  "map bk_count (recentSeries (fold stats_observe
     [zero_entry\<lparr>e_timestamp := 5 * second_ns\<rparr>, zero_entry\<lparr>e_timestamp := 25 * second_ns\<rparr>,
      zero_entry\<lparr>e_timestamp := 31 * second_ns\<rparr>, zero_entry\<lparr>e_timestamp := 29 * second_ns\<rparr>]
     (newStatsRollup (10 * second_ns) 2)) (32 * second_ns)) = [2, 1]"
  using recent_series_exact [of 10 2 "[zero_entry\<lparr>e_timestamp := 5 * second_ns\<rparr>,
      zero_entry\<lparr>e_timestamp := 25 * second_ns\<rparr>, zero_entry\<lparr>e_timestamp := 31 * second_ns\<rparr>,
      zero_entry\<lparr>e_timestamp := 29 * second_ns\<rparr>]" "32 * second_ns"]
  by (simp add: in_lap_def epochOf_def bucketEpoch_def unix_def Let_def upt_rec)

end
