(* ===== verification/Log_Store.thy ===== *)
theory Log_Store
  imports Log_Ring
begin

text \<open>
  The durable query log, \<^verbatim>\<open>plugins/querylog/store.go\<close>: entries are queued by \<^verbatim>\<open>Record\<close>, a
  writer goroutine batches them into a database, and \<^verbatim>\<open>prune\<close> bounds the table.

  The database is a table of rows; a statement of the code acts on it as the text of the
  statement says, and may fail. Which calls fail is an argument (\<open>tx_faults\<close>, \<open>prune_faults\<close>).
  A call under a cancelled context fails. The writer is a state machine: each case of its
  \<^verbatim>\<open>select\<close> is an event, and so are the calls of \<^verbatim>\<open>Record\<close>, \<^verbatim>\<open>SetTuning\<close> and \<^verbatim>\<open>Close\<close> that
  other goroutines make, so that a list of events is an interleaving.
\<close>

section \<open>The table\<close>

record row =
  row_id :: nat
  row_ts_unix_ms :: int
  row_client_ip :: string
  row_vlan :: string
  row_qname :: string
  row_qtype :: uint16
  row_verdict :: string
  row_source :: string
  row_rcode :: int
  row_latency_us :: int
  row_listener :: string
  row_proto :: string
  row_authenticated_data :: int
  row_answer_type :: string

text \<open>Rows in the order of insertion, and the largest id ever given out (\<^verbatim>\<open>AUTOINCREMENT\<close>).\<close>

record database =
  db_rows :: "row list"
  db_seq :: nat

definition empty_db :: database where
  "empty_db = \<lparr>db_rows = [], db_seq = 0\<rparr>"

definition boolToInt :: "bool \<Rightarrow> int" where
  "boolToInt b = (if b then 1 else 0)"

definition unixMilli :: "time \<Rightarrow> int" where
  "unixMilli t = t div 1000000"

definition entry_row :: "nat \<Rightarrow> entry \<Rightarrow> row" where
  "entry_row i e = \<lparr>row_id = i, row_ts_unix_ms = unixMilli (e_timestamp e),
     row_client_ip = e_clientIP e, row_vlan = e_clientVLAN e, row_qname = e_qname e,
     row_qtype = e_qtype e, row_verdict = e_verdict e, row_source = e_source e,
     row_rcode = e_rcode e, row_latency_us = go_div (e_latency e) 1000,
     row_listener = e_listener e, row_proto = e_proto e,
     row_authenticated_data = boolToInt (e_authenticatedData e), row_answer_type = e_answerType e\<rparr>"

definition db_insert :: "entry \<Rightarrow> database \<Rightarrow> database" where
  "db_insert e d = \<lparr>db_rows = db_rows d @ [entry_row (Suc (db_seq d)) e], db_seq = Suc (db_seq d)\<rparr>"

text \<open>Which of the calls of a transaction fail.\<close>

record tx_faults =
  tx_begin :: bool
  tx_prepare :: bool
  tx_exec :: "nat \<Rightarrow> bool"
  tx_stmtClose :: bool
  tx_commit :: bool

definition tx_fine :: tx_faults where
  "tx_fine = \<lparr>tx_begin = False, tx_prepare = False, tx_exec = (\<lambda>_. False), tx_stmtClose = False,
     tx_commit = False\<rparr>"

fun exec_inserts :: "tx_faults \<Rightarrow> nat \<Rightarrow> entry list \<Rightarrow> database \<Rightarrow> database option" where
  "exec_inserts f i [] d = Some d"
| "exec_inserts f i (e # es) d = (if tx_exec f i then None else exec_inserts f (Suc i) es (db_insert e d))"

text \<open>\<^verbatim>\<open>insertBatch\<close>: whether it returned no error, and the table; a rollback gives the old one.\<close>

definition insertBatch :: "bool \<Rightarrow> tx_faults \<Rightarrow> entry list \<Rightarrow> database \<Rightarrow> bool \<times> database" where
  "insertBatch cancelled f batch d =
     (if cancelled \<or> tx_begin f then (False, d)
      else if tx_prepare f then (False, d)
      else case exec_inserts f 0 batch d of
        None \<Rightarrow> (False, d)
      | Some d' \<Rightarrow>
          if tx_stmtClose f then (False, d)
          else if tx_commit f then (False, d)
          else (True, d'))"

section \<open>Pruning\<close>

record prune_faults =
  pf_age :: bool
  pf_count :: bool

definition delete_older :: "int \<Rightarrow> database \<Rightarrow> database" where
  "delete_older cutoff d = d\<lparr>db_rows := filter (\<lambda>r. \<not> row_ts_unix_ms r < cutoff) (db_rows d)\<rparr>"

text \<open>\<^verbatim>\<open>SELECT id FROM queries ORDER BY id DESC LIMIT 1 OFFSET n\<close>, no row being \<^verbatim>\<open>NULL\<close>.\<close>

definition nth_newest_id :: "nat \<Rightarrow> database \<Rightarrow> nat option" where
  "nth_newest_id n d =
     (case drop n (rev (sort (map row_id (db_rows d)))) of [] \<Rightarrow> None | i # _ \<Rightarrow> Some i)"

definition delete_excess :: "nat \<Rightarrow> database \<Rightarrow> database" where
  "delete_excess n d = (case nth_newest_id n d of
     None \<Rightarrow> d
   | Some i \<Rightarrow> d\<lparr>db_rows := filter (\<lambda>r. \<not> row_id r \<le> i) (db_rows d)\<rparr>)"

text \<open>
  \<^verbatim>\<open>prune\<close>. \<open>addDays\<close> is \<^verbatim>\<open>AddDate(0, 0, n)\<close>, whose days depend on the time zone.
\<close>

definition prune ::
  "(time \<Rightarrow> int \<Rightarrow> time) \<Rightarrow> time \<Rightarrow> int \<Rightarrow> int \<Rightarrow> bool \<Rightarrow> prune_faults \<Rightarrow> database \<Rightarrow> database" where
  "prune addDays now days rowCap cancelled pf d =
     (let cutoff = unixMilli (addDays now (- days)) in
      if cancelled \<or> pf_age pf then d
      else let d' = delete_older cutoff d in
        if cancelled \<or> pf_count pf then d'
        else delete_excess (nat rowCap) d')"

section \<open>The store\<close>

definition defaultRetentionDays :: int where "defaultRetentionDays = 7"
definition defaultMaxRows :: int where "defaultMaxRows = 200000"
definition defaultFlushInterval :: duration where "defaultFlushInterval = 2 * 1000000000"
definition storeWriteBufferSize :: nat where "storeWriteBufferSize = 2048"
definition storeFlushBatchSize :: nat where "storeFlushBatchSize = 200"

record storeConfig =
  sc_path :: string
  sc_retentionDays :: int
  sc_maxRows :: int
  sc_flushInterval :: duration

text \<open>Where the writer goroutine stands: before its first prune, in the loop, in \<^verbatim>\<open>drain\<close>, returned.\<close>

datatype phase = Starting | Looping | Draining | Finished

text \<open>
  \<open>st_batch\<close> and \<open>st_ticker\<close>, the interval the flush ticker is set to, are local variables of the
  writer; \<open>st_write\<close> and \<open>st_retune\<close> are the contents of the two channels; \<open>st_cancelled\<close> is the
  state of the writer's context.
\<close>

record logStore =
  st_db :: database
  st_path :: string
  st_retentionDays :: int
  st_maxRows :: int
  st_flushInterval :: duration
  st_write :: "entry list"
  st_dropped :: int
  st_retune :: bool
  st_cancelled :: bool
  st_phase :: phase
  st_batch :: "entry list"
  st_ticker :: duration

definition setTuning :: "int \<Rightarrow> int \<Rightarrow> duration \<Rightarrow> logStore \<Rightarrow> logStore" where
  "setTuning days rowCap interval s =
     s\<lparr>st_retentionDays := (if days \<le> 0 then defaultRetentionDays else days),
       st_maxRows := (if rowCap \<le> 0 then defaultMaxRows else rowCap),
       st_flushInterval := (if interval \<le> 0 then defaultFlushInterval else interval),
       st_retune := True\<rparr>"

datatype open_error = StorePathRequired | CreateStoreDir | OpenStoreDb | PrepareStore

text \<open>The outcomes of the calls of \<^verbatim>\<open>OpenStore\<close>; \<open>found\<close> is the table the file holds after the schema statement.\<close>

record open_env =
  oe_mkdirFails :: bool
  oe_openFails :: bool
  oe_prepareFails :: bool
  oe_found :: database

definition openStore :: "open_env \<Rightarrow> storeConfig \<Rightarrow> open_error + logStore" where
  "openStore env cfg =
     (if sc_path cfg = [] then Inl StorePathRequired
      else if oe_mkdirFails env then Inl CreateStoreDir
      else if oe_openFails env then Inl OpenStoreDb
      else if oe_prepareFails env then Inl PrepareStore
      else Inr (setTuning (sc_retentionDays cfg) (sc_maxRows cfg) (sc_flushInterval cfg)
        \<lparr>st_db = oe_found env, st_path = sc_path cfg, st_retentionDays = 0, st_maxRows = 0,
         st_flushInterval = 0, st_write = [], st_dropped = 0, st_retune = False,
         st_cancelled = False, st_phase = Starting, st_batch = [], st_ticker = 0\<rparr>))"

text \<open>\<^verbatim>\<open>Record\<close> on a store; the nil store is \<open>None\<close>.\<close>

definition store_record :: "entry \<Rightarrow> logStore \<Rightarrow> logStore" where
  "store_record e s =
     (if length (st_write s) < storeWriteBufferSize then s\<lparr>st_write := st_write s @ [e]\<rparr>
      else s\<lparr>st_dropped := st_dropped s + 1\<rparr>)"

definition recordNil :: "entry \<Rightarrow> logStore option \<Rightarrow> logStore option" where
  "recordNil e = map_option (store_record e)"

section \<open>The writer\<close>

definition flush :: "bool \<Rightarrow> tx_faults \<Rightarrow> logStore \<Rightarrow> logStore" where
  "flush cancelled f s =
     (if st_batch s = [] then s
      else s\<lparr>st_db := snd (insertBatch cancelled f (st_batch s) (st_db s)), st_batch := []\<rparr>)"

definition receive :: "tx_faults \<Rightarrow> logStore \<Rightarrow> logStore option" where
  "receive f s = (case st_write s of
     [] \<Rightarrow> None
   | e # es \<Rightarrow>
       let s' = s\<lparr>st_write := es, st_batch := st_batch s @ [e]\<rparr> in
       Some (if length (st_batch s') \<ge> storeFlushBatchSize then flush (st_cancelled s) f s' else s'))"

definition resetTicker :: "logStore \<Rightarrow> logStore" where
  "resetTicker s = s\<lparr>st_ticker := st_flushInterval s\<rparr>"

definition prune_store :: "(time \<Rightarrow> int \<Rightarrow> time) \<Rightarrow> time \<Rightarrow> prune_faults \<Rightarrow> logStore \<Rightarrow> logStore" where
  "prune_store addDays now pf s =
     s\<lparr>st_db := prune addDays now (st_retentionDays s) (st_maxRows s) (st_cancelled s) pf (st_db s)\<rparr>"

datatype store_event =
    Recorded entry
  | Tuned int int duration
  | Cancelled
  | Started time prune_faults
  | Received tx_faults
  | FlushTick tx_faults
  | Retuned
  | PruneTick time prune_faults
  | SawDone
  | Drained tx_faults

text \<open>
  One event; \<open>None\<close> if it cannot happen now. \<open>Drained\<close> is one turn of \<^verbatim>\<open>drain\<close>: it takes an
  entry, or finds the channel empty, and then the last flush, under a context of its own, and
  the return follow.
\<close>

fun store_step :: "(time \<Rightarrow> int \<Rightarrow> time) \<Rightarrow> store_event \<Rightarrow> logStore \<Rightarrow> logStore option" where
  "store_step ad (Recorded e) s = Some (store_record e s)"
| "store_step ad (Tuned r m f) s = Some (setTuning r m f s)"
| "store_step ad Cancelled s = Some (s\<lparr>st_cancelled := True\<rparr>)"
| "store_step ad (Started now pf) s =
     (if st_phase s = Starting then Some ((resetTicker (prune_store ad now pf s))\<lparr>st_phase := Looping\<rparr>) else None)"
| "store_step ad (Received f) s = (if st_phase s = Looping then receive f s else None)"
| "store_step ad (FlushTick f) s =
     (if st_phase s = Looping then Some (resetTicker (flush (st_cancelled s) f s)) else None)"
| "store_step ad Retuned s =
     (if st_phase s = Looping \<and> st_retune s then Some (resetTicker (s\<lparr>st_retune := False\<rparr>)) else None)"
| "store_step ad (PruneTick now pf) s =
     (if st_phase s = Looping then Some (prune_store ad now pf s) else None)"
| "store_step ad SawDone s =
     (if st_phase s = Looping \<and> st_cancelled s then Some (s\<lparr>st_phase := Draining\<rparr>) else None)"
| "store_step ad (Drained f) s =
     (if st_phase s = Draining then
        (case st_write s of
           e # es \<Rightarrow> Some (s\<lparr>st_write := es, st_batch := st_batch s @ [e]\<rparr>)
         | [] \<Rightarrow> Some ((flush False f s)\<lparr>st_phase := Finished\<rparr>))
      else None)"

fun store_run :: "(time \<Rightarrow> int \<Rightarrow> time) \<Rightarrow> store_event list \<Rightarrow> logStore \<Rightarrow> logStore option" where
  "store_run ad [] s = Some s"
| "store_run ad (ev # evs) s =
     (case store_step ad ev s of None \<Rightarrow> None | Some s' \<Rightarrow> store_run ad evs s')"

section \<open>What a run does with the entries\<close>

text \<open>
  The entries an event takes in, and the batches it flushes, each with the outcome of its transaction: a
  batch whose transaction fails is dropped, and only what is \<open>saved\<close> is in the table.
\<close>

definition accepted :: "store_event \<Rightarrow> logStore \<Rightarrow> entry list" where
  "accepted ev s = (case ev of
     Recorded e \<Rightarrow> if length (st_write s) < storeWriteBufferSize then [e] else []
   | _ \<Rightarrow> [])"

definition flush_report :: "bool \<Rightarrow> tx_faults \<Rightarrow> logStore \<Rightarrow> (entry list \<times> bool) list" where
  "flush_report cancelled f s =
     (if st_batch s = [] then [] else [(st_batch s, fst (insertBatch cancelled f (st_batch s) (st_db s)))])"

definition handed :: "store_event \<Rightarrow> logStore \<Rightarrow> (entry list \<times> bool) list" where
  "handed ev s = (case ev of
     Received f \<Rightarrow> (case st_write s of
         [] \<Rightarrow> []
       | e # es \<Rightarrow> if length (st_batch s @ [e]) \<ge> storeFlushBatchSize
                   then flush_report (st_cancelled s) f (s\<lparr>st_write := es, st_batch := st_batch s @ [e]\<rparr>) else [])
   | FlushTick f \<Rightarrow> flush_report (st_cancelled s) f s
   | Drained f \<Rightarrow> if st_write s = [] then flush_report False f s else []
   | _ \<Rightarrow> [])"

definition saved :: "(entry list \<times> bool) list \<Rightarrow> entry list" where
  "saved fl = concat (map fst (filter snd fl))"

definition prunes :: "store_event \<Rightarrow> bool" where
  "prunes ev = (case ev of Started _ _ \<Rightarrow> True | PruneTick _ _ \<Rightarrow> True | _ \<Rightarrow> False)"

inductive store_reaches ::
  "(time \<Rightarrow> int \<Rightarrow> time) \<Rightarrow> logStore \<Rightarrow> store_event list \<Rightarrow> entry list \<Rightarrow> (entry list \<times> bool) list \<Rightarrow> logStore \<Rightarrow> bool"
  for ad s where
  start: "store_reaches ad s [] [] [] s"
| event: "store_reaches ad s evs acc fl t \<Longrightarrow> store_step ad ev t = Some u \<Longrightarrow>
     store_reaches ad s (evs @ [ev]) (acc @ accepted ev t) (fl @ handed ev t) u"

lemma store_reaches_cons:
  assumes "store_step ad ev s = Some u" "store_reaches ad u evs acc fl t"
  shows "store_reaches ad s (ev # evs) (accepted ev s @ acc) (handed ev s @ fl) t"
  using assms(2)
proof (induction rule: store_reaches.induct)
  case start
  then show ?case using store_reaches.event [OF store_reaches.start assms(1)] by simp
next
  case (event evs acc fl t ev' u)
  then show ?case using store_reaches.event [OF event.IH event.hyps(2)] by simp
qed

lemma store_run_reaches: "store_run ad evs s = Some t \<Longrightarrow> \<exists>acc fl. store_reaches ad s evs acc fl t"
  by (induction evs arbitrary: s)
    (fastforce split: option.splits intro: store_reaches.start dest: store_reaches_cons)+

section \<open>The table under insertions and deletions\<close>

primrec numbered :: "nat \<Rightarrow> entry list \<Rightarrow> row list" where
  "numbered n [] = []"
| "numbered n (e # es) = entry_row (Suc n) e # numbered (Suc n) es"

definition db_append :: "entry list \<Rightarrow> database \<Rightarrow> database" where
  "db_append es d = d\<lparr>db_rows := db_rows d @ numbered (db_seq d) es, db_seq := db_seq d + length es\<rparr>"

definition db_ok :: "database \<Rightarrow> bool" where
  "db_ok d \<longleftrightarrow> sorted_wrt (<) (map row_id (db_rows d)) \<and> (\<forall>r\<in>set (db_rows d). row_id r \<le> db_seq d)"

lemma entry_row_id [simp]: "row_id (entry_row i e) = i"
  by (simp add: entry_row_def)

lemma numbered_append: "numbered n (xs @ ys) = numbered n xs @ numbered (n + length xs) ys"
  by (induction xs arbitrary: n) simp_all

lemma numbered_length [simp]: "length (numbered n es) = length es"
  by (induction es arbitrary: n) simp_all

lemma db_append_Nil [simp]: "db_append [] d = d"
  by (simp add: db_append_def)

lemma db_append_Cons: "db_append (e # es) d = db_append es (db_insert e d)"
  by (simp add: db_append_def db_insert_def)

lemma db_append_append: "db_append (xs @ ys) d = db_append ys (db_append xs d)"
  by (induction xs arbitrary: d) (simp_all add: db_append_Cons)

lemma exec_inserts_Some:
  "exec_inserts f i es d = Some d' \<Longrightarrow>
     d' = db_append es d"
proof (induction es arbitrary: i d)
  case (Cons e es)
  from Cons.prems have "exec_inserts f (Suc i) es (db_insert e d) = Some d'" by (simp split: if_splits)
  then show ?case by (rule Cons.IH [THEN trans]) (simp add: db_append_Cons)
qed simp

lemma exec_inserts_fine:
  "exec_inserts tx_fine i es d = Some (db_append es d)"
proof (induction es arbitrary: i d)
  case (Cons e es)
  have "exec_inserts tx_fine i (e # es) d = exec_inserts tx_fine (Suc i) es (db_insert e d)"
    by (simp add: tx_fine_def)
  then show ?case by (simp only: Cons.IH) (simp add: db_append_Cons)
qed simp

text \<open>A batch is inserted whole, in order, or not at all.\<close>

lemma insertBatch_cases:
  "insertBatch c f es d = (False, d) \<or>
   insertBatch c f es d = (True, (db_append es d))"
  using exec_inserts_Some [of f 0 es d] by (auto simp: insertBatch_def split: option.splits)

lemma insertBatch_fine:
  "insertBatch False tx_fine es d =
     (True, (db_append es d))"
  unfolding insertBatch_def exec_inserts_fine by (simp add: tx_fine_def)

lemma insertBatch_db:
  "snd (insertBatch c f es d) =
     db_append (saved [(es, fst (insertBatch c f es d))]) d"
  using insertBatch_cases [of c f es d] by (auto simp: saved_def)

lemma sorted_numbered: "sorted_wrt (<) (map row_id (numbered n es)) \<and> (\<forall>r\<in>set (numbered n es). n < row_id r \<and> row_id r \<le> n + length es)"
  by (induction es arbitrary: n) (fastforce dest: Suc_lessD)+

lemma db_ok_insert:
  "db_ok d \<Longrightarrow> db_ok (db_append es d)"
  using sorted_numbered [of "db_seq d" es] by (fastforce simp: db_ok_def db_append_def sorted_wrt_append)

lemma db_ok_filter: "db_ok d \<Longrightarrow> db_ok (d\<lparr>db_rows := filter P (db_rows d)\<rparr>)"
  by (auto simp: db_ok_def sorted_wrt_map sorted_wrt_filter)

lemma filter_above:
  assumes "sorted_wrt (<) (map f xs)" "m < length xs"
  shows "filter (\<lambda>x. \<not> f x \<le> (f (xs ! m) :: nat)) xs = drop (Suc m) xs"
proof -
  let ?P = "\<lambda>x. \<not> f x \<le> f (xs ! m)"
  have lt: "f (xs ! i) < f (xs ! j)" if "i < j" "j < length xs" for i j
    using assms(1) that by (simp add: sorted_wrt_iff_nth_less)
  have "\<forall>x\<in>set (take (Suc m) xs). \<not> ?P x"
    using lt assms(2) by (fastforce simp: in_set_conv_nth less_Suc_eq)
  moreover have "?P x" if x: "x \<in> set (drop (Suc m) xs)" for x
  proof -
    obtain j where "x = xs ! (Suc m + j)" "Suc m + j < length xs" using x by (auto simp: in_set_conv_nth)
    then show ?thesis using lt [of m "Suc m + j"] by simp
  qed
  ultimately show ?thesis
    using filter_append [of ?P "take (Suc m) xs" "drop (Suc m) xs"] by (simp add: filter_empty_conv)
qed

lemma delete_excess_eq:
  assumes "db_ok d"
  shows "delete_excess n d = d\<lparr>db_rows := drop (length (db_rows d) - n) (db_rows d)\<rparr>"
proof -
  let ?rows = "db_rows d"
  have sorted: "sorted_wrt (<) (map row_id ?rows)" using assms by (simp add: db_ok_def)
  then have "sort (map row_id ?rows) = map row_id ?rows"
    by (intro sorted_sort_id) (simp add: strict_sorted_iff)
  then have ids: "nth_newest_id n d =
      (case rev (take (length ?rows - n) (map row_id ?rows)) of [] \<Rightarrow> None | i # _ \<Rightarrow> Some i)"
    by (simp add: nth_newest_id_def drop_rev)
  show ?thesis
  proof (cases "length ?rows \<le> n")
    case True
    then show ?thesis by (simp add: delete_excess_def ids)
  next
    case False
    then obtain m where m: "length ?rows - n = Suc m" "m < length ?rows" by (cases "length ?rows - n") auto
    then have "nth_newest_id n d = Some (row_id (?rows ! m))"
      by (simp add: ids take_Suc_conv_app_nth)
    then show ?thesis using filter_above [OF sorted m(2)] m(1) by (simp add: delete_excess_def)
  qed
qed

lemma prune_eq:
  assumes "db_ok d"
  shows "prune ad now days rowCap False \<lparr>pf_age = False, pf_count = False\<rparr> d =
    (let kept = filter (\<lambda>r. unixMilli (ad now (- days)) \<le> row_ts_unix_ms r) (db_rows d) in
     d\<lparr>db_rows := drop (length kept - nat rowCap) kept\<rparr>)"
proof -
  have "db_ok (delete_older c d)" for c using assms by (simp add: delete_older_def db_ok_filter)
  then show ?thesis
    by (simp add: prune_def Let_def delete_excess_eq delete_older_def not_less)
qed

text \<open>Whatever fails, pruning only removes rows.\<close>

definition subtable :: "database \<Rightarrow> database \<Rightarrow> bool" where
  "subtable d' d \<longleftrightarrow> subseq (db_rows d') (db_rows d) \<and> db_seq d' = db_seq d"

lemma subtable_refl: "subtable d d"
  by (simp add: subtable_def)

lemma subtable_trans: "subtable c b \<Longrightarrow> subtable b a \<Longrightarrow> subtable c a"
  by (auto simp: subtable_def intro: subseq_order.trans)

lemma subtable_append: "subtable d' d \<Longrightarrow> subtable (db_append es d') (db_append es d)"
  by (auto simp: subtable_def db_append_def intro: list_emb_append_mono)

lemma subtable_prune: "subtable (prune ad now days rowCap c pf d) d"
proof -
  have older: "subtable (delete_older k d) d" for k by (simp add: subtable_def delete_older_def)
  have "subtable (delete_excess n x) x" for n x
    by (simp add: delete_excess_def subtable_def split: option.splits)
  then show ?thesis using older by (auto simp: prune_def Let_def intro: subtable_refl subtable_trans)
qed

lemma subseq_sorted_wrt: "subseq xs ys \<Longrightarrow> sorted_wrt R ys \<Longrightarrow> sorted_wrt R xs"
  by (induction rule: list_emb.induct) (auto dest: list_emb_set)

lemma db_ok_subtable: "db_ok d \<Longrightarrow> subtable d' d \<Longrightarrow> db_ok d'"
  unfolding subtable_def db_ok_def sorted_wrt_map
  using subseq_sorted_wrt [of "db_rows d'" "db_rows d"] list_emb_set [of "(=)" "db_rows d'" "db_rows d"] by metis

section \<open>Invariants of the writer\<close>

lemma flush_simps [simp]:
  "st_batch (flush c f s) = []" "st_write (flush c f s) = st_write s"
  "st_phase (flush c f s) = st_phase s" "st_dropped (flush c f s) = st_dropped s"
  "st_retune (flush c f s) = st_retune s" "st_ticker (flush c f s) = st_ticker s"
  "st_flushInterval (flush c f s) = st_flushInterval s" "st_cancelled (flush c f s) = st_cancelled s"
  by (simp_all add: flush_def)

lemma flush_report_fst [simp]: "concat (map fst (flush_report c f s)) = st_batch s"
  by (simp add: flush_report_def)

lemma flush_db:
  "st_db (flush c f s) = db_append (saved (flush_report c f s)) (st_db s)"
  unfolding flush_def flush_report_def by (subst insertBatch_db) (simp add: saved_def Let_def)

lemma saved_append [simp]: "saved (xs @ ys) = saved xs @ saved ys"
  by (simp add: saved_def)

lemma saved_Nil [simp]: "saved [] = []"
  by (simp add: saved_def)

text \<open>No entry is lost or reordered between the channel, the batch and the database.\<close>

lemma step_conserves:
  "store_step ad ev s = Some t \<Longrightarrow>
     st_batch s @ st_write s @ accepted ev s = concat (map fst (handed ev s)) @ st_batch t @ st_write t"
  by (cases ev) (auto simp: store_record_def accepted_def handed_def receive_def setTuning_def resetTicker_def
      prune_store_def Let_def split: list.splits if_splits)

text \<open>What a step does to the table: insert what was saved, and prune.\<close>

lemma step_db:
  assumes "store_step ad ev s = Some t"
  shows "subtable (st_db t) (db_append (saved (handed ev s)) (st_db s)) \<and>
    (\<not> prunes ev \<longrightarrow> st_db t = db_append (saved (handed ev s)) (st_db s))"
  using assms by (cases ev) (auto simp: store_record_def handed_def receive_def setTuning_def resetTicker_def
      prune_store_def prunes_def flush_db Let_def subtable_refl subtable_prune split: list.splits if_splits)

lemma reaches_conserves:
  "store_reaches ad s evs acc fl t \<Longrightarrow> st_batch s @ st_write s @ acc = concat (map fst fl) @ st_batch t @ st_write t"
proof (induction rule: store_reaches.induct)
  case (event evs acc fl t ev u)
  then show ?case using step_conserves [OF event.hyps(2)] by (metis append_assoc concat_append map_append)
qed simp

text \<open>A finished writer keeps nothing but what was recorded after its last look at the channel.\<close>

lemma reaches_finished:
  "store_reaches ad s evs acc fl t \<Longrightarrow> st_phase s \<noteq> Finished \<Longrightarrow> st_phase t = Finished \<Longrightarrow>
     st_batch t = [] \<and> suffix (st_write t) acc"
proof (induction rule: store_reaches.induct)
  case (event evs acc fl t ev u)
  show ?case
  proof (cases "st_phase t = Finished")
    case True
    with event have "st_batch t = []" "suffix (st_write t) acc" by auto
    then show ?thesis using event.hyps(2) True
      by (cases ev) (auto simp: store_record_def accepted_def setTuning_def suffix_appendI split: if_splits)
  next
    case False
    then show ?thesis using event.hyps(2) event.prems(2)
      by (cases ev) (auto simp: store_record_def receive_def flush_def Let_def setTuning_def resetTicker_def
          prune_store_def split: if_splits list.splits)
  qed
qed simp

lemma flush_fine: "flush False tx_fine s = s\<lparr>st_db := db_append (st_batch s) (st_db s), st_batch := []\<rparr>"
  by (simp add: flush_def insertBatch_fine)

lemma drain_persists:
  "st_phase s = Draining \<Longrightarrow>
     \<exists>t. store_run ad (replicate (length (st_write s)) (Drained tx_fine) @ [Drained tx_fine]) s = Some t \<and>
       st_phase t = Finished \<and> st_write t = [] \<and>
       db_rows (st_db t) = db_rows (st_db s) @ numbered (db_seq (st_db s)) (st_batch s @ st_write s)"
proof (induction "st_write s" arbitrary: s)
  case Nil
  then show ?case by (simp add: flush_fine db_append_def flip: Nil.hyps)
next
  case (Cons e es)
  let ?s = "s\<lparr>st_write := es, st_batch := st_batch s @ [e]\<rparr>"
  have "store_step ad (Drained tx_fine) s = Some ?s" using Cons.prems Cons.hyps(2) by (simp flip: Cons.hyps(2))
  then show ?case using Cons.hyps(1) [of ?s] Cons.prems by (simp flip: Cons.hyps(2))
qed

definition tuning_ok :: "logStore \<Rightarrow> bool" where
  "tuning_ok s \<longleftrightarrow> 0 < st_retentionDays s \<and> 0 < st_maxRows s \<and> 0 < st_flushInterval s \<and>
     (st_phase s = Looping \<longrightarrow> 0 < st_ticker s \<and> (st_retune s \<or> st_ticker s = st_flushInterval s))"

lemma setTuning_ok: "0 < st_ticker s \<or> st_phase s \<noteq> Looping \<Longrightarrow> tuning_ok (setTuning d r i s)"
  by (auto simp: tuning_ok_def setTuning_def defaultRetentionDays_def defaultMaxRows_def defaultFlushInterval_def)

lemma tuning_ok_step: "store_step ad ev s = Some t \<Longrightarrow> tuning_ok s \<Longrightarrow> tuning_ok t"
proof (cases ev)
  case (Tuned d r i)
  assume "store_step ad ev s = Some t" "tuning_ok s"
  with Tuned show "tuning_ok t" using setTuning_ok [of s d r i] by (auto simp: tuning_ok_def)
qed (auto simp: tuning_ok_def store_record_def receive_def flush_def Let_def resetTicker_def prune_store_def
    split: if_splits list.splits)

section \<open>Properties\<close>

text \<open>The entries offered to \<^verbatim>\<open>Record\<close> by a run.\<close>

definition recorded :: "store_event list \<Rightarrow> entry list" where
  "recorded evs = concat (map (\<lambda>ev. case ev of Recorded e \<Rightarrow> [e] | _ \<Rightarrow> []) evs)"

lemma store_reaches_accepted: "store_reaches ad s evs acc fl t \<Longrightarrow> set acc \<subseteq> set (recorded evs)"
  by (induction rule: store_reaches.induct)
    (auto simp: recorded_def accepted_def split: store_event.splits if_splits)

text \<open>
  A run in which no call of a transaction fails by itself, and in which the writer flushes nothing under
  the cancelled context: after the cancellation it stops to take entries and ticks, until it drains.
\<close>

definition event_fine :: "bool \<Rightarrow> store_event \<Rightarrow> bool" where
  "event_fine cancelled ev = (case ev of
     Received f \<Rightarrow> \<not> cancelled \<and> f = tx_fine
   | FlushTick f \<Rightarrow> \<not> cancelled \<and> f = tx_fine
   | Drained f \<Rightarrow> f = tx_fine
   | _ \<Rightarrow> True)"

fun flushes_fine :: "bool \<Rightarrow> store_event list \<Rightarrow> bool" where
  "flushes_fine cancelled [] = True"
| "flushes_fine cancelled (ev # evs) = (event_fine cancelled ev \<and> flushes_fine (cancelled \<or> ev = Cancelled) evs)"

lemma flushes_fine_snoc:
  "flushes_fine c (evs @ [ev]) \<longleftrightarrow> flushes_fine c evs \<and> event_fine (c \<or> Cancelled \<in> set evs) ev"
  by (induction evs arbitrary: c) (auto simp: disj_assoc eq_commute [of Cancelled])

lemma step_cancelled: "store_step ad ev s = Some t \<Longrightarrow> st_cancelled t \<longleftrightarrow> st_cancelled s \<or> ev = Cancelled"
  by (cases ev) (auto simp: store_record_def receive_def setTuning_def resetTicker_def prune_store_def Let_def split: list.splits if_splits)

lemma reaches_cancelled: "store_reaches ad s evs acc fl t \<Longrightarrow> st_cancelled t \<longleftrightarrow> st_cancelled s \<or> Cancelled \<in> set evs"
  by (induction rule: store_reaches.induct) (auto dest: step_cancelled)

lemma fine_report: "saved (flush_report False tx_fine s) = st_batch s"
  by (simp add: flush_report_def insertBatch_fine saved_def)

lemma step_saves: "event_fine (st_cancelled s) ev \<Longrightarrow> saved (handed ev s) = concat (map fst (handed ev s))"
  by (auto simp: handed_def event_fine_def fine_report split: store_event.splits list.splits)

lemma reaches_saves:
  "store_reaches ad s evs acc fl t \<Longrightarrow> flushes_fine (st_cancelled s) evs \<Longrightarrow> saved fl = concat (map fst fl)"
proof (induction rule: store_reaches.induct)
  case (event evs acc fl t ev u)
  then have "event_fine (st_cancelled t) ev" "flushes_fine (st_cancelled s) evs"
    using reaches_cancelled [OF event.hyps(1)] by (simp_all add: flushes_fine_snoc)
  then show ?case using event.IH step_saves by simp
qed simp

lemma reaches_subtable:
  "store_reaches ad s evs acc fl t \<Longrightarrow> subtable (st_db t) (db_append (saved fl) (st_db s))"
proof (induction rule: store_reaches.induct)
  case (event evs acc fl t ev u)
  then show ?case using step_db [OF event.hyps(2)] by (auto simp: db_append_append intro: subtable_trans subtable_append)
qed (simp add: subtable_refl)

lemma reaches_table:
  "store_reaches ad s evs acc fl t \<Longrightarrow> \<not> list_ex prunes evs \<Longrightarrow> st_db t = db_append (saved fl) (st_db s)"
proof (induction rule: store_reaches.induct)
  case (event evs acc fl t ev u)
  then show ?case using step_db [OF event.hyps(2)] by (simp add: db_append_append)
qed simp

lemma step_counts:
  "store_step ad ev t = Some u \<Longrightarrow> int (length (recorded [ev])) = int (length (accepted ev t)) + (st_dropped u - st_dropped t)"
  "store_step ad ev t = Some u \<Longrightarrow> length (st_write t) \<le> storeWriteBufferSize \<Longrightarrow> length (st_write u) \<le> storeWriteBufferSize"
  by (cases ev; force simp: store_record_def recorded_def accepted_def receive_def setTuning_def resetTicker_def prune_store_def
      Let_def split: list.splits if_splits)+

text \<open>
  C37. The asynchronous writer duplicates and reorders nothing, and loses entries only with a transaction
  that fails. In every interleaving, what was buffered and accepted is, in order, what was flushed in
  batches, the current batch and the channel; every recorded entry is accepted or counted as dropped; the
  channel stays within its size. If moreover no transaction fails and none runs under the cancelled
  context, every flushed entry is saved, and unless rows are pruned the table is then its old rows
  followed by them, in order.
\<close>

theorem store_conserves:
  assumes "store_reaches ad s evs acc fl t"
  shows "st_batch s @ st_write s @ acc = concat (map fst fl) @ st_batch t @ st_write t \<and>
    int (length (recorded evs)) = int (length acc) + (st_dropped t - st_dropped s) \<and>
    (length (st_write s) \<le> storeWriteBufferSize \<longrightarrow> length (st_write t) \<le> storeWriteBufferSize) \<and>
    (flushes_fine (st_cancelled s) evs \<longrightarrow>
       (\<exists>kept. st_batch s @ st_write s @ acc = kept @ st_batch t @ st_write t \<and>
         subtable (st_db t) (db_append kept (st_db s)) \<and>
         (\<not> list_ex prunes evs \<longrightarrow> db_rows (st_db t) = db_rows (st_db s) @ numbered (db_seq (st_db s)) kept)))"
proof -
  have order: "st_batch s @ st_write s @ acc = concat (map fst fl) @ st_batch t @ st_write t"
    by (rule reaches_conserves [OF assms])
  have "int (length (recorded evs)) = int (length acc) + (st_dropped t - st_dropped s) \<and>
      (length (st_write s) \<le> storeWriteBufferSize \<longrightarrow> length (st_write t) \<le> storeWriteBufferSize)"
    using assms
  proof (induction rule: store_reaches.induct)
    case (event evs acc fl t ev u)
    then show ?case using step_counts [OF event.hyps(2)] by (simp add: recorded_def)
  qed (simp add: recorded_def)
  moreover have "st_batch s @ st_write s @ acc = saved fl @ st_batch t @ st_write t" if "flushes_fine (st_cancelled s) evs"
    using order reaches_saves [OF assms that] by simp
  moreover have "db_rows (st_db t) = db_rows (st_db s) @ numbered (db_seq (st_db s)) (saved fl)" if "\<not> list_ex prunes evs"
    using reaches_table [OF assms that] by (simp add: db_append_def)
  ultimately show ?thesis using order reaches_subtable [OF assms] by blast
qed

text \<open>An entry for \<^verbatim>\<open>example.\<close> and a store opened on an empty file.\<close>

definition exEntry :: entry where
  "exEntry = zero_entry\<lparr>e_qname := ''example.'', e_timestamp := 5000000000\<rparr>"

definition exStore :: logStore where
  "exStore = projr (openStore \<lparr>oe_mkdirFails = False, oe_openFails = False, oe_prepareFails = False, oe_found = empty_db\<rparr>
     \<lparr>sc_path = ''q.db'', sc_retentionDays = 0, sc_maxRows = 0, sc_flushInterval = 0\<rparr>)"

lemma exStore_fields [simp]:
  "st_write exStore = []" "st_batch exStore = []" "st_phase exStore = Starting" "st_db exStore = empty_db"
  "st_cancelled exStore = False" "st_dropped exStore = 0" "st_ticker exStore = 0"
  "st_retentionDays exStore = 7" "st_maxRows exStore = 200000"
  by (simp_all add: exStore_def openStore_def setTuning_def defaultRetentionDays_def defaultMaxRows_def)

text \<open>
  C38. The table holds what was saved: after any run it is a subsequence of its old rows followed
  by the entries of the batches whose transaction succeeded, in order and with fresh increasing
  ids, and exactly that if nothing was pruned. A failed transaction leaves no trace.
\<close>

theorem table_exact:
  assumes "store_reaches ad s evs acc fl t" "db_ok (st_db s)"
  shows "db_ok (st_db t) \<and> subtable (st_db t) (db_append (saved fl) (st_db s)) \<and>
    (\<not> list_ex prunes evs \<longrightarrow> st_db t = db_append (saved fl) (st_db s))"
  using assms
proof (induction rule: store_reaches.induct)
  case start
  then show ?case by (simp add: subtable_refl)
next
  case (event evs acc fl t ev u)
  note step = step_db [OF event.hyps(2)]
  have "db_ok (st_db u)"
    using step event by (auto intro: db_ok_subtable db_ok_insert)
  moreover have "subtable (st_db u) (db_append (saved (fl @ handed ev t)) (st_db s))"
    using step event by (auto simp: db_append_append intro: subtable_trans subtable_append)
  ultimately show ?case using step event by (auto simp: db_append_append)
qed

text \<open>
  Closing hands over everything: when the writer has finished, the entries that were in the
  batch and in the channel at the time of \<^verbatim>\<open>Close\<close> have all been handed to the database, in order,
  whatever was recorded meanwhile.
\<close>

theorem close_hands_over:
  assumes "store_reaches ad s evs acc fl t" "st_phase s \<noteq> Finished" "st_phase t = Finished"
  shows "prefix (st_batch s @ st_write s) (concat (map fst fl))"
proof -
  have t: "st_batch t = []" "suffix (st_write t) acc" using reaches_finished [OF assms] by auto
  then obtain a where a: "acc = a @ st_write t" by (auto simp: suffix_def)
  have "st_batch s @ st_write s @ acc = concat (map fst fl) @ st_write t"
    using assms(1) t(1) by (auto dest: reaches_conserves)
  then have "(st_batch s @ st_write s) @ a = concat (map fst fl)" by (simp add: a)
  then show ?thesis by (metis prefixI)
qed

definition no_fault :: prune_faults where
  "no_fault = \<lparr>pf_age = False, pf_count = False\<rparr>"

text \<open>The loop, entered on the example store: only its phase and its ticker have changed.\<close>

definition exLooping :: logStore where
  "exLooping = exStore\<lparr>st_phase := Looping, st_ticker := st_flushInterval exStore\<rparr>"

lemma exStarted: "store_step ad (Started now no_fault) exStore = Some exLooping"
  by (simp add: exLooping_def resetTicker_def prune_store_def prune_def no_fault_def Let_def delete_older_def
      delete_excess_def nth_newest_id_def empty_db_def)

lemmas store_eval = exLooping_def receive_def store_record_def flush_def resetTicker_def accepted_def handed_def
  flush_report_def storeWriteBufferSize_def storeFlushBatchSize_def Let_def

text \<open>An entry is recorded, taken from the channel, and flushed at the tick.\<close>

definition exFlushed :: logStore where
  "exFlushed = exLooping\<lparr>st_db := db_append [exEntry] empty_db\<rparr>"

lemma exFlush:
  "store_reaches ad exLooping [Recorded exEntry, Received tx_fine, FlushTick tx_fine] [exEntry] [([exEntry], True)] exFlushed"
proof -
  let ?a = "exLooping\<lparr>st_write := [exEntry]\<rparr>" and ?b = "exLooping\<lparr>st_batch := [exEntry]\<rparr>"
  have 1: "store_step ad (Recorded exEntry) exLooping = Some ?a" "accepted (Recorded exEntry) exLooping = [exEntry]"
    "handed (Recorded exEntry) exLooping = []" by (simp_all add: store_eval)
  have 2: "store_step ad (Received tx_fine) ?a = Some ?b" "accepted (Received tx_fine) ?a = []" "handed (Received tx_fine) ?a = []"
    by (simp_all add: store_eval)
  have 3: "store_step ad (FlushTick tx_fine) ?b = Some exFlushed" "accepted (FlushTick tx_fine) ?b = []"
    "handed (FlushTick tx_fine) ?b = [([exEntry], True)]"
    by (simp_all add: store_eval exFlushed_def insertBatch_fine)
  have "store_reaches ad ?b [FlushTick tx_fine] [] [([exEntry], True)] exFlushed"
    using store_reaches_cons [OF 3(1) store_reaches.start] 3(2,3) by simp
  from store_reaches_cons [OF 2(1) this] have "store_reaches ad ?a [Received tx_fine, FlushTick tx_fine] [] [([exEntry], True)] exFlushed"
    using 2(2,3) by simp
  from store_reaches_cons [OF 1(1) this] show ?thesis using 1(2,3) by simp
qed

theorem store_conserves_witness:
  "\<exists>t. store_reaches (\<lambda>t _. t) exLooping [Recorded exEntry, Received tx_fine, FlushTick tx_fine] [exEntry] [([exEntry], True)] t \<and>
     st_batch t @ st_write t = [] \<and> db_rows (st_db t) = [entry_row 1 exEntry]"
proof -
  have "flushes_fine (st_cancelled exLooping) [Recorded exEntry, Received tx_fine, FlushTick tx_fine]"
    by (simp add: exLooping_def event_fine_def)
  with store_conserves [OF exFlush [of "\<lambda>t _. t"]] obtain kept where
    "[exEntry] = kept @ st_batch exFlushed @ st_write exFlushed" "db_rows (st_db exFlushed) = db_rows (st_db exLooping) @ numbered (db_seq (st_db exLooping)) kept"
    by (auto simp: prunes_def exLooping_def)
  moreover have "st_batch exFlushed = []" "st_write exFlushed = []" by (simp_all add: exFlushed_def exLooping_def)
  ultimately show ?thesis using exFlush [of "\<lambda>t _. t"] by (intro exI [of _ exFlushed]) (auto simp: exLooping_def empty_db_def)
qed

theorem table_exact_witness:
  "\<exists>t. store_reaches (\<lambda>t _. t) exLooping [Recorded exEntry, Received tx_fine, FlushTick tx_fine] [exEntry] [([exEntry], True)] t \<and>
     db_ok (st_db t) \<and> st_db t = db_append [exEntry] empty_db"
proof -
  have "db_ok (st_db exLooping)" by (simp add: exLooping_def db_ok_def empty_db_def)
  from table_exact [OF exFlush [of "\<lambda>t _. t"] this] exFlush [of "\<lambda>t _. t"] show ?thesis
    by (intro exI [of _ exFlushed]) (auto simp: prunes_def saved_def exLooping_def)
qed

theorem close_hands_over_witness:
  "\<exists>t fl. store_reaches (\<lambda>t _. t) (exLooping\<lparr>st_write := [exEntry], st_cancelled := True\<rparr>)
     [SawDone, Drained tx_fine, Drained tx_fine] [] fl t \<and> st_phase t = Finished \<and>
     prefix [exEntry] (concat (map fst fl))"
proof -
  let ?s = "exLooping\<lparr>st_write := [exEntry], st_cancelled := True\<rparr>"
  obtain t where t: "store_run (\<lambda>t _. t) [SawDone, Drained tx_fine, Drained tx_fine] ?s = Some t"
      "st_phase t = Finished"
    by (simp add: store_eval)
  then obtain acc fl where r: "store_reaches (\<lambda>t _. t) ?s [SawDone, Drained tx_fine, Drained tx_fine] acc fl t"
    using store_run_reaches [OF t(1)] by blast
  have "acc = []" using store_reaches_accepted [OF r] by (simp add: recorded_def)
  moreover have "prefix (st_batch ?s @ st_write ?s) (concat (map fst fl))"
    using close_hands_over [OF r _ t(2)] by (simp add: exLooping_def)
  ultimately show ?thesis using r t(2) by (auto simp: exLooping_def)
qed

text \<open>
  C39. A graceful close loses nothing, if the writer notices the cancellation at once and the
  last transaction succeeds: it returns after taking what is in the channel, with every buffered
  and queued entry in the table behind the old rows.
\<close>

theorem close_persists_all:
  assumes "st_phase s = Looping"
  shows "\<exists>t. store_run ad ([Cancelled, SawDone] @ replicate (length (st_write s)) (Drained tx_fine) @ [Drained tx_fine]) s
      = Some t \<and> st_phase t = Finished \<and> st_write t = [] \<and>
    db_rows (st_db t) = db_rows (st_db s) @ numbered (db_seq (st_db s)) (st_batch s @ st_write s)"
  using drain_persists [of "s\<lparr>st_cancelled := True, st_phase := Draining\<rparr>" ad] assms by simp

theorem close_persists_all_witness:
  "\<exists>t. store_run (\<lambda>t _. t) [Cancelled, SawDone, Drained tx_fine, Drained tx_fine] (exLooping\<lparr>st_write := [exEntry]\<rparr>)
      = Some t \<and> db_rows (st_db t) = [entry_row 1 exEntry]"
  using close_persists_all [of "exLooping\<lparr>st_write := [exEntry]\<rparr>" "\<lambda>t _. t"]
  by (simp add: exLooping_def empty_db_def)

text \<open>
  Closing can lose an accepted entry although no database call fails by itself. After the
  cancellation the \<^verbatim>\<open>select\<close> of the writer may still take the flush tick, whose transaction runs
  under the cancelled context, fails and drops the batch.
\<close>

theorem close_can_lose:
  "\<exists>t. store_run (\<lambda>t _. t) [Started 0 no_fault, Recorded exEntry, Received tx_fine, Cancelled,
       FlushTick tx_fine, SawDone, Drained tx_fine] exStore = Some t \<and>
     st_phase t = Finished \<and> st_dropped t = 0 \<and> db_rows (st_db t) = []"
  by (simp del: store_step.simps(4) add: exStarted) (simp add: store_eval insertBatch_def empty_db_def)

text \<open>
  Pruning keeps the newest rows: of a table with increasing ids, the rows within the
  retention and of these the last \<^verbatim>\<open>maxRows\<close>, in order.
\<close>

theorem prune_keeps_newest:
  assumes "db_ok d"
  shows "prune ad now days rowCap False no_fault d =
    (let kept = filter (\<lambda>r. unixMilli (ad now (- days)) \<le> row_ts_unix_ms r) (db_rows d) in
     d\<lparr>db_rows := drop (length kept - nat rowCap) kept\<rparr>)"
  unfolding no_fault_def by (rule prune_eq [OF assms])

theorem prune_keeps_newest_witness:
  "map row_id (db_rows (prune (\<lambda>t n. t + n * 86400000000000) 86405000000000 1 2 False no_fault
     (db_append [exEntry\<lparr>e_timestamp := 1\<rparr>, exEntry, exEntry, exEntry] empty_db))) = [3, 4]"
proof -
  have ok: "db_ok (db_append [exEntry\<lparr>e_timestamp := 1\<rparr>, exEntry, exEntry, exEntry] empty_db)"
    by (rule db_ok_insert) (simp add: db_ok_def empty_db_def)
  show ?thesis
    unfolding prune_keeps_newest [OF ok]
    by (simp add: db_append_def empty_db_def unixMilli_def entry_row_def exEntry_def)
qed

text \<open>
  Tuning is always in force: after any run of an opened store the retention, the row cap and
  the flush interval are positive, and while the writer loops its flush ticker has the current
  interval, or a wake-up that makes it so is pending.
\<close>

theorem tuning_in_force:
  assumes "openStore env cfg = Inr s" "store_reaches ad s evs acc fl t"
  shows "tuning_ok t"
  using assms(2)
proof (induction rule: store_reaches.induct)
  case start
  show ?case using assms(1) setTuning_ok by (auto simp: openStore_def split: if_splits)
next
  case (event evs acc fl t ev u)
  then show ?case using tuning_ok_step by blast
qed

theorem tuning_in_force_witness:
  "tuning_ok exStore"
  by (rule tuning_in_force [of "\<lparr>oe_mkdirFails = False, oe_openFails = False, oe_prepareFails = False, oe_found = empty_db\<rparr>"
      "\<lparr>sc_path = ''q.db'', sc_retentionDays = 0, sc_maxRows = 0, sc_flushInterval = 0\<rparr>" exStore, OF _ store_reaches.start])
    (simp add: exStore_def openStore_def)

end
