(* ===== verification/Log_Reads.thy ===== *)
theory Log_Reads
  imports Configgen Log_Stats Log_Store "HOL-Library.Product_Lexorder"
begin

text \<open>
  The lifecycle of the process-wide store, \<^verbatim>\<open>plugins/querylog/store_lifecycle.go\<close>, the store
  configuration of \<^verbatim>\<open>internal/configgen/runtime.go\<close>, and the read side of the query log,
  \<^verbatim>\<open>log.go\<close>. A query of the code is read as its text says, on the rows of the table; whether it
  fails is an argument. SQL integer division truncates, like Go's.
\<close>

section \<open>The process-wide store\<close>

record store_state =
  ss_current :: "logStore option"

definition currentStore :: "store_state \<Rightarrow> logStore option" where
  "currentStore st = ss_current st"

datatype reconcile_error = CloseStoreErr | OpenStoreErr open_error

text \<open>
  \<^verbatim>\<open>Close\<close>: cancel and wait for the writer. \<open>finish\<close> is the state in which the writer ends, and
  \<open>closeFails\<close> whether closing the database reports an error.
\<close>

definition store_close :: "(logStore \<Rightarrow> logStore) \<Rightarrow> logStore \<Rightarrow> logStore" where
  "store_close finish s = finish (s\<lparr>st_cancelled := True\<rparr>)"

definition reconcileStore ::
  "(logStore \<Rightarrow> logStore) \<Rightarrow> bool \<Rightarrow> open_env \<Rightarrow> storeConfig \<Rightarrow> store_state \<Rightarrow> reconcile_error option \<times> store_state" where
  "reconcileStore finish closeFails env cfg st =
     (if sc_path cfg = [] then
        (case ss_current st of
           None \<Rightarrow> (None, st)
         | Some s \<Rightarrow>
             if closeFails then (Some CloseStoreErr, st\<lparr>ss_current := Some (store_close finish s)\<rparr>)
             else (None, st\<lparr>ss_current := None\<rparr>))
      else case ss_current st of
        Some s \<Rightarrow>
          if st_path s = sc_path cfg then
            (None, st\<lparr>ss_current := Some (setTuning (sc_retentionDays cfg) (sc_maxRows cfg) (sc_flushInterval cfg) s)\<rparr>)
          else if closeFails then (Some CloseStoreErr, st\<lparr>ss_current := Some (store_close finish s)\<rparr>)
          else (case openStore env cfg of
              Inl e \<Rightarrow> (Some (OpenStoreErr e), st\<lparr>ss_current := None\<rparr>)
            | Inr s' \<Rightarrow> (None, st\<lparr>ss_current := Some s'\<rparr>))
      | None \<Rightarrow> (case openStore env cfg of
            Inl e \<Rightarrow> (Some (OpenStoreErr e), st)
          | Inr s' \<Rightarrow> (None, st\<lparr>ss_current := Some s'\<rparr>)))"

definition closeStore :: "bool \<Rightarrow> store_state \<Rightarrow> bool \<times> store_state" where
  "closeStore closeFails st = (case ss_current st of
     None \<Rightarrow> (False, st)
   | Some s \<Rightarrow> (closeFails, st\<lparr>ss_current := None\<rparr>))"

definition queryLogStoreConfig :: "queryLogCfg \<Rightarrow> string \<Rightarrow> storeConfig" where
  "queryLogStoreConfig ql configDir =
     (if \<not> queryLog_enabled ql then \<lparr>sc_path = [], sc_retentionDays = 0, sc_maxRows = 0, sc_flushInterval = 0\<rparr>
      else \<lparr>sc_path = queryLogDBPath configDir, sc_retentionDays = retentionDays ql,
        sc_maxRows = maxRows ql, sc_flushInterval = flushIntervalSeconds ql * 1000000000\<rparr>)"

section \<open>Reading the log\<close>

record qlog =
  l_ring :: "ring option"
  l_store :: "logStore option"
  l_stats :: "statsRollup option"

definition currentLog :: "ring_state \<Rightarrow> store_state \<Rightarrow> statsRollup \<Rightarrow> qlog" where
  "currentLog rs st gs = \<lparr>l_ring = currentRing rs, l_store = currentStore st, l_stats = Some gs\<rparr>"

definition liveSnapshot :: "log_filter \<Rightarrow> qlog \<Rightarrow> entry list" where
  "liveSnapshot f l = (case l_ring l of None \<Rightarrow> [] | Some r \<Rightarrow> snapshot f r)"

definition zeroTotals :: totals where
  "zeroTotals = \<lparr>t_queries = 0, t_byVerdict = (\<lambda>_. 0), t_bySource = (\<lambda>_. 0), t_byVLAN = (\<lambda>_. 0),
     t_byQType = (\<lambda>_. 0), t_byCacheOutcome = (\<lambda>_. 0)\<rparr>"

definition log_totals :: "qlog \<Rightarrow> totals" where
  "log_totals l = (case l_stats l of None \<Rightarrow> zeroTotals | Some s \<Rightarrow> stats_totals s)"

definition log_recentSeries :: "time \<Rightarrow> qlog \<Rightarrow> bucket list" where
  "log_recentSeries now l = (case l_stats l of None \<Rightarrow> [] | Some s \<Rightarrow> recentSeries s now)"

datatype logRead_error = ErrStoreNotConfigured | QueryFailed | ToNotAfterFrom | BucketNotPositive | SlicePanic

text \<open>\<^verbatim>\<open>SELECT k, COUNT(*) ... GROUP BY k\<close> over the selected rows, one result row per value of the key.\<close>

definition group_count :: "('r \<Rightarrow> 'k) \<Rightarrow> 'r list \<Rightarrow> ('k \<times> int) list" where
  "group_count key rs = map (\<lambda>k. (k, int (length (filter (\<lambda>r. key r = k) rs)))) (remdups (map key rs))"

text \<open>\<^verbatim>\<open>ORDER BY c DESC LIMIT n\<close>; among equal counts any order, given by \<open>tie\<close>; a negative limit is none.\<close>

definition top_rows :: "(('k \<times> int) list \<Rightarrow> ('k \<times> int) list) \<Rightarrow> int \<Rightarrow> ('k \<times> int) list \<Rightarrow> ('k \<times> int) list" where
  "top_rows tie n kcs =
     (let sorted = sort_key (\<lambda>kc. - snd kc) (tie kcs) in if n < 0 then sorted else take (nat n) sorted)"

definition rows_since :: "int \<Rightarrow> logStore \<Rightarrow> row list" where
  "rows_since cutoff s = filter (\<lambda>r. row_ts_unix_ms r \<ge> cutoff) (db_rows (st_db s))"

definition topDomains ::
  "((string \<times> int) list \<Rightarrow> (string \<times> int) list) \<Rightarrow> bool \<Rightarrow> time \<Rightarrow> duration \<Rightarrow> int \<Rightarrow> qlog \<Rightarrow>
   logRead_error + (string \<times> int) list" where
  "topDomains tie fails now window n l = (case l_store l of
     None \<Rightarrow> Inl ErrStoreNotConfigured
   | Some s \<Rightarrow>
       if fails then Inl QueryFailed
       else Inr (top_rows tie n (group_count row_qname (rows_since (unixMilli (now - window)) s))))"

definition row_client :: "row \<Rightarrow> string \<times> string" where
  "row_client r = (row_client_ip r, row_vlan r)"

definition topClients ::
  "(((string \<times> string) \<times> int) list \<Rightarrow> ((string \<times> string) \<times> int) list) \<Rightarrow> bool \<Rightarrow> time \<Rightarrow> duration \<Rightarrow> int \<Rightarrow> qlog \<Rightarrow>
   logRead_error + ((string \<times> string) \<times> int) list" where
  "topClients tie fails now window n l = (case l_store l of
     None \<Rightarrow> Inl ErrStoreNotConfigured
   | Some s \<Rightarrow>
       if fails then Inl QueryFailed
       else Inr (top_rows tie n (group_count row_client (rows_since (unixMilli (now - window)) s))))"

definition rows_between :: "int \<Rightarrow> int \<Rightarrow> logStore \<Rightarrow> row list" where
  "rows_between fromMs toMs s = filter (\<lambda>r. row_ts_unix_ms r \<ge> fromMs \<and> row_ts_unix_ms r < toMs) (db_rows (st_db s))"

definition row_bucket :: "int \<Rightarrow> row \<Rightarrow> int" where
  "row_bucket bucketMs r = go_div (row_ts_unix_ms r) bucketMs"

definition bucketRange :: "int \<Rightarrow> int \<Rightarrow> int \<Rightarrow> int list" where
  "bucketRange fromMs toMs bucketMs =
     (let fromBucket = go_div fromMs bucketMs; lastBucket = go_div (toMs - 1) bucketMs;
          n = lastBucket - fromBucket + 1 in
      map (\<lambda>i. fromBucket + int i) [0..<nat n])"

definition series :: "bool \<Rightarrow> time \<Rightarrow> time \<Rightarrow> duration \<Rightarrow> qlog \<Rightarrow> logRead_error + bucket list" where
  "series fails t0 t1 width l = (case l_store l of
     None \<Rightarrow> Inl ErrStoreNotConfigured
   | Some s \<Rightarrow>
       if \<not> t1 > t0 then Inl ToNotAfterFrom
       else let bucketMs = go_div width 1000000 in
         if bucketMs \<le> 0 then Inl BucketNotPositive
         else let fromMs = unixMilli t0; toMs = unixMilli t1 in
           if fails then Inl QueryFailed
           else
             let counts = fold (\<lambda>(b, c) m. m(b := c))
                   (group_count (row_bucket bucketMs) (rows_between fromMs toMs s)) (\<lambda>_. 0) in
             Inr (map (\<lambda>b. \<lparr>bk_start = b * bucketMs * 1000000, bk_count = counts b\<rparr>)
                  (bucketRange fromMs toMs bucketMs)))"

record clientActivityRow =
  ca_clientIP :: string
  ca_vlan :: string
  ca_isOther :: bool
  ca_counts :: "int list"

record clientActivitySeries =
  cas_buckets :: "time list"
  cas_rows :: "clientActivityRow list"

text \<open>The two maps filled from the result rows: per client and bucket, and per client.\<close>

definition activityMaps ::
  "((int \<times> string \<times> string) \<times> int) list \<Rightarrow> (string \<times> string \<Rightarrow> int \<Rightarrow> int) \<times> (string \<times> string \<rightharpoonup> int)" where
  "activityMaps rs = fold (\<lambda>((b, k), c) (perBucket, totals).
     (perBucket(k := (perBucket k)(b := c)),
      totals(k \<mapsto> (case totals k of None \<Rightarrow> 0 | Some v \<Rightarrow> v) + c))) rs ((\<lambda>_ _. 0), Map.empty)"

text \<open>The order of the clients: total descending, then address, then VLAN.\<close>

definition activityOrder :: "(string \<times> string \<rightharpoonup> int) \<Rightarrow> (string \<times> string) list \<Rightarrow> (string \<times> string) list" where
  "activityOrder totals ks = sort_key (\<lambda>k. (- (case totals k of None \<Rightarrow> 0 | Some v \<Rightarrow> v), fst k, snd k)) ks"

definition splitTop :: "int \<Rightarrow> 'k list \<Rightarrow> 'k list \<times> 'k list" where
  "splitTop topN ks = (if int (length ks) > topN then (take (nat topN) ks, drop (nat topN) ks) else (ks, []))"

definition activityRows ::
  "(string \<times> string \<Rightarrow> int \<Rightarrow> int) \<Rightarrow> (string \<times> string) list \<Rightarrow> (string \<times> string) list \<Rightarrow> int list \<Rightarrow> clientActivityRow list" where
  "activityRows perBucket shown other bs =
     map (\<lambda>k. \<lparr>ca_clientIP = fst k, ca_vlan = snd k, ca_isOther = False, ca_counts = map (perBucket k) bs\<rparr>) shown @
     (if other \<noteq> [] then [\<lparr>ca_clientIP = [], ca_vlan = [], ca_isOther = True,
        ca_counts = map (\<lambda>b. sum_list (map (\<lambda>k. perBucket k b) other)) bs\<rparr>] else [])"

definition clientActivity ::
  "bool \<Rightarrow> time \<Rightarrow> time \<Rightarrow> duration \<Rightarrow> int \<Rightarrow> qlog \<Rightarrow> logRead_error + clientActivitySeries" where
  "clientActivity fails t0 t1 width topN l = (case l_store l of
     None \<Rightarrow> Inl ErrStoreNotConfigured
   | Some s \<Rightarrow>
       if \<not> t1 > t0 then Inl ToNotAfterFrom
       else let bucketMs = go_div width 1000000 in
         if bucketMs \<le> 0 then Inl BucketNotPositive
         else let fromMs = unixMilli t0; toMs = unixMilli t1 in
           if fails then Inl QueryFailed
           else
             let res = group_count (\<lambda>r. (row_bucket bucketMs r, row_client r)) (rows_between fromMs toMs s);
                 (perBucket, totals) = activityMaps res;
                 ks = activityOrder totals (remdups (map (snd \<circ> fst) res));
                 bs = bucketRange fromMs toMs bucketMs in
             if int (length ks) > topN \<and> topN < 0 then Inl SlicePanic
             else let (shown, other) = splitTop topN ks in
               Inr \<lparr>cas_buckets = map (\<lambda>b. b * bucketMs * 1000000) bs,
                    cas_rows = activityRows perBucket shown other bs\<rparr>)"

section \<open>Counting by groups\<close>

lemma sum_count_partition:
  assumes "distinct ks" "\<forall>x\<in>set xs. g x \<in> set ks"
  shows "sum_list (map (\<lambda>k. int (length (filter (\<lambda>x. g x = k) xs))) ks) = int (length xs)"
  using assms(2)
proof (induction xs)
  case (Cons x xs)
  have "sum_list (map (\<lambda>k. int (length (filter (\<lambda>y. g y = k) (x # xs)))) ks) =
      sum_list (map (\<lambda>k. (if g x = k then 1 else 0) + int (length (filter (\<lambda>y. g y = k) xs))) ks)"
    by (intro arg_cong [where f = sum_list] map_cong) auto
  also have "\<dots> = sum_list (map (\<lambda>k. if g x = k then 1 else 0) ks) + int (length xs)"
    using Cons by (simp add: sum_list_addf)
  also have "sum_list (map (\<lambda>k. if g x = k then 1 else 0) ks) = (1 :: int)"
    using assms(1) Cons.prems by (simp add: sum_list_distinct_conv_sum_set)
  finally show ?case by simp
qed simp

lemma group_count_keys [simp]:
  "distinct (map fst (group_count key rs))" "fst ` set (group_count key rs) = key ` set rs"
  by (auto simp: group_count_def comp_def image_image)

lemma group_count_clients: "(\<lambda>x. snd (fst x)) ` set (group_count (\<lambda>r. (f r, g r)) rs) = g ` set rs"
  by (simp add: group_count_def image_image)

lemma group_count_mem: "(k, c) \<in> set (group_count key rs) \<longleftrightarrow> k \<in> key ` set rs \<and> c = int (length (filter (\<lambda>r. key r = k) rs))"
  by (auto simp: group_count_def)

text \<open>The map filled from the result rows reads the count, 0 for a key with none.\<close>

lemma map_of_group_count:
  "map_of (rev (group_count key rs)) k =
     (if k \<in> key ` set rs then Some (int (length (filter (\<lambda>r. key r = k) rs))) else None)"
proof -
  have dist: "distinct (map fst (rev (group_count key rs)))" by (simp flip: rev_map)
  show ?thesis
    by (simp add: map_of_eq_None_iff map_of_eq_Some_iff [OF dist] group_count_mem)
qed

lemma count_none: "k \<notin> key ` set rs \<Longrightarrow> filter (\<lambda>r. key r = k) rs = []"
  by (auto simp: filter_empty_conv)

lemma fold_upd_map_of:
  "fold (\<lambda>(b, c) m. m(b := c)) kcs m0 k = (case map_of (rev kcs) k of None \<Rightarrow> m0 k | Some c \<Rightarrow> c)"
  by (induction kcs arbitrary: m0) (auto simp: map_add_def split: option.splits)

lemma fold_group_count:
  "fold (\<lambda>(b, c) m. m(b := c)) (group_count key rs) (\<lambda>_. 0) k = int (length (filter (\<lambda>r. key r = k) rs))"
  by (simp add: fold_upd_map_of map_of_group_count count_none)

lemma fold_activity:
  "fst (fold (\<lambda>((b, k), c) (perBucket, totals).
     (perBucket(k := (perBucket k)(b := c)), totals(k \<mapsto> (case totals k of None \<Rightarrow> 0 | Some v \<Rightarrow> v) + c))) rs m0) k b =
   (case map_of (rev rs) (b, k) of None \<Rightarrow> fst m0 k b | Some c \<Rightarrow> c)"
  by (induction rs arbitrary: m0) (auto simp: map_add_def split: option.splits prod.splits)

lemma activity_counts:
  "fst (activityMaps (group_count (\<lambda>r. (row_bucket m r, row_client r)) rs)) k b =
     int (length (filter (\<lambda>r. row_bucket m r = b \<and> row_client r = k) rs))"
  unfolding activityMaps_def fold_activity map_of_group_count
  by (simp add: filter_empty_conv) blast

lemma go_div_mono: "0 < (m :: int) \<Longrightarrow> a \<le> b \<Longrightarrow> go_div a m \<le> go_div b m"
proof -
  assume m: "0 < m" and ab: "a \<le> b"
  have "- ((- a) div m) \<le> 0" if "a < 0" using m that by (simp add: pos_imp_zdiv_nonneg_iff)
  moreover have "0 \<le> b div m" if "0 \<le> b" using m that by (simp add: pos_imp_zdiv_nonneg_iff)
  moreover have "a div m \<le> b div m" "(- b) div m \<le> (- a) div m" using m ab by (auto intro: zdiv_mono1)
  ultimately show ?thesis using ab by (auto simp: go_div_def)
qed

lemma splitTop: "fst (splitTop topN ks) @ snd (splitTop topN ks) = ks" "int (length (fst (splitTop topN ks))) \<le> max 0 topN"
  by (auto simp: splitTop_def)

lemma bucketRange_distinct: "distinct (bucketRange a b m)"
  by (simp add: bucketRange_def Let_def distinct_map inj_on_def)

lemma bucketRange_covers:
  "0 < m \<Longrightarrow> r \<in> set (rows_between a b s) \<Longrightarrow> row_bucket m r \<in> set (bucketRange a b m)"
proof -
  assume m: "0 < m" and r: "r \<in> set (rows_between a b s)"
  let ?k = "row_bucket m r - go_div a m"
  have "go_div a m \<le> row_bucket m r" "row_bucket m r \<le> go_div (b - 1) m"
    using r m by (auto simp: rows_between_def row_bucket_def intro: go_div_mono)
  then show ?thesis
    unfolding bucketRange_def Let_def set_map set_upt by (intro image_eqI [of _ _ "nat ?k"]) auto
qed

section \<open>Properties\<close>

text \<open>
  The series is dense and exact: whenever it is returned it has one point per bucket from
  the bucket of the start to that of the end, each with the number of logged queries of the
  interval in that bucket, and the points add up to the number of queries of the interval.
\<close>

theorem series_exact:
  assumes "series False t0 t1 width l = Inr bs" "l_store l = Some s"
  shows "let m = go_div width 1000000; rs = rows_between (unixMilli t0) (unixMilli t1) s in
    map bk_start bs = map (\<lambda>b. b * m * 1000000) (bucketRange (unixMilli t0) (unixMilli t1) m) \<and>
    map bk_count bs = map (\<lambda>b. int (length (filter (\<lambda>r. row_bucket m r = b) rs)))
      (bucketRange (unixMilli t0) (unixMilli t1) m) \<and>
    sum_list (map bk_count bs) = int (length rs)"
proof -
  let ?m = "go_div width 1000000" and ?rs = "rows_between (unixMilli t0) (unixMilli t1) s"
  let ?bs = "bucketRange (unixMilli t0) (unixMilli t1) ?m"
  have m: "0 < ?m" and bs: "bs = map (\<lambda>b. \<lparr>bk_start = b * ?m * 1000000,
      bk_count = int (length (filter (\<lambda>r. row_bucket ?m r = b) ?rs))\<rparr>) ?bs"
    using assms by (auto simp: series_def Let_def fold_group_count split: if_splits)
  have "sum_list (map (\<lambda>b. int (length (filter (\<lambda>r. row_bucket ?m r = b) ?rs))) ?bs) = int (length ?rs)"
    using bucketRange_covers [OF m] by (intro sum_count_partition [OF bucketRange_distinct]) blast
  then show ?thesis by (simp add: Let_def bs comp_def)
qed

text \<open>Rows of three queries by two clients, for examples.\<close>

definition exLog :: qlog where
  "exLog = \<lparr>l_ring = None, l_store = Some (exStore\<lparr>st_db := db_append
     [exEntry\<lparr>e_clientIP := ''a'', e_timestamp := 1000000\<rparr>, exEntry\<lparr>e_clientIP := ''b'', e_timestamp := 2000000\<rparr>,
      exEntry\<lparr>e_clientIP := ''a'', e_timestamp := 12000000\<rparr>] empty_db\<rparr>), l_stats = None\<rparr>"

theorem series_exact_witness:
  "map bk_count (projr (series False 0 30000000 10000000 exLog)) = [2, 1, 0]"
proof -
  obtain s where s: "l_store exLog = Some s" "db_rows (st_db s) = numbered 0
     [exEntry\<lparr>e_clientIP := ''a'', e_timestamp := 1000000\<rparr>, exEntry\<lparr>e_clientIP := ''b'', e_timestamp := 2000000\<rparr>,
      exEntry\<lparr>e_clientIP := ''a'', e_timestamp := 12000000\<rparr>]"
    by (simp add: exLog_def db_append_def empty_db_def)
  obtain bs where bs: "series False 0 30000000 10000000 exLog = Inr bs"
    by (simp add: series_def exLog_def Let_def)
  from series_exact [OF bs s(1)] show ?thesis
    by (simp add: bs Let_def s(2) rows_between_def bucketRange_def upt_rec unixMilli_def row_bucket_def entry_row_def)
qed

text \<open>
  The per-client activity stacks up to the series: over the same interval the rows, the
  folded one included, add up in every bucket to the point of the series, and there are at most
  \<^verbatim>\<open>topN\<close> clients and one folded row.
\<close>

theorem client_activity_stacks:
  assumes "clientActivity False t0 t1 width topN l = Inr cas" "series False t0 t1 width l = Inr bs"
  shows "cas_buckets cas = map bk_start bs \<and>
    (\<forall>i < length bs. sum_list (map (\<lambda>r. ca_counts r ! i) (cas_rows cas)) = bk_count (bs ! i)) \<and>
    int (length (cas_rows cas)) \<le> max 0 topN + 1"
proof -
  obtain s where s: "l_store l = Some s" using assms(1) by (auto simp: clientActivity_def split: option.splits)
  let ?m = "go_div width 1000000" and ?rs = "rows_between (unixMilli t0) (unixMilli t1) s"
  let ?bs = "bucketRange (unixMilli t0) (unixMilli t1) ?m"
  let ?res = "group_count (\<lambda>r. (row_bucket ?m r, row_client r)) ?rs"
  let ?P = "fst (activityMaps ?res)"
  define ks where "ks = activityOrder (snd (activityMaps ?res)) (remdups (map (snd \<circ> fst) ?res))"
  define shown other where "shown = fst (splitTop topN ks)" and "other = snd (splitTop topN ks)"
  then have so: "shown @ other = ks" "int (length shown) \<le> max 0 topN" using splitTop by simp_all
  have cas: "cas = \<lparr>cas_buckets = map (\<lambda>b. b * ?m * 1000000) ?bs, cas_rows = activityRows ?P shown other ?bs\<rparr>"
    using assms(1) s by (simp add: clientActivity_def Let_def case_prod_unfold shown_def other_def ks_def split: if_splits)
  have ks: "distinct ks" "set ks = row_client ` set ?rs"
    by (simp_all add: ks_def activityOrder_def comp_def group_count_clients)
  have bs: "bs = map (\<lambda>b. \<lparr>bk_start = b * ?m * 1000000,
      bk_count = int (length (filter (\<lambda>r. row_bucket ?m r = b) ?rs))\<rparr>) ?bs"
    using assms(2) s by (auto simp: series_def Let_def fold_group_count split: if_splits)
  have stack: "sum_list (map (\<lambda>k. ?P k b) ks) = int (length (filter (\<lambda>r. row_bucket ?m r = b) ?rs))" for b
    using sum_count_partition [OF ks(1), of "filter (\<lambda>r. row_bucket ?m r = b) ?rs" row_client] ks(2)
    by (simp add: activity_counts conj_commute)
  have rows: "sum_list (map (\<lambda>r. ca_counts r ! i) (activityRows ?P shown other ?bs)) = sum_list (map (\<lambda>k. ?P k (?bs ! i)) ks)"
    if "i < length ?bs" for i using that by (simp add: activityRows_def comp_def flip: so(1))
  have "length (activityRows ?P shown other ?bs) \<le> length shown + 1" by (simp add: activityRows_def)
  then show ?thesis using so(2) rows stack by (simp add: cas bs comp_def)
qed

theorem client_activity_stacks_witness:
  "length (cas_rows (projr (clientActivity False 0 30000000 10000000 1 exLog))) \<le> 2 \<and>
   sum_list (map (\<lambda>r. ca_counts r ! 0) (cas_rows (projr (clientActivity False 0 30000000 10000000 1 exLog)))) =
     bk_count (projr (series False 0 30000000 10000000 exLog) ! 0)"
proof -
  obtain bs where bs: "series False 0 30000000 10000000 exLog = Inr bs" by (simp add: series_def exLog_def Let_def)
  then have "0 < length bs" by (auto simp: series_def exLog_def Let_def bucketRange_def unixMilli_def)
  obtain cas where cas: "clientActivity False 0 30000000 10000000 1 exLog = Inr cas"
    by (simp add: clientActivity_def exLog_def Let_def case_prod_unfold)
  with client_activity_stacks [OF cas bs] \<open>0 < length bs\<close> show ?thesis by (simp add: cas bs)
qed

text \<open>
  The top domains are the top: at most \<open>n\<close> are listed, each with the exact number of its
  queries in the window, and no domain left out has more queries than one listed, whichever
  order the database gives to equal counts.
\<close>

theorem top_domains_exact:
  assumes "topDomains tie False now window n l = Inr ds" "l_store l = Some s" "0 \<le> n"
    and tie: "\<And>xs. mset (tie xs) = mset xs"
  shows "let count = (\<lambda>q. int (length (filter (\<lambda>r. row_qname r = q) (rows_since (unixMilli (now - window)) s)))) in
    int (length ds) \<le> n \<and> (\<forall>(q, c)\<in>set ds. c = count q \<and> (\<forall>q'. q' \<notin> fst ` set ds \<longrightarrow> count q' \<le> c))"
proof -
  let ?rs = "rows_since (unixMilli (now - window)) s"
  let ?count = "\<lambda>q. int (length (filter (\<lambda>r. row_qname r = q) ?rs))"
  define L where "L = sort_key (\<lambda>kc. - snd kc) (tie (group_count row_qname ?rs))"
  have ds: "ds = take (nat n) L" using assms(1-3) by (simp add: topDomains_def top_rows_def L_def)
  have set_L: "set L = set (group_count row_qname ?rs)" unfolding L_def set_sort by (rule mset_eq_setD [OF tie])
  have exact: "c = ?count q" if "(q, c) \<in> set L" for q c using that by (simp add: set_L group_count_mem)
  have order: "snd x \<ge> snd y" if "x \<in> set ds" "y \<in> set (drop (nat n) L)" for x y
  proof -
    have "sorted (map (\<lambda>kc. - snd kc) L)" by (simp add: L_def)
    then have "sorted (map (\<lambda>kc. - snd kc) (take (nat n) L) @ map (\<lambda>kc. - snd kc) (drop (nat n) L))"
      by (simp only: map_append [symmetric] append_take_drop_id)
    then show ?thesis using that by (simp add: sorted_append ds)
  qed
  have "?count q' \<le> c" if q: "(q, c) \<in> set ds" "q' \<notin> fst ` set ds" for q c q'
  proof (cases "q' \<in> row_qname ` set ?rs")
    case True
    then have "(q', ?count q') \<in> set (take (nat n) L @ drop (nat n) L)" by (simp add: set_L group_count_mem)
    then have "(q', ?count q') \<in> set (drop (nat n) L)" using q(2) by (force simp: ds simp del: append_take_drop_id)
    with order [OF q(1)] show ?thesis by fastforce
  next
    case False
    moreover have "0 \<le> c" using exact [of q c] q(1) by (auto simp: ds dest: in_set_takeD)
    ultimately show ?thesis by (simp add: count_none)
  qed
  then show ?thesis using exact assms(3) by (auto simp: Let_def ds dest: in_set_takeD)
qed

theorem top_domains_exact_witness:
  "topDomains id False 30000000 30000000 1 exLog = Inr [(''example.'', 3)]"
proof -
  obtain ds where ds: "topDomains id False 30000000 30000000 1 exLog = Inr ds" by (simp add: topDomains_def exLog_def)
  obtain s where s: "l_store exLog = Some s" by (simp add: exLog_def)
  have "ds = [(''example.'', 3)]"
    using ds by (simp add: topDomains_def exLog_def top_rows_def group_count_def rows_since_def db_append_def empty_db_def
        unixMilli_def entry_row_def exEntry_def)
  moreover have "int (length ds) \<le> 1"
    using top_domains_exact [OF ds s] by (simp add: Let_def)
  ultimately show ?thesis using ds by simp
qed

text \<open>
  After a successful reconcile the process-wide store is what the settings ask for: none
  when persistence is off, and otherwise one at the configured path with the configured tuning or
  its defaults. A store already at that path is kept with its table and its buffered entries.
\<close>

theorem reconcile_matches:
  assumes "reconcileStore finish closeFails env cfg st = (None, st')"
  shows "if sc_path cfg = [] then currentStore st' = None
    else \<exists>s. currentStore st' = Some s \<and> st_path s = sc_path cfg \<and>
      st_retentionDays s = (if sc_retentionDays cfg \<le> 0 then 7 else sc_retentionDays cfg) \<and>
      st_maxRows s = (if sc_maxRows cfg \<le> 0 then 200000 else sc_maxRows cfg) \<and>
      st_flushInterval s = (if sc_flushInterval cfg \<le> 0 then 2000000000 else sc_flushInterval cfg) \<and>
      (\<forall>s0. currentStore st = Some s0 \<longrightarrow> st_path s0 = sc_path cfg \<longrightarrow>
         st_db s = st_db s0 \<and> st_batch s = st_batch s0 \<and> st_write s = st_write s0)"
  using assms by (auto simp: reconcileStore_def openStore_def setTuning_def currentStore_def
      defaultRetentionDays_def defaultMaxRows_def defaultFlushInterval_def split: if_splits option.splits sum.splits)

theorem reconcile_matches_witness:
  "\<exists>s. currentStore (snd (reconcileStore id False
      \<lparr>oe_mkdirFails = False, oe_openFails = False, oe_prepareFails = False, oe_found = empty_db\<rparr>
      \<lparr>sc_path = ''q.db'', sc_retentionDays = 30, sc_maxRows = 0, sc_flushInterval = 0\<rparr> \<lparr>ss_current = None\<rparr>)) = Some s \<and>
     st_retentionDays s = 30 \<and> st_maxRows s = 200000"
proof -
  let ?env = "\<lparr>oe_mkdirFails = False, oe_openFails = False, oe_prepareFails = False, oe_found = empty_db\<rparr>"
  let ?cfg = "\<lparr>sc_path = ''q.db'', sc_retentionDays = 30, sc_maxRows = 0, sc_flushInterval = 0\<rparr>"
  obtain st' where st: "reconcileStore id False ?env ?cfg \<lparr>ss_current = None\<rparr> = (None, st')"
    by (simp add: reconcileStore_def openStore_def)
  from reconcile_matches [OF st] show ?thesis by (auto simp: st)
qed

text \<open>
  When closing the database reports an error, turning persistence off leaves the closed store
  current; turning it on again at the same path reports success, and the store is still the one
  whose writer has returned, so that nothing recorded afterwards reaches the table.
\<close>

theorem closed_store_reused:
  assumes finish: "\<And>s. st_phase (finish s) = Finished" "\<And>s. st_path (finish s) = st_path s"
    and cur: "currentStore st = Some s" "st_path s = sc_path cfg" "sc_path cfg \<noteq> []"
    and off: "reconcileStore finish True env0 (cfg\<lparr>sc_path := []\<rparr>) st = (err, st1)"
    and on: "reconcileStore finish closeFails env cfg st1 = (err', st2)"
  shows "err = Some CloseStoreErr \<and> err' = None \<and> (\<exists>s2. currentStore st2 = Some s2 \<and> st_phase s2 = Finished)"
  using assms by (auto simp: reconcileStore_def currentStore_def store_close_def setTuning_def)

theorem closed_store_reused_witness:
  "\<exists>s2. currentStore (snd (reconcileStore (\<lambda>s. s\<lparr>st_phase := Finished\<rparr>) False
      \<lparr>oe_mkdirFails = False, oe_openFails = False, oe_prepareFails = False, oe_found = empty_db\<rparr>
      \<lparr>sc_path = ''q.db'', sc_retentionDays = 0, sc_maxRows = 0, sc_flushInterval = 0\<rparr>
      (snd (reconcileStore (\<lambda>s. s\<lparr>st_phase := Finished\<rparr>) True
        \<lparr>oe_mkdirFails = False, oe_openFails = False, oe_prepareFails = False, oe_found = empty_db\<rparr>
        \<lparr>sc_path = [], sc_retentionDays = 0, sc_maxRows = 0, sc_flushInterval = 0\<rparr> \<lparr>ss_current = Some exStore\<rparr>)))) = Some s2 \<and>
     st_phase s2 = Finished"
proof -
  let ?env = "\<lparr>oe_mkdirFails = False, oe_openFails = False, oe_prepareFails = False, oe_found = empty_db\<rparr>"
  let ?cfg = "\<lparr>sc_path = ''q.db'', sc_retentionDays = 0, sc_maxRows = 0, sc_flushInterval = 0\<rparr>"
  have "st_path exStore = ''q.db''" by (simp add: exStore_def openStore_def setTuning_def)
  then show ?thesis
    using closed_store_reused [of "\<lambda>s. s\<lparr>st_phase := Finished\<rparr>" "\<lparr>ss_current = Some exStore\<rparr>" exStore ?cfg ?env _ _ False ?env,
        OF _ _ _ _ _ surjective_pairing surjective_pairing]
    by (simp add: currentStore_def)
qed

end
