(* ===== verification/Query_Log.thy ===== *)
theory Query_Log
  imports Log_Reads
begin

text \<open>
  The query-log plugin: \<^verbatim>\<open>plugins/querylog/handler.go\<close>, \<^verbatim>\<open>hosts.go\<close> and \<^verbatim>\<open>client_observer.go\<close>.
  The recorder of the reply, \<^verbatim>\<open>dnstest.Recorder\<close>, remembers the message written and its code, 0
  before anything is written; \<^verbatim>\<open>plugin.ClientWrite\<close> and \<^verbatim>\<open>dns.TypeToString\<close> are arguments.
\<close>

section \<open>Host names and the client observer\<close>

definition ql_normalizeHostName :: "string \<Rightarrow> string" where
  "ql_normalizeHostName n =
     (let n' = toLower (trimSpace n) in if \<not> hasSuffix n' ''.'' then n' @ ''.'' else n')"

text \<open>The process-wide set of names, \<open>None\<close> before it is first set.\<close>

definition setHostNames :: "string list \<Rightarrow> string set option" where
  "setHostNames names = Some (fold (\<lambda>n acc. insert (ql_normalizeHostName n) acc) names {})"

definition isHostName :: "string set option \<Rightarrow> string \<Rightarrow> bool" where
  "isHostName hosts qname = (case hosts of None \<Rightarrow> False | Some ns \<Rightarrow> ql_normalizeHostName qname \<in> ns)"

text \<open>The observer is a function on a state of its own, \<open>None\<close> when there is none.\<close>

type_synonym 'o observer = "(string \<Rightarrow> string \<Rightarrow> 'o \<Rightarrow> 'o) option"

definition setClientObserver :: "(string \<Rightarrow> string \<Rightarrow> 'o \<Rightarrow> 'o) option \<Rightarrow> 'o observer" where
  "setClientObserver f = (case f of None \<Rightarrow> None | Some g \<Rightarrow> Some g)"

definition observeClient :: "'o observer \<Rightarrow> string \<Rightarrow> string \<Rightarrow> 'o \<Rightarrow> 'o" where
  "observeClient ob ipStr vlanName o' =
     (if ipStr = [] then o' else case ob of None \<Rightarrow> o' | Some g \<Rightarrow> g ipStr vlanName o')"

section \<open>The handler\<close>

definition defaultCacheLatencyThreshold :: duration where
  "defaultCacheLatencyThreshold = 2 * 1000000"

record queryLogPlugin =
  ql_vlans :: vtable
  ql_threshold :: duration

definition cacheLatencyThreshold :: "queryLogPlugin \<Rightarrow> duration" where
  "cacheLatencyThreshold q = (if ql_threshold q > 0 then ql_threshold q else defaultCacheLatencyThreshold)"

text \<open>\<^verbatim>\<open>(verdict, source)\<close>.\<close>

definition classifyFallback :: "int \<Rightarrow> duration \<Rightarrow> duration \<Rightarrow> string \<times> string" where
  "classifyFallback rcode latency threshold =
     (if rcode = rcodeNameError then (''nxdomain'', ''forward'')
      else if latency < threshold then (''cached'', ''cache'')
      else (''forwarded'', ''forward''))"

text \<open>What the handler writes to: the ring, the store, the counters, the observer's state; and the rest of the chain.\<close>

record ('s, 'o) ql_state =
  qs_ring :: ring
  qs_store :: "logStore option"
  qs_stats :: statsRollup
  qs_clients :: 'o
  qs_next :: 's

definition ql_newEntry :: "queryLogPlugin \<Rightarrow> time \<Rightarrow> request \<Rightarrow> entry" where
  "ql_newEntry q start rq = zero_entry\<lparr>e_timestamp := start, e_clientIP := rq_ip rq,
     e_clientVLAN := (case vt_lookup (ql_vlans q) (parseIP (rq_ip rq)) of None \<Rightarrow> [] | Some v \<Rightarrow> v),
     e_qname := rq_name rq, e_qtype := rq_qtype rq, e_listener := rq_localAddr rq, e_proto := rq_proto rq\<rparr>"

text \<open>The recorder's code after the chain returned \<open>rcode\<close>.\<close>

definition recordedRcode :: "(int \<Rightarrow> bool) \<Rightarrow> outcome \<Rightarrow> int" where
  "recordedRcode clientWrite oc = (case oc_written oc of
     Some m \<Rightarrow> m_rcode m
   | None \<Rightarrow> if \<not> clientWrite (oc_rcode oc) then oc_rcode oc else 0)"

text \<open>The entry as it is logged: \<open>e\<close> is the entry of the context after the chain returned.\<close>

definition finishEntry ::
  "(int \<Rightarrow> bool) \<Rightarrow> (uint16 \<Rightarrow> string) \<Rightarrow> string set option \<Rightarrow> queryLogPlugin \<Rightarrow> duration \<Rightarrow> outcome \<Rightarrow> entry \<Rightarrow> entry" where
  "finishEntry clientWrite typeToString hosts q latency oc e =
     (let rc = recordedRcode clientWrite oc;
          e1 = e\<lparr>e_latency := latency, e_rcode := rc\<rparr>;
          e2 = (if e_source e1 = [] then
                  (if rc = rcodeSuccess \<and> isHostName hosts (e_qname e1)
                   then e1\<lparr>e_verdict := ''local'', e_source := ''hosts''\<rparr>
                   else let (v, src) = classifyFallback rc latency (cacheLatencyThreshold q) in
                     e1\<lparr>e_verdict := v, e_source := src\<rparr>)
                else e1);
          e3 = (if e_cacheOutcome e2 = [] then e2\<lparr>e_cacheOutcome := ''none''\<rparr> else e2) in
      case oc_written oc of
        None \<Rightarrow> e3
      | Some m \<Rightarrow>
          let e4 = e3\<lparr>e_authenticatedData := m_ad m\<rparr> in
          (case m_answer m of
             [] \<Rightarrow> e4
           | a # _ \<Rightarrow> e4\<lparr>e_answerType := typeToString (hdr_rrtype (rr_header a))\<rparr>))"

text \<open>
  \<^verbatim>\<open>ServeDNS\<close>; \<open>start\<close> and \<open>stop\<close> are the two readings of the clock, \<open>None\<close> is the panic of a push
  into a ring without capacity. A missing next handler is a server failure.
\<close>

definition nextOrFailure :: "'s handler option \<Rightarrow> 's handler" where
  "nextOrFailure nxt rq ctx s = (case nxt of
     None \<Rightarrow> (\<lparr>oc_rcode = rcodeServerFailure, oc_err = True, oc_written = None, oc_ctx = ctx\<rparr>, s)
   | Some h \<Rightarrow> h rq ctx s)"

definition ql_serveDNS ::
  "(int \<Rightarrow> bool) \<Rightarrow> (uint16 \<Rightarrow> string) \<Rightarrow> string set option \<Rightarrow> 'o observer \<Rightarrow> queryLogPlugin \<Rightarrow> 's handler option \<Rightarrow>
   time \<Rightarrow> time \<Rightarrow> request \<Rightarrow> context_entry \<Rightarrow> ('s, 'o) ql_state \<Rightarrow> (outcome \<times> ('s, 'o) ql_state) option" where
  "ql_serveDNS clientWrite typeToString hosts ob q nxt start stop rq ctx st =
     (let e0 = ql_newEntry q start rq;
          (oc, s') = nextOrFailure nxt rq (newContext e0 ctx) (qs_next st);
          e1 = (case fromContext (oc_ctx oc) of None \<Rightarrow> e0 | Some e \<Rightarrow> e);
          e = finishEntry clientWrite typeToString hosts q (stop - start) oc e1 in
      case ring_push e (qs_ring st) of
        None \<Rightarrow> None
      | Some r \<Rightarrow> Some (oc\<lparr>oc_ctx := ctx\<rparr>,
          \<lparr>qs_ring = r, qs_store = recordNil e (qs_store st), qs_stats = stats_observe e (qs_stats st),
           qs_clients = observeClient ob (e_clientIP e) (e_clientVLAN e) (qs_clients st), qs_next = s'\<rparr>))"

text \<open>A query with what surrounds it: the rest of the chain, the clock readings, the request and its context.\<close>

record 's query =
  q_next :: "'s handler option"
  q_start :: time
  q_stop :: time
  q_request :: request
  q_ctx :: context_entry

fun serveAll ::
  "(int \<Rightarrow> bool) \<Rightarrow> (uint16 \<Rightarrow> string) \<Rightarrow> string set option \<Rightarrow> 'o observer \<Rightarrow> queryLogPlugin \<Rightarrow> 's query list \<Rightarrow>
   ('s, 'o) ql_state \<Rightarrow> ('s, 'o) ql_state option" where
  "serveAll cw tts hosts ob q [] st = Some st"
| "serveAll cw tts hosts ob q (x # xs) st =
     (case ql_serveDNS cw tts hosts ob q (q_next x) (q_start x) (q_stop x) (q_request x) (q_ctx x) st of
        None \<Rightarrow> None
      | Some (_, st') \<Rightarrow> serveAll cw tts hosts ob q xs st')"

section \<open>Lemmas\<close>

lemma setHostNames_mem: "isHostName (setHostNames names) q \<longleftrightarrow> (\<exists>n\<in>set names. ql_normalizeHostName q = ql_normalizeHostName n)"
proof -
  have "fold (\<lambda>n acc. insert (ql_normalizeHostName n) acc) names A = ql_normalizeHostName ` set names \<union> A" for A
    by (induction names arbitrary: A) auto
  then show ?thesis by (auto simp: isHostName_def setHostNames_def)
qed

lemma finishEntry_source:
  "e_source (finishEntry cw tts hosts q lat oc e) =
     (if e_source e \<noteq> [] then e_source e
      else if recordedRcode cw oc = rcodeSuccess \<and> isHostName hosts (e_qname e) then ''hosts''
      else snd (classifyFallback (recordedRcode cw oc) lat (cacheLatencyThreshold q)))"
  by (auto simp: finishEntry_def Let_def case_prod_unfold split: option.split list.split)

lemma finishEntry_verdict:
  "e_verdict (finishEntry cw tts hosts q lat oc e) =
     (if e_source e \<noteq> [] then e_verdict e
      else if recordedRcode cw oc = rcodeSuccess \<and> isHostName hosts (e_qname e) then ''local''
      else fst (classifyFallback (recordedRcode cw oc) lat (cacheLatencyThreshold q)))"
  by (auto simp: finishEntry_def Let_def case_prod_unfold split: option.split list.split)

lemma finishEntry_rest:
  "e_cacheOutcome (finishEntry cw tts hosts q lat oc e) = (if e_cacheOutcome e = [] then ''none'' else e_cacheOutcome e)"
  "e_rcode (finishEntry cw tts hosts q lat oc e) = recordedRcode cw oc"
  "e_latency (finishEntry cw tts hosts q lat oc e) = lat"
  "e_qname (finishEntry cw tts hosts q lat oc e) = e_qname e"
  "e_clientIP (finishEntry cw tts hosts q lat oc e) = e_clientIP e"
  "e_clientVLAN (finishEntry cw tts hosts q lat oc e) = e_clientVLAN e"
  by (simp_all add: finishEntry_def Let_def case_prod_unfold split: option.split list.split)

lemmas finishEntry_fields = finishEntry_source finishEntry_verdict finishEntry_rest

lemma classify_source_nonempty: "snd (classifyFallback rc lat thr) \<noteq> []"
  by (simp add: classifyFallback_def)

lemma ql_serveDNS_eq:
  assumes "ring_inv (qs_ring st)"
  shows "\<exists>oc s' e. nextOrFailure nxt rq (Some (ql_newEntry q start rq)) (qs_next st) = (oc, s') \<and>
    e = finishEntry cw tts hosts q (stop - start) oc (case oc_ctx oc of None \<Rightarrow> ql_newEntry q start rq | Some e \<Rightarrow> e) \<and>
    ql_serveDNS cw tts hosts ob q nxt start stop rq ctx st = Some (oc\<lparr>oc_ctx := ctx\<rparr>,
      \<lparr>qs_ring = ring_pushed e (qs_ring st), qs_store = recordNil e (qs_store st), qs_stats = stats_observe e (qs_stats st),
       qs_clients = observeClient ob (e_clientIP e) (e_clientVLAN e) (qs_clients st), qs_next = s'\<rparr>)"
  by (cases "nextOrFailure nxt rq (Some (ql_newEntry q start rq)) (qs_next st)")
    (simp add: ql_serveDNS_def Let_def newContext_def fromContext_def ring_push_Some [OF assms])

lemma serveAll_entries:
  "ring_inv (qs_ring st) \<Longrightarrow> \<exists>st' es. serveAll cw tts hosts ob q qs st = Some st' \<and> length es = length qs \<and>
     qs_ring st' = fold ring_pushed es (qs_ring st) \<and> qs_stats st' = fold stats_observe es (qs_stats st) \<and>
     (\<forall>e\<in>set es. e_source e \<noteq> [] \<and> e_cacheOutcome e \<noteq> [])"
proof (induction qs arbitrary: st)
  case (Cons x qs)
  obtain oc st1 e where st1: "ql_serveDNS cw tts hosts ob q (q_next x) (q_start x) (q_stop x) (q_request x) (q_ctx x) st = Some (oc, st1)"
    "qs_ring st1 = ring_pushed e (qs_ring st)" "qs_stats st1 = stats_observe e (qs_stats st)"
    "e_source e \<noteq> []" "e_cacheOutcome e \<noteq> []"
    using ql_serveDNS_eq [OF Cons.prems, of "q_next x" "q_request x" q "q_start x" cw tts hosts "q_stop x" ob "q_ctx x"]
    by (auto simp: finishEntry_fields classify_source_nonempty)
  then have "ring_inv (qs_ring st1)" using ring_inv_push [OF Cons.prems] by simp
  from Cons.IH [OF this] obtain st' es where "serveAll cw tts hosts ob q qs st1 = Some st'" "length es = length qs"
    "qs_ring st' = fold ring_pushed es (qs_ring st1)" "qs_stats st' = fold stats_observe es (qs_stats st1)"
    "\<forall>e\<in>set es. e_source e \<noteq> [] \<and> e_cacheOutcome e \<noteq> []" by blast
  with st1 show ?case by (intro exI [of _ st'] exI [of _ "e # es"]) simp
qed simp

section \<open>Properties\<close>

text \<open>
  C40. Every query is logged exactly once and passed through unchanged. The handler returns the
  code, error and message of the rest of the chain; one and the same entry goes to the ring, the
  store and the counters. Its source and cache outcome are never empty; an attribution made
  downstream is kept, and otherwise a successful answer for a name of the hosts file is
  attributed to it and the rest by code and latency.
\<close>

theorem query_logged_once:
  assumes "ring_inv (qs_ring st)" "nextOrFailure nxt rq (Some (ql_newEntry q start rq)) (qs_next st) = (oc, s')"
    "oc_ctx oc = Some e0"
  shows "\<exists>e. ql_serveDNS cw tts (setHostNames names) ob q nxt start stop rq ctx st = Some (oc\<lparr>oc_ctx := ctx\<rparr>,
      \<lparr>qs_ring = ring_pushed e (qs_ring st), qs_store = recordNil e (qs_store st), qs_stats = stats_observe e (qs_stats st),
       qs_clients = observeClient ob (e_clientIP e) (e_clientVLAN e) (qs_clients st), qs_next = s'\<rparr>) \<and>
    e_rcode e = recordedRcode cw oc \<and> e_latency e = stop - start \<and> e_cacheOutcome e \<noteq> [] \<and>
    (e_source e, e_verdict e) =
      (if e_source e0 \<noteq> [] then (e_source e0, e_verdict e0)
       else if e_rcode e = 0 \<and> (\<exists>n\<in>set names. ql_normalizeHostName (e_qname e0) = ql_normalizeHostName n)
         then (''hosts'', ''local'')
       else if e_rcode e = 3 then (''forward'', ''nxdomain'')
       else if stop - start < cacheLatencyThreshold q then (''cache'', ''cached'')
       else (''forward'', ''forwarded''))"
proof -
  let ?e = "finishEntry cw tts (setHostNames names) q (stop - start) oc e0"
  have ok: "ql_serveDNS cw tts (setHostNames names) ob q nxt start stop rq ctx st = Some (oc\<lparr>oc_ctx := ctx\<rparr>,
      \<lparr>qs_ring = ring_pushed ?e (qs_ring st), qs_store = recordNil ?e (qs_store st), qs_stats = stats_observe ?e (qs_stats st),
       qs_clients = observeClient ob (e_clientIP ?e) (e_clientVLAN ?e) (qs_clients st), qs_next = s'\<rparr>)"
    using ql_serveDNS_eq [OF assms(1), of nxt rq q start cw tts "setHostNames names" stop ob ctx] assms(2,3) by auto
  have "e_cacheOutcome ?e \<noteq> []" by (simp add: finishEntry_fields)
  with ok show ?thesis
    by (intro exI [of _ ?e]) (auto simp: finishEntry_fields setHostNames_mem classifyFallback_def)
qed

text \<open>A request and a state for examples; the rest of the chain answers with an empty reply.\<close>

definition exRequest :: request where
  "exRequest = \<lparr>rq_name = ''nas.'', rq_qtype = dnsTypeA, rq_do = False, rq_ip = ''10.0.0.1'', rq_family = 1,
     rq_localAddr = ''0.0.0.0:53'', rq_proto = ''udp'', rq_msg = zero_msg\<rparr>"

definition exAnswer :: "unit handler" where
  "exAnswer rq ctx s = (\<lparr>oc_rcode = 0, oc_err = False, oc_written = Some zero_msg, oc_ctx = ctx\<rparr>, s)"

definition exPlugin :: queryLogPlugin where
  "exPlugin = \<lparr>ql_vlans = zeroTable, ql_threshold = 0\<rparr>"

definition exState :: "(unit, unit) ql_state" where
  "exState = \<lparr>qs_ring = newRing 4, qs_store = None, qs_stats = newStatsRollup statsBucketWidth statsBucketCount,
     qs_clients = (), qs_next = ()\<rparr>"

theorem query_logged_once_witness:
  "\<exists>e oc st'. ql_serveDNS (\<lambda>_. True) (\<lambda>_. []) (setHostNames [''NAS'']) None exPlugin (Some exAnswer) 0 1 exRequest None exState
     = Some (oc, st') \<and> snapshot no_filter (qs_ring st') = [e] \<and> e_source e = ''hosts''"
proof -
  let ?e0 = "ql_newEntry exPlugin 0 exRequest"
  have inv: "ring_inv (qs_ring exState)" by (simp add: exState_def ring_inv_new)
  have name: "ql_normalizeHostName (e_qname ?e0) = ql_normalizeHostName ''NAS''" "e_source ?e0 = []"
    unfolding ql_newEntry_def exRequest_def by (simp_all add: zero_entry_def) code_simp
  obtain e where e: "ql_serveDNS (\<lambda>_. True) (\<lambda>_. []) (setHostNames [''NAS'']) None exPlugin (Some exAnswer) 0 1 exRequest None exState =
      Some (\<lparr>oc_rcode = 0, oc_err = False, oc_written = Some zero_msg, oc_ctx = None\<rparr>,
        \<lparr>qs_ring = ring_pushed e (qs_ring exState), qs_store = recordNil e (qs_store exState),
         qs_stats = stats_observe e (qs_stats exState), qs_clients = (), qs_next = ()\<rparr>)" "e_source e = ''hosts''"
    using query_logged_once [OF inv, of "Some exAnswer" exRequest exPlugin 0 _ _ ?e0 "\<lambda>_. True" "\<lambda>_. []" "[''NAS'']" None 1 None] name
    by (auto simp: nextOrFailure_def exAnswer_def recordedRcode_def zero_msg_def)
  have "snapshot no_filter (ring_pushed e (newRing 4)) = [e]"
    by (simp add: snapshot_def ring_pushed_def ring_push_def newRing_def ring_at_def filter_matches_def no_filter_def)
  with e show ?thesis by (auto simp: exState_def)
qed

text \<open>
  The views of the log agree: after any sequence of queries served from a new state, there is
  one entry per query, the live view is the latest of them, newest first, up to the capacity, and
  the counters count all of them.
\<close>

theorem log_views_agree:
  assumes "0 < n" "qs_ring st = newRing n" "qs_stats st = newStatsRollup width k"
  shows "\<exists>st' es. serveAll cw tts hosts ob q qs st = Some st' \<and> length es = length qs \<and>
    liveSnapshot no_filter \<lparr>l_ring = Some (qs_ring st'), l_store = qs_store st', l_stats = Some (qs_stats st')\<rparr>
      = take n (rev es) \<and>
    t_queries (log_totals \<lparr>l_ring = Some (qs_ring st'), l_store = qs_store st', l_stats = Some (qs_stats st')\<rparr>)
      = int (length qs) \<and>
    (\<forall>e\<in>set es. e_source e \<noteq> [] \<and> e_cacheOutcome e \<noteq> [])"
proof -
  have inv: "ring_inv (qs_ring st)" using assms(1,2) by (simp add: ring_inv_new)
  obtain st' es where st': "serveAll cw tts hosts ob q qs st = Some st'" "length es = length qs"
      "qs_ring st' = fold ring_pushed es (qs_ring st)" "qs_stats st' = fold stats_observe es (qs_stats st)"
      "\<forall>e\<in>set es. e_source e \<noteq> [] \<and> e_cacheOutcome e \<noteq> []"
    using serveAll_entries [OF inv] by blast
  have "ring_recent (newRing n) = []" "ring_cap (newRing n) = n"
    by (simp_all add: ring_recent_def ring_cap_def newRing_def)
  then have "ring_recent (qs_ring st') = take n (rev es)"
    using lr.recent_pushes [OF inv, of es] st'(3) assms(2) by simp
  moreover have "filter (filter_matches no_filter) xs = xs" for xs
    by (simp add: filter_id_conv filter_matches_def no_filter_def)
  moreover have "sr_queries (qs_stats st') = int (length qs)"
    using st'(2,4) assms(3) by (simp add: fold_observe_counts newStatsRollup_def)
  ultimately show ?thesis using st'
    by (intro exI [of _ st'] exI [of _ es])
      (simp add: liveSnapshot_def log_totals_def stats_totals_def snapshot_def ring_recent_def)
qed

theorem log_views_agree_witness:
  "\<exists>st'. serveAll (\<lambda>_. True) (\<lambda>_. []) None None exPlugin
      [\<lparr>q_next = Some exAnswer, q_start = 0, q_stop = 1, q_request = exRequest, q_ctx = None\<rparr>,
       \<lparr>q_next = None, q_start = 2, q_stop = 3, q_request = exRequest, q_ctx = None\<rparr>] exState = Some st' \<and>
     t_queries (log_totals \<lparr>l_ring = Some (qs_ring st'), l_store = qs_store st', l_stats = Some (qs_stats st')\<rparr>) = 2"
  using log_views_agree [of 4 exState statsBucketWidth statsBucketCount "\<lambda>_. True" "\<lambda>_. []" None None exPlugin
      "[\<lparr>q_next = Some exAnswer, q_start = 0, q_stop = 1, q_request = exRequest, q_ctx = None\<rparr>,
        \<lparr>q_next = None, q_start = 2, q_stop = 3, q_request = exRequest, q_ctx = None\<rparr>]"]
  by (auto simp: exState_def)

end
