(* ===== verification/Glob.thy ===== *)
theory Glob
  imports Go_Strings
begin

text \<open>
  The glob matcher of \<^verbatim>\<open>plugins/mdnsbridge/selector.go\<close>: an iterative matcher with one point of
  return, against the recursive definition of what a pattern means. The loop is a partial
  function, so that its termination is a theorem.
\<close>

section \<open>The matcher\<close>

text \<open>\<open>star\<close> is the position of the last star, \<open>None\<close> for -1, and \<open>ss\<close> where its text starts.\<close>

partial_function (option) glob_loop ::
  "string \<Rightarrow> string \<Rightarrow> nat option \<Rightarrow> nat \<Rightarrow> nat \<Rightarrow> nat \<Rightarrow> nat option" where
  "glob_loop p s star ss i j =
     (if j < length s then
        (if i < length p \<and> (p ! i = CHR ''?'' \<or> p ! i = s ! j) then glob_loop p s star ss (i + 1) (j + 1)
         else if i < length p \<and> p ! i = CHR ''*'' then glob_loop p s (Some i) j (i + 1) j
         else (case star of
             Some k \<Rightarrow> glob_loop p s star (ss + 1) (k + 1) (ss + 1)
           | None \<Rightarrow> Some (length p + 1)))
      else Some (i + length (takeWhile (\<lambda>c. c = CHR ''*'') (drop i p))))"

declare glob_loop.simps [code]

text \<open>
  \<^verbatim>\<open>glob\<close>: the loop gives the position in the pattern behind the trailing stars, a position past
  the end for the early \<^verbatim>\<open>return false\<close>.
\<close>

definition glob :: "string \<Rightarrow> string \<Rightarrow> bool option" where
  "glob p s = map_option (\<lambda>i. i = length p) (glob_loop p s None 0 0 0)"

definition globMatch :: "string \<Rightarrow> string \<Rightarrow> bool" where
  "globMatch pattern s \<longleftrightarrow> glob (toLower pattern) (toLower s) = Some True"

section \<open>The meaning of a pattern\<close>

fun glob_ref :: "string \<Rightarrow> string \<Rightarrow> bool" where
  "glob_ref [] s = (s = [])"
| "glob_ref (c # p) s =
     (if c = CHR ''*'' then glob_ref p s \<or> (case s of [] \<Rightarrow> False | d # s' \<Rightarrow> glob_ref (c # p) s')
      else (case s of [] \<Rightarrow> False | d # s' \<Rightarrow> (c = CHR ''?'' \<or> c = d) \<and> glob_ref p s'))"

lemma glob_ref_star: "glob_ref (CHR ''*'' # p) s \<longleftrightarrow> (\<exists>n\<le>length s. glob_ref p (drop n s))"
proof (induction s)
  case (Cons d s)
  have "glob_ref (CHR ''*'' # p) (d # s) \<longleftrightarrow> glob_ref p (d # s) \<or> (\<exists>n\<le>length s. glob_ref p (drop n s))"
    using Cons by simp
  also have "\<dots> \<longleftrightarrow> (\<exists>n\<le>length (d # s). glob_ref p (drop n (d # s)))"
  proof
    assume "glob_ref p (d # s) \<or> (\<exists>n\<le>length s. glob_ref p (drop n s))"
    then show "\<exists>n\<le>length (d # s). glob_ref p (drop n (d # s))"
    proof
      assume "\<exists>n\<le>length s. glob_ref p (drop n s)"
      then obtain n where "n \<le> length s" "glob_ref p (drop n s)" by blast
      then show ?thesis by (intro exI [of _ "Suc n"]) simp
    qed (auto intro: exI [of _ 0])
  next
    assume "\<exists>n\<le>length (d # s). glob_ref p (drop n (d # s))"
    then obtain n where n: "n \<le> length (d # s)" "glob_ref p (drop n (d # s))" by blast
    then show "glob_ref p (d # s) \<or> (\<exists>n\<le>length s. glob_ref p (drop n s))" by (cases n) auto
  qed
  finally show ?case .
qed auto

lemma glob_ref_seg:
  "CHR ''*'' \<notin> set seg \<Longrightarrow> glob_ref (seg @ q) t \<Longrightarrow> length seg \<le> length t \<and> glob_ref q (drop (length seg) t)"
proof (induction seg arbitrary: t)
  case (Cons c seg)
  then show ?case by (cases t) auto
qed simp

lemma glob_ref_Nil: "glob_ref p [] \<longleftrightarrow> (\<forall>c\<in>set p. c = CHR ''*'')"
  by (induction p) auto

section \<open>The loop finds what the pattern means\<close>

text \<open>Where the loop stands: the text of the last star fits the part of the pattern behind it.\<close>

definition glob_inv :: "string \<Rightarrow> string \<Rightarrow> nat option \<Rightarrow> nat \<Rightarrow> nat \<Rightarrow> nat \<Rightarrow> bool" where
  "glob_inv p s star ss i j \<longleftrightarrow> i \<le> length p \<and> j \<le> length s \<and>
     (\<forall>k. star = Some k \<longrightarrow> k < i \<and> ss \<le> j \<and> i - Suc k = j - ss \<and>
       CHR ''*'' \<notin> set (take (i - Suc k) (drop (Suc k) p)))"

text \<open>What is still possible: a match from here, or from a later text of the last star.\<close>

definition glob_open :: "string \<Rightarrow> string \<Rightarrow> nat option \<Rightarrow> nat \<Rightarrow> nat \<Rightarrow> nat \<Rightarrow> bool" where
  "glob_open p s star ss i j \<longleftrightarrow> glob_ref (drop i p) (drop j s) \<or>
     (\<exists>k m. star = Some k \<and> ss < m \<and> m \<le> length s \<and> glob_ref (drop (Suc k) p) (drop m s))"

lemma seg_split: "k < i \<Longrightarrow> i \<le> length p \<Longrightarrow> drop (Suc k) p = take (i - Suc k) (drop (Suc k) p) @ drop i p"
proof -
  assume "k < i" "i \<le> length p"
  then have "drop i p = drop (i - Suc k) (drop (Suc k) p)" by simp
  then show ?thesis by (simp only: append_take_drop_id)
qed

text \<open>A match from a later text of the last star leaves room for one more step of the text.\<close>

lemma later_match:
  assumes inv: "glob_inv p s (Some k) ss i j" and m: "ss < m" "m \<le> length s" "glob_ref (drop (Suc k) p) (drop m s)"
  shows "\<exists>n>j. n \<le> length s \<and> glob_ref (drop i p) (drop n s)"
proof -
  let ?seg = "take (i - Suc k) (drop (Suc k) p)"
  have i: "k < i" "i \<le> length p" "ss \<le> j" "i - Suc k = j - ss" "CHR ''*'' \<notin> set ?seg"
    using inv unfolding glob_inv_def by blast+
  have len: "length ?seg = j - ss" using i by simp
  have "glob_ref (?seg @ drop i p) (drop m s)" using m(3) seg_split [OF i(1,2)] by simp
  from glob_ref_seg [OF i(5) this] have "j - ss \<le> length s - m" "glob_ref (drop i p) (drop (j - ss + m) s)"
    unfolding len by (simp_all add: add.commute)
  with i(3) m show ?thesis by (intro exI [of _ "j - ss + m"]) auto
qed

lemma glob_inv_match:
  assumes "glob_inv p s star ss i j" "i < length p" "j < length s" "p ! i \<noteq> CHR ''*''"
  shows "glob_inv p s star ss (i + 1) (j + 1)"
proof -
  have "CHR ''*'' \<notin> set (take (Suc i - Suc k) (drop (Suc k) p))" if "star = Some k" for k
  proof -
    have k: "k < i" "CHR ''*'' \<notin> set (take (i - Suc k) (drop (Suc k) p))" using assms(1) that unfolding glob_inv_def by blast+
    then have "Suc i - Suc k = Suc (i - Suc k)" "drop (Suc k) p ! (i - Suc k) = p ! i" "i - Suc k < length (drop (Suc k) p)"
      using assms(2) by auto
    then show ?thesis using k(2) assms(4) by (simp add: take_Suc_conv_app_nth)
  qed
  then show ?thesis using assms unfolding glob_inv_def by auto
qed

lemma glob_open_match:
  assumes "i < length p" "j < length s" "p ! i \<noteq> CHR ''*''" "p ! i = CHR ''?'' \<or> p ! i = s ! j"
  shows "glob_open p s star ss i j \<longleftrightarrow> glob_open p s star ss (i + 1) (j + 1)"
  using assms by (simp add: glob_open_def flip: Cons_nth_drop_Suc)

lemma glob_open_star:
  assumes inv: "glob_inv p s star ss i j" and "i < length p" "p ! i = CHR ''*''"
  shows "glob_open p s star ss i j \<longleftrightarrow> glob_open p s (Some i) j (i + 1) j"
proof -
  have star: "glob_ref (drop i p) t \<longleftrightarrow> (\<exists>n\<le>length t. glob_ref (drop (Suc i) p) (drop n t))" for t
    using assms(2,3) glob_ref_star [of "drop (Suc i) p" t] by (simp only: flip: Cons_nth_drop_Suc)
  have j: "j \<le> length s" using inv unfolding glob_inv_def by blast
  have here: "glob_ref (drop i p) (drop j s) \<longleftrightarrow> (\<exists>m\<ge>j. m \<le> length s \<and> glob_ref (drop (Suc i) p) (drop m s))"
  proof
    assume "glob_ref (drop i p) (drop j s)"
    then obtain n where "n \<le> length s - j" "glob_ref (drop (Suc i) p) (drop (n + j) s)" unfolding star by auto
    then show "\<exists>m\<ge>j. m \<le> length s \<and> glob_ref (drop (Suc i) p) (drop m s)" using j by (intro exI [of _ "n + j"]) auto
  next
    assume "\<exists>m\<ge>j. m \<le> length s \<and> glob_ref (drop (Suc i) p) (drop m s)"
    then obtain m where "j \<le> m" "m \<le> length s" "glob_ref (drop (Suc i) p) (drop m s)" by blast
    then show "glob_ref (drop i p) (drop j s)" unfolding star by (intro exI [of _ "m - j"]) auto
  qed
  have later: "glob_ref (drop i p) (drop j s)"
    if k: "star = Some k" "ss < m" "m \<le> length s" "glob_ref (drop (Suc k) p) (drop m s)" for k m
  proof -
    obtain n where n: "j < n" "n \<le> length s" "glob_ref (drop i p) (drop n s)"
      using later_match [OF inv [unfolded k(1)] k(2-4)] by blast
    then obtain l where "l \<le> length s - n" "glob_ref (drop (Suc i) p) (drop (l + n) s)" unfolding star by auto
    then show ?thesis unfolding here using n by (intro exI [of _ "l + n"]) auto
  qed
  have "glob_open p s star ss i j \<longleftrightarrow> glob_ref (drop i p) (drop j s)"
    unfolding glob_open_def using later by blast
  also have "\<dots> \<longleftrightarrow> glob_open p s (Some i) j (i + 1) j"
    unfolding glob_open_def here using j by (auto simp: le_less)
  finally show ?thesis .
qed

lemma glob_open_back:
  assumes "glob_inv p s (Some k) ss i j" "j < length s" "\<not> glob_ref (drop i p) (drop j s)"
  shows "glob_open p s (Some k) ss i j \<longleftrightarrow> glob_open p s (Some k) (ss + 1) (k + 1) (ss + 1)"
proof -
  have "ss < length s" using assms unfolding glob_inv_def by auto
  then have "(\<exists>m>ss. m \<le> length s \<and> Q m) \<longleftrightarrow> Q (Suc ss) \<or> (\<exists>m>Suc ss. m \<le> length s \<and> Q m)" for Q
    by (metis Suc_leI Suc_lessD Suc_lessI lessI)
  then show ?thesis using assms(3) unfolding glob_open_def by auto
qed

lemma glob_open_end:
  assumes inv: "glob_inv p s star ss i j" and "\<not> j < length s"
  shows "glob_open p s star ss i j \<longleftrightarrow> i + length (takeWhile (\<lambda>c. c = CHR ''*'') (drop i p)) = length p"
proof -
  have j: "j = length s" "i \<le> length p" using assms unfolding glob_inv_def by auto
  have "\<not> (ss < m \<and> m \<le> length s \<and> glob_ref (drop (Suc k) p) (drop m s))" if "star = Some k" for k m
    using later_match [OF inv [unfolded that], of m] j(1) by auto
  then have "glob_open p s star ss i j \<longleftrightarrow> glob_ref (drop i p) []"
    unfolding glob_open_def using j(1) by auto
  also have "\<dots> \<longleftrightarrow> takeWhile (\<lambda>c. c = CHR ''*'') (drop i p) = drop i p"
    by (simp add: glob_ref_Nil takeWhile_eq_all_conv)
  also have "\<dots> \<longleftrightarrow> length (takeWhile (\<lambda>c. c = CHR ''*'') (drop i p)) = length (drop i p)"
    by (metis takeWhile_eq_take length_takeWhile_le take_all_iff)
  finally show ?thesis using j(2) by auto
qed

lemma glob_loop_correct:
  assumes ns: "CHR ''*'' \<notin> set s"
  shows "glob_inv p s star ss i j \<Longrightarrow>
    \<exists>r. glob_loop p s star ss i j = Some r \<and> (r = length p \<longleftrightarrow> glob_open p s star ss i j)"
proof (induction "(star, ss, i, j)" arbitrary: star ss i j
    rule: wf_induct_rule [OF wf_measures [of "[\<lambda>(star, ss, i, j). length p - (case star of None \<Rightarrow> 0 | Some k \<Rightarrow> Suc k),
      \<lambda>(star, ss, i, j). length s - ss, \<lambda>(star, ss, i, j). length s - j]"]])
  case less: 1
  note inv = less.prems
  have ij: "i \<le> length p" "j \<le> length s" using inv unfolding glob_inv_def by auto
  show ?case
  proof (cases "j < length s")
    case False
    then show ?thesis using glob_open_end [OF inv False] by (subst glob_loop.simps) simp
  next
    case j: True
    have sj: "s ! j \<noteq> CHR ''*''" using ns j nth_mem by metis
    consider (hit) "i < length p" "p ! i \<noteq> CHR ''*''" "p ! i = CHR ''?'' \<or> p ! i = s ! j"
      | (wild) "i < length p" "p ! i = CHR ''*''"
      | (miss) "i < length p \<longrightarrow> p ! i \<noteq> CHR ''*'' \<and> p ! i \<noteq> CHR ''?'' \<and> p ! i \<noteq> s ! j" by blast
    then show ?thesis
    proof cases
      case hit
      have "\<exists>r. glob_loop p s star ss (i + 1) (j + 1) = Some r \<and> (r = length p \<longleftrightarrow> glob_open p s star ss (i + 1) (j + 1))"
        by (rule less.hyps) (use j glob_inv_match [OF inv hit(1) j hit(2)] in auto)
      then show ?thesis
        using j hit glob_open_match [OF hit(1) j hit(2,3)] by (subst glob_loop.simps) simp
    next
      case wild
      have "\<exists>r. glob_loop p s (Some i) j (i + 1) j = Some r \<and> (r = length p \<longleftrightarrow> glob_open p s (Some i) j (i + 1) j)"
      proof (rule less.hyps)
        show "glob_inv p s (Some i) j (i + 1) j" using wild ij by (simp add: glob_inv_def)
        have "length p - Suc i < length p - (case star of None \<Rightarrow> 0 | Some k \<Rightarrow> Suc k)"
          using inv wild(1) unfolding glob_inv_def by (auto split: option.split)
        then show "((Some i, j, i + 1, j), (star, ss, i, j)) \<in> measures [\<lambda>(star, ss, i, j). length p - (case star of None \<Rightarrow> 0 | Some k \<Rightarrow> Suc k),
            \<lambda>(star, ss, i, j). length s - ss, \<lambda>(star, ss, i, j). length s - j]" by simp
      qed
      then show ?thesis
        using j wild sj glob_open_star [OF inv wild] by (subst glob_loop.simps) simp
    next
      case miss
      have none: "\<not> glob_ref (drop i p) (drop j s)"
        using miss j ij(1) by (cases "i < length p") (auto simp flip: Cons_nth_drop_Suc)
      show ?thesis
      proof (cases star)
        case None
        then show ?thesis using j miss none by (subst glob_loop.simps) (auto simp: glob_open_def)
      next
        case (Some k)
        have kk: "k < i" "ss \<le> j" using inv Some unfolding glob_inv_def by auto
        have "\<exists>r. glob_loop p s (Some k) (ss + 1) (k + 1) (ss + 1) = Some r \<and>
            (r = length p \<longleftrightarrow> glob_open p s (Some k) (ss + 1) (k + 1) (ss + 1))"
          by (rule less.hyps) (use kk ij j Some in \<open>auto simp: glob_inv_def\<close>)
        then show ?thesis
          using j miss Some glob_open_back [OF inv [unfolded Some] j none] by (subst glob_loop.simps) auto
      qed
    qed
  qed
qed

text \<open>The loop returns on every text.\<close>

lemma glob_loop_returns:
  "i \<le> length p \<Longrightarrow> j \<le> length s \<Longrightarrow> \<forall>k. star = Some k \<longrightarrow> k < i \<and> ss \<le> j \<Longrightarrow>
     \<exists>r. glob_loop p s star ss i j = Some r"
proof (induction "(star, ss, i, j)" arbitrary: star ss i j
    rule: wf_induct_rule [OF wf_measures [of "[\<lambda>(star, ss, i, j). length p - (case star of None \<Rightarrow> 0 | Some k \<Rightarrow> Suc k),
      \<lambda>(star, ss, i, j). length s - ss, \<lambda>(star, ss, i, j). length s - j]"]])
  case less: 1
  show ?case
  proof (cases "j < length s")
    case j: True
    have hit: "\<exists>r. glob_loop p s star ss (i + 1) (j + 1) = Some r" if "i < length p"
      by (rule less.hyps) (use that less.prems j in auto)
    have wild: "\<exists>r. glob_loop p s (Some i) j (i + 1) j = Some r" if "i < length p"
      by (rule less.hyps) (use that less.prems in \<open>auto split: option.split\<close>)
    have again: "\<exists>r. glob_loop p s (Some k) (ss + 1) (k + 1) (ss + 1) = Some r" if "star = Some k" for k
      by (rule less.hyps) (use that less.prems j in auto)
    show ?thesis using j hit wild again by (subst glob_loop.simps) (auto split: option.split)
  qed (subst glob_loop.simps, simp)
qed

section \<open>Properties\<close>

lemma glob_returns: "\<exists>b. glob p s = Some b"
  using glob_loop_returns [of 0 p 0 s None 0] by (auto simp: glob_def)

lemma glob_correct:
  assumes "CHR ''*'' \<notin> set s"
  shows "glob p s = Some (glob_ref p s)"
proof -
  have "glob_inv p s None 0 0 0" by (simp add: glob_inv_def)
  then show ?thesis using assms glob_loop_correct [of s p None 0 0 0] by (auto simp: glob_def glob_open_def)
qed

lemma glob_ref_refl: "glob_ref p p"
proof (induction p)
  case (Cons c p)
  then show ?case by (cases p) auto
qed simp

lemma globMatch_refl: "CHR ''*'' \<notin> set (toLower p) \<Longrightarrow> globMatch p p"
  by (simp add: globMatch_def glob_correct glob_ref_refl)

text \<open>
  C17. The iterative glob matcher returns on every pattern and text, and matches exactly what the
  pattern means, a star for any run and a question mark for one character, on any text without a
  star.
\<close>

theorem glob_matches_meaning:
  "(\<exists>b. glob p s = Some b) \<and> (CHR ''*'' \<notin> set s \<longrightarrow> glob p s = Some (glob_ref p s))"
  using glob_returns glob_correct by blast

theorem glob_matches_meaning_witness:
  "glob ''_*._tcp'' ''_airplay._tcp'' = Some True"
  using glob_matches_meaning [of "''_*._tcp''" "''_airplay._tcp''"] by simp

text \<open>
  On a text with a star the matcher can fail although the pattern matches: it takes a star of
  the text as an ordinary match of the star of the pattern and forgets to note the star.
\<close>

theorem glob_star_in_text:
  "glob ''*'' ''*a'' = Some False \<and> glob_ref ''*'' ''*a''"
proof
  show "glob ''*'' ''*a'' = Some False" unfolding glob_def by (simp add: glob_loop.simps)
  show "glob_ref ''*'' ''*a''" by simp
qed

end
