(* ===== verification/Mdns_Table.thy ===== *)
theory Mdns_Table
  imports Glob Dns_Chain Zones "HOL-Library.AList"
begin

text \<open>
  The mDNS bridge: selectors (\<^verbatim>\<open>plugins/mdnsbridge/selector.go\<close>), the discovery table
  (\<^verbatim>\<open>table.go\<close>, \<^verbatim>\<open>config.go\<close>), what the listener puts into it (\<^verbatim>\<open>listener.go\<close>), its
  configuration from the settings (\<^verbatim>\<open>internal/mdnscfg/mdnscfg.go\<close>) and the plugin's handler
  (\<^verbatim>\<open>handler.go\<close>).

  The table of the code is a map; here it is a list of keys and entries in the order in which a
  loop over the map meets them, and the results are shown not to depend on it. The VLAN table is
  the process-wide one at the time of the call.
\<close>

section \<open>Selectors\<close>

record mentry =
  me_name :: string
  me_host :: string
  me_service :: string
  me_instance :: string
  me_txt :: "(string \<times> string) list"
  me_ipv4 :: "string list"
  me_ipv6 :: "string list"
  me_published :: bool
  me_promoted :: bool
  me_lastSeen :: time
  me_ttl :: duration
  me_manual :: bool

definition entryInVLAN :: "vtable \<Rightarrow> mentry \<Rightarrow> string \<Rightarrow> bool" where
  "entryInVLAN vt e v =
     list_ex (\<lambda>s. let a = parseIP s in a \<noteq> [] \<and> vt_lookup vt a = Some v) (me_ipv4 e @ me_ipv6 e)"

definition sel_match :: "vtable \<Rightarrow> selector \<Rightarrow> mentry \<Rightarrow> bool" where
  "sel_match vt s e =
     (if sel_service s \<noteq> [] \<and> \<not> globMatch (sel_service s) (me_service e) then False
      else if sel_instance s \<noteq> [] \<and> \<not> globMatch (sel_instance s) (me_instance e) then False
      else if sel_host s \<noteq> [] \<and> \<not> globMatch (trimSuffix (sel_host s) ''.'') (trimSuffix (me_host e) ''.'') then False
      else if \<not> list_all (\<lambda>(k, want). case map_of (me_txt e) k of None \<Rightarrow> False | Some got \<Rightarrow> globMatch want got) (sel_txt s)
        then False
      else if toLower (sel_family s) = ''ipv4'' \<and> me_ipv4 e = [] then False
      else if toLower (sel_family s) = ''ipv6'' \<and> me_ipv6 e = [] then False
      else if sel_vlan s \<noteq> [] \<and> \<not> entryInVLAN vt e (sel_vlan s) then False
      else True)"

fun matchAny :: "vtable \<Rightarrow> selector list \<Rightarrow> mentry \<Rightarrow> bool" where
  "matchAny vt [] e = False"
| "matchAny vt (s # ss) e = (if sel_match vt s e then True else matchAny vt ss e)"

section \<open>The configuration\<close>

record mdnsConfig =
  mc_defaultSuffix :: string
  mc_autoPublish :: "selector list"
  mc_naming :: "namingRule list"
  mc_promoted :: "(string \<times> selector) list"

fun suffixForRules :: "vtable \<Rightarrow> namingRule list \<Rightarrow> string \<Rightarrow> mentry \<Rightarrow> string" where
  "suffixForRules vt [] dflt e = dflt"
| "suffixForRules vt (r # rs) dflt e = (if sel_match vt (nr_match r) e then nr_suffix r else suffixForRules vt rs dflt e)"

definition suffixFor :: "vtable \<Rightarrow> mdnsConfig \<Rightarrow> mentry \<Rightarrow> string" where
  "suffixFor vt cfg e = suffixForRules vt (mc_naming cfg) (mc_defaultSuffix cfg) e"

text \<open>The selectors of the model and of the plugin have the same fields.\<close>

definition toSelector :: "selector \<Rightarrow> selector" where
  "toSelector s = \<lparr>sel_service = sel_service s, sel_instance = sel_instance s, sel_host = sel_host s,
     sel_txt = sel_txt s, sel_vlan = sel_vlan s, sel_family = sel_family s\<rparr>"

definition toSelectors :: "selector list \<Rightarrow> selector list" where
  "toSelectors ss = map toSelector ss"

definition toNaming :: "namingRule list \<Rightarrow> namingRule list" where
  "toNaming rs = map (\<lambda>r. \<lparr>nr_match = toSelector (nr_match r), nr_suffix = trimSuffix (nr_suffix r) ''.''\<rparr>) rs"

definition fqdn :: "string \<Rightarrow> string" where
  "fqdn n = toLower (trimSuffix n ''.'') @ ''.''"

definition mdnscfg_build :: "settings \<Rightarrow> recordSet \<Rightarrow> mdnsConfig" where
  "mdnscfg_build s rs =
     (let suff = (if mdns_suffix (st_mdns s) = [] then ownedZone else mdns_suffix (st_mdns s)) in
      \<lparr>mc_defaultSuffix = trimSuffix suff ''.'',
       mc_autoPublish = toSelectors (mdns_autoPublish (st_mdns s)),
       mc_naming = toNaming (mdns_naming (st_mdns s)),
       mc_promoted = fold (\<lambda>r m. case rec_match r of
           Some sel \<Rightarrow> if isMDNS r then AList.update (fqdn (rec_name r)) (toSelector sel) m else m
         | None \<Rightarrow> m) rs []\<rparr>)"

section \<open>The table\<close>

record mtable =
  mt_entries :: "(string \<times> mentry) list"
  mt_cfg :: mdnsConfig
  mt_ttl :: duration

definition DefaultTTL :: duration where "DefaultTTL = 24 * 3600 * 1000000000"

definition mt_new :: "mdnsConfig \<Rightarrow> duration \<Rightarrow> mtable" where
  "mt_new cfg ttl = \<lparr>mt_entries = [], mt_cfg = cfg, mt_ttl = (if ttl \<le> 0 then DefaultTTL else ttl)\<rparr>"

definition entryKey :: "mentry \<Rightarrow> string" where
  "entryKey e = toLower (me_service e @ ''|'' @ me_instance e @ ''|'' @ trimSuffix (me_host e) ''.'' @ ''.'')"

text \<open>\<^verbatim>\<open>sanitizeLabel\<close>: letters, digits and hyphens are kept, a space or an underscore becomes a hyphen.\<close>

definition sanitizeChar :: "char \<Rightarrow> string" where
  "sanitizeChar c = (let n = (of_char c :: nat) in
     if (97 \<le> n \<and> n \<le> 122) \<or> (48 \<le> n \<and> n \<le> 57) \<or> c = CHR ''-'' then [c]
     else if c = CHR '' '' \<or> c = CHR ''_'' then ''-'' else [])"

definition sanitizeLabel :: "string \<Rightarrow> string" where
  "sanitizeLabel s = trimChar (CHR ''-'') (concat (map sanitizeChar (toLower s)))"

definition firstLabel :: "string \<Rightarrow> string" where
  "firstLabel h = sanitizeLabel (fst (cutAt (CHR ''.'') (toLower (trimChar (CHR ''.'') h))))"

fun uniqueFrom :: "string list \<Rightarrow> string list \<Rightarrow> string list" where
  "uniqueFrom seen [] = []"
| "uniqueFrom seen (s # ss) =
     (if s \<noteq> [] \<and> s \<notin> set seen then s # uniqueFrom (s # seen) ss else uniqueFrom seen ss)"

definition mergeUnique :: "string list \<Rightarrow> string list \<Rightarrow> string list" where
  "mergeUnique a b = sort (uniqueFrom [] (a @ b))"

definition promotedMatch :: "vtable \<Rightarrow> mdnsConfig \<Rightarrow> mentry \<Rightarrow> bool" where
  "promotedMatch vt cfg e = list_ex (\<lambda>(_, sel). sel_match vt sel e) (mc_promoted cfg)"

definition rederive :: "vtable \<Rightarrow> mdnsConfig \<Rightarrow> mentry \<Rightarrow> mentry" where
  "rederive vt cfg e =
     (let label = firstLabel (me_host e);
          e1 = (if label \<noteq> [] then e\<lparr>me_name := label @ ''.'' @ trimSuffix (suffixFor vt cfg e) ''.'' @ ''.''\<rparr> else e);
          e2 = e1\<lparr>me_promoted := promotedMatch vt cfg e1\<rparr> in
      e2\<lparr>me_published := me_manual e2 \<or> matchAny vt (mc_autoPublish cfg) e2 \<or> me_promoted e2\<rparr>)"

definition mt_setConfig :: "vtable \<Rightarrow> mdnsConfig \<Rightarrow> mtable \<Rightarrow> mtable" where
  "mt_setConfig vt cfg t = t\<lparr>mt_cfg := cfg, mt_entries := map (\<lambda>(k, e). (k, rederive vt cfg e)) (mt_entries t)\<rparr>"

definition upsert :: "vtable \<Rightarrow> time \<Rightarrow> mentry \<Rightarrow> mtable \<Rightarrow> mtable" where
  "upsert vt now e t =
     (let k = entryKey e in
      case map_of (mt_entries t) k of
        Some cur \<Rightarrow>
          let cur' = cur\<lparr>me_ipv4 := mergeUnique (me_ipv4 cur) (me_ipv4 e),
                me_ipv6 := mergeUnique (me_ipv6 cur) (me_ipv6 e),
                me_txt := (if length (me_txt e) > 0 then me_txt e else me_txt cur),
                me_ttl := (if me_ttl e > 0 then me_ttl e else me_ttl cur),
                me_lastSeen := now\<rparr> in
          t\<lparr>mt_entries := AList.update k (rederive vt (mt_cfg t) cur') (mt_entries t)\<rparr>
      | None \<Rightarrow> t\<lparr>mt_entries := AList.update k (rederive vt (mt_cfg t) (e\<lparr>me_lastSeen := now\<rparr>)) (mt_entries t)\<rparr>)"

definition m_expired :: "time \<Rightarrow> mtable \<Rightarrow> mentry \<Rightarrow> bool" where
  "m_expired now t e = (now - me_lastSeen e > (if me_ttl e > 0 then me_ttl e else mt_ttl t))"

definition collect :: "time \<Rightarrow> mtable \<Rightarrow> (mentry \<Rightarrow> bool) \<Rightarrow> string list \<times> string list" where
  "collect now t P = fold (\<lambda>(_, e) (v4, v6).
     if m_expired now t e \<or> \<not> P e then (v4, v6) else (mergeUnique v4 (me_ipv4 e), mergeUnique v6 (me_ipv6 e)))
     (mt_entries t) ([], [])"

definition mt_resolve :: "vtable \<Rightarrow> time \<Rightarrow> string \<Rightarrow> mtable \<Rightarrow> string list \<times> string list \<times> bool" where
  "mt_resolve vt now qname t =
     (let n = fqdn qname in
      case map_of (mc_promoted (mt_cfg t)) n of
        Some sel \<Rightarrow> (let (v4, v6) = collect now t (sel_match vt sel) in (v4, v6, True))
      | None \<Rightarrow>
          let (v4, v6) = collect now t (\<lambda>e. me_published e \<and> me_name e = n) in
          if length v4 + length v6 > 0 then (v4, v6, True) else ([], [], False))"

text \<open>\<^verbatim>\<open>Snapshot\<close>: by name, then by service; entries that agree in both stay in the order of the list.\<close>

definition mt_snapshot :: "time \<Rightarrow> mtable \<Rightarrow> mentry list" where
  "mt_snapshot now t = map snd (sort_key (\<lambda>(_, e). me_name e)
     (sort_key (\<lambda>(_, e). me_service e) (filter (\<lambda>(_, e). \<not> m_expired now t e) (mt_entries t))))"

definition setPublished :: "vtable \<Rightarrow> string \<Rightarrow> bool \<Rightarrow> mtable \<Rightarrow> bool \<times> mtable" where
  "setPublished vt n published t =
     (let target = fqdn n in
      (list_ex (\<lambda>(_, e). me_name e = target) (mt_entries t),
       t\<lparr>mt_entries := map (\<lambda>(k, e). (k, if me_name e = target then rederive vt (mt_cfg t) (e\<lparr>me_manual := published\<rparr>) else e))
         (mt_entries t)\<rparr>))"

definition zero_mentry :: mentry where
  "zero_mentry = \<lparr>me_name = [], me_host = [], me_service = [], me_instance = [], me_txt = [], me_ipv4 = [],
     me_ipv6 = [], me_published = False, me_promoted = False, me_lastSeen = 0, me_ttl = 0, me_manual = False\<rparr>"

definition mt_remove :: "string \<Rightarrow> string \<Rightarrow> string \<Rightarrow> mtable \<Rightarrow> bool \<times> mtable" where
  "mt_remove service inst h t =
     (let k = entryKey (zero_mentry\<lparr>me_service := service, me_instance := inst, me_host := h\<rparr>) in
      case map_of (mt_entries t) k of
        Some _ \<Rightarrow> (True, t\<lparr>mt_entries := AList.delete k (mt_entries t)\<rparr>)
      | None \<Rightarrow> (False, t))"

definition mt_clear :: "mtable \<Rightarrow> nat \<times> mtable" where
  "mt_clear t = (length (mt_entries t), t\<lparr>mt_entries := []\<rparr>)"

definition mt_expire :: "time \<Rightarrow> mtable \<Rightarrow> nat \<times> mtable" where
  "mt_expire now t = (length (filter (\<lambda>(_, e). m_expired now t e) (mt_entries t)),
     t\<lparr>mt_entries := filter (\<lambda>(_, e). \<not> m_expired now t e) (mt_entries t)\<rparr>)"

section \<open>The listener and the handler\<close>

text \<open>What a browse reports of an instance.\<close>

record discovery =
  ds_host :: string
  ds_instance :: string
  ds_txt :: "(string \<times> string) list"
  ds_ipv4 :: "string list"
  ds_ipv6 :: "string list"
  ds_ttl :: duration

definition ingest :: "vtable \<Rightarrow> time \<Rightarrow> string \<Rightarrow> discovery \<Rightarrow> mtable \<Rightarrow> mtable" where
  "ingest vt now service d t =
     (let e = zero_mentry\<lparr>me_host := toLower (trimSuffix (ds_host d) ''.''), me_service := service,
            me_instance := ds_instance d, me_txt := ds_txt d, me_ipv4 := ds_ipv4 d, me_ipv6 := ds_ipv6 d,
            me_ttl := ds_ttl d\<rparr> in
      if me_host e = [] then t else upsert vt now e t)"

definition listener_remove :: "string \<Rightarrow> discovery \<Rightarrow> mtable \<Rightarrow> mtable" where
  "listener_remove service d t = snd (mt_remove service (ds_instance d) (toLower (trimSuffix (ds_host d) ''.'')) t)"

definition usesDynamicServices :: "string list \<Rightarrow> bool" where
  "usesDynamicServices services = (length services = 1 \<and> equalFold (services ! 0) ''all'')"

definition ifaceNamesForBrowse :: "string list \<Rightarrow> string list" where
  "ifaceNamesForBrowse names = (if length names = 0 \<or> (length names = 1 \<and> equalFold (names ! 0) ''all'') then [] else names)"

definition DefaultAnswerTTL :: uint32 where "DefaultAnswerTTL = 60"

definition answersFor :: "string \<Rightarrow> uint16 \<Rightarrow> string list \<Rightarrow> string list \<Rightarrow> rr list" where
  "answersFor qname qtype ipv4 ipv6 =
     (if qtype = dnsTypeA then
        concat (map (\<lambda>s. let a = parseIP s in if a \<noteq> [] \<and> to4 a \<noteq> [] then
          [RR_A \<lparr>hdr_name = qname, hdr_rrtype = dnsTypeA, hdr_ttl = DefaultAnswerTTL\<rparr> (to4 a)] else []) ipv4)
      else []) @
     (if qtype = dnsTypeAAAA then
        concat (map (\<lambda>s. let a = parseIP s in if a \<noteq> [] \<and> to4 a = [] then
          [RR_AAAA \<lparr>hdr_name = qname, hdr_rrtype = dnsTypeAAAA, hdr_ttl = DefaultAnswerTTL\<rparr> (to16 a)] else []) ipv6)
      else [])"

definition mb_serveDNS ::
  "vtable \<Rightarrow> time \<Rightarrow> (msg \<Rightarrow> msg) \<Rightarrow> mtable \<Rightarrow> 's handler \<Rightarrow> 's handler" where
  "mb_serveDNS vt now setReply t nxt rq ctx s =
     (let (v4, v6, owned) = mt_resolve vt now (rq_name rq) t in
      if \<not> owned then nxt rq ctx s
      else
        (\<lparr>oc_rcode = rcodeSuccess, oc_err = False,
          oc_written = Some ((setReply (rq_msg rq))\<lparr>m_authoritative := True,
            m_answer := answersFor (rq_name rq) (rq_qtype rq) v4 v6\<rparr>),
          oc_ctx = (case fromContext ctx of None \<Rightarrow> ctx
             | Some e \<Rightarrow> Some (e\<lparr>e_source := ''mdnsbridge'', e_verdict := ''local''\<rparr>))\<rparr>, s))"

section \<open>Addresses\<close>

lemma uniqueFrom_props:
  "distinct (uniqueFrom seen xs) \<and> set (uniqueFrom seen xs) = set xs - {[]} - set seen"
  by (induction xs arbitrary: seen) auto

lemma mergeUnique_eq: "mergeUnique a b = sorted_list_of_set ((set a \<union> set b) - {[]})"
proof -
  have "distinct (uniqueFrom [] (a @ b))" "set (uniqueFrom [] (a @ b)) = (set a \<union> set b) - {[]}"
    using uniqueFrom_props [of "[]" "a @ b"] by auto
  then show ?thesis unfolding mergeUnique_def by (metis sorted_list_of_set_sort_remdups distinct_remdups_id)
qed

text \<open>The addresses of the live entries that satisfy a predicate.\<close>

definition live_addrs :: "time \<Rightarrow> mtable \<Rightarrow> (mentry \<Rightarrow> bool) \<Rightarrow> (mentry \<Rightarrow> string list) \<Rightarrow> string set" where
  "live_addrs now t P f = (\<Union>(k, e)\<in>{(k, e) \<in> set (mt_entries t). \<not> m_expired now t e \<and> P e}. set (f e)) - {[]}"

lemma collect_eq:
  "collect now t P = (sorted_list_of_set (live_addrs now t P me_ipv4), sorted_list_of_set (live_addrs now t P me_ipv6))"
proof -
  have step: "mergeUnique (sorted_list_of_set A) xs = sorted_list_of_set ((A \<union> set xs) - {[]})" if "finite A" for A xs
    using that by (simp add: mergeUnique_eq)
  have gen: "fold (\<lambda>(_, e) (v4, v6). if m_expired now t e \<or> \<not> P e then (v4, v6)
       else (mergeUnique v4 (me_ipv4 e), mergeUnique v6 (me_ipv6 e))) es (sorted_list_of_set (A - {[]}), sorted_list_of_set (B - {[]})) =
     (sorted_list_of_set (A \<union> (\<Union>(k, e)\<in>{(k, e) \<in> set es. \<not> m_expired now t e \<and> P e}. set (me_ipv4 e)) - {[]}),
      sorted_list_of_set (B \<union> (\<Union>(k, e)\<in>{(k, e) \<in> set es. \<not> m_expired now t e \<and> P e}. set (me_ipv6 e)) - {[]}))"
    if "finite A" "finite B" for es :: "(string \<times> mentry) list" and A B
    using that
  proof (induction es arbitrary: A B)
    case (Cons x es)
    obtain k e where x: "x = (k, e)" by (cases x)
    have split: "{(k, e) \<in> set (x # es). \<not> m_expired now t e \<and> P e} =
        (if \<not> m_expired now t e \<and> P e then {x} else {}) \<union> {(k, e) \<in> set es. \<not> m_expired now t e \<and> P e}"
      by (auto simp: x)
    have un: "(A - {[]}) \<union> set xs - {[]} = (A \<union> set xs) - {[]}" for A :: "string set" and xs by auto
    show ?case
    proof (cases "\<not> m_expired now t e \<and> P e")
      case True
      then show ?thesis
        using Cons.IH [of "A \<union> set (me_ipv4 e)" "B \<union> set (me_ipv6 e)"] Cons.prems
        unfolding split by (simp add: x step un Un_assoc)
    next
      case False
      then show ?thesis using Cons.IH [OF Cons.prems] unfolding split by (auto simp: x)
    qed
  qed simp
  from gen [of "{}" "{}" "mt_entries t"] show ?thesis by (simp add: collect_def live_addrs_def)
qed

lemma finite_live_addrs [simp]: "finite (live_addrs now t P f)"
proof -
  have "finite {(k, e) \<in> set (mt_entries t). \<not> m_expired now t e \<and> P e}"
    by (rule finite_subset [OF _ finite_set [of "mt_entries t"]]) auto
  then show ?thesis by (auto simp: live_addrs_def)
qed

section \<open>The table invariant\<close>

text \<open>Keys are unique and those of their entries, and each entry has the name and state the configuration prescribes.\<close>

definition mt_ok :: "vtable \<Rightarrow> mtable \<Rightarrow> bool" where
  "mt_ok vt t \<longleftrightarrow> distinct (map fst (mt_entries t)) \<and>
     (\<forall>(k, e)\<in>set (mt_entries t). k = entryKey e \<and> rederive vt (mt_cfg t) e = e)"

lemma sel_match_cong:
  "me_service e = me_service e' \<Longrightarrow> me_instance e = me_instance e' \<Longrightarrow> me_host e = me_host e' \<Longrightarrow>
   me_txt e = me_txt e' \<Longrightarrow> me_ipv4 e = me_ipv4 e' \<Longrightarrow> me_ipv6 e = me_ipv6 e' \<Longrightarrow> sel_match vt s e = sel_match vt s e'"
  by (simp add: sel_match_def entryInVLAN_def)

lemma sel_match_derived [simp]:
  "sel_match vt s (e\<lparr>me_name := n\<rparr>) = sel_match vt s e"
  "sel_match vt s (e\<lparr>me_promoted := b\<rparr>) = sel_match vt s e"
  "sel_match vt s (e\<lparr>me_published := b\<rparr>) = sel_match vt s e"
  "sel_match vt s (e\<lparr>me_manual := b\<rparr>) = sel_match vt s e"
  by (rule sel_match_cong; simp)+

lemma matchAny_iff: "matchAny vt ss e \<longleftrightarrow> (\<exists>s\<in>set ss. sel_match vt s e)"
  by (induction ss) auto

lemma suffixFor_derived [simp]:
  "suffixFor vt cfg (e\<lparr>me_name := n\<rparr>) = suffixFor vt cfg e"
  "suffixFor vt cfg (e\<lparr>me_promoted := b\<rparr>) = suffixFor vt cfg e"
  "suffixFor vt cfg (e\<lparr>me_published := b\<rparr>) = suffixFor vt cfg e"
proof -
  have "suffixForRules vt rs d (e\<lparr>me_name := n\<rparr>) = suffixForRules vt rs d e \<and>
    suffixForRules vt rs d (e\<lparr>me_promoted := b\<rparr>) = suffixForRules vt rs d e \<and>
    suffixForRules vt rs d (e\<lparr>me_published := b\<rparr>) = suffixForRules vt rs d e" for rs d
    by (induction rs) simp_all
  then show "suffixFor vt cfg (e\<lparr>me_name := n\<rparr>) = suffixFor vt cfg e"
    "suffixFor vt cfg (e\<lparr>me_promoted := b\<rparr>) = suffixFor vt cfg e"
    "suffixFor vt cfg (e\<lparr>me_published := b\<rparr>) = suffixFor vt cfg e" by (simp_all add: suffixFor_def)
qed

lemma rederive_keys [simp]:
  "entryKey (rederive vt cfg e) = entryKey e" "me_host (rederive vt cfg e) = me_host e"
  "me_ipv4 (rederive vt cfg e) = me_ipv4 e" "me_ipv6 (rederive vt cfg e) = me_ipv6 e"
  "me_lastSeen (rederive vt cfg e) = me_lastSeen e" "me_manual (rederive vt cfg e) = me_manual e"
  by (simp_all add: rederive_def Let_def entryKey_def)

lemma entryKey_manual [simp]: "entryKey (e\<lparr>me_manual := b\<rparr>) = entryKey e"
  by (simp add: entryKey_def)

lemma rederive_idem [simp]: "rederive vt cfg (rederive vt cfg e) = rederive vt cfg e"
  by (simp add: rederive_def Let_def promotedMatch_def matchAny_iff)

lemma mt_ok_update:
  assumes "mt_ok vt t" "entryKey e = k"
  shows "mt_ok vt (t\<lparr>mt_entries := AList.update k (rederive vt (mt_cfg t) e) (mt_entries t)\<rparr>)"
proof -
  have sub: "x \<in> set (AList.update k v es) \<Longrightarrow> x = (k, v) \<or> x \<in> set es" for x v and es :: "(string \<times> mentry) list"
    by (induction es) (auto split: if_splits)
  have "case x of (k, e) \<Rightarrow> k = entryKey e \<and> rederive vt (mt_cfg t) e = e"
    if "x \<in> set (AList.update k (rederive vt (mt_cfg t) e) (mt_entries t))" for x
    using sub [OF that] assms by (auto simp: mt_ok_def)
  then show ?thesis using assms(1) by (simp add: mt_ok_def distinct_update)
qed

lemma rederive_fields:
  "firstLabel (me_host e) \<noteq> [] \<longrightarrow>
     me_name (rederive vt c e) = firstLabel (me_host e) @ ''.'' @ trimSuffix (suffixFor vt c e) ''.'' @ ''.''"
  "me_published (rederive vt c e) \<longleftrightarrow> me_manual e \<or> (\<exists>s\<in>set (mc_autoPublish c). sel_match vt s e) \<or>
     (\<exists>(n, s)\<in>set (mc_promoted c). sel_match vt s e)"
  by (auto simp: rederive_def Let_def matchAny_iff promotedMatch_def list_ex_iff)

text \<open>The operations on the table.\<close>

datatype mdns_op =
    Discovered time string discovery
  | Withdrawn string discovery
  | ExpireTick time
  | Cleared
  | Configured mdnsConfig
  | Approved string bool

fun mdns_apply :: "vtable \<Rightarrow> mdns_op \<Rightarrow> mtable \<Rightarrow> mtable" where
  "mdns_apply vt (Discovered now service d) t = ingest vt now service d t"
| "mdns_apply vt (Withdrawn service d) t = listener_remove service d t"
| "mdns_apply vt (ExpireTick now) t = snd (mt_expire now t)"
| "mdns_apply vt Cleared t = snd (mt_clear t)"
| "mdns_apply vt (Configured cfg) t = mt_setConfig vt cfg t"
| "mdns_apply vt (Approved n b) t = snd (setPublished vt n b t)"

lemma mt_ok_upsert: "mt_ok vt t \<Longrightarrow> mt_ok vt (upsert vt now e t)"
proof -
  assume ok: "mt_ok vt t"
  show ?thesis
  proof (cases "map_of (mt_entries t) (entryKey e)")
    case None
    then show ?thesis using ok by (auto simp: upsert_def Let_def entryKey_def intro!: mt_ok_update)
  next
    case (Some cur)
    then have "entryKey cur = entryKey e" using ok by (auto simp: mt_ok_def dest: map_of_SomeD)
    then show ?thesis using ok Some
      by (auto simp: upsert_def Let_def entryKey_def intro!: mt_ok_update)
  qed
qed

lemma mt_ok_subset:
  "mt_ok vt t \<Longrightarrow> distinct (map fst es) \<Longrightarrow> set es \<subseteq> set (mt_entries t) \<Longrightarrow> mt_ok vt (t\<lparr>mt_entries := es\<rparr>)"
  by (auto simp: mt_ok_def)

lemma mt_ok_apply: "mt_ok vt t \<Longrightarrow> mt_ok vt (mdns_apply vt op t)"
proof (induction vt op t rule: mdns_apply.induct)
  case (1 vt now service d t)
  then show ?case by (simp add: ingest_def Let_def mt_ok_upsert)
next
  case (2 vt service d t)
  have "mt_ok vt (t\<lparr>mt_entries := AList.delete k (mt_entries t)\<rparr>)" for k
    using 2 by (intro mt_ok_subset) (auto simp: mt_ok_def AList.delete_eq intro: distinct_map_filter)
  then show ?case using 2 by (simp add: listener_remove_def mt_remove_def Let_def split: option.splits)
next
  case (3 vt now t)
  then show ?case by (auto simp: mt_expire_def mt_ok_def intro!: mt_ok_subset distinct_map_filter)
next
  case (4 vt t)
  then show ?case by (simp add: mt_clear_def mt_ok_def)
next
  case (5 vt cfg t)
  then show ?case by (auto simp: mt_setConfig_def mt_ok_def comp_def case_prod_unfold)
next
  case (6 vt n b t)
  then show ?case by (auto simp: setPublished_def Let_def mt_ok_def comp_def case_prod_unfold)
qed

section \<open>Properties\<close>

text \<open>
  C19. Whatever is discovered, withdrawn, expired, approved or configured, in any order, the
  discovery table stays consistent: keys are unique, and every entry has the name its host and
  the current configuration prescribe and is published exactly if it is approved by hand, matches
  an auto-publish selector or is the target of a promoted record.
\<close>

theorem mdns_table_consistent:
  "let t = fold (mdns_apply vt) ops (mt_new cfg ttl) in
   distinct (map fst (mt_entries t)) \<and>
   (\<forall>(k, e)\<in>set (mt_entries t). k = entryKey e \<and>
     (firstLabel (me_host e) \<noteq> [] \<longrightarrow>
        me_name e = firstLabel (me_host e) @ ''.'' @ trimSuffix (suffixFor vt (mt_cfg t) e) ''.'' @ ''.'') \<and>
     (me_published e \<longleftrightarrow> me_manual e \<or> (\<exists>s\<in>set (mc_autoPublish (mt_cfg t)). sel_match vt s e) \<or>
        (\<exists>(n, s)\<in>set (mc_promoted (mt_cfg t)). sel_match vt s e)))"
proof -
  have "mt_ok vt (fold (mdns_apply vt) ops t)" if "mt_ok vt t" for t
    using that by (induction ops arbitrary: t) (auto intro: mt_ok_apply)
  moreover have "mt_ok vt (mt_new cfg ttl)" by (simp add: mt_ok_def mt_new_def)
  ultimately have ok: "mt_ok vt (fold (mdns_apply vt) ops (mt_new cfg ttl))" by blast
  have derived: "(firstLabel (me_host e) \<noteq> [] \<longrightarrow>
        me_name e = firstLabel (me_host e) @ ''.'' @ trimSuffix (suffixFor vt c e) ''.'' @ ''.'') \<and>
     (me_published e \<longleftrightarrow> me_manual e \<or> (\<exists>s\<in>set (mc_autoPublish c). sel_match vt s e) \<or>
        (\<exists>(n, s)\<in>set (mc_promoted c). sel_match vt s e))" if e: "rederive vt c e = e" for c e
    using rederive_fields [where e = e and vt = vt and c = c] unfolding e by blast
  show ?thesis using ok derived unfolding mt_ok_def Let_def by fast
qed

theorem mdns_table_consistent_witness:
  "distinct (map fst (mt_entries (fold (mdns_apply zeroTable)
     [Discovered 0 ''_http._tcp'' \<lparr>ds_host = ''nas.local.'', ds_instance = ''NAS'', ds_txt = [], ds_ipv4 = [''10.0.0.5''],
        ds_ipv6 = [], ds_ttl = 0\<rparr>]
     (mt_new \<lparr>mc_defaultSuffix = ''home.arpa'', mc_autoPublish = [], mc_naming = [], mc_promoted = []\<rparr> 0))))"
  using mdns_table_consistent [of zeroTable] by (simp only: Let_def)

text \<open>
  C18. Resolving a name gives exactly the addresses of the live entries that the name stands for,
  sorted and without duplicates, whatever order the table is walked in: those its promoted record
  selects, or else those published under it. The name is the bridge's to answer exactly if it is
  promoted or some such address exists.
\<close>

theorem resolve_exact:
  "mt_resolve vt now q t =
     (let P = (case map_of (mc_promoted (mt_cfg t)) (fqdn q) of
            Some sel \<Rightarrow> sel_match vt sel | None \<Rightarrow> (\<lambda>e. me_published e \<and> me_name e = fqdn q));
          V4 = live_addrs now t P me_ipv4; V6 = live_addrs now t P me_ipv6 in
      (sorted_list_of_set V4, sorted_list_of_set V6,
       fqdn q \<in> fst ` set (mc_promoted (mt_cfg t)) \<or> (\<exists>a. a \<in> V4 \<union> V6)))"
proof (cases "map_of (mc_promoted (mt_cfg t)) (fqdn q)")
  case None
  then have "fqdn q \<notin> fst ` set (mc_promoted (mt_cfg t))" by (simp add: map_of_eq_None_iff)
  with None show ?thesis by (auto simp: mt_resolve_def Let_def collect_eq)
next
  case (Some sel)
  then have "fqdn q \<in> fst ` set (mc_promoted (mt_cfg t))" by (metis map_of_eq_None_iff option.discI)
  with Some show ?thesis by (simp add: mt_resolve_def Let_def collect_eq)
qed

text \<open>
  A name the bridge owns is answered authoritatively by it and never passed on, with an empty
  answer when the device is absent; any other query is passed on untouched. An answer holds only
  records of the type asked for, each for an address of that family of a live entry.
\<close>

theorem mdns_answer_contained:
  assumes "mt_resolve vt now (rq_name rq) t = (v4, v6, owned)" "set_reply_doc setReply"
  shows "if owned then \<exists>oc m. mb_serveDNS vt now setReply t nxt rq ctx s = (oc, s) \<and> oc_written oc = Some m \<and>
      m_authoritative m \<and> m_rcode m = rcodeSuccess \<and> m_id m = m_id (rq_msg rq) \<and>
      (\<forall>r\<in>set (m_answer m). hdr_name (rr_header r) = rq_name rq \<and> hdr_rrtype (rr_header r) = rq_qtype rq \<and>
         ((\<exists>a\<in>set v4. \<exists>h. r = RR_A h (to4 (parseIP a)) \<and> to4 (parseIP a) \<noteq> []) \<or>
          (\<exists>a\<in>set v6. \<exists>h. r = RR_AAAA h (to16 (parseIP a)) \<and> to4 (parseIP a) = [])))
    else mb_serveDNS vt now setReply t nxt rq ctx s = nxt rq ctx s"
proof (cases owned)
  case True
  have "hdr_name (rr_header r) = rq_name rq \<and> hdr_rrtype (rr_header r) = rq_qtype rq \<and>
         ((\<exists>a\<in>set v4. \<exists>h. r = RR_A h (to4 (parseIP a)) \<and> to4 (parseIP a) \<noteq> []) \<or>
          (\<exists>a\<in>set v6. \<exists>h. r = RR_AAAA h (to16 (parseIP a)) \<and> to4 (parseIP a) = []))"
    if "r \<in> set (answersFor (rq_name rq) (rq_qtype rq) v4 v6)" for r
    using that by (auto simp: answersFor_def Let_def split: if_splits)
  with True assms show ?thesis by (simp add: mb_serveDNS_def set_reply_doc_def)
next
  case False
  with assms(1) show ?thesis by (simp add: mb_serveDNS_def)
qed

definition exMdns :: mtable where
  "exMdns = \<lparr>mt_entries = [], mt_cfg = \<lparr>mc_defaultSuffix = ''home.arpa'', mc_autoPublish = [], mc_naming = [],
     mc_promoted = [(''tv.home.arpa.'', \<lparr>sel_service = [], sel_instance = [], sel_host = ''tv.local'', sel_txt = [],
       sel_vlan = [], sel_family = []\<rparr>)]\<rparr>, mt_ttl = DefaultTTL\<rparr>"

definition exTvQuery :: request where
  "exTvQuery = \<lparr>rq_name = ''tv.home.arpa.'', rq_qtype = dnsTypeA, rq_do = False, rq_ip = ''10.0.0.1'', rq_family = 1,
     rq_localAddr = [], rq_proto = ''udp'', rq_msg = zero_msg\<rparr>"

theorem mdns_answer_contained_witness:
  "\<exists>oc m. mb_serveDNS zeroTable 0 simpleReply exMdns (\<lambda>_ _ n. (\<lparr>oc_rcode = 0, oc_err = False, oc_written = None, oc_ctx = None\<rparr>, Suc n))
     exTvQuery None 0 = (oc, 0) \<and> oc_written oc = Some m \<and> m_authoritative m"
proof -
  have "fqdn ''tv.home.arpa.'' = ''tv.home.arpa.''" by code_simp
  then have "mt_resolve zeroTable 0 (rq_name exTvQuery) exMdns = ([], [], True)"
    by (simp add: mt_resolve_def exTvQuery_def exMdns_def collect_def)
  from mdns_answer_contained [OF this simpleReply_doc, of "\<lambda>_ _ n. (\<lparr>oc_rcode = 0, oc_err = False, oc_written = None, oc_ctx = None\<rparr>, Suc n)" None 0]
  show ?thesis by auto
qed

text \<open>
  A device that announces a new address keeps its old ones: a re-announcement adds to the
  addresses of the entry and removes none, so the old address is served as long as the device
  keeps announcing itself.
\<close>

theorem announced_addresses_accumulate:
  assumes "map_of (mt_entries t) (entryKey e) = Some cur"
  shows "\<exists>e'. map_of (mt_entries (upsert vt now e t)) (entryKey e) = Some e' \<and>
    set (me_ipv4 e') = (set (me_ipv4 cur) \<union> set (me_ipv4 e)) - {[]} \<and>
    set (me_ipv6 e') = (set (me_ipv6 cur) \<union> set (me_ipv6 e)) - {[]} \<and> me_lastSeen e' = now"
  using assms by (simp add: upsert_def Let_def AList.update_conv' mergeUnique_eq)

theorem announced_addresses_accumulate_witness:
  "\<exists>e'. map_of (mt_entries (upsert zeroTable 1 (zero_mentry\<lparr>me_ipv4 := [''10.0.0.6'']\<rparr>)
      (exMdns\<lparr>mt_entries := [(entryKey zero_mentry, zero_mentry\<lparr>me_ipv4 := [''10.0.0.5'']\<rparr>)]\<rparr>))) (entryKey zero_mentry) = Some e' \<and>
     set (me_ipv4 e') = {''10.0.0.5'', ''10.0.0.6''}"
proof -
  have k: "entryKey (zero_mentry\<lparr>me_ipv4 := [''10.0.0.6'']\<rparr>) = entryKey zero_mentry" by (simp add: entryKey_def)
  show ?thesis
    using announced_addresses_accumulate [of "exMdns\<lparr>mt_entries := [(entryKey zero_mentry, zero_mentry\<lparr>me_ipv4 := [''10.0.0.5'']\<rparr>)]\<rparr>"
        "zero_mentry\<lparr>me_ipv4 := [''10.0.0.6'']\<rparr>" "zero_mentry\<lparr>me_ipv4 := [''10.0.0.5'']\<rparr>" zeroTable 1]
    by (auto simp: k)
qed

text \<open>
  With an upper-case letter in the suffix no discovered device is served: names are derived
  with the suffix as it is written, while a query is compared in lower case.
\<close>

theorem mixed_case_suffix_unserved:
  assumes ok: "mt_ok vt t" and cfg: "mt_cfg t = mdnscfg_build st rs" "mdns_naming (st_mdns st) = []" "mdns_suffix (st_mdns st) = suff"
    and suff: "suff \<noteq> []" "\<not> hasSuffix suff ''.''" "toLower suff \<noteq> suff"
    and hosts: "\<forall>(k, e)\<in>set (mt_entries t). firstLabel (me_host e) \<noteq> []"
    and q: "fqdn q \<notin> fst ` set (mc_promoted (mt_cfg t))"
  shows "mt_resolve vt now q t = ([], [], False)"
proof -
  have sf: "trimSuffix (suffixFor vt (mt_cfg t) e) ''.'' = suff" for e
    using suff by (simp add: cfg mdnscfg_build_def Let_def suffixFor_def toNaming_def)
  have no: "me_name e \<noteq> fqdn q" if "(k, e) \<in> set (mt_entries t)" for k e
  proof
    assume "me_name e = fqdn q"
    moreover have "rederive vt (mt_cfg t) e = e" "firstLabel (me_host e) \<noteq> []" using ok hosts that by (auto simp: mt_ok_def)
    ultimately have "firstLabel (me_host e) @ ''.'' @ suff @ ''.'' = toLower (trimSuffix q ''.'') @ ''.''"
      using rederive_fields(1) [of e vt "mt_cfg t"] by (simp add: sf fqdn_def)
    then have "toLower (firstLabel (me_host e) @ ''.'' @ suff) = firstLabel (me_host e) @ ''.'' @ suff"
      by (metis append.assoc append_same_eq toLower_idem)
    then have "toLower suff = suff" by (simp add: toLower_def map_append)
    with suff(3) show False ..
  qed
  have "live_addrs now t (\<lambda>e. me_published e \<and> me_name e = fqdn q) f = {}" for f
    using no by (auto simp: live_addrs_def)
  moreover have "map_of (mc_promoted (mt_cfg t)) (fqdn q) = None" using q by (simp add: map_of_eq_None_iff)
  ultimately show ?thesis by (simp add: mt_resolve_def Let_def collect_eq)
qed

definition exSettings :: settings where
  "exSettings = defaultSettings\<lparr>st_mdns := (st_mdns defaultSettings)\<lparr>mdns_suffix := ''Home.arpa'', mdns_naming := []\<rparr>\<rparr>"

definition exDiscovery :: discovery where
  "exDiscovery = \<lparr>ds_host = ''nas.local.'', ds_instance = ''NAS'', ds_txt = [], ds_ipv4 = [''10.0.0.5''], ds_ipv6 = [], ds_ttl = 0\<rparr>"

theorem mixed_case_suffix_unserved_witness:
  "mt_resolve zeroTable 0 ''nas.home.arpa.''
     (mdns_apply zeroTable (Discovered 0 ''_http._tcp'' exDiscovery) (mt_new (mdnscfg_build exSettings []) 0)) = ([], [], False)"
proof -
  let ?t0 = "mt_new (mdnscfg_build exSettings []) 0"
  let ?t = "mdns_apply zeroTable (Discovered 0 ''_http._tcp'' exDiscovery) ?t0"
  have host: "toLower (trimSuffix ''nas.local.'' ''.'') = ''nas.local''" "firstLabel ''nas.local'' \<noteq> []" by code_simp+
  have ok: "mt_ok zeroTable ?t" by (rule mt_ok_apply) (simp add: mt_ok_def mt_new_def)
  have cfg: "mt_cfg ?t = mdnscfg_build exSettings []"
    by (simp add: ingest_def exDiscovery_def host upsert_def mt_new_def Let_def split: option.split)
  have ents: "\<forall>(k, e)\<in>set (mt_entries ?t). firstLabel (me_host e) \<noteq> []"
    by (simp add: ingest_def exDiscovery_def host upsert_def mt_new_def Let_def zero_mentry_def)
  have q: "fqdn ''nas.home.arpa.'' \<notin> fst ` set (mc_promoted (mt_cfg ?t))"
    unfolding cfg by (simp add: mdnscfg_build_def Let_def)
  have suff: "\<not> hasSuffix ''Home.arpa'' ''.''" "toLower ''Home.arpa'' \<noteq> ''Home.arpa''" by code_simp+
  show ?thesis
    by (rule mixed_case_suffix_unserved [OF ok cfg _ _ _ suff ents q]) (simp_all add: exSettings_def)
qed

end
