(* ===== verification/Local_Records.thy ===== *)
theory Local_Records
  imports Configgen Dns_Chain
begin

text \<open>
  The plugin \<^verbatim>\<open>localrecords\<close>: authoritative answers for the owned zones, chosen by the
  client's VLAN. \<^verbatim>\<open>zonedata.go\<close> is the wire form of the zone data, \<^verbatim>\<open>setup.go\<close> loads it,
  \<^verbatim>\<open>handler.go\<close> and \<^verbatim>\<open>ddr.go\<close> answer from it.

  \<open>buildAnswers\<close> follows aliases by calling itself, and nothing in the code bounds how often.
  It is a partial function here: \<open>None\<close> is a call that never returns. The theorems say exactly
  when that happens and what is returned otherwise.
\<close>

section \<open>The wire form\<close>

record wireOverride =
  wo_vlan :: string
  wo_value :: string
  wo_ttl :: uint32
  wo_nxdomain :: bool

record wireRecord =
  wr_name :: string
  wr_type :: string
  wr_default :: string
  wr_ttl :: uint32
  wr_overrides :: "wireOverride list"

type_synonym wireDDRParam = ddrParam
type_synonym wireDDR = ddrRecord

record wireZone =
  wz_defaultTTL :: uint32
  wz_zones :: "string list"
  wz_records :: "wireRecord list"
  wz_ddr :: "wireDDR list"

text \<open>
  Writing the zone data as JSON and reading it into the wire types: the field names of the two
  sides agree, an omitted empty field is read as the zero value, and the selector of a record
  has no field on the reading side.
\<close>

definition wire_record :: "dnsRecord \<Rightarrow> wireRecord" where
  "wire_record r = \<lparr>wr_name = rec_name r, wr_type = rec_type r, wr_default = rec_default r,
     wr_ttl = rec_ttl r,
     wr_overrides = map (\<lambda>o'. \<lparr>wo_vlan = ov_vlan o', wo_value = ov_value o', wo_ttl = ov_ttl o',
       wo_nxdomain = ov_nxdomain o'\<rparr>) (rec_overrides r)\<rparr>"

definition wire_zone :: "zoneData \<Rightarrow> wireZone" where
  "wire_zone z = \<lparr>wz_defaultTTL = zd_defaultTTL z, wz_zones = zd_zones z,
     wz_records = map wire_record (zd_records z), wz_ddr = zd_ddr z\<rparr>"

section \<open>The plugin's state\<close>

record lr_override =
  lo_value :: string
  lo_ttl :: uint32
  lo_nxdomain :: bool

record lr_record =
  lc_rtype :: uint16
  lc_def :: string
  lc_ttl :: uint32
  lc_overrides :: "string \<rightharpoonup> lr_override"
  lc_ddrPriority :: uint16
  lc_ddrTarget :: string
  lc_ddrParams :: "wireDDRParam list"

text \<open>Reading a missing name from the map of records gives the nil slice.\<close>

record localRecords =
  lr_zones :: "string list"
  lr_fallthroughZones :: "string list"
  lr_defaultTTL :: uint32
  lr_vlans :: vtable
  lr_records :: "string \<Rightarrow> lr_record list"

section \<open>Designated resolvers\<close>

definition ddrQName :: string where "ddrQName = ''_dns.resolver.arpa.''"

datatype lr_error = BadPort string | BadSvcKey string | BadRecordType string string

definition buildSVCBValue :: "string \<Rightarrow> string \<Rightarrow> lr_error + svcb_kv" where
  "buildSVCBValue key value' =
     (if key = ''alpn'' then Inr (Alpn (splitOn CHR '','' value'))
      else if key = ''port'' then
        (case parseUint 16 value' of None \<Rightarrow> Inl (BadPort value') | Some p \<Rightarrow> Inr (SvcPort (of_nat p)))
      else if key = ''dohpath'' then Inr (DohPath value')
      else Inl (BadSvcKey key))"

fun svcbValues :: "wireDDRParam list \<Rightarrow> lr_error + svcb_kv list" where
  "svcbValues [] = Inr []"
| "svcbValues (p # ps) = (case buildSVCBValue (ddr_key p) (ddr_value p) of
     Inl e \<Rightarrow> Inl e
   | Inr kv \<Rightarrow> (case svcbValues ps of Inl e \<Rightarrow> Inl e | Inr kvs \<Rightarrow> Inr (kv # kvs)))"

definition buildSVCB :: "lr_record \<Rightarrow> string \<Rightarrow> uint32 \<Rightarrow> lr_error + rr" where
  "buildSVCB rc qname ttl = (case svcbValues (lc_ddrParams rc) of
     Inl e \<Rightarrow> Inl e
   | Inr kvs \<Rightarrow> Inr (RR_SVCB \<lparr>hdr_name = qname, hdr_rrtype = dnsTypeSVCB, hdr_ttl = ttl\<rparr>
       (lc_ddrPriority rc) (lc_ddrTarget rc) kvs))"

section \<open>Loading the zone data\<close>

definition recordTypeOf :: "string \<Rightarrow> uint16 option" where
  "recordTypeOf s = (let u = toUpper s in
     if u = ''A'' then Some dnsTypeA else if u = ''AAAA'' then Some dnsTypeAAAA
     else if u = ''CNAME'' then Some dnsTypeCNAME else None)"

definition normalizeValue :: "(string \<Rightarrow> string) \<Rightarrow> uint16 \<Rightarrow> string \<Rightarrow> string" where
  "normalizeValue canon rtype v =
     (if v = [] then [] else if rtype = dnsTypeCNAME then canon v else v)"

definition addRecord :: "string \<Rightarrow> lr_record \<Rightarrow> localRecords \<Rightarrow> localRecords" where
  "addRecord name rc lr = lr\<lparr>lr_records := (lr_records lr)(name := lr_records lr name @ [rc])\<rparr>"

definition loadOverride :: "(string \<Rightarrow> string) \<Rightarrow> uint16 \<Rightarrow> wireOverride \<Rightarrow> lr_override" where
  "loadOverride canon rtype w = \<lparr>lo_value = normalizeValue canon rtype (wo_value w),
     lo_ttl = wo_ttl w, lo_nxdomain = wo_nxdomain w\<rparr>"

definition loadRecord :: "(string \<Rightarrow> string) \<Rightarrow> uint16 \<Rightarrow> wireRecord \<Rightarrow> lr_record" where
  "loadRecord canon rtype wr = \<lparr>lc_rtype = rtype, lc_def = normalizeValue canon rtype (wr_default wr),
     lc_ttl = wr_ttl wr,
     lc_overrides = fold (\<lambda>(k, v) m. m(k \<mapsto> v))
       (map (\<lambda>w. (wo_vlan w, loadOverride canon rtype w)) (wr_overrides wr)) Map.empty,
     lc_ddrPriority = 0, lc_ddrTarget = [], lc_ddrParams = []\<rparr>"

fun loadRecords ::
    "(string \<Rightarrow> string) \<Rightarrow> wireRecord list \<Rightarrow> localRecords \<Rightarrow> lr_error + localRecords" where
  "loadRecords canon [] lr = Inr lr"
| "loadRecords canon (wr # wrs) lr = (case recordTypeOf (wr_type wr) of
     None \<Rightarrow> Inl (BadRecordType (wr_name wr) (wr_type wr))
   | Some rtype \<Rightarrow>
       loadRecords canon wrs (addRecord (canon (wr_name wr)) (loadRecord canon rtype wr) lr))"

definition ddrEntry :: "(string \<Rightarrow> string) \<Rightarrow> wireDDR \<Rightarrow> lr_record" where
  "ddrEntry canon wd = \<lparr>lc_rtype = dnsTypeSVCB, lc_def = [], lc_ttl = 0, lc_overrides = Map.empty,
     lc_ddrPriority = ddr_priority wd, lc_ddrTarget = canon (ddr_target wd), lc_ddrParams = ddr_params wd\<rparr>"

fun loadDDR :: "(string \<Rightarrow> string) \<Rightarrow> wireDDR list \<Rightarrow> localRecords \<Rightarrow> lr_error + localRecords" where
  "loadDDR canon [] lr = Inr lr"
| "loadDDR canon (wd # wds) lr = (case svcbValues (ddr_params wd) of
     Inl e \<Rightarrow> Inl e
   | Inr _ \<Rightarrow> loadDDR canon wds (addRecord ddrQName (ddrEntry canon wd) lr))"

definition loadZoneData :: "(string \<Rightarrow> string) \<Rightarrow> wireZone \<Rightarrow> localRecords \<Rightarrow> lr_error + localRecords" where
  "loadZoneData canon z lr =
     (let lr1 = (if wz_defaultTTL z \<noteq> 0 then lr\<lparr>lr_defaultTTL := wz_defaultTTL z\<rparr> else lr) in
      case loadRecords canon (wz_records z) lr1 of
        Inl e \<Rightarrow> Inl e
      | Inr lr2 \<Rightarrow> loadDDR canon (wz_ddr z) lr2)"

text \<open>
  The handler \<^verbatim>\<open>parse\<close> builds from the arguments of the stanza configgen renders, before the
  zone data is loaded.
\<close>

definition lrDefaultTTL :: uint32 where "lrDefaultTTL = 300"

definition parsedStanza :: "(string \<Rightarrow> string) \<Rightarrow> string list \<Rightarrow> string list \<Rightarrow> vm_state \<Rightarrow> localRecords" where
  "parsedStanza canon zones ft st =
     (let zs = (if zones = [] then [''home.arpa''] else zones) in
      \<lparr>lr_zones = map canon zs, lr_fallthroughZones = map canon ft, lr_defaultTTL = lrDefaultTTL,
       lr_vlans = current st, lr_records = (\<lambda>_. [])\<rparr>)"

section \<open>Answering\<close>

definition isFallthroughZone :: "localRecords \<Rightarrow> string \<Rightarrow> bool" where
  "isFallthroughZone lr zone = list_ex (\<lambda>z. z = zone) (lr_fallthroughZones lr)"

definition matchVLAN :: "localRecords \<Rightarrow> ip \<Rightarrow> string" where
  "matchVLAN lr a = vt_name (lr_vlans lr) a"

definition effective :: "localRecords \<Rightarrow> lr_record \<Rightarrow> string \<Rightarrow> (string \<times> uint32) option" where
  "effective lr rc vlan =
     (let baseTTL = (if lc_ttl rc = 0 then lr_defaultTTL lr else lc_ttl rc) in
      case (if vlan \<noteq> [] then lc_overrides rc vlan else None) of
        Some ov \<Rightarrow>
          if lo_nxdomain ov then None
          else
            (let v = (if lo_value ov = [] then lc_def rc else lo_value ov) in
             if v = [] then None
             else Some (v, if lo_ttl ov = 0 then baseTTL else lo_ttl ov))
      | None \<Rightarrow> if lc_def rc = [] then None else Some (lc_def rc, baseTTL))"

definition namePresent :: "localRecords \<Rightarrow> string \<Rightarrow> string \<Rightarrow> bool" where
  "namePresent lr qname vlan = list_ex (\<lambda>rc. lc_rtype rc = dnsTypeSVCB \<or> effective lr rc vlan \<noteq> None)
     (lr_records lr qname)"

definition rrFor :: "string \<Rightarrow> uint16 \<Rightarrow> string \<Rightarrow> uint32 \<Rightarrow> rr option" where
  "rrFor qname rtype value' ttl =
     (let hdr = \<lparr>hdr_name = qname, hdr_rrtype = rtype, hdr_ttl = ttl\<rparr>; a = parseIP value' in
      if rtype = dnsTypeA then (if a = [] \<or> to4 a = [] then None else Some (RR_A hdr (to4 a)))
      else if rtype = dnsTypeAAAA then (if a = [] \<or> to4 a \<noteq> [] then None else Some (RR_AAAA hdr (to16 a)))
      else None)"

definition cnameRR :: "string \<Rightarrow> string \<Rightarrow> uint32 \<Rightarrow> rr" where
  "cnameRR qname target ttl = RR_CNAME \<lparr>hdr_name = qname, hdr_rrtype = dnsTypeCNAME, hdr_ttl = ttl\<rparr> target"

text \<open>The first loop of \<^verbatim>\<open>buildAnswers\<close>: the first alias that answers for the VLAN.\<close>

fun firstAlias :: "localRecords \<Rightarrow> string \<Rightarrow> lr_record list \<Rightarrow> (string \<times> uint32) option" where
  "firstAlias lr vlan [] = None"
| "firstAlias lr vlan (rc # rcs) =
     (if lc_rtype rc \<noteq> dnsTypeCNAME then firstAlias lr vlan rcs
      else case effective lr rc vlan of Some a \<Rightarrow> Some a | None \<Rightarrow> firstAlias lr vlan rcs)"

text \<open>The second loop: the records of the queried type.\<close>

definition recordAnswer :: "localRecords \<Rightarrow> string \<Rightarrow> uint16 \<Rightarrow> string \<Rightarrow> lr_record \<Rightarrow> rr option" where
  "recordAnswer lr qname qtype vlan rc =
     (if lc_rtype rc \<noteq> qtype then None
      else if lc_rtype rc = dnsTypeSVCB then
        (case buildSVCB rc qname (if lc_ttl rc = 0 then lr_defaultTTL lr else lc_ttl rc) of
           Inl _ \<Rightarrow> None | Inr rr \<Rightarrow> Some rr)
      else case effective lr rc vlan of
        None \<Rightarrow> None | Some (v, ttl) \<Rightarrow> rrFor qname qtype v ttl)"

definition directAnswers :: "localRecords \<Rightarrow> string \<Rightarrow> uint16 \<Rightarrow> string \<Rightarrow> rr list" where
  "directAnswers lr qname qtype vlan =
     List.map_filter (recordAnswer lr qname qtype vlan) (lr_records lr qname)"

abbreviation addressType :: "uint16 \<Rightarrow> bool" where
  "addressType t \<equiv> t = dnsTypeA \<or> t = dnsTypeAAAA"

partial_function (option) buildAnswers ::
    "localRecords \<Rightarrow> string \<Rightarrow> uint16 \<Rightarrow> string \<Rightarrow> rr list option" where
  "buildAnswers lr qname qtype vlan =
     (case firstAlias lr vlan (lr_records lr qname) of
        Some (target, ttl) \<Rightarrow>
          if addressType qtype then
            Option.bind (buildAnswers lr target qtype vlan) (\<lambda>rest. Some (cnameRR qname target ttl # rest))
          else Some [cnameRR qname target ttl]
      | None \<Rightarrow> Some (directAnswers lr qname qtype vlan))"

text \<open>\<^verbatim>\<open>ddrGlue\<close>, with the set of targets already seen.\<close>

fun ddrGlueFrom :: "localRecords \<Rightarrow> rr list \<Rightarrow> string \<Rightarrow> string list \<Rightarrow> rr list option" where
  "ddrGlueFrom lr [] vlan seen = Some []"
| "ddrGlueFrom lr (RR_SVCB h p target kvs # rrs) vlan seen =
     (if target \<in> set seen then ddrGlueFrom lr rrs vlan seen
      else Option.bind (buildAnswers lr target dnsTypeA vlan) (\<lambda>a4.
        Option.bind (buildAnswers lr target dnsTypeAAAA vlan) (\<lambda>a6.
          Option.bind (ddrGlueFrom lr rrs vlan (target # seen)) (\<lambda>rest. Some (a4 @ a6 @ rest)))))"
| "ddrGlueFrom lr (_ # rrs) vlan seen = ddrGlueFrom lr rrs vlan seen"

definition ddrGlue :: "localRecords \<Rightarrow> rr list \<Rightarrow> string \<Rightarrow> rr list option" where
  "ddrGlue lr answers vlan = ddrGlueFrom lr answers vlan []"

definition soa :: "localRecords \<Rightarrow> string \<Rightarrow> rr" where
  "soa lr zone = RR_SOA \<lparr>hdr_name = zone, hdr_rrtype = dnsTypeSOA, hdr_ttl = lr_defaultTTL lr\<rparr>
     (''ns.'' @ zone) (''hostmaster.'' @ zone) 1 7200 1800 86400 (lr_defaultTTL lr)"

definition lr_attribute :: "string \<Rightarrow> context_entry \<Rightarrow> context_entry" where
  "lr_attribute verdict ctx = (case fromContext ctx of
     None \<Rightarrow> ctx
   | Some e \<Rightarrow> Some (e\<lparr>e_source := ''localrecords'', e_verdict := verdict\<rparr>))"

text \<open>\<^verbatim>\<open>ServeDNS\<close>; \<open>None\<close> is a call that never returns. A failed write is ignored by the code.\<close>

definition lr_serveDNS ::
    "(string list \<Rightarrow> string \<Rightarrow> string) \<Rightarrow> (msg \<Rightarrow> msg) \<Rightarrow> localRecords \<Rightarrow> 's handler \<Rightarrow>
     request \<Rightarrow> context_entry \<Rightarrow> 's \<Rightarrow> (outcome \<times> 's) option" where
  "lr_serveDNS matches setReply lr nxt rq ctx s =
     (let qname = toLower (rq_name rq);
          zone = matches (lr_zones lr) qname in
      if zone = [] then Some (nxt rq ctx s)
      else
        (let vlan = matchVLAN lr (parseIP (rq_ip rq)) in
         Option.bind (buildAnswers lr qname (rq_qtype rq) vlan) (\<lambda>answers.
           if answers = [] \<and> isFallthroughZone lr zone then Some (nxt rq ctx s)
           else
             (let m = (setReply (rq_msg rq))\<lparr>m_authoritative := True\<rparr> in
              if answers = [] then
                (if \<not> namePresent lr qname vlan then
                   Some (\<lparr>oc_rcode = rcodeNameError, oc_err = False,
                     oc_written = Some (m\<lparr>m_rcode := rcodeNameError, m_ns := [soa lr zone]\<rparr>),
                     oc_ctx = lr_attribute ''nxdomain'' ctx\<rparr>, s)
                 else
                   Some (\<lparr>oc_rcode = rcodeSuccess, oc_err = False,
                     oc_written = Some (m\<lparr>m_ns := [soa lr zone]\<rparr>),
                     oc_ctx = lr_attribute ''local'' ctx\<rparr>, s))
              else
                Option.bind (ddrGlue lr answers vlan) (\<lambda>extra.
                  Some (\<lparr>oc_rcode = rcodeSuccess, oc_err = False,
                    oc_written = Some (m\<lparr>m_answer := answers, m_extra := extra\<rparr>),
                    oc_ctx = lr_attribute ''local'' ctx\<rparr>, s))))))"

section \<open>Following aliases\<close>

text \<open>The name an alias leads to, and the answers of a chain of aliases that ends.\<close>

definition aliasOf :: "localRecords \<Rightarrow> string \<Rightarrow> string \<Rightarrow> (string \<times> uint32) option" where
  "aliasOf lr vlan q = firstAlias lr vlan (lr_records lr q)"

inductive chain_answers :: "localRecords \<Rightarrow> uint16 \<Rightarrow> string \<Rightarrow> string \<Rightarrow> rr list \<Rightarrow> bool"
  for lr qtype vlan where
  direct: "aliasOf lr vlan q = None \<Longrightarrow> chain_answers lr qtype vlan q (directAnswers lr q qtype vlan)"
| via: "aliasOf lr vlan q = Some (t, ttl) \<Longrightarrow> chain_answers lr qtype vlan t rest \<Longrightarrow>
    chain_answers lr qtype vlan q (cnameRR q t ttl # rest)"

fun aliasTrail :: "localRecords \<Rightarrow> string \<Rightarrow> nat \<Rightarrow> string \<Rightarrow> string option" where
  "aliasTrail lr vlan 0 q = Some q"
| "aliasTrail lr vlan (Suc n) q =
     (case aliasOf lr vlan q of None \<Rightarrow> None | Some (t, _) \<Rightarrow> aliasTrail lr vlan n t)"

lemma buildAnswers_unfold:
  "buildAnswers lr q qtype vlan = (case aliasOf lr vlan q of
     Some (t, ttl) \<Rightarrow>
       if addressType qtype then map_option (\<lambda>rest. cnameRR q t ttl # rest) (buildAnswers lr t qtype vlan)
       else Some [cnameRR q t ttl]
   | None \<Rightarrow> Some (directAnswers lr q qtype vlan))"
  by (subst buildAnswers.simps)
    (auto simp: aliasOf_def map_option_case split: option.split bind_split)

lemma buildAnswers_sound:
  assumes "buildAnswers lr q qtype vlan = Some rrs"
  shows "addressType qtype \<longrightarrow> chain_answers lr qtype vlan q rrs"
proof (rule buildAnswers.raw_induct [OF _ assms, of "\<lambda>lr q qtype vlan rrs.
      addressType qtype \<longrightarrow> chain_answers lr qtype vlan q rrs"])
  fix f lr q qtype vlan rrs
  assume IH: "\<And>lr q qtype vlan rrs. f lr q qtype vlan = Some rrs \<Longrightarrow>
      addressType qtype \<longrightarrow> chain_answers lr qtype vlan q rrs"
    and e: "(case firstAlias lr vlan (lr_records lr q) of
        None \<Rightarrow> Some (directAnswers lr q qtype vlan)
      | Some (t, ttl) \<Rightarrow>
          if addressType qtype then Option.bind (f lr t qtype vlan) (\<lambda>rest. Some (cnameRR q t ttl # rest))
          else Some [cnameRR q t ttl]) = Some rrs"
  show "addressType qtype \<longrightarrow> chain_answers lr qtype vlan q rrs"
  proof
    assume qt: "addressType qtype"
    show "chain_answers lr qtype vlan q rrs"
    proof (cases "aliasOf lr vlan q")
      case None
      with e have "rrs = directAnswers lr q qtype vlan" by (simp add: aliasOf_def)
      with None show ?thesis by (simp add: chain_answers.direct)
    next
      case (Some a)
      obtain t ttl where a: "a = (t, ttl)" by (cases a)
      from Some have fa: "firstAlias lr vlan (lr_records lr q) = Some (t, ttl)"
        by (simp add: aliasOf_def a)
      have "Option.bind (f lr t qtype vlan) (\<lambda>rest. Some (cnameRR q t ttl # rest)) = Some rrs"
        using e qt unfolding fa by (simp only: option.case prod.case if_True)
      then obtain rest where "f lr t qtype vlan = Some rest" "rrs = cnameRR q t ttl # rest"
        by (auto simp: bind_eq_Some_conv)
      with IH [OF this(1)] qt Some a show ?thesis by (auto intro: chain_answers.via)
    qed
  qed
qed

lemma buildAnswers_chain:
  assumes "addressType qtype"
  shows "buildAnswers lr q qtype vlan = Some rrs \<longleftrightarrow> chain_answers lr qtype vlan q rrs"
proof
  show "chain_answers lr qtype vlan q rrs \<Longrightarrow> buildAnswers lr q qtype vlan = Some rrs"
    by (induction rule: chain_answers.induct) (use assms in \<open>simp_all add: buildAnswers_unfold\<close>)
qed (use assms buildAnswers_sound in blast)

lemma aliasTrail_ends:
  "aliasTrail lr vlan n q = None \<Longrightarrow> \<exists>rrs. chain_answers lr qtype vlan q rrs"
proof (induction n arbitrary: q)
  case (Suc n)
  show ?case
  proof (cases "aliasOf lr vlan q")
    case None
    then show ?thesis using chain_answers.direct by blast
  next
    case (Some a)
    with Suc.prems obtain t ttl where a: "a = (t, ttl)" "aliasTrail lr vlan n t = None"
      by (cases a) simp
    from Suc.IH [OF a(2)] Some a(1) show ?thesis using chain_answers.via by blast
  qed
qed simp

lemma chain_trail: "chain_answers lr qtype vlan q rrs \<Longrightarrow> \<exists>n. aliasTrail lr vlan n q = None"
proof (induction rule: chain_answers.induct)
  case (direct q)
  then have "aliasTrail lr vlan (Suc 0) q = None" by simp
  then show ?case by blast
next
  case (via q t ttl rest)
  then obtain n where "aliasTrail lr vlan n t = None" by blast
  with via(1) have "aliasTrail lr vlan (Suc n) q = None" by simp
  then show ?case by blast
qed

lemma buildAnswers_None:
  "buildAnswers lr q qtype vlan = None \<longleftrightarrow> addressType qtype \<and> (\<forall>n. aliasTrail lr vlan n q \<noteq> None)"
proof (cases "addressType qtype")
  case True
  then show ?thesis
    using buildAnswers_chain [OF True, of lr q vlan] aliasTrail_ends [of lr vlan _ q qtype]
      chain_trail [of lr qtype vlan q] by (metis not_None_eq)
next
  case False
  then show ?thesis by (subst buildAnswers_unfold) (auto split: option.split)
qed

section \<open>Names that answer are present\<close>

lemma firstAlias_present:
  "firstAlias lr vlan rcs = Some a \<Longrightarrow> \<exists>rc\<in>set rcs. effective lr rc vlan = Some a"
  by (induction rcs) (auto split: if_splits option.splits)

lemma recordAnswer_present:
  "recordAnswer lr q qtype vlan rc = Some r \<Longrightarrow> lc_rtype rc = dnsTypeSVCB \<or> effective lr rc vlan \<noteq> None"
  by (auto simp: recordAnswer_def split: if_splits option.splits)

lemma buildAnswers_present:
  assumes "buildAnswers lr q qtype vlan = Some rrs" "rrs \<noteq> []"
  shows "namePresent lr q vlan"
proof (cases "aliasOf lr vlan q")
  case None
  with assms obtain rc r where "rc \<in> set (lr_records lr q)" "recordAnswer lr q qtype vlan rc = Some r"
    by (subst (asm) buildAnswers_unfold)
      (fastforce simp: directAnswers_def List.map_filter_def filter_empty_conv)
  with recordAnswer_present show ?thesis unfolding namePresent_def list_ex_iff by blast
next
  case (Some a)
  then obtain rc where "rc \<in> set (lr_records lr q)" "effective lr rc vlan = Some a"
    using firstAlias_present unfolding aliasOf_def by blast
  then have "rc \<in> set (lr_records lr q) \<and> effective lr rc vlan \<noteq> None" by simp
  then show ?thesis unfolding namePresent_def list_ex_iff by blast
qed

lemma ddrGlueFrom_returns:
  "(\<And>q. \<exists>n. aliasTrail lr vlan n q = None) \<Longrightarrow> \<exists>rrs'. ddrGlueFrom lr rrs vlan seen = Some rrs'"
proof (induction lr rrs vlan seen rule: ddrGlueFrom.induct)
  case (2 lr h p target kvs rrs vlan seen)
  have "buildAnswers lr target qt vlan \<noteq> None" for qt
    using 2(3) [of target] by (simp only: buildAnswers_None) blast
  then obtain a4 a6 where "buildAnswers lr target dnsTypeA vlan = Some a4"
    "buildAnswers lr target dnsTypeAAAA vlan = Some a6" by blast
  with 2 show ?case by fastforce
qed simp_all

section \<open>What loading puts where\<close>

definition loadedRecord :: "(string \<Rightarrow> string) \<Rightarrow> dnsRecord \<Rightarrow> lr_record" where
  "loadedRecord canon r = loadRecord canon (the (recordTypeOf (rec_type r))) (wire_record r)"

lemma toUpper_types: "toUpper typeA = typeA" "toUpper typeAAAA = typeAAAA" "toUpper typeCNAME = typeCNAME"
  by code_simp+

lemma recordTypeOf_static [simp]:
  "recordTypeOf typeA = Some dnsTypeA" "recordTypeOf typeAAAA = Some dnsTypeAAAA"
  "recordTypeOf typeCNAME = Some dnsTypeCNAME"
  by (simp_all add: recordTypeOf_def toUpper_types)

lemma loadRecords_lookup:
  assumes "\<forall>r\<in>set rs. recordTypeOf (rec_type r) \<noteq> None"
  shows "\<exists>lr'. loadRecords canon (map wire_record rs) lr = Inr lr' \<and>
    lr_defaultTTL lr' = lr_defaultTTL lr \<and> lr_vlans lr' = lr_vlans lr \<and> lr_zones lr' = lr_zones lr \<and>
    lr_fallthroughZones lr' = lr_fallthroughZones lr \<and>
    (\<forall>n. lr_records lr' n = lr_records lr n @
       map (loadedRecord canon) (filter (\<lambda>r. canon (rec_name r) = n) rs))"
  using assms
proof (induction rs arbitrary: lr)
  case (Cons r rs)
  from Cons.prems obtain t where t: "recordTypeOf (rec_type r) = Some t" by auto
  let ?lr = "addRecord (canon (rec_name r)) (loadedRecord canon r) lr"
  from Cons obtain lr' where lr': "loadRecords canon (map wire_record rs) ?lr = Inr lr'"
    "lr_defaultTTL lr' = lr_defaultTTL ?lr" "lr_vlans lr' = lr_vlans ?lr" "lr_zones lr' = lr_zones ?lr"
    "lr_fallthroughZones lr' = lr_fallthroughZones ?lr"
    "\<forall>n. lr_records lr' n = lr_records ?lr n @
       map (loadedRecord canon) (filter (\<lambda>r. canon (rec_name r) = n) rs)"
    by fastforce
  have "loadRecords canon (map wire_record (r # rs)) lr = Inr lr'"
    using lr'(1) t by (simp add: wire_record_def loadedRecord_def)
  with lr' show ?case by (simp add: addRecord_def)
qed simp

lemma loadDDR_lookup:
  assumes "\<forall>d\<in>set ds. \<exists>kvs. svcbValues (ddr_params d) = Inr kvs"
  shows "\<exists>lr'. loadDDR canon ds lr = Inr lr' \<and>
    lr_defaultTTL lr' = lr_defaultTTL lr \<and> lr_vlans lr' = lr_vlans lr \<and> lr_zones lr' = lr_zones lr \<and>
    lr_fallthroughZones lr' = lr_fallthroughZones lr \<and>
    (\<forall>n. lr_records lr' n = lr_records lr n @ (if n = ddrQName then map (ddrEntry canon) ds else []))"
  using assms
proof (induction ds arbitrary: lr)
  case (Cons d ds)
  let ?lr = "addRecord ddrQName (ddrEntry canon d) lr"
  from Cons.prems obtain kvs where kvs: "svcbValues (ddr_params d) = Inr kvs" by auto
  from Cons obtain lr' where lr': "loadDDR canon ds ?lr = Inr lr'"
    "lr_defaultTTL lr' = lr_defaultTTL ?lr" "lr_vlans lr' = lr_vlans ?lr" "lr_zones lr' = lr_zones ?lr"
    "lr_fallthroughZones lr' = lr_fallthroughZones ?lr"
    "\<forall>n. lr_records lr' n = lr_records ?lr n @ (if n = ddrQName then map (ddrEntry canon) ds else [])"
    by fastforce
  with kvs show ?case by (simp add: addRecord_def)
qed simp

lemma ports_in_range:
  assumes "validateListeners l = None" "(name, True, p) \<in> set (named_listeners l)"
  shows "0 < p \<and> p \<le> 65535"
  using assms by (auto simp: validateListeners_def err_simps split: if_splits)

lemma rendered_svcb:
  assumes "validateListeners (st_listeners s) = None" "d \<in> set (ddrRecords s)"
  shows "\<exists>kvs. svcbValues (ddr_params d) = Inr kvs"
proof -
  have port: "parseUint 16 (itoa p) = Some (nat p)" if "(name, True, p) \<in> set (named_listeners (st_listeners s))" for name p
    using ports_in_range [OF assms(1) that] by (intro parseUint_itoa) auto
  obtain name p where "(name, True, p) \<in> set (named_listeners (st_listeners s))"
    "\<exists>a ps. ddr_params d = ddr_param ''alpn'' a # ddr_param ''port'' (itoa p) # ps \<and>
       ps \<in> {[], [ddr_param ''dohpath'' ''/dns-query{?dns}'']}"
    using assms(2) by (fastforce simp: ddrRecords_def named_listeners_def Let_def split: if_splits)
  with port show ?thesis by (auto simp: buildSVCBValue_def)
qed

lemma render_zoneData:
  assumes "render s rs hs opts = Inr out"
  shows "validate s rs hs = None" "rd_zoneData out = \<lparr>zd_defaultTTL = configDefaultTTL, zd_zones = ownedZones s,
      zd_records = staticRecords s rs opts, zd_ddr = ddrRecords s\<rparr>"
  using assms by (auto simp: render_def Let_def split: option.splits if_splits)

lemma load_rendered:
  assumes "render s rs hs opts = Inr out"
  shows "\<exists>lr'. loadZoneData canon (wire_zone (rd_zoneData out)) lr = Inr lr' \<and>
    lr_defaultTTL lr' = configDefaultTTL \<and> lr_vlans lr' = lr_vlans lr \<and>
    (\<forall>n. lr_records lr' n = lr_records lr n @
       map (loadedRecord canon) (filter (\<lambda>r. canon (rec_name r) = n) (staticRecords s rs opts)) @
       (if n = ddrQName then map (ddrEntry canon) (ddrRecords s) else []))"
proof -
  note z = render_zoneData [OF assms]
  let ?lr1 = "lr\<lparr>lr_defaultTTL := configDefaultTTL\<rparr>"
  have "\<forall>r\<in>set (staticRecords s rs opts). recordTypeOf (rec_type r) \<noteq> None"
    using static_answers [OF z(1), of _ opts] by fastforce
  from loadRecords_lookup [OF this, of canon ?lr1] obtain lr2 where
    lr2: "loadRecords canon (map wire_record (staticRecords s rs opts)) ?lr1 = Inr lr2"
    "lr_defaultTTL lr2 = configDefaultTTL" "lr_vlans lr2 = lr_vlans lr"
    "\<And>n. lr_records lr2 n = lr_records lr n @
       map (loadedRecord canon) (filter (\<lambda>r. canon (rec_name r) = n) (staticRecords s rs opts))"
    by auto
  have "\<forall>d\<in>set (ddrRecords s). \<exists>kvs. svcbValues (ddr_params d) = Inr kvs"
    using rendered_svcb validate_None(1) [OF z(1)] by blast
  from loadDDR_lookup [OF this, of canon lr2] obtain lr3 where
    "loadDDR canon (ddrRecords s) lr2 = Inr lr3"
    "lr_defaultTTL lr3 = configDefaultTTL" "lr_vlans lr3 = lr_vlans lr"
    "\<And>n. lr_records lr3 n = lr_records lr2 n @ (if n = ddrQName then map (ddrEntry canon) (ddrRecords s) else [])"
    using lr2(2,3) by auto
  with lr2 show ?thesis
    by (auto simp: loadZoneData_def wire_zone_def z(2) configDefaultTTL_def)
qed

section \<open>The answer a declared address record gives\<close>

text \<open>
  The documented meaning of a record and its overrides (\<^verbatim>\<open>model/records.go\<close>): the override of
  the client's VLAN, if there is one, suppresses the answer or replaces value and TTL where it
  gives them; everything else is the default.
\<close>

definition horizon :: "dnsRecord \<Rightarrow> string \<Rightarrow> (string \<times> uint32) option" where
  "horizon r vlan =
     (let ttl = (if rec_ttl r = 0 then configDefaultTTL else rec_ttl r) in
      case find (\<lambda>o'. ov_vlan o' = vlan) (rec_overrides r) of
        Some o' \<Rightarrow>
          if ov_nxdomain o' then None
          else Some (if ov_value o' = [] then rec_default r else ov_value o',
                     if ov_ttl o' = 0 then ttl else ov_ttl o')
      | None \<Rightarrow> if rec_default r = [] then None else Some (rec_default r, ttl))"

definition addressRR :: "recordType \<Rightarrow> string \<Rightarrow> string \<times> uint32 \<Rightarrow> rr" where
  "addressRR t name a =
     (let hdr = \<lparr>hdr_name = name, hdr_rrtype = the (recordTypeOf t), hdr_ttl = snd a\<rparr> in
      if t = typeA then RR_A hdr (to4 (parseIP (fst a))) else RR_AAAA hdr (to16 (parseIP (fst a))))"

lemma map_of_map_find:
  "map_of (map (\<lambda>x. (k x, f x)) xs) y = map_option f (find (\<lambda>x. k x = y) xs)"
  by (induction xs) auto

lemma map_of_rev_distinct: "distinct (map fst kvs) \<Longrightarrow> map_of (rev kvs) = map_of kvs"
  by (subst map_of_inject_set) (simp_all add: rev_map [symmetric])

lemma loadedRecord_overrides:
  assumes "distinct (map ov_vlan (rec_overrides r))"
  shows "lc_overrides (loadedRecord canon r) vlan =
    map_option (\<lambda>o'. \<lparr>lo_value = normalizeValue canon (the (recordTypeOf (rec_type r))) (ov_value o'),
      lo_ttl = ov_ttl o', lo_nxdomain = ov_nxdomain o'\<rparr>)
    (find (\<lambda>o'. ov_vlan o' = vlan) (rec_overrides r))"
  using assms
  by (simp add: loadedRecord_def loadRecord_def wire_record_def map_add_fold_upd map_of_rev_distinct
      o_def map_of_map_find loadOverride_def)

lemma effective_loaded:
  assumes v: "validateStaticRecord r vn = None" and vn: "[] \<notin> set vn"
    and t: "rec_type r \<in> {typeA, typeAAAA}" and d: "lr_defaultTTL lr = configDefaultTTL"
  shows "effective lr (loadedRecord canon r) vlan = horizon r vlan"
proof -
  note S = validateStaticRecord_None [OF v]
  have norm: "normalizeValue canon (the (recordTypeOf (rec_type r))) x = x" for x
    using t by (auto simp: normalizeValue_def)
  have flds: "lc_ttl (loadedRecord canon r) = rec_ttl r" "lc_def (loadedRecord canon r) = rec_default r"
    using norm by (simp_all add: loadedRecord_def loadRecord_def wire_record_def)
  have ovs: "(if vlan \<noteq> [] then lc_overrides (loadedRecord canon r) vlan else None) =
      map_option (\<lambda>o'. \<lparr>lo_value = ov_value o', lo_ttl = ov_ttl o', lo_nxdomain = ov_nxdomain o'\<rparr>)
        (find (\<lambda>o'. ov_vlan o' = vlan) (rec_overrides r))"
    using S(4) vn by (auto simp: loadedRecord_overrides [OF S(3)] norm find_None_conv)
  show ?thesis
  proof (cases "find (\<lambda>o'. ov_vlan o' = vlan) (rec_overrides r)")
    case None
    then show ?thesis by (simp add: effective_def horizon_def ovs flds d Let_def)
  next
    case (Some o')
    then have "overrideCheck r o' = None" using S(4) find_SomeD [OF Some] by blast
    then have "\<not> ov_nxdomain o' \<Longrightarrow> ov_value o' = [] \<Longrightarrow> rec_default r \<noteq> []"
      by (auto simp: overrideCheck_def err_simps)
    with Some show ?thesis by (auto simp: effective_def horizon_def ovs flds d Let_def)
  qed
qed

lemma horizon_parses:
  assumes v: "validateStaticRecord r vn = None" and t: "rec_type r \<in> {typeA, typeAAAA}"
    and h: "horizon r vlan = Some a"
  shows "rrFor name (the (recordTypeOf (rec_type r))) (fst a) (snd a) = Some (addressRR (rec_type r) name a)"
proof -
  note S = validateStaticRecord_None [OF v]
  have "validateValue (rec_type r) (fst a) = None"
  proof (cases "find (\<lambda>o'. ov_vlan o' = vlan) (rec_overrides r)")
    case None
    with h S(2) show ?thesis by (auto simp: horizon_def Let_def split: if_splits)
  next
    case (Some o')
    then have "overrideCheck r o' = None" using S(4) find_SomeD [OF Some] by blast
    with h Some S(2) show ?thesis
      by (auto simp: horizon_def Let_def overrideCheck_def err_simps split: if_splits)
  qed
  with t show ?thesis
    by (auto simp: validateValue_def err_simps rrFor_def addressRR_def Let_def)
qed

lemma hasSuffix_toLower: "hasSuffix (toLower n) ''.'' = hasSuffix n ''.''"
proof -
  have "char_lower c = CHR ''.'' \<longleftrightarrow> c = CHR ''.''" for c
    by (auto simp: char_lower_def Let_def split: if_splits dest!: arg_cong [where f = "of_char :: char \<Rightarrow> nat"])
  then show ?thesis by (auto simp: hasSuffix_dot toLower_def last_map)
qed

lemma canon_normalized:
  assumes "canonical_doc canon" "trimSpace n = n" "CHR 0x5C \<notin> set n"
  shows "canon n = normalizedHostName n"
  using assms hasSuffix_toLower [of n]
  by (auto simp: canonical_doc_def normalizedHostName_def Let_def toLower_def)

text \<open>
  Names as the loader needs them: without surrounding white space, which validation trims and
  the loader does not, and without escapes.
\<close>

definition plain_names :: "settings \<Rightarrow> recordSet \<Rightarrow> bool" where
  "plain_names s rs \<longleftrightarrow>
     list_all (\<lambda>q. trimSpace (rec_name q) = rec_name q \<and> CHR 0x5C \<notin> set (rec_name q)) rs \<and>
     CHR 0x5C \<notin> set (acme_domain (st_acme s))"

lemma backslash_toLower: "CHR 0x5C \<in> set (toLower s) \<longleftrightarrow> CHR 0x5C \<in> set s"
proof -
  have "CHR 0x5C = char_lower c \<longleftrightarrow> c = CHR 0x5C" for c
    by (auto simp: char_lower_def Let_def split: if_splits dest!: arg_cong [where f = "of_char :: char \<Rightarrow> nat"])
  then show ?thesis by (auto simp: toLower_def image_iff)
qed

lemma static_canonical:
  assumes c: "canonical_doc canon" and p: "plain_names s rs" and q: "q \<in> set (staticRecords s rs opts)"
  shows "canon (rec_name q) = rec_normalizedName q"
proof -
  have "trimSpace (rec_name q) = rec_name q \<and> CHR 0x5C \<notin> set (rec_name q)"
  proof (cases "q \<in> set rs")
    case False
    with q have "q \<in> set (acmeSelfRecords s rs (opt_acmeSelfIPs opts))" by (auto simp: staticRecords_def)
    then have n: "rec_name q = normalizedACMEDomain s" "normalizedACMEDomain s \<noteq> []"
      by (auto elim!: acmeSelfRecords_cases dest: buildFamilyRecord_Some)
    then have "rec_name q = toLower (trimSpace (acme_domain (st_acme s)))"
      by (auto simp: normalizedACMEDomain_def split: if_splits)
    then show ?thesis
      using p set_trimSpace [of "acme_domain (st_acme s)"]
      by (auto simp: trimSpace_toLower backslash_toLower plain_names_def)
  qed (use p in \<open>auto simp: plain_names_def list_all_iff\<close>)
  with canon_normalized [OF c] show ?thesis by (simp add: rec_normalizedName_eq)
qed

lemma map_filter_single:
  assumes "distinct xs" "x \<in> set xs" "\<And>y. y \<in> set xs \<Longrightarrow> y \<noteq> x \<Longrightarrow> g y = None"
  shows "List.map_filter g xs = (case g x of None \<Rightarrow> [] | Some z \<Rightarrow> [z])"
proof -
  obtain us vs where xs: "xs = us @ x # vs" using assms(2) by (meson split_list)
  have none: "List.map_filter g ys = []" if "\<And>y. y \<in> set ys \<Longrightarrow> g y = None" for ys
    using that by (induction ys) (auto simp: List.map_filter_simps)
  have "g y = None" if "y \<in> set us \<union> set vs" for y
    by (rule assms(3)) (use that assms(1) in \<open>auto simp: xs\<close>)
  then have "List.map_filter g us = []" "List.map_filter g vs = []" by (auto intro: none)
  then show ?thesis
    by (auto simp: xs List.map_filter_def split: option.splits)
qed

lemma firstAlias_None: "\<forall>rc\<in>set rcs. lc_rtype rc \<noteq> dnsTypeCNAME \<Longrightarrow> firstAlias lr vlan rcs = None"
  by (induction rcs) auto

lemma loadedRecord_rtype [simp]: "lc_rtype (loadedRecord canon r) = the (recordTypeOf (rec_type r))"
  by (simp add: loadedRecord_def loadRecord_def)

lemma ddrEntry_rtype [simp]: "lc_rtype (ddrEntry canon d) = dnsTypeSVCB"
  by (simp add: ddrEntry_def)

lemma map_filter_append: "List.map_filter g (xs @ ys) = List.map_filter g xs @ List.map_filter g ys"
  by (simp add: List.map_filter_def)

lemma map_filter_map: "List.map_filter g (map f xs) = List.map_filter (g \<circ> f) xs"
  by (induction xs) (auto simp: List.map_filter_simps split: option.splits)

lemma map_filter_None: "\<forall>x\<in>set xs. g x = None \<Longrightarrow> List.map_filter g xs = []"
  by (induction xs) (auto simp: List.map_filter_simps)

lemma direct_address_answer:
  assumes rtypes: "\<forall>q\<in>set qs. rec_type q \<in> {typeA, typeAAAA, typeCNAME}"
    and dist: "distinct (map record_key qs)" and names: "\<forall>q\<in>set qs. rec_normalizedName q = name"
    and recs: "lr_records lr name = map (loadedRecord canon) qs @ map (ddrEntry canon) ds"
    and r: "r \<in> set qs" "rec_type r \<in> {typeA, typeAAAA}"
    and v: "validateStaticRecord r vn = None" "[] \<notin> set vn" "lr_defaultTTL lr = configDefaultTTL"
  shows "directAnswers lr name (the (recordTypeOf (rec_type r))) vlan =
    (case horizon r vlan of None \<Rightarrow> [] | Some a \<Rightarrow> [addressRR (rec_type r) name a])"
proof -
  let ?qt = "the (recordTypeOf (rec_type r))"
  let ?g = "recordAnswer lr name ?qt vlan"
  have qt: "addressType ?qt" using r(2) by auto
  have other: "?g (loadedRecord canon q) = None" if "q \<in> set qs" "q \<noteq> r" for q
  proof -
    have "record_key q \<noteq> record_key r" using dist that r(1) by (auto simp: distinct_map dest: inj_onD)
    then have "rec_type q \<noteq> rec_type r" using names that(1) r(1) by (auto simp: record_key_def)
    moreover have "rec_type q \<in> {typeA, typeAAAA, typeCNAME}" using rtypes that(1) by blast
    ultimately show ?thesis using r(2) by (auto simp: recordAnswer_def)
  qed
  have self: "?g (loadedRecord canon r) =
      (case horizon r vlan of None \<Rightarrow> None | Some a \<Rightarrow> Some (addressRR (rec_type r) name a))"
    using horizon_parses [OF v(1) r(2), of vlan _ name] qt
    by (auto simp: recordAnswer_def effective_loaded [OF v(1,2) r(2) v(3)] split: option.splits)
  have "List.map_filter ?g (map (ddrEntry canon) ds) = []"
    by (rule map_filter_None) (use qt in \<open>auto simp: recordAnswer_def\<close>)
  moreover have "distinct qs" using dist by (simp add: distinct_map)
  ultimately show ?thesis
    using map_filter_single [of qs r "?g \<circ> loadedRecord canon"] other r(1) self
    by (simp add: directAnswers_def recs map_filter_append map_filter_map split: option.splits)
qed

text \<open>The records a rendered and loaded configuration has at the name of a declared record.\<close>

lemma rendered_records_at:
  assumes "render s rs hs opts = Inr out"
    and "loadZoneData canon (wire_zone (rd_zoneData out)) (parsedStanza canon zones ft st) = Inr lr"
    and c: "canonical_doc canon" "plain_names s rs"
  obtains qs ds where "lr_records lr name = map (loadedRecord canon) qs @ map (ddrEntry canon) ds"
    "\<And>q. q \<in> set qs \<longleftrightarrow> q \<in> set (staticRecords s rs opts) \<and> rec_normalizedName q = name"
    "distinct (map record_key qs)" "\<forall>q\<in>set qs. rec_type q \<in> {typeA, typeAAAA, typeCNAME}"
    "lr_defaultTTL lr = configDefaultTTL"
proof
  let ?S = "staticRecords s rs opts"
  let ?qs = "filter (\<lambda>q. canon (rec_name q) = name) ?S"
  let ?ds = "if name = ddrQName then ddrRecords s else []"
  have v: "validate s rs hs = None" using render_zoneData [OF assms(1)] by blast
  show "lr_defaultTTL lr = configDefaultTTL"
    "lr_records lr name = map (loadedRecord canon) ?qs @ map (ddrEntry canon) ?ds"
    using load_rendered [OF assms(1), of canon "parsedStanza canon zones ft st"] assms(2)
    by (auto simp: parsedStanza_def Let_def)
  show "q \<in> set ?qs \<longleftrightarrow> q \<in> set ?S \<and> rec_normalizedName q = name" for q
    using static_canonical [OF c, of q opts] by auto
  show "distinct (map record_key ?qs)"
    using staticRecords_distinct [OF v, of opts] by (simp add: distinct_map_filter)
  show "\<forall>q\<in>set ?qs. rec_type q \<in> {typeA, typeAAAA, typeCNAME}"
    using static_answers [OF v, of _ opts] by auto
qed

lemma static_cname_declared:
  assumes "q \<in> set (staticRecords s rs opts)" "rec_type q = typeCNAME"
  shows "q \<in> set rs"
proof (rule ccontr)
  assume "q \<notin> set rs"
  with assms(1) have "q \<in> set (acmeSelfRecords s rs (opt_acmeSelfIPs opts))"
    by (simp add: staticRecords_def)
  then have "rec_type q \<noteq> typeCNAME"
    by (rule acmeSelfRecords_cases) (auto dest!: buildFamilyRecord_Some(2))
  with assms(2) show False by blast
qed

lemma no_alias_loaded:
  assumes recs: "lr_records lr name = map (loadedRecord canon) qs @ map (ddrEntry canon) ds"
    and "\<forall>q\<in>set qs. rec_type q \<in> {typeA, typeAAAA}"
  shows "aliasOf lr vlan name = None"
  unfolding aliasOf_def
proof (rule firstAlias_None, rule ballI)
  fix rc
  assume "rc \<in> set (lr_records lr name)"
  then consider q where "q \<in> set qs" "rc = loadedRecord canon q" | d where "rc = ddrEntry canon d"
    unfolding recs by auto
  then show "lc_rtype rc \<noteq> dnsTypeCNAME"
  proof cases
    case 1
    then have "rec_type q \<in> {typeA, typeAAAA}" using assms(2) by blast
    with 1(2) show ?thesis by auto
  qed simp
qed

section \<open>Sample configurations\<close>

text \<open>One VLAN and an address record with an override for it.\<close>

definition exHome :: settings where
  "exHome = defaultSettings\<lparr>st_vlans := [\<lparr>vlan_name = ''guest'', vlan_cidrs = [''10.2.0.0/16'']\<rparr>]\<rparr>"

definition exNas :: dnsRecord where
  "exNas = \<lparr>rec_name = ''nas.home.arpa'', rec_type = typeA, rec_default = ''10.1.0.5'', rec_ttl = 60,
     rec_overrides = [\<lparr>ov_vlan = ''guest'', ov_value = ''10.2.0.5'', ov_ttl = 0, ov_nxdomain = False\<rparr>],
     rec_match = None\<rparr>"

lemma exHome_settings:
  "validateListeners (st_listeners exHome) = None" "validateUpstream (st_upstream exHome) = None"
  "certSourceCheck exHome = None" "validateACME (st_acme exHome) = None"
  "validateMDNS (st_mdns exHome) (st_vlans exHome) = None" "validateLog (st_log exHome) = None"
  "validateClientNames (st_clientNames exHome) = None" "validateHosts [] = None"
  "ddrRecords exHome = []" "ownedZones exHome = [''home.arpa'']" "acme_domain (st_acme exHome) = []"
  by code_simp+

lemma exHome_vlans: "validateVLANs (st_vlans exHome) = None"
  by (simp add: exHome_def validateVLANs_def ip_eval trimSpace_def is_space_def)

lemma exNas_name: "domain_err ''nas.home.arpa'' = None" "inAnyZone (rec_normalizedName exNas) [''home.arpa'']"
  "trimSpace ''nas.home.arpa'' = ''nas.home.arpa''" "rec_normalizedName exNas = ''nas.home.arpa.''"
  by code_simp+

lemma exNas_valid: "validateRecords [exNas] (st_vlans exHome) [''home.arpa''] = None"
  using exNas_name
  by (simp add: exNas_def exHome_def validateRecords_def isMDNS_def validateStaticRecord_def validateValue_def
      validateOverrides_def overrideCheck_def ip_eval is_space_def)

lemma exHome_valid: "validate exHome [exNas] [] = None"
  by (simp add: validate_def exHome_settings exHome_vlans exNas_valid)

text \<open>Two aliases that point at each other.\<close>

definition exLoop :: recordSet where
  "exLoop =
     [\<lparr>rec_name = ''a.home.arpa'', rec_type = typeCNAME, rec_default = ''b.home.arpa'',
       rec_ttl = 0, rec_overrides = [], rec_match = None\<rparr>,
      \<lparr>rec_name = ''b.home.arpa'', rec_type = typeCNAME, rec_default = ''a.home.arpa'',
       rec_ttl = 0, rec_overrides = [], rec_match = None\<rparr>]"

lemma exLoop_valid: "validate defaultSettings exLoop [] = None"
  by code_simp

lemma exLoop_static: "staticRecords defaultSettings exLoop opts = exLoop" "ddrRecords defaultSettings = []"
proof -
  have "filter (\<lambda>r. \<not> isMDNS r) exLoop = exLoop" "normalizedACMEDomain defaultSettings = []" by code_simp+
  then show "staticRecords defaultSettings exLoop opts = exLoop" "ddrRecords defaultSettings = []"
    by (simp_all add: staticRecords_def acmeSelfRecords_def ddrRecords_def)
qed

lemma simpleCanon_eval:
  "simpleCanon ''a.home.arpa'' = ''a.home.arpa.''" "simpleCanon ''b.home.arpa'' = ''b.home.arpa.''"
  by code_simp+

lemma exLoop_aliases:
  assumes "\<And>n. lr_records lr n = map (loadedRecord simpleCanon) (filter (\<lambda>r. simpleCanon (rec_name r) = n) exLoop)"
  shows "\<exists>t. aliasOf lr [] ''a.home.arpa.'' = Some (''b.home.arpa.'', t)"
    "\<exists>t. aliasOf lr [] ''b.home.arpa.'' = Some (''a.home.arpa.'', t)"
  by (simp_all add: aliasOf_def assms exLoop_def simpleCanon_eval effective_def loadedRecord_def
      loadRecord_def wire_record_def normalizeValue_def Let_def)

lemma loop_never_ends:
  assumes "\<exists>t. aliasOf lr vl a = Some (b, t)" "\<exists>t. aliasOf lr vl b = Some (a, t)"
  shows "aliasTrail lr vl n a \<noteq> None \<and> aliasTrail lr vl n b \<noteq> None"
  using assms by (induction n) auto

section \<open>Properties\<close>

text \<open>
  Zone data that was rendered always loads: every record type and every designated-resolver
  parameter the renderer writes, the port numbers included, is one the plugin accepts.
\<close>

theorem rendered_zone_data_loads:
  assumes "render s rs hs opts = Inr out"
  shows "\<exists>lr'. loadZoneData canon (wire_zone (rd_zoneData out)) lr = Inr lr'"
  using load_rendered [OF assms] by blast

theorem rendered_zone_data_loads_witness:
  "\<exists>out lr'. render exSettings exRecords [] exOptions = Inr out \<and> zd_ddr (rd_zoneData out) \<noteq> [] \<and>
     loadZoneData simpleCanon (wire_zone (rd_zoneData out))
       (parsedStanza simpleCanon [] [] \<lparr>vm_current = zeroTable\<rparr>) = Inr lr'"
proof -
  obtain out where o: "render exSettings exRecords [] exOptions = Inr out" "zd_ddr (rd_zoneData out) \<noteq> []"
    using exSettings_renders by blast
  from o rendered_zone_data_loads [OF o(1)] show ?thesis by blast
qed

text \<open>
  C1. Split horizon, from the declaration to the answer. Render a configuration, load the
  result, and ask for an address record that was declared: a client of a VLAN gets exactly one
  record with the value and the TTL of the VLAN's override where it gives one and of the record
  otherwise, and none if the override suppresses the name, as the record's documentation says.
  The names have no surrounding white space and no escapes, and no alias is declared at the name.
\<close>

theorem declared_address_answered:
  assumes "render s rs hs opts = Inr out"
    and "loadZoneData canon (wire_zone (rd_zoneData out)) (parsedStanza canon zones ft st) = Inr lr"
    and "canonical_doc canon" "plain_names s rs"
    and "r \<in> set rs" "rec_type r \<in> {typeA, typeAAAA}"
    and "\<forall>q\<in>set rs. rec_type q = typeCNAME \<longrightarrow> rec_normalizedName q \<noteq> rec_normalizedName r"
  shows "buildAnswers lr (rec_normalizedName r) (the (recordTypeOf (rec_type r))) vlan =
    Some (case horizon r vlan of None \<Rightarrow> [] | Some a \<Rightarrow> [addressRR (rec_type r) (rec_normalizedName r) a])"
proof -
  have v: "validate s rs hs = None" using render_zoneData [OF assms(1)] by blast
  obtain qs ds where lr: "lr_records lr (rec_normalizedName r) = map (loadedRecord canon) qs @ map (ddrEntry canon) ds"
    and qs: "\<And>q. q \<in> set qs \<longleftrightarrow> q \<in> set (staticRecords s rs opts) \<and> rec_normalizedName q = rec_normalizedName r"
    and D: "distinct (map record_key qs)" "\<forall>q\<in>set qs. rec_type q \<in> {typeA, typeAAAA, typeCNAME}"
      "lr_defaultTTL lr = configDefaultTTL"
    by (rule rendered_records_at [OF assms(1-4), where name = "rec_normalizedName r"]) (rule that)
  have r: "r \<in> set qs" using assms(5,6) by (auto simp: qs staticRecords_def isMDNS_def)
  have "rec_type q \<in> {typeA, typeAAAA}" if "q \<in> set qs" for q
    using that D(2) qs assms(7) static_cname_declared by blast
  then have no_alias: "aliasOf lr vlan (rec_normalizedName r) = None"
    using no_alias_loaded [OF lr] by blast
  have names: "\<forall>q\<in>set qs. rec_normalizedName q = rec_normalizedName r" using qs by blast
  have ok: "validateStaticRecord r (map vlan_name (st_vlans s)) = None"
    using validateRecordsFrom_None [of rs _ _ "[]"] validate_None(8) [OF v] assms(5,6)
    by (auto simp: validateRecords_def isMDNS_def split: if_splits)
  have vn: "[] \<notin> set (map vlan_name (st_vlans s))"
    using validateVLANsFrom_named [of "st_vlans s" "[]" "[]"] validate_None(3) [OF v]
    by (fastforce simp: validateVLANs_def)
  show ?thesis
    using direct_address_answer [OF D(2,1) names lr r assms(6) ok vn D(3), of vlan] no_alias
    by (subst buildAnswers_unfold) simp
qed

theorem declared_address_answered_witness:
  "\<exists>out lr. render exHome [exNas] [] exOptions = Inr out \<and>
     loadZoneData simpleCanon (wire_zone (rd_zoneData out))
       (parsedStanza simpleCanon [] [] \<lparr>vm_current = zeroTable\<rparr>) = Inr lr \<and>
     buildAnswers lr ''nas.home.arpa.'' dnsTypeA ''guest'' =
       Some [RR_A \<lparr>hdr_name = ''nas.home.arpa.'', hdr_rrtype = dnsTypeA, hdr_ttl = 60\<rparr> [10, 2, 0, 5]]"
proof -
  let ?lr0 = "parsedStanza simpleCanon [] [] \<lparr>vm_current = zeroTable\<rparr>"
  obtain out where o: "render exHome [exNas] [] exOptions = Inr out"
    by (simp add: render_def exHome_valid exHome_settings)
  then obtain lr where l: "loadZoneData simpleCanon (wire_zone (rd_zoneData out)) ?lr0 = Inr lr"
    using load_rendered by blast
  have p: "plain_names exHome [exNas]"
    using exNas_name by (simp add: plain_names_def exNas_def exHome_settings)
  have t: "rec_type exNas = typeA" by (simp add: exNas_def)
  have h: "horizon exNas ''guest'' = Some (''10.2.0.5'', 60)" by (simp add: horizon_def exNas_def)
  have a: "buildAnswers lr ''nas.home.arpa.'' dnsTypeA ''guest'' =
      Some [addressRR typeA ''nas.home.arpa.'' (''10.2.0.5'', 60)]"
    using declared_address_answered [OF o l simpleCanon_doc p, of exNas "''guest''"] t
    by (simp add: exNas_name h)
  have "addressRR typeA ''nas.home.arpa.'' (''10.2.0.5'', 60) =
      RR_A \<lparr>hdr_name = ''nas.home.arpa.'', hdr_rrtype = dnsTypeA, hdr_ttl = 60\<rparr> [10, 2, 0, 5]"
    by (simp add: addressRR_def ip_eval)
  with o l a show ?thesis by metis
qed

text \<open>
  C30. \<^verbatim>\<open>buildAnswers\<close> fails to return exactly when an address is asked for and the chain of
  aliases from the name never ends; otherwise it returns the aliases of the chain in order,
  followed by the address records at its end.
\<close>

theorem answers_follow_aliases:
  "(buildAnswers lr q qtype vlan = None \<longleftrightarrow>
      addressType qtype \<and> (\<forall>n. aliasTrail lr vlan n q \<noteq> None)) \<and>
   (addressType qtype \<longrightarrow>
      (\<forall>rrs. buildAnswers lr q qtype vlan = Some rrs \<longleftrightarrow> chain_answers lr qtype vlan q rrs))"
  by (intro conjI impI allI) (rule buildAnswers_None, erule buildAnswers_chain)

theorem answers_follow_aliases_witness:
  "addressType dnsTypeA \<and>
   chain_answers (parsedStanza simpleCanon [] [] \<lparr>vm_current = zeroTable\<rparr>) dnsTypeA [] ''x.'' []"
proof -
  let ?lr = "parsedStanza simpleCanon [] [] \<lparr>vm_current = zeroTable\<rparr>"
  have "buildAnswers ?lr ''x.'' dnsTypeA [] = Some []"
    by (subst buildAnswers_unfold)
      (simp add: aliasOf_def parsedStanza_def directAnswers_def List.map_filter_simps)
  then show ?thesis using answers_follow_aliases [of ?lr "''x.''" dnsTypeA "[]"] by blast
qed

text \<open>
  C31. Validation does not rule such a chain out. Two aliases that point at each other are
  accepted, rendered and loaded, and an address query for either name never returns.
\<close>

theorem alias_loop_accepted:
  "\<exists>out lr. validate defaultSettings exLoop [] = None \<and>
     render defaultSettings exLoop [] exOptions = Inr out \<and>
     loadZoneData simpleCanon (wire_zone (rd_zoneData out))
       (parsedStanza simpleCanon [] [] \<lparr>vm_current = zeroTable\<rparr>) = Inr lr \<and>
     buildAnswers lr ''a.home.arpa.'' dnsTypeA [] = None"
proof -
  let ?lr0 = "parsedStanza simpleCanon [] [] \<lparr>vm_current = zeroTable\<rparr>"
  obtain out where o: "render defaultSettings exLoop [] exOptions = Inr out"
    by (simp add: render_def exLoop_valid exLoop_static)
  obtain lr where l: "loadZoneData simpleCanon (wire_zone (rd_zoneData out)) ?lr0 = Inr lr"
    "\<And>n. lr_records lr n = map (loadedRecord simpleCanon) (filter (\<lambda>r. simpleCanon (rec_name r) = n) exLoop)"
    using load_rendered [OF o, of simpleCanon ?lr0]
    by (auto simp: exLoop_static parsedStanza_def)
  have "buildAnswers lr ''a.home.arpa.'' dnsTypeA [] = None"
    using loop_never_ends [OF exLoop_aliases [OF l(2)]] by (simp add: buildAnswers_None)
  with o l(1) exLoop_valid show ?thesis by blast
qed

text \<open>
  C2. Inside an owned zone that does not fall through, a query is never passed on: the state
  of the rest of the chain is untouched, the reply is authoritative, its answer section is what
  \<^verbatim>\<open>buildAnswers\<close> gives, and the code is NXDOMAIN exactly when no record at the name answers for
  the client's VLAN; a reply without answers carries the zone's SOA. The call returns if no
  chain of aliases is endless.
\<close>

theorem owned_zone_contained:
  assumes zone: "matches (lr_zones lr) (toLower (rq_name rq)) = zone" "zone \<noteq> []" "\<not> isFallthroughZone lr zone"
    and sr: "set_reply_doc setReply"
    and ends: "\<And>q. \<exists>n. aliasTrail lr (matchVLAN lr (parseIP (rq_ip rq))) n q = None"
  shows "\<exists>oc m. lr_serveDNS matches setReply lr nxt rq ctx s = Some (oc, s) \<and>
    oc_written oc = Some m \<and> m_authoritative m \<and> m_rcode m = oc_rcode oc \<and> m_id m = m_id (rq_msg rq) \<and>
    buildAnswers lr (toLower (rq_name rq)) (rq_qtype rq) (matchVLAN lr (parseIP (rq_ip rq))) = Some (m_answer m) \<and>
    oc_rcode oc = (if namePresent lr (toLower (rq_name rq)) (matchVLAN lr (parseIP (rq_ip rq)))
                   then rcodeSuccess else rcodeNameError) \<and>
    (m_answer m = [] \<longrightarrow> m_ns m = [soa lr zone])"
proof -
  let ?q = "toLower (rq_name rq)" and ?v = "matchVLAN lr (parseIP (rq_ip rq))"
  obtain answers where a: "buildAnswers lr ?q (rq_qtype rq) ?v = Some answers"
    using buildAnswers_None [of lr ?q "rq_qtype rq" ?v] ends [of ?q] by (metis not_None_eq)
  obtain extra where g: "ddrGlue lr answers ?v = Some extra"
    using ddrGlueFrom_returns [OF ends] unfolding ddrGlue_def by blast
  have p: "answers \<noteq> [] \<Longrightarrow> namePresent lr ?q ?v" using buildAnswers_present [OF a] .
  show ?thesis
    using zone sr p by (auto simp: lr_serveDNS_def Let_def a g set_reply_doc_def)
qed

theorem owned_zone_contained_witness:
  "\<exists>oc m. lr_serveDNS simpleMatches simpleReply (parsedStanza simpleCanon [] [] \<lparr>vm_current = zeroTable\<rparr>)
      (\<lambda>_ _ n. (\<lparr>oc_rcode = 0, oc_err = False, oc_written = None, oc_ctx = None\<rparr>, Suc n))
      \<lparr>rq_name = ''NoSuch.home.arpa.'', rq_qtype = dnsTypeA, rq_do = False, rq_ip = ''10.0.0.1'', rq_family = 1,
        rq_localAddr = [], rq_proto = ''udp'', rq_msg = zero_msg\<rparr> None (0::nat) = Some (oc, 0) \<and>
     oc_rcode oc = rcodeNameError \<and> oc_written oc = Some m \<and> m_authoritative m"
proof -
  let ?lr = "parsedStanza simpleCanon [] [] \<lparr>vm_current = zeroTable\<rparr>"
  let ?rq = "\<lparr>rq_name = ''NoSuch.home.arpa.'', rq_qtype = dnsTypeA, rq_do = False, rq_ip = ''10.0.0.1'', rq_family = 1,
    rq_localAddr = [], rq_proto = ''udp'', rq_msg = zero_msg\<rparr>"
  let ?next = "\<lambda>_ _ n. (\<lparr>oc_rcode = 0, oc_err = False, oc_written = None, oc_ctx = None\<rparr>, Suc n)"
  have "simpleMatches [simpleCanon ''home.arpa''] (toLower ''NoSuch.home.arpa.'') = ''home.arpa.''"
    by code_simp
  then have z: "simpleMatches (lr_zones ?lr) (toLower (rq_name ?rq)) = ''home.arpa.''"
    by (simp add: parsedStanza_def)
  have "aliasTrail ?lr vl (Suc 0) q = None" for vl q by (simp add: aliasOf_def parsedStanza_def)
  then have e: "\<exists>n. aliasTrail ?lr (matchVLAN ?lr (parseIP (rq_ip ?rq))) n q = None" for q by blast
  have f: "\<not> isFallthroughZone ?lr ''home.arpa.''" by (simp add: isFallthroughZone_def parsedStanza_def)
  have "\<not> namePresent ?lr q vl" for q vl by (simp add: namePresent_def parsedStanza_def)
  then have rc: "(if namePresent ?lr q vl then rcodeSuccess else rcodeNameError) = rcodeNameError" for q vl
    by simp
  have ne: "''home.arpa.'' \<noteq> []" by simp
  obtain oc m where "lr_serveDNS simpleMatches simpleReply ?lr ?next ?rq None 0 = Some (oc, 0)"
    "oc_written oc = Some m" "m_authoritative m" "oc_rcode oc = rcodeNameError"
    using owned_zone_contained [where matches = simpleMatches and lr = ?lr and rq = ?rq and nxt = ?next and ctx = None and s = 0, OF z ne f simpleReply_doc e]
    unfolding rc by blast
  then show ?thesis by blast
qed

end
