(* ===== verification/Plugin_Chain.thy ===== *)
theory Plugin_Chain
  imports Query_Log Mdns_Table Local_Records
begin

text \<open>
  The program's plugins in the order of \<^verbatim>\<open>internal/engine/directives.go\<close>: the query log, the
  hosts file, the mDNS bridge, the local records, and after them the cache and the forwarder. The
  hosts plugin is CoreDNS's own and an argument here, as is everything after the local records.

  The locale \<open>authority\<close> is what the position of a plugin in front of the cache relies on: the
  plugin answers the queries it owns by itself, independently of what follows and without
  touching it, marks them as its own in the log, and is transparent to all others. The bridge and
  the local records are interpretations, and so is the bridge in front of any other authority.
\<close>

section \<open>The contract\<close>

locale authority =
  fixes serve :: "'s handler \<Rightarrow> 's handler"
    and owns :: "request \<Rightarrow> bool"
    and mark :: "request \<Rightarrow> string"
  assumes passes: "\<not> owns rq \<Longrightarrow> serve nxt rq ctx s = nxt rq ctx s"
    and contained: "owns rq \<Longrightarrow> serve nxt rq ctx s = (fst (serve nxt' rq ctx s'), s)"
    and attributed: "owns rq \<Longrightarrow> oc_written (fst (serve nxt rq (Some e) s)) \<noteq> None \<Longrightarrow>
      \<exists>v. oc_ctx (fst (serve nxt rq (Some e) s)) = Some (e\<lparr>e_source := mark rq, e_verdict := v\<rparr>)"
begin

lemma state_kept: "owns rq \<Longrightarrow> snd (serve nxt rq ctx s) = s"
  using contained [of rq nxt ctx s nxt s] by (metis snd_conv)

text \<open>If the rest of the chain is reached, the query is not owned.\<close>

lemma reached_not_owned: "snd (serve nxt rq ctx s) \<noteq> s \<Longrightarrow> \<not> owns rq \<and> serve nxt rq ctx s = nxt rq ctx s"
  using state_kept passes by metis

end

text \<open>One authority in front of another is an authority for what either owns.\<close>

locale authority_pair = a: authority serve1 owns1 mark1 + b: authority serve2 owns2 mark2
  for serve1 :: "'s handler \<Rightarrow> 's handler" and owns1 mark1 and serve2 :: "'s handler \<Rightarrow> 's handler" and owns2 mark2

sublocale authority_pair \<subseteq> stacked: authority "\<lambda>nxt. serve1 (serve2 nxt)" "\<lambda>rq. owns1 rq \<or> owns2 rq"
  "\<lambda>rq. if owns1 rq then mark1 rq else mark2 rq"
proof
  fix rq :: request and nxt nxt' :: "'s handler" and ctx and s s' :: 's and e
  show "\<not> (owns1 rq \<or> owns2 rq) \<Longrightarrow> serve1 (serve2 nxt) rq ctx s = nxt rq ctx s"
    by (simp add: a.passes b.passes)
  show "owns1 rq \<or> owns2 rq \<Longrightarrow> serve1 (serve2 nxt) rq ctx s = (fst (serve1 (serve2 nxt') rq ctx s'), s)"
    using a.contained [of rq "serve2 nxt" ctx s "serve2 nxt'" s'] b.contained [of rq nxt ctx s nxt' s']
    by (cases "owns1 rq") (auto simp: a.passes)
  show "owns1 rq \<or> owns2 rq \<Longrightarrow> oc_written (fst (serve1 (serve2 nxt) rq (Some e) s)) \<noteq> None \<Longrightarrow>
      \<exists>v. oc_ctx (fst (serve1 (serve2 nxt) rq (Some e) s)) = Some (e\<lparr>e_source := if owns1 rq then mark1 rq else mark2 rq, e_verdict := v\<rparr>)"
    using a.attributed [of rq "serve2 nxt" e s] b.attributed [of rq nxt e s] by (cases "owns1 rq") (auto simp: a.passes)
qed

section \<open>The two authorities\<close>

text \<open>
  A call of the local records that never returns has written nothing and reached nothing; it is
  told apart from the others by that.
\<close>

definition lr_handler :: "(string list \<Rightarrow> string \<Rightarrow> string) \<Rightarrow> (msg \<Rightarrow> msg) \<Rightarrow> localRecords \<Rightarrow> 's handler \<Rightarrow> 's handler" where
  "lr_handler matches setReply lr nxt rq ctx s =
     (case lr_serveDNS matches setReply lr nxt rq ctx s of
        Some r \<Rightarrow> r
      | None \<Rightarrow> (\<lparr>oc_rcode = 0, oc_err = False, oc_written = None, oc_ctx = ctx\<rparr>, s))"

text \<open>The queries localrecords answers: those in its zones, but for a miss in a zone that falls through.\<close>

definition lr_owns :: "(string list \<Rightarrow> string \<Rightarrow> string) \<Rightarrow> localRecords \<Rightarrow> request \<Rightarrow> bool" where
  "lr_owns matches lr rq =
     (let q = toLower (rq_name rq); zone = matches (lr_zones lr) q in
      zone \<noteq> [] \<and> \<not> (buildAnswers lr q (rq_qtype rq) (matchVLAN lr (parseIP (rq_ip rq))) = Some [] \<and> isFallthroughZone lr zone))"

definition mb_owns :: "vtable \<Rightarrow> time \<Rightarrow> mtable \<Rightarrow> request \<Rightarrow> bool" where
  "mb_owns vt now t rq = snd (snd (mt_resolve vt now (rq_name rq) t))"

interpretation mb: authority "mb_serveDNS vt now setReply t" "mb_owns vt now t" "\<lambda>_. ''mdnsbridge''" for vt now setReply t
  by unfold_locales (auto simp: mb_serveDNS_def mb_owns_def case_prod_unfold fromContext_def Let_def)

lemma lr_handler_passes: "\<not> lr_owns matches lr rq \<Longrightarrow> lr_handler matches setReply lr nxt rq ctx s = nxt rq ctx s"
  by (auto simp: lr_handler_def lr_owns_def lr_serveDNS_def Let_def)

text \<open>An owned query is answered the same whatever follows.\<close>

lemma lr_serveDNS_owned:
  assumes "lr_owns matches lr rq"
  shows "lr_serveDNS matches setReply lr nxt rq ctx s = map_option (\<lambda>(oc, _). (oc, s)) (lr_serveDNS matches setReply lr nxt' rq ctx s')"
  using assms by (auto simp: lr_owns_def lr_serveDNS_def Let_def Option.bind_map_option option.map_comp o_def
      split: Option.bind_split if_splits)

lemma lr_serveDNS_marks:
  assumes "lr_owns matches lr rq" "lr_serveDNS matches setReply lr nxt rq (Some e) s = Some (oc, s')"
  shows "oc_written oc \<noteq> None \<and> (\<exists>v. oc_ctx oc = Some (e\<lparr>e_source := ''localrecords'', e_verdict := v\<rparr>))"
  using assms by (auto simp: lr_owns_def lr_serveDNS_def Let_def lr_attribute_def fromContext_def
      split: Option.bind_splits if_splits)

interpretation lrec: authority "lr_handler matches setReply lr" "lr_owns matches lr" "\<lambda>_. ''localrecords''" for matches setReply lr
proof
  fix rq :: request and nxt nxt' :: "'a handler" and ctx and s s' :: 'a and e
  show "\<not> lr_owns matches lr rq \<Longrightarrow> lr_handler matches setReply lr nxt rq ctx s = nxt rq ctx s"
    by (rule lr_handler_passes)
  show "lr_owns matches lr rq \<Longrightarrow>
      lr_handler matches setReply lr nxt rq ctx s = (fst (lr_handler matches setReply lr nxt' rq ctx s'), s)"
    using lr_serveDNS_owned [of matches lr rq setReply nxt ctx s nxt' s']
    by (auto simp: lr_handler_def split: option.split)
  show "lr_owns matches lr rq \<Longrightarrow> oc_written (fst (lr_handler matches setReply lr nxt rq (Some e) s)) \<noteq> None \<Longrightarrow>
      \<exists>v. oc_ctx (fst (lr_handler matches setReply lr nxt rq (Some e) s)) = Some (e\<lparr>e_source := ''localrecords'', e_verdict := v\<rparr>)"
    using lr_serveDNS_marks [of matches lr rq setReply nxt e s]
    by (cases "lr_serveDNS matches setReply lr nxt rq (Some e) s") (auto simp: lr_handler_def)
qed

interpretation locally: authority_pair "mb_serveDNS vt now setReply t" "mb_owns vt now t" "\<lambda>_. ''mdnsbridge''"
  "lr_handler matches setReply lr" "lr_owns matches lr" "\<lambda>_. ''localrecords''" for vt now setReply t matches lr
  by unfold_locales

section \<open>The chain\<close>

text \<open>
  \<open>hostsPlugin\<close> is CoreDNS's hosts plugin with the generated hosts file and fallthrough; the bridge
  is in the chain only when discovery is enabled.
\<close>

definition plugin_chain ::
  "('s handler \<Rightarrow> 's handler) \<Rightarrow> vtable \<Rightarrow> time \<Rightarrow> (string list \<Rightarrow> string \<Rightarrow> string) \<Rightarrow> (msg \<Rightarrow> msg) \<Rightarrow> mtable option \<Rightarrow>
   localRecords \<Rightarrow> 's handler \<Rightarrow> 's handler" where
  "plugin_chain hostsPlugin vt now matches setReply mdns lr rest =
     hostsPlugin (case mdns of
       None \<Rightarrow> lr_handler matches setReply lr rest
     | Some t \<Rightarrow> mb_serveDNS vt now setReply t (lr_handler matches setReply lr rest))"

text \<open>A query for a name the hosts file does not have falls through.\<close>

definition hosts_doc :: "('s handler \<Rightarrow> 's handler) \<Rightarrow> (request \<Rightarrow> bool) \<Rightarrow> bool" where
  "hosts_doc hostsPlugin has \<longleftrightarrow> (\<forall>nxt rq ctx s. \<not> has rq \<longrightarrow> hostsPlugin nxt rq ctx s = nxt rq ctx s)"

definition local_owner :: "vtable \<Rightarrow> time \<Rightarrow> (string list \<Rightarrow> string \<Rightarrow> string) \<Rightarrow> mtable option \<Rightarrow> localRecords \<Rightarrow> request \<Rightarrow> string option" where
  "local_owner vt now matches mdns lr rq =
     (if \<exists>t. mdns = Some t \<and> mb_owns vt now t rq then Some ''mdnsbridge''
      else if lr_owns matches lr rq then Some ''localrecords'' else None)"

lemma mb_writes: "mb_owns vt now t rq \<Longrightarrow> oc_written (fst (mb_serveDNS vt now setReply t nxt rq ctx s)) \<noteq> None"
  by (simp add: mb_serveDNS_def mb_owns_def case_prod_unfold Let_def)

lemma lr_writes:
  "lr_owns matches lr rq \<Longrightarrow> lr_serveDNS matches setReply lr nxt rq (Some e) s \<noteq> None \<Longrightarrow>
   oc_written (fst (lr_handler matches setReply lr nxt rq (Some e) s)) \<noteq> None"
  using lr_serveDNS_marks [of matches lr rq setReply nxt e s] by (auto simp: lr_handler_def)

lemma chain_owned:
  assumes "hosts_doc hostsPlugin has" "\<not> has rq" "local_owner vt now matches mdns lr rq = Some src"
    "lr_serveDNS matches setReply lr rest rq (Some e) s \<noteq> None"
    "plugin_chain hostsPlugin vt now matches setReply mdns lr rest rq (Some e) s = (oc, s')"
  shows "s' = s \<and> oc_written oc \<noteq> None \<and> (\<exists>v. oc_ctx oc = Some (e\<lparr>e_source := src, e_verdict := v\<rparr>))"
proof (cases mdns)
  case None
  then have "lr_owns matches lr rq" "src = ''localrecords''" using assms(3) by (auto simp: local_owner_def split: if_splits)
  then show ?thesis using assms(1,2,5) None lrec.state_kept [of matches lr rq setReply rest "Some e" s]
      lrec.attributed [of matches lr rq setReply rest e s] lr_writes [OF _ assms(4)]
    by (auto simp: plugin_chain_def hosts_doc_def)
next
  case (Some t)
  then have own: "mb_owns vt now t rq \<or> lr_owns matches lr rq" "src = (if mb_owns vt now t rq then ''mdnsbridge'' else ''localrecords'')"
    using assms(3) by (auto simp: local_owner_def split: if_splits)
  have "oc_written (fst (mb_serveDNS vt now setReply t (lr_handler matches setReply lr rest) rq (Some e) s)) \<noteq> None"
    using own(1) mb_writes lr_writes [OF _ assms(4)] mb.passes [of vt now t rq setReply "lr_handler matches setReply lr rest" "Some e" s]
    by (cases "mb_owns vt now t rq") auto
  then show ?thesis using assms(1,2,5) Some own(2)
      locally.stacked.state_kept [OF own(1), of setReply rest "Some e" s]
      locally.stacked.attributed [OF own(1), of setReply rest e s]
    by (auto simp: plugin_chain_def hosts_doc_def)
qed

lemma chain_forwarded:
  assumes "hosts_doc hostsPlugin has" "\<not> has rq" "local_owner vt now matches mdns lr rq = None"
  shows "plugin_chain hostsPlugin vt now matches setReply mdns lr rest rq ctx s = rest rq ctx s"
proof (cases mdns)
  case (Some t)
  then have "\<not> mb_owns vt now t rq" "\<not> lr_owns matches lr rq" using assms(3) by (auto simp: local_owner_def split: if_splits)
  then show ?thesis using assms(1,2) Some by (simp add: plugin_chain_def hosts_doc_def mb.passes lrec.passes)
qed (use assms in \<open>auto simp: plugin_chain_def hosts_doc_def local_owner_def lrec.passes split: if_splits\<close>)

section \<open>Properties\<close>

text \<open>
  C7. A query the bridge or the local records own never reaches the cache or an upstream, and it
  is logged once as answered by its owner; a query neither owns is passed to the rest of the
  chain unchanged, whose outcome the client gets.
\<close>

theorem local_names_stay_local:
  assumes "ring_inv (qs_ring st)" "hosts_doc hostsPlugin has" "\<not> has rq"
    "lr_serveDNS matches setReply lr rest rq (Some (ql_newEntry q start rq)) (qs_next st) \<noteq> None"
  shows "\<exists>oc st' e es. ql_serveDNS cw tts hosts ob q (Some (plugin_chain hostsPlugin vt now matches setReply mdns lr rest))
      start stop rq ctx st = Some (oc, st') \<and> ring_recent (qs_ring st') = e # es \<and>
    (case local_owner vt now matches mdns lr rq of
       Some src \<Rightarrow> qs_next st' = qs_next st \<and> e_source e = src \<and> e_qname e = rq_name rq \<and> oc_written oc \<noteq> None
     | None \<Rightarrow> (\<exists>oc'. rest rq (Some (ql_newEntry q start rq)) (qs_next st) = (oc', qs_next st') \<and> oc = oc'\<lparr>oc_ctx := ctx\<rparr>))"
proof -
  let ?h = "plugin_chain hostsPlugin vt now matches setReply mdns lr rest" and ?new = "ql_newEntry q start rq"
  obtain oc s' where h: "?h rq (Some ?new) (qs_next st) = (oc, s')" by (cases "?h rq (Some ?new) (qs_next st)")
  let ?e = "finishEntry cw tts hosts q (stop - start) oc (case oc_ctx oc of None \<Rightarrow> ?new | Some e \<Rightarrow> e)"
  obtain st' where st': "ql_serveDNS cw tts hosts ob q (Some ?h) start stop rq ctx st = Some (oc\<lparr>oc_ctx := ctx\<rparr>, st')"
    "qs_ring st' = ring_pushed ?e (qs_ring st)" "qs_next st' = s'"
    using ql_serveDNS_eq [OF assms(1), of "Some ?h" rq q start cw tts hosts stop ob ctx] h by (auto simp: nextOrFailure_def)
  have "0 < ring_cap (qs_ring st)" using assms(1) by (auto simp: ring_inv_def ring_cap_def)
  then obtain es where es: "ring_recent (qs_ring st') = ?e # es"
    using lr.recent_pushes [OF assms(1), of "[?e]"] st'(2) by (cases "ring_cap (qs_ring st)") auto
  show ?thesis
  proof (cases "local_owner vt now matches mdns lr rq")
    case None
    then show ?thesis using st' es h chain_forwarded [OF assms(2,3) None] by (auto intro!: exI)
  next
    case (Some src)
    from chain_owned [OF assms(2,3) Some assms(4) h] obtain v
      where v: "s' = qs_next st" "oc_written oc \<noteq> None" "oc_ctx oc = Some (?new\<lparr>e_source := src, e_verdict := v\<rparr>)" by blast
    have "src \<noteq> []" using Some by (auto simp: local_owner_def split: if_splits)
    then have "e_source ?e = src" "e_qname ?e = rq_name rq" using v(3) by (simp_all add: finishEntry_fields ql_newEntry_def)
    then show ?thesis using Some st' es v by auto
  qed
qed

theorem local_names_stay_local_witness:
  "\<exists>oc st' e es. ql_serveDNS (\<lambda>_. True) (\<lambda>_. []) None None exPlugin
      (Some (plugin_chain (\<lambda>nxt. nxt) zeroTable 0 simpleMatches simpleReply (Some exMdns)
         (parsedStanza simpleCanon [] [] \<lparr>vm_current = zeroTable\<rparr>) exAnswer)) 0 1 exTvQuery None exState = Some (oc, st') \<and>
     ring_recent (qs_ring st') = e # es \<and> e_source e = ''mdnsbridge''"
proof -
  let ?lr = "parsedStanza simpleCanon [] [] \<lparr>vm_current = zeroTable\<rparr>" and ?rq = exTvQuery
  have "fqdn ''tv.home.arpa.'' = ''tv.home.arpa.''" by code_simp
  then have "mb_owns zeroTable 0 exMdns ?rq"
    by (simp add: mb_owns_def mt_resolve_def exTvQuery_def exMdns_def collect_def)
  then have own: "local_owner zeroTable 0 simpleMatches (Some exMdns) ?lr ?rq = Some ''mdnsbridge''"
    by (simp add: local_owner_def)
  have "buildAnswers ?lr x dnsTypeA v = Some []" for x v
    by (subst buildAnswers_unfold) (simp add: aliasOf_def parsedStanza_def directAnswers_def List.map_filter_simps)
  then have ret: "lr_serveDNS simpleMatches simpleReply ?lr exAnswer ?rq c s \<noteq> None" for c s
    by (simp add: lr_serveDNS_def Let_def exTvQuery_def exAnswer_def)
  have "ring_inv (qs_ring exState)" "hosts_doc (\<lambda>nxt. nxt) (\<lambda>_. False)"
    by (simp_all add: exState_def ring_inv_new hosts_doc_def)
  from local_names_stay_local [OF this _ ret, where cw = "\<lambda>_. True" and tts = "\<lambda>_. []" and hosts = None and ob = None
      and q = exPlugin and start = 0 and vt = zeroTable and now = 0 and mdns = "Some exMdns" and stop = 1 and ctx = None]
  show ?thesis unfolding own by fastforce
qed

end
