(* ===== verification/Vlan_Cache.thy ===== *)
theory Vlan_Cache
  imports Dns_Chain "HOL-Library.AList"
begin

text \<open>
  The plugin \<^verbatim>\<open>vlancache\<close>: a response cache with a tier keyed by the client's VLAN and a tier
  keyed by the address prefix an upstream reports (RFC 7871). \<^verbatim>\<open>entry.go\<close>, \<^verbatim>\<open>key.go\<close>,
  \<^verbatim>\<open>store.go\<close>, \<^verbatim>\<open>registry.go\<close>, \<^verbatim>\<open>handler.go\<close> and the options of \<^verbatim>\<open>setup.go\<close>.

  Third-party code is an argument: the record \<open>dnslib\<close> holds the functions of CoreDNS and
  miekg/dns the plugin calls, the rest of the chain is a handler, and whether a call is
  coalesced with one in flight is a function of the key. Concurrency with a flush is a step
  relation over the store.
\<close>

section \<open>Third-party helpers\<close>

datatype response_type = NoError | NameError | ServerError | NoData | Delegation | Meta | Update | OtherError

text \<open>An association list with distinct keys stands for CoreDNS's cache of the direct tier.\<close>

record 'e dnslib =
  lib_setReply :: "msg \<Rightarrow> msg"
  lib_setRcode :: "msg \<Rightarrow> int \<Rightarrow> msg"
  lib_setQuestion :: "string \<Rightarrow> uint16 \<Rightarrow> msg"
  lib_setEdns0 :: "msg \<Rightarrow> msg"
  lib_canonicalName :: "string \<Rightarrow> string"
  lib_isEdns0 :: "msg \<Rightarrow> edns_option list option"
  lib_typify :: "msg \<Rightarrow> time \<Rightarrow> response_type"
  lib_minimalTTL :: "msg \<Rightarrow> response_type \<Rightarrow> duration \<Rightarrow> duration"
  lib_minDefaultTTL :: duration
  lib_maxDefaultTTL :: duration
  lib_fnv64 :: "nat list \<Rightarrow> uint64"
  lib_cacheAdd :: "(uint64 \<times> 'e) list \<Rightarrow> uint64 \<Rightarrow> 'e \<Rightarrow> (uint64 \<times> 'e) list"

text \<open>Adding to CoreDNS's cache stores the item; it may evict others, and does nothing else.\<close>

definition cache_add_doc :: "((uint64 \<times> 'e) list \<Rightarrow> uint64 \<Rightarrow> 'e \<Rightarrow> (uint64 \<times> 'e) list) \<Rightarrow> bool" where
  "cache_add_doc add \<longleftrightarrow> (\<forall>d k e. map_of (add d k e) k = Some e \<and>
     set (add d k e) \<subseteq> insert (k, e) (set d) \<and>
     (distinct (map fst d) \<longrightarrow> distinct (map fst (add d k e))))"

section \<open>Entries\<close>

record centry =
  ce_qname :: string
  ce_rcode :: int
  ce_ad :: bool
  ce_ra :: bool
  ce_answer :: "rr list"
  ce_ns :: "rr list"
  ce_extra :: "rr list"
  ce_origTTL :: duration
  ce_stored :: time

definition stripOPT :: "rr list \<Rightarrow> rr list" where
  "stripOPT rrs = filter (\<lambda>r. hdr_rrtype (rr_header r) \<noteq> dnsTypeOPT) rrs"

definition newEntry :: "string \<Rightarrow> msg \<Rightarrow> time \<Rightarrow> duration \<Rightarrow> centry" where
  "newEntry qname m now ttl = \<lparr>ce_qname = qname, ce_rcode = m_rcode m, ce_ad = m_ad m, ce_ra = m_ra m,
     ce_answer = stripOPT (m_answer m), ce_ns = stripOPT (m_ns m), ce_extra = stripOPT (m_extra m),
     ce_origTTL = ttl, ce_stored = now\<rparr>"

definition rr_dependsOn :: "string \<Rightarrow> rr \<Rightarrow> bool" where
  "rr_dependsOn name r = (equalFold (hdr_name (rr_header r)) name \<or>
     (case r of RR_CNAME _ t \<Rightarrow> equalFold t name | RR_DNAME _ t \<Rightarrow> equalFold t name | _ \<Rightarrow> False))"

definition dependsOn :: "string \<Rightarrow> centry \<Rightarrow> bool" where
  "dependsOn name e = (ce_qname e = name \<or> list_ex (rr_dependsOn name) (ce_answer e))"

definition remaining :: "centry \<Rightarrow> time \<Rightarrow> duration" where
  "remaining e now = ce_origTTL e - (now - ce_stored e)"

definition second :: duration where "second = 1000000000"

definition copyWithTTL :: "rr list \<Rightarrow> uint32 \<Rightarrow> rr list" where
  "copyWithTTL rrs ttl = map (\<lambda>r. rr_set_header ((rr_header r)\<lparr>hdr_ttl := ttl\<rparr>) r) rrs"

text \<open>The TTL of a reply from the cache: whole seconds, truncated to 32 bits.\<close>

definition replyTTL :: "centry \<Rightarrow> time \<Rightarrow> uint32" where
  "replyTTL e now = (let rem = remaining e now; rem' = (if rem < 0 then 0 else rem) in
     of_int (rem' div second))"

definition toMsg :: "'e dnslib \<Rightarrow> centry \<Rightarrow> msg \<Rightarrow> time \<Rightarrow> bool \<Rightarrow> bool \<Rightarrow> msg" where
  "toMsg lib e req now do ad =
     (let ttl = replyTTL e now in
      (lib_setReply lib req)\<lparr>m_authoritative := True, m_rcode := ce_rcode e, m_ra := ce_ra e,
        m_ad := (if \<not> do \<and> \<not> ad then False else ce_ad e),
        m_answer := copyWithTTL (ce_answer e) ttl, m_ns := copyWithTTL (ce_ns e) ttl,
        m_extra := copyWithTTL (ce_extra e) ttl\<rparr>)"

section \<open>Keys\<close>

definition boolByte :: "bool \<Rightarrow> nat list" where
  "boolByte b = (if b then [1] else [0])"

definition qtypeBytes :: "uint16 \<Rightarrow> nat list" where
  "qtypeBytes t = [unat t div 256, unat t mod 256]"

definition strBytes :: "string \<Rightarrow> nat list" where
  "strBytes s = map of_char s"

definition directBytes :: "string \<Rightarrow> string \<Rightarrow> uint16 \<Rightarrow> bool \<Rightarrow> bool \<Rightarrow> nat list" where
  "directBytes bucket qname qtype do cd =
     boolByte do @ boolByte cd @ qtypeBytes qtype @ strBytes bucket @ [0] @ strBytes qname"

definition scopedBytes :: "string \<Rightarrow> uint16 \<Rightarrow> bool \<Rightarrow> bool \<Rightarrow> nat list" where
  "scopedBytes qname qtype do cd = boolByte do @ boolByte cd @ qtypeBytes qtype @ strBytes qname"

definition hashDirect :: "'e dnslib \<Rightarrow> string \<Rightarrow> string \<Rightarrow> uint16 \<Rightarrow> bool \<Rightarrow> bool \<Rightarrow> uint64" where
  "hashDirect lib bucket qname qtype do cd = lib_fnv64 lib (directBytes bucket qname qtype do cd)"

definition hashScoped :: "'e dnslib \<Rightarrow> string \<Rightarrow> uint16 \<Rightarrow> bool \<Rightarrow> bool \<Rightarrow> uint64" where
  "hashScoped lib qname qtype do cd = lib_fnv64 lib (scopedBytes qname qtype do cd)"

section \<open>The store\<close>

text \<open>
  The store is the same for any type of entry; the handler uses it with \<open>centry\<close>, the step
  relation of a flush with entries marked by the flush they were asked for after. The map of
  the scoped tier is an association list, a missing key reading as the empty list.
\<close>

record 'e scopedEntry =
  se_prefix :: ipnet
  se_e :: 'e

record 'e store =
  cs_direct :: "(uint64 \<times> 'e) list"
  cs_scoped :: "(uint64 \<times> 'e scopedEntry list) list"
  cs_epoch :: uint64

definition newStore :: "'e store" where
  "newStore = \<lparr>cs_direct = [], cs_scoped = [], cs_epoch = 0\<rparr>"

definition maxScopedPerKey :: nat where "maxScopedPerKey = 16"

definition scopedAt :: "'e store \<Rightarrow> uint64 \<Rightarrow> 'e scopedEntry list" where
  "scopedAt s key = (case map_of (cs_scoped s) key of None \<Rightarrow> [] | Some es \<Rightarrow> es)"

text \<open>Whether an entry may be served, and whether it is within its TTL.\<close>

definition servable :: "centry \<Rightarrow> time \<Rightarrow> duration \<Rightarrow> bool" where
  "servable e now staleTTL = (remaining e now > 0 \<or> (staleTTL > 0 \<and> - remaining e now \<le> staleTTL))"

definition getDirect :: "centry store \<Rightarrow> uint64 \<Rightarrow> time \<Rightarrow> duration \<Rightarrow> (centry \<times> bool) option" where
  "getDirect s key now staleTTL = (case map_of (cs_direct s) key of
     None \<Rightarrow> None
   | Some e \<Rightarrow>
       if remaining e now > 0 then Some (e, True)
       else if staleTTL > 0 \<and> - remaining e now \<le> staleTTL then Some (e, False)
       else None)"

definition setDirect :: "'e dnslib \<Rightarrow> uint64 \<Rightarrow> 'e \<Rightarrow> 'e store \<Rightarrow> 'e store" where
  "setDirect lib key e s = s\<lparr>cs_direct := lib_cacheAdd lib (cs_direct s) key e\<rparr>"

definition generation :: "'e store \<Rightarrow> uint64" where
  "generation s = cs_epoch s"

definition invalidate :: "'e store \<Rightarrow> 'e store" where
  "invalidate s = s\<lparr>cs_epoch := cs_epoch s + 1\<rparr>"

definition ifCurrent :: "uint64 \<Rightarrow> ('e store \<Rightarrow> 'e store) \<Rightarrow> 'e store \<Rightarrow> 'e store" where
  "ifCurrent gen fn s = (if cs_epoch s = gen then fn s else s)"

text \<open>The loop of \<^verbatim>\<open>getScoped\<close>: the best candidate so far with its prefix length and freshness.\<close>

definition scopedStep :: "ip \<Rightarrow> time \<Rightarrow> duration \<Rightarrow> centry scopedEntry \<Rightarrow>
    (centry \<times> nat \<times> bool) option \<Rightarrow> (centry \<times> nat \<times> bool) option" where
  "scopedStep a now staleTTL se best =
     (let rem = remaining (se_e se) now; entryFresh = rem > 0 in
      if \<not> entryFresh \<and> (staleTTL \<le> 0 \<or> - rem > staleTTL) then best
      else if \<not> net_contains (se_prefix se) a then best
      else
        (let l = mask_size (net_mask (se_prefix se)) in
         case best of
           None \<Rightarrow> Some (se_e se, l, entryFresh)
         | Some (b, bestLen, bestFresh) \<Rightarrow>
             if (entryFresh \<and> \<not> bestFresh) \<or> (entryFresh = bestFresh \<and> l > bestLen)
             then Some (se_e se, l, entryFresh) else best))"

definition getScoped :: "centry store \<Rightarrow> uint64 \<Rightarrow> ip \<Rightarrow> time \<Rightarrow> duration \<Rightarrow> (centry \<times> bool) option" where
  "getScoped s key a now staleTTL =
     (if a = [] then None
      else case fold (scopedStep a now staleTTL) (scopedAt s key) None of
        None \<Rightarrow> None | Some (e, _, fresh) \<Rightarrow> Some (e, fresh))"

text \<open>
  \<^verbatim>\<open>IPNet.String\<close> prints the network number and the mask, so two prefixes have the same text
  when these agree.
\<close>

definition same_prefix :: "ipnet \<Rightarrow> ipnet \<Rightarrow> bool" where
  "same_prefix p q = (networkNumberAndMask p = networkNumberAndMask q)"

fun replaceScoped :: "ipnet \<Rightarrow> 'e \<Rightarrow> 'e scopedEntry list \<Rightarrow> 'e scopedEntry list option" where
  "replaceScoped pfx e [] = None"
| "replaceScoped pfx e (se # ses) =
     (if same_prefix (se_prefix se) pfx then Some (\<lparr>se_prefix = pfx, se_e = e\<rparr> # ses)
      else map_option ((#) se) (replaceScoped pfx e ses))"

definition setScoped :: "uint64 \<Rightarrow> ipnet \<Rightarrow> 'e \<Rightarrow> 'e store \<Rightarrow> 'e store" where
  "setScoped key pfx e s =
     (let entries = scopedAt s key in
      case replaceScoped pfx e entries of
        Some es \<Rightarrow> s\<lparr>cs_scoped := AList.update key es (cs_scoped s)\<rparr>
      | None \<Rightarrow>
          (let kept = (if length entries \<ge> maxScopedPerKey then tl entries else entries) in
           s\<lparr>cs_scoped := AList.update key (kept @ [\<lparr>se_prefix = pfx, se_e = e\<rparr>]) (cs_scoped s)\<rparr>))"

text \<open>The walks of \<^verbatim>\<open>clear\<close> and \<^verbatim>\<open>clearName\<close>: delete what satisfies a condition.\<close>

definition walkDirect :: "('e \<Rightarrow> bool) \<Rightarrow> 'e store \<Rightarrow> 'e store \<times> nat" where
  "walkDirect P s = (s\<lparr>cs_direct := filter (\<lambda>(k, e). \<not> P e) (cs_direct s)\<rparr>,
     length (filter (\<lambda>(k, e). P e) (cs_direct s)))"

definition walkScoped :: "('e \<Rightarrow> bool) \<Rightarrow> 'e store \<Rightarrow> 'e store \<times> nat" where
  "walkScoped P s =
     (s\<lparr>cs_scoped := filter (\<lambda>(k, es). es \<noteq> [])
        (map (\<lambda>(k, es). (k, filter (\<lambda>se. \<not> P (se_e se)) es)) (cs_scoped s))\<rparr>,
      sum_list (map (\<lambda>(k, es). length (filter (\<lambda>se. P (se_e se)) es)) (cs_scoped s)))"

definition clearWhere :: "('e \<Rightarrow> bool) \<Rightarrow> 'e store \<Rightarrow> 'e store \<times> nat" where
  "clearWhere P s0 = (let s1 = invalidate s0; (s2, n) = walkDirect P s1; (s3, m) = walkScoped P s2 in
     (s3, n + m))"

definition clear :: "'e store \<Rightarrow> 'e store \<times> nat" where
  "clear s = clearWhere (\<lambda>_. True) s"

definition clearName :: "string \<Rightarrow> centry store \<Rightarrow> centry store \<times> nat" where
  "clearName qname s = clearWhere (dependsOn qname) s"

section \<open>The handler\<close>

definition globalBucket :: string where "globalBucket = []"

record vlanCache =
  vc_vlans :: vtable
  vc_store :: "centry store"
  vc_failTTL :: duration
  vc_prefetch :: bool
  vc_staleTTL :: duration

definition vc_attribute :: "string \<Rightarrow> context_entry \<Rightarrow> context_entry" where
  "vc_attribute verdict ctx = (case fromContext ctx of
     None \<Rightarrow> ctx | Some e \<Rightarrow> Some (e\<lparr>e_source := ''vlancache'', e_verdict := verdict\<rparr>))"

definition attributeCache :: "string \<Rightarrow> context_entry \<Rightarrow> context_entry" where
  "attributeCache oc ctx = (case fromContext ctx of
     None \<Rightarrow> ctx | Some e \<Rightarrow> Some (e\<lparr>e_cacheOutcome := oc\<rparr>))"

text \<open>
  \<^verbatim>\<open>nearExpiry\<close> compares a quotient of floating-point numbers with 0.10. Up to an original TTL
  of ten days in nanoseconds both operands are exact and the quotient is farther from 0.10 than
  the rounding unless it equals it, so the comparison is the one on integers.
\<close>

definition nearExpiry :: "centry \<Rightarrow> time \<Rightarrow> bool" where
  "nearExpiry e now = (if ce_origTTL e \<le> 0 then False else 10 * remaining e now \<le> ce_origTTL e)"

text \<open>The second component says that a background refresh is started.\<close>

definition onHit :: "vlanCache \<Rightarrow> centry \<Rightarrow> bool \<Rightarrow> time \<Rightarrow> context_entry \<Rightarrow> context_entry \<times> bool" where
  "onHit c e fresh now ctx =
     (if \<not> fresh then (attributeCache ''stale'' ctx, True)
      else (attributeCache ''hit'' ctx, vc_prefetch c \<and> nearExpiry e now))"

record fetchResult =
  fr_msg :: msg
  fr_prefix :: "ipnet option"

definition appliesTo :: "fetchResult \<Rightarrow> ip \<Rightarrow> bool" where
  "appliesTo fr a = (case fr_prefix fr of None \<Rightarrow> True | Some p \<Rightarrow> a = [] \<or> net_contains p a)"

definition clampDuration :: "duration \<Rightarrow> duration \<Rightarrow> duration \<Rightarrow> duration" where
  "clampDuration d lo hi = (if d < lo then lo else if d > hi then hi else d)"

definition ttlFor :: "'e dnslib \<Rightarrow> vlanCache \<Rightarrow> msg \<Rightarrow> response_type \<Rightarrow> duration" where
  "ttlFor lib c m t =
     (let minTTL = lib_minDefaultTTL lib; maxTTL = lib_maxDefaultTTL lib; maxNTTL = maxTTL div 2 in
      if t = NameError \<or> t = NoData then clampDuration (lib_minimalTTL lib m t maxNTTL) minTTL maxNTTL
      else if t = ServerError then vc_failTTL c
      else clampDuration (lib_minimalTTL lib m t maxTTL) minTTL maxTTL)"

definition hasSOA :: "msg \<Rightarrow> bool" where
  "hasSOA m = list_ex (\<lambda>r. hdr_rrtype (rr_header r) = dnsTypeSOA) (m_ns m)"

definition cacheable :: "msg \<Rightarrow> response_type \<Rightarrow> bool" where
  "cacheable m t =
     (if m_truncated m then False
      else if t = OtherError \<or> t = Meta \<or> t = Update then False
      else if t = NameError then hasSOA m
      else True)"

fun firstSubnet :: "edns_option list \<Rightarrow> (nat \<times> nat) option" where
  "firstSubnet [] = None"
| "firstSubnet (Subnet fam scope # os) = Some (fam, scope)"
| "firstSubnet (OtherOption _ # os) = firstSubnet os"

definition scopePrefix :: "'e dnslib \<Rightarrow> msg \<Rightarrow> ip \<Rightarrow> ipnet option" where
  "scopePrefix lib m a =
     (if a = [] then None
      else case lib_isEdns0 lib m of
        None \<Rightarrow> None
      | Some os \<Rightarrow> (case firstSubnet os of
          None \<Rightarrow> None
        | Some (fam, sourceScope) \<Rightarrow>
            (let bits = (if fam = 2 then 128 else 32);
                 scope = (if sourceScope > bits then bits else sourceScope);
                 mask = cidr_mask scope (bits div 8)
             in Some \<lparr>net_ip = ip_mask a mask, net_mask = mask\<rparr>)))"

text \<open>A message reaches the plugins with a question.\<close>

definition questionName :: "msg \<Rightarrow> string" where
  "questionName m = (case m_question m of [] \<Rightarrow> [] | q # _ \<Rightarrow> fst q)"

text \<open>
  What \<^verbatim>\<open>fetch\<close> stores of a response: nothing, or an entry in one of the two tiers. The closure
  it runs reads the epoch, calls the next handler, and stores through \<open>ifCurrent\<close>; \<open>during\<close> is
  what other goroutines do to the store while the next handler runs.
\<close>

definition storeResult ::
    "centry dnslib \<Rightarrow> vlanCache \<Rightarrow> uint64 \<Rightarrow> uint64 \<Rightarrow> ip \<Rightarrow> msg \<Rightarrow> msg \<Rightarrow> time \<Rightarrow>
     fetchResult \<times> (centry store \<Rightarrow> centry store)" where
  "storeResult lib c directKey scopedKey a req res now =
     (let mt = lib_typify lib res now; duration = ttlFor lib c res mt;
          e = newEntry (lib_canonicalName lib (questionName req)) res now duration in
      if cacheable res mt \<and> duration > 0 then
        (case scopePrefix lib res a of
           Some p \<Rightarrow>
             if mt \<noteq> ServerError then (\<lparr>fr_msg = res, fr_prefix = Some p\<rparr>, setScoped scopedKey p e)
             else (\<lparr>fr_msg = res, fr_prefix = None\<rparr>, setDirect lib directKey e)
         | None \<Rightarrow> (\<lparr>fr_msg = res, fr_prefix = None\<rparr>, setDirect lib directKey e))
      else (\<lparr>fr_msg = res, fr_prefix = None\<rparr>, id))"

definition fetchLeader ::
    "centry dnslib \<Rightarrow> vlanCache \<Rightarrow> 's handler \<Rightarrow> (centry store \<Rightarrow> centry store) \<Rightarrow> request \<Rightarrow>
     uint64 \<Rightarrow> uint64 \<Rightarrow> ip \<Rightarrow> time \<Rightarrow> context_entry \<Rightarrow> 's \<Rightarrow>
     fetchResult option \<times> vlanCache \<times> context_entry \<times> 's" where
  "fetchLeader lib c nxt during rq directKey scopedKey a now ctx s =
     (let gen = generation (vc_store c);
          (oc, s') = nxt rq ctx s;
          c' = c\<lparr>vc_store := during (vc_store c)\<rparr> in
      if oc_written oc = None \<and> \<not> oc_err oc then (None, c', oc_ctx oc, s')
      else
        (let res = (case oc_written oc of Some m \<Rightarrow> m
                    | None \<Rightarrow> lib_setRcode lib (rq_msg rq) rcodeServerFailure);
             (fr, put) = storeResult lib c directKey scopedKey a (rq_msg rq) res now in
         (Some fr, c'\<lparr>vc_store := ifCurrent gen put (vc_store c')\<rparr>, oc_ctx oc, s')))"

text \<open>
  \<^verbatim>\<open>fetch\<close> with \<^verbatim>\<open>singleflight\<close>: if a call with the key is in flight its result is shared,
  an error being \<open>None\<close>; otherwise this caller is the leader.
\<close>

definition vc_fetch ::
    "centry dnslib \<Rightarrow> vlanCache \<Rightarrow> 's handler \<Rightarrow> (centry store \<Rightarrow> centry store) \<Rightarrow>
     (string \<Rightarrow> fetchResult option option) \<Rightarrow> request \<Rightarrow> string \<Rightarrow> uint64 \<Rightarrow> uint64 \<Rightarrow> ip \<Rightarrow> time \<Rightarrow>
     context_entry \<Rightarrow> 's \<Rightarrow> fetchResult option \<times> bool \<times> vlanCache \<times> context_entry \<times> 's" where
  "vc_fetch lib c nxt during sf rq key directKey scopedKey a now ctx s = (case sf key of
     Some shared \<Rightarrow> (shared, False, c, ctx, s)
   | None \<Rightarrow>
       (let (r, c', ctx', s') = fetchLeader lib c nxt during rq directKey scopedKey a now ctx s
        in (r, True, c', ctx', s')))"

definition toClientReply :: "msg \<Rightarrow> msg \<Rightarrow> bool \<Rightarrow> bool \<Rightarrow> msg" where
  "toClientReply res req do ad =
     res\<lparr>m_id := m_id req, m_question := (if m_question req \<noteq> [] then m_question req else m_question res),
       m_response := True, m_ad := (if \<not> do \<and> \<not> ad then False else m_ad res)\<rparr>"

text \<open>\<open>wok\<close> says whether writing to the client succeeds.\<close>

definition vc_reply :: "bool \<Rightarrow> msg \<Rightarrow> context_entry \<Rightarrow> outcome" where
  "vc_reply wok m ctx = (if wok
     then \<lparr>oc_rcode = rcodeSuccess, oc_err = False, oc_written = Some m, oc_ctx = ctx\<rparr>
     else \<lparr>oc_rcode = rcodeServerFailure, oc_err = True, oc_written = None, oc_ctx = ctx\<rparr>)"

definition base36 :: "nat \<Rightarrow> char" where
  "base36 n = (if n < 10 then char_of (48 + n) else char_of (87 + n))"

fun formatUint36 :: "nat \<Rightarrow> string" where
  "formatUint36 n = (if n < 36 then [base36 n] else formatUint36 (n div 36) @ [base36 (n mod 36)])"

definition vc_bucket :: "vlanCache \<Rightarrow> ip \<Rightarrow> string" where
  "vc_bucket c a = (case vt_lookup (vc_vlans c) a of None \<Rightarrow> globalBucket | Some b \<Rightarrow> b)"

text \<open>A hit: attribution, the decision on a refresh, and the reply from the entry.\<close>

definition hitReply ::
    "centry dnslib \<Rightarrow> vlanCache \<Rightarrow> bool \<Rightarrow> time \<Rightarrow> request \<Rightarrow> context_entry \<Rightarrow> centry \<Rightarrow> bool \<Rightarrow> outcome \<times> bool" where
  "hitReply lib c wok now rq ctx e fresh =
     (let (ctx', refresh) = onHit c e fresh now (vc_attribute ''cached'' ctx) in
      (vc_reply wok (toMsg lib e (rq_msg rq) now (rq_do rq) (m_ad (rq_msg rq))) ctx', refresh))"

definition missReply :: "bool \<Rightarrow> request \<Rightarrow> context_entry \<Rightarrow> bool \<Rightarrow> fetchResult \<Rightarrow> outcome" where
  "missReply wok rq ctx leader fr =
     (let ctx' = (if leader then attributeCache ''miss'' ctx
                  else attributeCache ''coalesced'' (vc_attribute ''coalesced'' ctx)) in
      vc_reply wok (toClientReply (fr_msg fr) (rq_msg rq) (rq_do rq) (m_ad (rq_msg rq))) ctx')"

definition fetchFailed :: "context_entry \<Rightarrow> outcome" where
  "fetchFailed ctx = \<lparr>oc_rcode = rcodeServerFailure, oc_err = True, oc_written = None, oc_ctx = ctx\<rparr>"

text \<open>
  \<^verbatim>\<open>ServeDNS\<close>: the outcome, whether a refresh was started, the cache and the state of the rest
  of the chain.
\<close>

definition vc_serveDNS ::
    "centry dnslib \<Rightarrow> vlanCache \<Rightarrow> 's handler \<Rightarrow> (centry store \<Rightarrow> centry store) \<Rightarrow>
     (string \<Rightarrow> fetchResult option option) \<Rightarrow> bool \<Rightarrow> time \<Rightarrow> request \<Rightarrow> context_entry \<Rightarrow> 's \<Rightarrow>
     outcome \<times> bool \<times> vlanCache \<times> 's" where
  "vc_serveDNS lib c nxt during sf wok now rq ctx s =
     (let a = parseIP (rq_ip rq); do = rq_do rq; cd = m_cd (rq_msg rq);
          scopedKey = hashScoped lib (rq_name rq) (rq_qtype rq) do cd;
          directKey = hashDirect lib (vc_bucket c a) (rq_name rq) (rq_qtype rq) do cd;
          bucketKey = formatUint36 (unat directKey) in
      case getScoped (vc_store c) scopedKey a now (vc_staleTTL c) of
        Some (e, fresh) \<Rightarrow> (let (oc, rf) = hitReply lib c wok now rq ctx e fresh in (oc, rf, c, s))
      | None \<Rightarrow> (case getDirect (vc_store c) directKey now (vc_staleTTL c) of
          Some (e, fresh) \<Rightarrow> (let (oc, rf) = hitReply lib c wok now rq ctx e fresh in (oc, rf, c, s))
        | None \<Rightarrow>
            (case vc_fetch lib c nxt during sf rq bucketKey directKey scopedKey a now ctx s of
               (None, leader, c1, ctx1, s1) \<Rightarrow> (fetchFailed ctx1, False, c1, s1)
             | (Some fr, leader, c1, ctx1, s1) \<Rightarrow>
                 if appliesTo fr a then (missReply wok rq ctx1 leader fr, False, c1, s1)
                 else
                   (case vc_fetch lib c1 nxt during sf rq (bucketKey @ ''|'' @ ip_string a)
                           directKey scopedKey a now ctx1 s1 of
                      (None, leader2, c2, ctx2, s2) \<Rightarrow> (fetchFailed ctx2, False, c2, s2)
                    | (Some fr2, leader2, c2, ctx2, s2) \<Rightarrow>
                        (missReply wok rq ctx2 leader2 fr2, False, c2, s2)))))"

text \<open>\<^verbatim>\<open>refresh\<close>: the fetch of a fresh query with no entry in its context, its result dropped.\<close>

definition vc_refresh ::
    "centry dnslib \<Rightarrow> vlanCache \<Rightarrow> 's handler \<Rightarrow> (centry store \<Rightarrow> centry store) \<Rightarrow>
     (string \<Rightarrow> fetchResult option option) \<Rightarrow> time \<Rightarrow> request \<Rightarrow> 's \<Rightarrow> vlanCache \<times> 's" where
  "vc_refresh lib c nxt during sf now rq s =
     (let a = parseIP (rq_ip rq); do = rq_do rq; cd = m_cd (rq_msg rq);
          scopedKey = hashScoped lib (rq_name rq) (rq_qtype rq) do cd;
          directKey = hashDirect lib (vc_bucket c a) (rq_name rq) (rq_qtype rq) do cd;
          m0 = (lib_setQuestion lib (rq_name rq) (rq_qtype rq))\<lparr>m_cd := cd\<rparr>;
          req = (if do then lib_setEdns0 lib m0 else m0);
          (r, leader, c', ctx', s') = vc_fetch lib c nxt during sf (rq\<lparr>rq_msg := req\<rparr>)
            (formatUint36 (unat directKey)) directKey scopedKey a now None s
      in (c', s'))"

section \<open>The running instances\<close>

text \<open>The instances are objects: the registry is the list of the registered ones.\<close>

record registry =
  rg_live :: "nat list"
  rg_cache :: "nat \<Rightarrow> vlanCache"

definition vc_register :: "nat \<Rightarrow> registry \<Rightarrow> registry" where
  "vc_register i g = g\<lparr>rg_live := List.insert i (rg_live g)\<rparr>"

definition vc_unregister :: "nat \<Rightarrow> registry \<Rightarrow> registry" where
  "vc_unregister i g = g\<lparr>rg_live := removeAll i (rg_live g)\<rparr>"

definition flushInstance :: "(centry store \<Rightarrow> centry store \<times> nat) \<Rightarrow> nat \<Rightarrow> registry \<times> nat \<Rightarrow> registry \<times> nat" where
  "flushInstance f i gn = (case gn of (g, n) \<Rightarrow> (case f (vc_store (rg_cache g i)) of (st, k) \<Rightarrow>
     (g\<lparr>rg_cache := (rg_cache g)(i := (rg_cache g i)\<lparr>vc_store := st\<rparr>)\<rparr>, n + k)))"

definition flushWith :: "(centry store \<Rightarrow> centry store \<times> nat) \<Rightarrow> registry \<Rightarrow> registry \<times> nat" where
  "flushWith f g = fold (flushInstance f) (rg_live g) (g, 0)"

definition Flush :: "registry \<Rightarrow> registry \<times> nat" where
  "Flush g = flushWith clear g"

definition FlushName :: "(string \<Rightarrow> string) \<Rightarrow> string \<Rightarrow> registry \<Rightarrow> registry \<times> nat" where
  "FlushName canon name g = flushWith (clearName (canon (trimSpace name))) g"

section \<open>The choice among scoped entries\<close>

definition eligible :: "ip \<Rightarrow> time \<Rightarrow> duration \<Rightarrow> centry scopedEntry \<Rightarrow> bool" where
  "eligible a now staleTTL se = (servable (se_e se) now staleTTL \<and> net_contains (se_prefix se) a)"

definition prefixLen :: "centry scopedEntry \<Rightarrow> nat" where
  "prefixLen se = mask_size (net_mask (se_prefix se))"

definition isFresh :: "time \<Rightarrow> centry scopedEntry \<Rightarrow> bool" where
  "isFresh now se = (remaining (se_e se) now > 0)"

text \<open>\<open>x\<close> is at least as good a choice as \<open>y\<close>: fresh before stale, then the longer prefix.\<close>

definition at_least :: "time \<Rightarrow> centry scopedEntry \<Rightarrow> centry scopedEntry \<Rightarrow> bool" where
  "at_least now x y = ((isFresh now y \<longrightarrow> isFresh now x) \<and>
     (isFresh now x = isFresh now y \<longrightarrow> prefixLen y \<le> prefixLen x))"

lemma at_least_trans: "at_least now x y \<Longrightarrow> at_least now y z \<Longrightarrow> at_least now x z"
  unfolding at_least_def by (meson le_trans)

abbreviation describe :: "time \<Rightarrow> centry scopedEntry \<Rightarrow> centry \<times> nat \<times> bool" where
  "describe now se \<equiv> (se_e se, prefixLen se, isFresh now se)"

lemma scopedStep_alt:
  "scopedStep a now st se best = (if \<not> eligible a now st se then best else case best of
     None \<Rightarrow> Some (describe now se)
   | Some (b, l, f) \<Rightarrow>
       if (isFresh now se \<and> \<not> f) \<or> (isFresh now se = f \<and> prefixLen se > l)
       then Some (describe now se) else best)"
  by (auto simp: scopedStep_def eligible_def servable_def isFresh_def prefixLen_def Let_def
      split: option.splits)

lemma fold_scopedStep:
  assumes "best = None \<and> (\<forall>y\<in>set ys. \<not> eligible a now st y) \<or>
    (\<exists>x\<in>set ys. eligible a now st x \<and> best = Some (describe now x) \<and>
       (\<forall>y\<in>set ys. eligible a now st y \<longrightarrow> at_least now x y))"
  shows "(fold (scopedStep a now st) xs best = None \<and> (\<forall>y\<in>set (ys @ xs). \<not> eligible a now st y)) \<or>
    (\<exists>x\<in>set (ys @ xs). eligible a now st x \<and> fold (scopedStep a now st) xs best = Some (describe now x) \<and>
       (\<forall>y\<in>set (ys @ xs). eligible a now st y \<longrightarrow> at_least now x y))"
  using assms
proof (induction xs arbitrary: ys best)
  case (Cons z xs)
  have step: "scopedStep a now st z best = None \<and> (\<forall>y\<in>set (ys @ [z]). \<not> eligible a now st y) \<or>
    (\<exists>x\<in>set (ys @ [z]). eligible a now st x \<and> scopedStep a now st z best = Some (describe now x) \<and>
       (\<forall>y\<in>set (ys @ [z]). eligible a now st y \<longrightarrow> at_least now x y))"
  proof (cases "eligible a now st z")
    case False
    then show ?thesis using Cons.prems by (auto simp: scopedStep_alt)
  next
    case True
    from Cons.prems show ?thesis
    proof (elim disjE bexE conjE)
      assume "best = None" "\<forall>y\<in>set ys. \<not> eligible a now st y"
      with True show ?thesis by (auto simp: scopedStep_alt at_least_def)
    next
      fix x
      assume x: "x \<in> set ys" "eligible a now st x" "best = Some (describe now x)"
        and best: "\<forall>y\<in>set ys. eligible a now st y \<longrightarrow> at_least now x y"
      show ?thesis
      proof (cases "(isFresh now z \<and> \<not> isFresh now x) \<or> (isFresh now z = isFresh now x \<and> prefixLen z > prefixLen x)")
        case better: True
        then have "at_least now z x" by (auto simp: at_least_def)
        then have "\<forall>y\<in>set (ys @ [z]). eligible a now st y \<longrightarrow> at_least now z y"
          using best at_least_trans by (auto simp: at_least_def)
        with better x(3) True show ?thesis by (auto simp: scopedStep_alt)
      next
        case False
        then have "at_least now x z" by (auto simp: at_least_def)
        with False x best True show ?thesis by (auto simp: scopedStep_alt)
      qed
    qed
  qed
  from Cons.IH [OF step] show ?case by (simp only: fold_simps append_assoc append.simps)
qed simp

lemma getScoped_None:
  "getScoped s key a now st = None \<longleftrightarrow> a = [] \<or> (\<forall>se\<in>set (scopedAt s key). \<not> eligible a now st se)"
  using fold_scopedStep [of None "[]" a now st "scopedAt s key"]
  by (auto simp: getScoped_def split: option.splits)

lemma getScoped_Some:
  assumes "getScoped s key a now st = Some (e, fresh)"
  obtains x where "x \<in> set (scopedAt s key)" "eligible a now st x" "e = se_e x" "fresh = isFresh now x"
    "\<forall>y\<in>set (scopedAt s key). eligible a now st y \<longrightarrow> at_least now x y"
  using assms fold_scopedStep [of None "[]" a now st "scopedAt s key"]
  by (auto simp: getScoped_def split: option.splits if_splits)

section \<open>The invariant of the store\<close>

definition store_ok :: "'e store \<Rightarrow> bool" where
  "store_ok s \<longleftrightarrow> distinct (map fst (cs_direct s)) \<and> distinct (map fst (cs_scoped s)) \<and>
     (\<forall>(k, es)\<in>set (cs_scoped s). es \<noteq> [] \<and> length es \<le> maxScopedPerKey \<and>
        distinct (map (\<lambda>se. networkNumberAndMask (se_prefix se)) es))"

abbreviation prefixes_of :: "'e scopedEntry list \<Rightarrow> (ip \<times> byte list) list" where
  "prefixes_of es \<equiv> map (\<lambda>se. networkNumberAndMask (se_prefix se)) es"

lemma replaceScoped_Some:
  "replaceScoped p e es = Some es' \<Longrightarrow> length es' = length es \<and> prefixes_of es' = prefixes_of es \<and>
     (\<forall>se\<in>set es'. se \<in> set es \<or> se = \<lparr>se_prefix = p, se_e = e\<rparr>)"
  by (induction es arbitrary: es') (auto simp: same_prefix_def split: if_splits)

lemma replaceScoped_None:
  "replaceScoped p e es = None \<longleftrightarrow> networkNumberAndMask p \<notin> set (prefixes_of es)"
  by (induction es) (auto simp: same_prefix_def)

lemma store_ok_scopedAt:
  assumes "store_ok s"
  shows "length (scopedAt s key) \<le> maxScopedPerKey \<and> distinct (prefixes_of (scopedAt s key))"
  using assms map_of_SomeD [of "cs_scoped s" key]
  by (auto simp: scopedAt_def store_ok_def split: option.splits)

lemma store_ok_update:
  assumes "store_ok s" "es \<noteq> []" "length es \<le> maxScopedPerKey" "distinct (prefixes_of es)"
  shows "store_ok (s\<lparr>cs_scoped := AList.update key es (cs_scoped s)\<rparr>)"
proof -
  have d: "distinct (map fst (AList.update key es (cs_scoped s)))"
    using assms(1) by (simp add: store_ok_def distinct_update)
  have "(k, fs) \<in> set (cs_scoped s) \<or> fs = es" if "(k, fs) \<in> set (AList.update key es (cs_scoped s))" for k fs
  proof -
    have "map_of (AList.update key es (cs_scoped s)) k = Some fs" using d that by simp
    then have "((map_of (cs_scoped s))(key \<mapsto> es)) k = Some fs" by (simp only: update_conv')
    then show ?thesis by (auto split: if_splits dest: map_of_SomeD)
  qed
  with assms d show ?thesis unfolding store_ok_def by fastforce
qed

lemma store_ok_setScoped:
  assumes "store_ok s"
  shows "store_ok (setScoped key p e s)"
proof -
  note S = store_ok_scopedAt [OF assms, of key]
  show ?thesis
  proof (cases "replaceScoped p e (scopedAt s key)")
    case None
    then have "networkNumberAndMask p \<notin> set (prefixes_of (scopedAt s key))" by (simp add: replaceScoped_None)
    then have "distinct (prefixes_of (tl (scopedAt s key) @ [\<lparr>se_prefix = p, se_e = e\<rparr>]))"
      "distinct (prefixes_of (scopedAt s key @ [\<lparr>se_prefix = p, se_e = e\<rparr>]))"
      using S by (cases "scopedAt s key"; auto)+
    then show ?thesis using S None
      by (auto simp: setScoped_def Let_def maxScopedPerKey_def intro!: store_ok_update [OF assms])
  next
    case (Some es')
    have "es' \<noteq> []" using Some by (cases "scopedAt s key") (auto split: if_splits)
    with replaceScoped_Some [OF Some] S Some show ?thesis
      by (auto simp: setScoped_def Let_def intro!: store_ok_update [OF assms])
  qed
qed

lemma store_ok_setDirect:
  "cache_add_doc (lib_cacheAdd lib) \<Longrightarrow> store_ok s \<Longrightarrow> store_ok (setDirect lib key e s)"
  by (auto simp: store_ok_def setDirect_def cache_add_doc_def)

lemma store_ok_clearWhere: "store_ok s \<Longrightarrow> store_ok (fst (clearWhere P s))"
proof -
  assume ok: "store_ok s"
  have m: "map (fst \<circ> (\<lambda>(k, es). (k, filter R es))) xs = map fst xs" for R and xs :: "(uint64 \<times> 'a scopedEntry list) list"
    by (rule map_cong) auto
  have "distinct (map fst (filter Q (map (\<lambda>(k, es). (k, filter R es)) (cs_scoped s))))" for Q R
    by (rule distinct_map_filter) (use ok in \<open>simp only: map_map m store_ok_def\<close>)
  moreover have "length (filter R es) \<le> maxScopedPerKey \<and> distinct (prefixes_of (filter R es))"
    if "(k, es) \<in> set (cs_scoped s)" for k es R
  proof -
    have "length es \<le> maxScopedPerKey" "distinct (prefixes_of es)" using ok that by (auto simp: store_ok_def)
    then show ?thesis using length_filter_le [of R es] distinct_map_filter by (metis le_trans)
  qed
  moreover have "distinct (map fst (filter Q (cs_direct s)))" for Q
    using ok by (simp add: store_ok_def distinct_map_filter)
  ultimately show ?thesis
    by (auto simp: clearWhere_def walkDirect_def walkScoped_def invalidate_def Let_def store_ok_def)
qed

text \<open>The operations on a store, and any sequence of them.\<close>

datatype 'e store_op = SetDirect uint64 'e | SetScoped uint64 ipnet 'e | ClearWhere "'e \<Rightarrow> bool"

fun run_op :: "'e dnslib \<Rightarrow> 'e store_op \<Rightarrow> 'e store \<Rightarrow> 'e store" where
  "run_op lib (SetDirect k e) s = setDirect lib k e s"
| "run_op lib (SetScoped k p e) s = setScoped k p e s"
| "run_op lib (ClearWhere P) s = fst (clearWhere P s)"

lemma store_ok_run:
  "cache_add_doc (lib_cacheAdd lib) \<Longrightarrow> store_ok s \<Longrightarrow> store_ok (fold (run_op lib) ops s)"
proof (induction ops arbitrary: s)
  case (Cons op ops)
  then show ?case
    by (cases op) (simp_all add: store_ok_setDirect store_ok_setScoped store_ok_clearWhere)
qed simp

section \<open>Keys do not mix\<close>

lemma strBytes_inj: "strBytes a = strBytes b \<longleftrightarrow> a = b"
  by (simp add: strBytes_def inj_map_eq_map inj_of_char)

lemma strBytes_no_nul: "CHR 0x00 \<notin> set s \<Longrightarrow> 0 \<notin> set (strBytes s)"
proof
  assume "CHR 0x00 \<notin> set s" "0 \<in> set (strBytes s)"
  then obtain c where c: "c \<in> set s" "of_char c = (of_char (CHR 0x00) :: nat)" by (auto simp: strBytes_def)
  then have "c = CHR 0x00" using of_char_eq_iff by blast
  with c(1) \<open>CHR 0x00 \<notin> set s\<close> show False by blast
qed

lemma qtypeBytes_inj: "qtypeBytes t = qtypeBytes u \<longleftrightarrow> t = u"
proof
  assume "qtypeBytes t = qtypeBytes u"
  then have "unat t div 256 * 256 + unat t mod 256 = unat u div 256 * 256 + unat u mod 256"
    by (simp add: qtypeBytes_def)
  then have "unat t = unat u" by (simp only: div_mult_mod_eq)
  then show "t = u" by (rule unsigned_word_eqI)
qed simp

lemma directBytes_inj:
  assumes nul: "CHR 0x00 \<notin> set b" "CHR 0x00 \<notin> set b'"
    and eq: "directBytes b q t d c = directBytes b' q' t' d' c'"
  shows "(b, q, t, d, c) = (b', q', t', d', c')"
proof -
  have h: "d = d' \<and> c = c' \<and> qtypeBytes t = qtypeBytes t'"
    and r: "strBytes b @ 0 # strBytes q = strBytes b' @ 0 # strBytes q'"
    using eq by (auto simp: directBytes_def boolByte_def qtypeBytes_def split: if_splits)
  from append_sep_inj [OF r strBytes_no_nul strBytes_no_nul] nul
  have "strBytes b = strBytes b' \<and> strBytes q = strBytes q'" by blast
  with h show ?thesis by (simp add: strBytes_inj qtypeBytes_inj)
qed

lemma cacheAdd_other:
  assumes doc: "cache_add_doc add" and d: "distinct (map fst d)" and k: "k' \<noteq> k"
  shows "map_of (add d k e) k' = None \<or> map_of (add d k e) k' = map_of d k'"
proof (cases "map_of (add d k e) k'")
  case (Some v)
  then have "(k', v) \<in> insert (k, e) (set d)"
    using doc map_of_SomeD [OF Some] unfolding cache_add_doc_def by blast
  with k d Some show ?thesis by simp
qed simp

lemma getDirect_other:
  assumes "cache_add_doc (lib_cacheAdd lib)" "store_ok s" "k' \<noteq> k"
  shows "getDirect (setDirect lib k e s) k' now st \<in> {None, getDirect s k' now st}"
  using cacheAdd_other [OF assms(1) _ assms(3), of "cs_direct s" e] assms(2)
  by (auto simp: getDirect_def setDirect_def store_ok_def split: option.splits)

lemma getDirect_same:
  assumes "cache_add_doc (lib_cacheAdd lib)"
  shows "getDirect (setDirect lib k e s) k now st =
    (if servable e now st then Some (e, remaining e now > 0) else None)"
  using assms by (auto simp: getDirect_def setDirect_def cache_add_doc_def servable_def)

section \<open>Flushes and fetches in flight\<close>

text \<open>
  A flush and the fetches that are under way interleave. The steps are the ones the locks make
  atomic: reading the epoch at the start of a fetch, storing its answer through \<^verbatim>\<open>ifCurrent\<close>,
  and the three parts of a flush (a new epoch, the walk of the direct tier, the walk of the
  scoped tier). Every entry carries the number of flushes that had begun when its fetch read
  the epoch; this number is not part of the code and no step depends on it.
\<close>

record 'e fmach =
  fm_store :: "('e \<times> nat) store"
  fm_flushes :: nat
  fm_flights :: "(uint64 \<times> nat) list"
  fm_pending :: "(nat \<times> ('e \<Rightarrow> bool)) list"
  fm_doneD :: "(nat \<times> ('e \<Rightarrow> bool)) list"
  fm_doneS :: "(nat \<times> ('e \<Rightarrow> bool)) list"

definition fm_init :: "'e fmach" where
  "fm_init = \<lparr>fm_store = newStore, fm_flushes = 0, fm_flights = [], fm_pending = [], fm_doneD = [],
     fm_doneS = []\<rparr>"

inductive flush_step :: "('e \<times> nat) dnslib \<Rightarrow> 'e fmach \<Rightarrow> 'e fmach \<Rightarrow> bool" for lib where
  start: "flush_step lib m
    (m\<lparr>fm_flights := (generation (fm_store m), fm_flushes m) # fm_flights m\<rparr>)"
| finishDirect: "(g, b) \<in> set (fm_flights m) \<Longrightarrow> flush_step lib m
    (m\<lparr>fm_flights := remove1 (g, b) (fm_flights m),
       fm_store := ifCurrent g (setDirect lib k (e, b)) (fm_store m)\<rparr>)"
| finishScoped: "(g, b) \<in> set (fm_flights m) \<Longrightarrow> flush_step lib m
    (m\<lparr>fm_flights := remove1 (g, b) (fm_flights m),
       fm_store := ifCurrent g (setScoped k p (e, b)) (fm_store m)\<rparr>)"
| finishNone: "(g, b) \<in> set (fm_flights m) \<Longrightarrow> flush_step lib m
    (m\<lparr>fm_flights := remove1 (g, b) (fm_flights m)\<rparr>)"
| flush: "fm_flushes m + 1 < 2 ^ 64 \<Longrightarrow> flush_step lib m
    (m\<lparr>fm_store := invalidate (fm_store m), fm_flushes := fm_flushes m + 1,
       fm_pending := (fm_flushes m + 1, P) # fm_pending m\<rparr>)"
| walkD: "(k, P) \<in> set (fm_pending m) \<Longrightarrow> flush_step lib m
    (m\<lparr>fm_store := fst (walkDirect (P \<circ> fst) (fm_store m)), fm_doneD := (k, P) # fm_doneD m\<rparr>)"
| walkS: "(k, P) \<in> set (fm_doneD m) \<Longrightarrow> flush_step lib m
    (m\<lparr>fm_store := fst (walkScoped (P \<circ> fst) (fm_store m)), fm_doneS := (k, P) # fm_doneS m\<rparr>)"

abbreviation flush_reachable :: "('e \<times> nat) dnslib \<Rightarrow> 'e fmach \<Rightarrow> bool" where
  "flush_reachable lib m \<equiv> (flush_step lib)\<^sup>*\<^sup>* fm_init m"

definition directEntries :: "'e store \<Rightarrow> 'e set" where
  "directEntries s = snd ` set (cs_direct s)"

definition scopedEntries :: "'e store \<Rightarrow> 'e set" where
  "scopedEntries s = (\<Union>(k, es)\<in>set (cs_scoped s). se_e ` set es)"

definition fm_inv :: "'e fmach \<Rightarrow> bool" where
  "fm_inv m \<longleftrightarrow> cs_epoch (fm_store m) = of_nat (fm_flushes m) \<and> fm_flushes m < 2 ^ 64 \<and>
     (\<forall>(g, b)\<in>set (fm_flights m). g = of_nat b \<and> b \<le> fm_flushes m) \<and>
     (\<forall>(k, P)\<in>set (fm_pending m) \<union> set (fm_doneD m). k \<le> fm_flushes m) \<and>
     set (fm_doneS m) \<subseteq> set (fm_doneD m) \<and>
     (\<forall>(k, P)\<in>set (fm_doneD m). \<forall>(e, b)\<in>directEntries (fm_store m). P e \<longrightarrow> k \<le> b) \<and>
     (\<forall>(k, P)\<in>set (fm_doneS m). \<forall>(e, b)\<in>scopedEntries (fm_store m). P e \<longrightarrow> k \<le> b)"

lemma scopedEntries_iff:
  "x \<in> scopedEntries s \<longleftrightarrow> (\<exists>k es se. (k, es) \<in> set (cs_scoped s) \<and> se \<in> set es \<and> x = se_e se)"
  by (auto simp: scopedEntries_def)

lemma set_update_subset: "set (AList.update k v al) \<subseteq> insert (k, v) (set al)"
  by (induction al) auto

lemma setScoped_entries: "scopedEntries (setScoped k p e s) \<subseteq> insert e (scopedEntries s)"
proof -
  have at: "se_e ` set (scopedAt s k) \<subseteq> scopedEntries s"
    by (cases "map_of (cs_scoped s) k")
      (auto simp: scopedAt_def scopedEntries_iff dest!: map_of_SomeD, blast)
  have up: "scopedEntries (s\<lparr>cs_scoped := AList.update k es (cs_scoped s)\<rparr>) \<subseteq> se_e ` set es \<union> scopedEntries s" for es
    using set_update_subset [of k es "cs_scoped s"] by (fastforce simp: scopedEntries_def)
  have up': "scopedEntries (s\<lparr>cs_scoped := AList.update k es (cs_scoped s)\<rparr>) \<subseteq> insert e (scopedEntries s)"
    if "se_e ` set es \<subseteq> insert e (scopedEntries s)" for es
    using up [of es] that by blast
  show ?thesis
  proof (cases "replaceScoped p e (scopedAt s k)")
    case None
    have t: "se_e ` set (tl (scopedAt s k)) \<subseteq> scopedEntries s" using at by (cases "scopedAt s k") auto
    let ?new = "[\<lparr>se_prefix = p, se_e = e\<rparr>]"
    have "se_e ` set (tl (scopedAt s k) @ ?new) \<subseteq> insert e (scopedEntries s)"
      "se_e ` set (scopedAt s k @ ?new) \<subseteq> insert e (scopedEntries s)"
      using t at by auto
    then show ?thesis using None by (simp only: setScoped_def Let_def option.case) (simp only: up' simp_thms split: if_split)
  next
    case (Some es')
    have "se_e ` set es' \<subseteq> insert e (scopedEntries s)"
      using replaceScoped_Some [OF Some] at by fastforce
    then show ?thesis using Some by (simp only: setScoped_def Let_def option.case up')
  qed
qed

lemma setScoped_other [simp]: "cs_direct (setScoped k p e s) = cs_direct s" "cs_epoch (setScoped k p e s) = cs_epoch s"
  by (simp_all add: setScoped_def Let_def split: option.splits)

lemma setDirect_other [simp]: "cs_scoped (setDirect lib k e s) = cs_scoped s" "cs_epoch (setDirect lib k e s) = cs_epoch s"
  by (simp_all add: setDirect_def)

lemma setDirect_entries:
  "cache_add_doc (lib_cacheAdd lib) \<Longrightarrow> directEntries (setDirect lib k e s) \<subseteq> insert e (directEntries s)"
  by (fastforce simp: directEntries_def setDirect_def cache_add_doc_def)

lemma walk_entries:
  "directEntries (fst (walkDirect P s)) = {e \<in> directEntries s. \<not> P e}"
  "scopedEntries (fst (walkDirect P s)) = scopedEntries s"
  "directEntries (fst (walkScoped P s)) = directEntries s"
  "scopedEntries (fst (walkScoped P s)) = {e \<in> scopedEntries s. \<not> P e}"
  "cs_epoch (fst (walkDirect P s)) = cs_epoch s" "cs_epoch (fst (walkScoped P s)) = cs_epoch s"
proof -
  show "directEntries (fst (walkDirect P s)) = {e \<in> directEntries s. \<not> P e}"
    by (force simp: walkDirect_def directEntries_def)
  show "scopedEntries (fst (walkScoped P s)) = {e \<in> scopedEntries s. \<not> P e}"
  proof (rule set_eqI)
    fix x
    let ?f = "\<lambda>(k, es). (k, filter (\<lambda>se. \<not> P (se_e se)) es)"
    have "x \<in> scopedEntries (fst (walkScoped P s)) \<longleftrightarrow>
        (\<exists>k es se. (k, es) \<in> ?f ` set (cs_scoped s) \<and> es \<noteq> [] \<and> se \<in> set es \<and> x = se_e se)"
      by (auto simp: walkScoped_def scopedEntries_iff)
    also have "\<dots> \<longleftrightarrow> (\<exists>k es se. (k, es) \<in> set (cs_scoped s) \<and> se \<in> set es \<and> \<not> P (se_e se) \<and> x = se_e se)"
    proof (intro iffI; elim exE conjE)
      fix k es se
      assume "(k, es) \<in> set (cs_scoped s)" "se \<in> set es" "\<not> P (se_e se)" "x = se_e se"
      then have "?f (k, es) \<in> ?f ` set (cs_scoped s)" "se \<in> set (filter (\<lambda>se. \<not> P (se_e se)) es)" by auto
      with \<open>x = se_e se\<close> show "\<exists>k es se. (k, es) \<in> ?f ` set (cs_scoped s) \<and> es \<noteq> [] \<and> se \<in> set es \<and> x = se_e se"
        by (simp only: prod.case) (metis empty_iff empty_set)
    qed (auto, blast)
    also have "\<dots> \<longleftrightarrow> x \<in> {e \<in> scopedEntries s. \<not> P e}" by (auto simp: scopedEntries_iff)
    finally show "x \<in> scopedEntries (fst (walkScoped P s)) \<longleftrightarrow> x \<in> {e \<in> scopedEntries s. \<not> P e}" .
  qed
qed (simp_all add: walkDirect_def walkScoped_def scopedEntries_def directEntries_def)

lemma fm_inv_finish:
  assumes inv: "fm_inv m" and f: "(g, b) \<in> set (fm_flights m)" and cur: "cs_epoch (fm_store m) = g"
  shows "b = fm_flushes m"
proof -
  from inv f have g: "g = of_nat b" "b \<le> fm_flushes m" "fm_flushes m < 2 ^ 64"
    "cs_epoch (fm_store m) = of_nat (fm_flushes m)" by (auto simp: fm_inv_def)
  with cur have "(of_nat b :: uint64) = of_nat (fm_flushes m)" by simp
  then have "unat (of_nat b :: uint64) = unat (of_nat (fm_flushes m) :: uint64)" by simp
  moreover have "b < 2 ^ 64" using g by simp
  ultimately show ?thesis using g(3) by (simp add: unat_of_nat take_bit_nat_eq_self)
qed

lemma fm_inv_put:
  assumes inv: "fm_inv m" and f: "(g, b) \<in> set (fm_flights m)"
    and put: "cs_epoch (put (fm_store m)) = cs_epoch (fm_store m)"
      "directEntries (put (fm_store m)) \<subseteq> insert (e, b) (directEntries (fm_store m))"
      "scopedEntries (put (fm_store m)) \<subseteq> insert (e, b) (scopedEntries (fm_store m))"
  shows "fm_inv (m\<lparr>fm_flights := remove1 (g, b) (fm_flights m), fm_store := ifCurrent g put (fm_store m)\<rparr>)"
proof (cases "cs_epoch (fm_store m) = g")
  case False
  with inv show ?thesis by (auto simp: fm_inv_def ifCurrent_def dest: notin_set_remove1)
next
  case True
  have b: "b = fm_flushes m" by (rule fm_inv_finish [OF inv f True])
  have le: "k \<le> b" if "(k, P) \<in> set (fm_doneD m)" for k P using inv that b by (auto simp: fm_inv_def)
  have sub: "set (fm_doneS m) \<subseteq> set (fm_doneD m)" using inv by (simp add: fm_inv_def)
  have D: "P x \<longrightarrow> k \<le> c" if "(k, P) \<in> set (fm_doneD m)" "(x, c) \<in> directEntries (put (fm_store m))" for k P x c
  proof (cases "(x, c) = (e, b)")
    case True
    then show ?thesis using le that(1) by blast
  next
    case False
    then have "(x, c) \<in> directEntries (fm_store m)" using that(2) put(2) by blast
    with inv that(1) show ?thesis unfolding fm_inv_def by fastforce
  qed
  have S: "P x \<longrightarrow> k \<le> c" if "(k, P) \<in> set (fm_doneS m)" "(x, c) \<in> scopedEntries (put (fm_store m))" for k P x c
  proof (cases "(x, c) = (e, b)")
    case True
    then show ?thesis using le sub that(1) by blast
  next
    case False
    then have "(x, c) \<in> scopedEntries (fm_store m)" using that(2) put(3) by blast
    with inv that(1) show ?thesis unfolding fm_inv_def by fastforce
  qed
  have F: "\<forall>(g', b')\<in>set (remove1 (g, b) (fm_flights m)). g' = of_nat b' \<and> b' \<le> fm_flushes m"
  proof
    fix x
    assume "x \<in> set (remove1 (g, b) (fm_flights m))"
    then have "x \<in> set (fm_flights m)" using set_remove1_subset by (rule rev_subsetD)
    with inv show "case x of (g', b') \<Rightarrow> g' = of_nat b' \<and> b' \<le> fm_flushes m" unfolding fm_inv_def by simp
  qed
  have D': "\<forall>(k, P)\<in>set (fm_doneD m). \<forall>(x, c)\<in>directEntries (put (fm_store m)). P x \<longrightarrow> k \<le> c" using D by auto
  have S': "\<forall>(k, P)\<in>set (fm_doneS m). \<forall>(x, c)\<in>scopedEntries (put (fm_store m)). P x \<longrightarrow> k \<le> c" using S by auto
  show ?thesis
    using inv True put(1) D' S' F by (simp add: fm_inv_def ifCurrent_def)
qed

lemma fm_inv_step:
  assumes doc: "cache_add_doc (lib_cacheAdd lib)" and "flush_step lib m m'" "fm_inv m"
  shows "fm_inv m'"
  using assms(2,3)
proof cases
  case (finishDirect g b k e)
  have "fm_inv (m\<lparr>fm_flights := remove1 (g, b) (fm_flights m),
      fm_store := ifCurrent g (setDirect lib k (e, b)) (fm_store m)\<rparr>)"
    by (rule fm_inv_put [OF assms(3) finishDirect(2), where e = e])
      (use setDirect_entries [OF doc, of k "(e, b)" "fm_store m"] in \<open>auto simp: scopedEntries_def\<close>)
  then show ?thesis unfolding finishDirect(1) .
next
  case (finishScoped g b k p e)
  have "fm_inv (m\<lparr>fm_flights := remove1 (g, b) (fm_flights m),
      fm_store := ifCurrent g (setScoped k p (e, b)) (fm_store m)\<rparr>)"
    by (rule fm_inv_put [OF assms(3) finishScoped(2), where e = e])
      (use setScoped_entries [of k p "(e, b)" "fm_store m"] in \<open>auto simp: directEntries_def\<close>)
  then show ?thesis unfolding finishScoped(1) .
next
  case (flush P)
  with assms(3) show ?thesis
    by (auto simp: fm_inv_def invalidate_def directEntries_def scopedEntries_def le_Suc_eq)
next
  case (walkD k P)
  with assms(3) show ?thesis by (auto simp: fm_inv_def walk_entries)
next
  case (walkS k P)
  with assms(3) show ?thesis by (auto simp: fm_inv_def walk_entries)
qed (auto simp: fm_inv_def generation_def dest: notin_set_remove1)

lemma fm_inv_init: "fm_inv fm_init"
  by (simp add: fm_inv_def fm_init_def newStore_def directEntries_def scopedEntries_def)

lemma fm_inv_reachable:
  assumes "cache_add_doc (lib_cacheAdd lib)" "flush_reachable lib m"
  shows "fm_inv m"
  using assms(2) by (induction rule: rtranclp_induct) (use fm_inv_init fm_inv_step [OF assms(1)] in auto)

section \<open>Prefixes and lifetimes\<close>

text \<open>The prefix an upstream reports for an address of its family contains the address.\<close>

lemma scopePrefix_covers:
  assumes "scopePrefix lib m a = Some p" "length a = 16"
    and "\<And>os fam sc. lib_isEdns0 lib m = Some os \<Longrightarrow> firstSubnet os = Some (fam, sc) \<Longrightarrow> (fam = 2 \<longleftrightarrow> to4 a = [])"
  shows "net_contains p a"
  using assms scope_covers_v4 [of a] scope_covers_v6 [of a]
  by (auto simp: scopePrefix_def Let_def split: if_splits option.splits)

lemma storeResult_fst:
  "fr_msg (fst (storeResult lib c d k a req res now)) = res"
  "fr_prefix (fst (storeResult lib c d k a req res now)) \<in> {None, scopePrefix lib res a}"
  by (auto simp: storeResult_def Let_def split: option.splits)

lemma ttlFor_bounds:
  assumes "0 < lib_minDefaultTTL lib" "lib_minDefaultTTL lib \<le> lib_maxDefaultTTL lib div 2"
  shows "t \<noteq> ServerError \<Longrightarrow> lib_minDefaultTTL lib \<le> ttlFor lib c m t \<and> ttlFor lib c m t \<le> lib_maxDefaultTTL lib"
    "t = ServerError \<Longrightarrow> ttlFor lib c m t = vc_failTTL c"
  using assms by (auto simp: ttlFor_def clampDuration_def Let_def)

lemma replyTTL_exact:
  assumes "ce_origTTL e \<le> 4294967295 * second" "ce_stored e \<le> now"
  shows "uint (replyTTL e now) = max 0 (remaining e now) div second"
proof -
  let ?r = "max 0 (remaining e now)"
  have "?r \<le> 4294967295 * second" using assms by (auto simp: remaining_def second_def)
  then have "?r div second \<le> 4294967295" by (simp add: second_def)
  moreover have "0 \<le> ?r div second" by (simp add: second_def)
  moreover have "replyTTL e now = word_of_int (?r div second)"
    by (simp add: replyTTL_def Let_def max_def)
  ultimately show ?thesis by (simp add: uint_word_of_int_eq take_bit_int_eq_self)
qed

lemma copyWithTTL_header: "r \<in> set (copyWithTTL rrs ttl) \<Longrightarrow> hdr_ttl (rr_header r) = ttl"
  by (auto simp: copyWithTTL_def)

section \<open>Flushing all instances\<close>

definition storeSize :: "'e store \<Rightarrow> nat" where
  "storeSize s = length (cs_direct s) + sum_list (map (\<lambda>(k, es). length es) (cs_scoped s))"

lemma clear_size: "cs_direct (fst (clear s)) = [] \<and> cs_scoped (fst (clear s)) = [] \<and> snd (clear s) = storeSize s"
proof -
  have "filter (\<lambda>(k, e). True) xs = xs" for xs :: "('b \<times> 'c) list" by (induction xs) auto
  then show ?thesis
    by (auto simp: clear_def clearWhere_def walkDirect_def walkScoped_def invalidate_def Let_def storeSize_def
        filter_empty_conv)
qed

lemma flushWith_fold:
  assumes "distinct js" "fold (flushInstance f) js (g, n) = (g', n')"
  shows "rg_live g' = rg_live g \<and>
    (\<forall>i. vc_store (rg_cache g' i) =
      (if i \<in> set js then fst (f (vc_store (rg_cache g i))) else vc_store (rg_cache g i))) \<and>
    n' = n + sum_list (map (\<lambda>i. snd (f (vc_store (rg_cache g i)))) js)"
  using assms
proof (induction js arbitrary: g n)
  case (Cons i js)
  obtain st k where f: "f (vc_store (rg_cache g i)) = (st, k)" by (cases "f (vc_store (rg_cache g i))")
  let ?g = "g\<lparr>rg_cache := (rg_cache g)(i := (rg_cache g i)\<lparr>vc_store := st\<rparr>)\<rparr>"
  from Cons.prems(2) have "fold (flushInstance f) js (?g, n + k) = (g', n')"
    by (simp add: flushInstance_def [of f i] f)
  note IH = Cons.IH [OF _ this]
  have m: "map (\<lambda>j. snd (f (vc_store (rg_cache ?g j)))) js = map (\<lambda>j. snd (f (vc_store (rg_cache g j)))) js"
    using Cons.prems(1) by (intro map_cong) auto
  have "n' = n + k + sum_list (map (\<lambda>j. snd (f (vc_store (rg_cache g j)))) js)"
    using IH Cons.prems(1) unfolding m by simp
  with IH Cons.prems(1) f show ?case by simp
qed simp

section \<open>Fetches\<close>

definition vc_directKey :: "'e dnslib \<Rightarrow> vlanCache \<Rightarrow> request \<Rightarrow> uint64" where
  "vc_directKey lib c rq = hashDirect lib (vc_bucket c (parseIP (rq_ip rq))) (rq_name rq) (rq_qtype rq)
     (rq_do rq) (m_cd (rq_msg rq))"

definition vc_scopedKey :: "'e dnslib \<Rightarrow> request \<Rightarrow> uint64" where
  "vc_scopedKey lib rq = hashScoped lib (rq_name rq) (rq_qtype rq) (rq_do rq) (m_cd (rq_msg rq))"

definition vc_bucketKey :: "'e dnslib \<Rightarrow> vlanCache \<Rightarrow> request \<Rightarrow> string" where
  "vc_bucketKey lib c rq = formatUint36 (unat (vc_directKey lib c rq))"

lemma vc_serveDNS_miss:
  assumes "getScoped (vc_store c) (vc_scopedKey lib rq) (parseIP (rq_ip rq)) now (vc_staleTTL c) = None"
    and "getDirect (vc_store c) (vc_directKey lib c rq) now (vc_staleTTL c) = None"
  shows "vc_serveDNS lib c nxt during sf wok now rq ctx s =
    (case vc_fetch lib c nxt during sf rq (vc_bucketKey lib c rq) (vc_directKey lib c rq) (vc_scopedKey lib rq)
         (parseIP (rq_ip rq)) now ctx s of
       (None, leader, c1, ctx1, s1) \<Rightarrow> (fetchFailed ctx1, False, c1, s1)
     | (Some fr, leader, c1, ctx1, s1) \<Rightarrow>
         if appliesTo fr (parseIP (rq_ip rq)) then (missReply wok rq ctx1 leader fr, False, c1, s1)
         else
           (case vc_fetch lib c1 nxt during sf rq (vc_bucketKey lib c rq @ ''|'' @ ip_string (parseIP (rq_ip rq)))
                   (vc_directKey lib c rq) (vc_scopedKey lib rq) (parseIP (rq_ip rq)) now ctx1 s1 of
              (None, leader2, c2, ctx2, s2) \<Rightarrow> (fetchFailed ctx2, False, c2, s2)
            | (Some fr2, leader2, c2, ctx2, s2) \<Rightarrow> (missReply wok rq ctx2 leader2 fr2, False, c2, s2)))"
  using assms unfolding vc_serveDNS_def Let_def vc_directKey_def vc_scopedKey_def vc_bucketKey_def by simp

lemma missReply_written: "oc_written (missReply wok rq ctx leader fr) = Some m \<Longrightarrow>
    m = toClientReply (fr_msg fr) (rq_msg rq) (rq_do rq) (m_ad (rq_msg rq))"
  by (auto simp: missReply_def vc_reply_def Let_def split: if_splits)

text \<open>
  The results a query may be answered with after a miss: one shared by a call in flight for the VLAN,
  whose scope must cover the client; one shared by a call in flight under the key with the client's
  address; or the result of its own fetch, the first or the second.
\<close>

definition covers :: "fetchResult \<Rightarrow> ip \<Rightarrow> bool" where
  "covers fr a \<longleftrightarrow> fr_prefix fr = None \<or> a = [] \<or> (\<exists>p. fr_prefix fr = Some p \<and> net_contains p a)"

definition ownFetch ::
    "centry dnslib \<Rightarrow> vlanCache \<Rightarrow> 's handler \<Rightarrow> (centry store \<Rightarrow> centry store) \<Rightarrow> request \<Rightarrow> time \<Rightarrow> context_entry \<Rightarrow> 's \<Rightarrow>
     fetchResult option \<times> vlanCache \<times> context_entry \<times> 's" where
  "ownFetch lib c nxt during rq now ctx s =
     fetchLeader lib c nxt during rq (vc_directKey lib c rq) (vc_scopedKey lib rq) (parseIP (rq_ip rq)) now ctx s"

definition sourceOfMiss ::
    "centry dnslib \<Rightarrow> vlanCache \<Rightarrow> 's handler \<Rightarrow> (centry store \<Rightarrow> centry store) \<Rightarrow> (string \<Rightarrow> fetchResult option option) \<Rightarrow>
     request \<Rightarrow> time \<Rightarrow> context_entry \<Rightarrow> 's \<Rightarrow> fetchResult \<Rightarrow> bool" where
  "sourceOfMiss lib c nxt during sf rq now ctx s fr \<longleftrightarrow>
     sf (vc_bucketKey lib c rq) = Some (Some fr) \<and> covers fr (parseIP (rq_ip rq)) \<or>
     sf (vc_bucketKey lib c rq @ ''|'' @ ip_string (parseIP (rq_ip rq))) = Some (Some fr) \<or>
     (case ownFetch lib c nxt during rq now ctx s of (r, c1, ctx1, s1) \<Rightarrow>
        r = Some fr \<or> fst (ownFetch lib c1 nxt during rq now ctx1 s1) = Some fr)"

lemma appliesTo_iff: "appliesTo fr a \<longleftrightarrow> covers fr a"
  by (auto simp: appliesTo_def covers_def split: option.split)

lemma ownFetch_vlans: "ownFetch lib c nxt during rq now ctx s = (r, c1, ctx1, s1) \<Longrightarrow> vc_vlans c1 = vc_vlans c"
  by (auto simp: ownFetch_def fetchLeader_def Let_def split: if_splits prod.splits)

lemma vc_directKey_vlans: "vc_vlans c1 = vc_vlans c \<Longrightarrow> vc_directKey lib c1 rq = vc_directKey lib c rq"
  by (simp add: vc_directKey_def vc_bucket_def)

lemma vc_fetch_own:
  assumes "vc_fetch lib c nxt during sf rq key (vc_directKey lib c rq) (vc_scopedKey lib rq) (parseIP (rq_ip rq)) now ctx s
    = (r, leader, c', ctx', s')"
  shows "sf key = Some r \<and> c' = c \<and> ctx' = ctx \<and> s' = s \<or>
    sf key = None \<and> ownFetch lib c nxt during rq now ctx s = (r, c', ctx', s')"
  using assms by (auto simp: vc_fetch_def ownFetch_def Let_def split: option.splits prod.splits)

lemma miss_reply_source:
  assumes "vc_serveDNS lib c nxt during sf wok now rq ctx s = (oc, rf, c', s')" "oc_written oc = Some m"
    and scoped: "getScoped (vc_store c) (vc_scopedKey lib rq) (parseIP (rq_ip rq)) now (vc_staleTTL c) = None"
    and None: "getDirect (vc_store c) (vc_directKey lib c rq) now (vc_staleTTL c) = None"
  shows "\<exists>fr leader ctx'. sourceOfMiss lib c nxt during sf rq now ctx s fr \<and> oc = missReply wok rq ctx' leader fr"
proof -
  let ?a = "parseIP (rq_ip rq)"
  let ?b = "vc_bucketKey lib c rq" and ?d = "vc_directKey lib c rq" and ?k = "vc_scopedKey lib rq"
  obtain r1 l1 c1 ctx1 s1 where f1: "vc_fetch lib c nxt during sf rq ?b ?d ?k ?a now ctx s = (r1, l1, c1, ctx1, s1)"
    by (cases "vc_fetch lib c nxt during sf rq ?b ?d ?k ?a now ctx s")
  obtain r2 l2 c2 ctx2 s2 where
    f2: "vc_fetch lib c1 nxt during sf rq (?b @ ''|'' @ ip_string ?a) ?d ?k ?a now ctx1 s1 = (r2, l2, c2, ctx2, s2)"
    by (cases "vc_fetch lib c1 nxt during sf rq (?b @ ''|'' @ ip_string ?a) ?d ?k ?a now ctx1 s1")
  note eq = vc_serveDNS_miss [OF scoped None, of nxt during sf wok ctx s, unfolded f1]
  note one = vc_fetch_own [OF f1]
  have d1: "vc_directKey lib c1 rq = ?d"
    using one ownFetch_vlans vc_directKey_vlans by metis
  note two = vc_fetch_own [OF f2 [folded d1], unfolded d1]
  show ?thesis
  proof (cases r1)
    case None
    with eq assms(1,2) show ?thesis by (simp add: fetchFailed_def)
  next
    case r1: (Some fr)
    show ?thesis
    proof (cases "appliesTo fr ?a")
      case True
      then have "sourceOfMiss lib c nxt during sf rq now ctx s fr"
        using one r1 by (auto simp: sourceOfMiss_def appliesTo_iff)
      with eq r1 True assms(1) show ?thesis by auto
    next
      case False
      with eq r1 f2 assms(1,2) obtain fr2 where fr2: "r2 = Some fr2" "oc = missReply wok rq ctx2 l2 fr2"
        by (cases r2) (auto simp: fetchFailed_def)
      have "sourceOfMiss lib c nxt during sf rq now ctx s fr2"
        using two one fr2(1) by (auto simp: sourceOfMiss_def)
      with fr2 show ?thesis by blast
    qed
  qed
qed

section \<open>A sample library and cache\<close>

definition exLib :: "'e dnslib" where
  "exLib = \<lparr>lib_setReply = simpleReply, lib_setRcode = (\<lambda>m r. (simpleReply m)\<lparr>m_rcode := r\<rparr>),
     lib_setQuestion = (\<lambda>n t. zero_msg\<lparr>m_question := [(n, t)]\<rparr>), lib_setEdns0 = id,
     lib_canonicalName = simpleCanon, lib_isEdns0 = (\<lambda>m. None),
     lib_typify = (\<lambda>m t. if m_rcode m = rcodeServerFailure then ServerError else NoError),
     lib_minimalTTL = (\<lambda>m t mx. mx), lib_minDefaultTTL = 5 * second, lib_maxDefaultTTL = 3600 * second,
     lib_fnv64 = (\<lambda>bs. fold (\<lambda>b h. h * 31 + of_nat b) bs 7),
     lib_cacheAdd = (\<lambda>d k e. AList.update k e d)\<rparr>"

lemma exLib_add: "cache_add_doc (lib_cacheAdd exLib)"
  using set_update_subset by (fastforce simp: cache_add_doc_def exLib_def update_conv' distinct_update)

definition exEntry :: centry where
  "exEntry = newEntry ''a.'' zero_msg 0 (60 * second)"

definition exCache :: vlanCache where
  "exCache = \<lparr>vc_vlans = zeroTable, vc_store = newStore, vc_failTTL = 5 * second, vc_prefetch = True,
     vc_staleTTL = 0\<rparr>"

definition exRequest :: request where
  "exRequest = \<lparr>rq_name = ''a.'', rq_qtype = dnsTypeA, rq_do = False, rq_ip = ''10.0.0.1'', rq_family = 1,
     rq_localAddr = [], rq_proto = ''udp'', rq_msg = zero_msg\<lparr>m_question := [(''a.'', dnsTypeA)]\<rparr>\<rparr>"

section \<open>Properties\<close>

text \<open>
  C3. A flush is not undone by answers in flight. However the steps of fetches and flushes
  interleave (fewer than \<open>2 ^ 64\<close> flushes), once the walks of a flush are done no entry the
  flush was to remove is in either tier if its fetch read the epoch before that flush began.
\<close>

theorem flush_effective:
  assumes "cache_add_doc (lib_cacheAdd lib)" "flush_reachable lib m"
    and "(k, P) \<in> set (fm_doneS m)" "(e, b) \<in> directEntries (fm_store m) \<union> scopedEntries (fm_store m)" "P e"
  shows "k \<le> b"
proof -
  have inv: "fm_inv m" by (rule fm_inv_reachable [OF assms(1,2)])
  then have "(k, P) \<in> set (fm_doneD m)" using assms(3) by (auto simp: fm_inv_def)
  with inv assms(3-5) show ?thesis unfolding fm_inv_def by fastforce
qed

theorem flush_effective_witness:
  "\<exists>m :: nat fmach. flush_reachable exLib m \<and> fm_flights m = [] \<and> fm_doneS m \<noteq> [] \<and>
     directEntries (fm_store m) = {(5, 1)} \<and> (\<forall>(k, P)\<in>set (fm_doneS m). k \<le> (1::nat))"
proof -
  let ?P = "\<lambda>_ :: nat. True"
  let ?m1 = "fm_init\<lparr>fm_store := invalidate newStore, fm_flushes := 1, fm_pending := [(1, ?P)]\<rparr>"
  let ?m2 = "?m1\<lparr>fm_store := fst (walkDirect (?P \<circ> fst) (fm_store ?m1)), fm_doneD := [(1, ?P)]\<rparr>"
  let ?m3 = "?m2\<lparr>fm_store := fst (walkScoped (?P \<circ> fst) (fm_store ?m2)), fm_doneS := [(1, ?P)]\<rparr>"
  let ?m4 = "?m3\<lparr>fm_flights := [(generation (fm_store ?m3), fm_flushes ?m3)]\<rparr>"
  let ?m5 = "?m4\<lparr>fm_flights := [], fm_store := ifCurrent 1 (setDirect exLib 9 (5, 1)) (fm_store ?m4)\<rparr>"
  note sel = fm_init_def newStore_def invalidate_def walkDirect_def walkScoped_def generation_def
  have s1: "flush_step exLib fm_init ?m1"
    using flush_step.flush [of "fm_init :: nat fmach" exLib ?P] by (simp add: sel)
  have s2: "flush_step exLib ?m1 ?m2" using flush_step.walkD [of 1 ?P ?m1 exLib] by (simp add: sel)
  have s3: "flush_step exLib ?m2 ?m3" using flush_step.walkS [of 1 ?P ?m2 exLib] by (simp add: sel)
  have s4: "flush_step exLib ?m3 ?m4" using flush_step.start [of exLib ?m3] by (simp add: sel)
  have s5: "flush_step exLib ?m4 ?m5"
    using flush_step.finishDirect [of 1 1 ?m4 exLib 9 5] by (simp add: sel)
  have r: "flush_reachable exLib ?m5"
    using s1 s2 s3 s4 s5 by (meson rtranclp.rtrancl_into_rtrancl rtranclp.rtrancl_refl)
  have d: "directEntries (fm_store ?m5) = {(5, 1)}"
    by (simp add: sel directEntries_def ifCurrent_def setDirect_def exLib_def)
  have "\<forall>(k, P)\<in>set (fm_doneS ?m5). k \<le> 1"
    using flush_effective [OF exLib_add r, of _ _ 5 1] d by auto
  moreover have "fm_flights ?m5 = []" "fm_doneS ?m5 \<noteq> []" by simp_all
  ultimately show ?thesis using r d by blast
qed

text \<open>
  Storing an answer for one VLAN, name, type and pair of DNSSEC flags never changes what is
  served for another one, apart from an eviction: unless the two keys collide in the hash, and
  as long as VLAN names hold no NUL character, which separates the parts of a key. What was
  stored is what its own key gives.
\<close>

theorem bucket_isolation:
  assumes "cache_add_doc (lib_cacheAdd lib)" "store_ok s"
    and "CHR 0x00 \<notin> set b" "CHR 0x00 \<notin> set b'" "(b, q, t, do, cd) \<noteq> (b', q', t', do', cd')"
    and "lib_fnv64 lib (directBytes b q t do cd) = lib_fnv64 lib (directBytes b' q' t' do' cd')
      \<Longrightarrow> directBytes b q t do cd = directBytes b' q' t' do' cd'"
  shows "getDirect (setDirect lib (hashDirect lib b q t do cd) e s) (hashDirect lib b' q' t' do' cd') now st
      \<in> {None, getDirect s (hashDirect lib b' q' t' do' cd') now st} \<and>
    getDirect (setDirect lib (hashDirect lib b q t do cd) e s) (hashDirect lib b q t do cd) now st =
      (if servable e now st then Some (e, remaining e now > 0) else None)"
proof
  have "hashDirect lib b' q' t' do' cd' \<noteq> hashDirect lib b q t do cd"
    using assms(6) directBytes_inj [OF assms(3,4)] assms(5) unfolding hashDirect_def by metis
  then show "getDirect (setDirect lib (hashDirect lib b q t do cd) e s) (hashDirect lib b' q' t' do' cd') now st
      \<in> {None, getDirect s (hashDirect lib b' q' t' do' cd') now st}"
    by (rule getDirect_other [OF assms(1,2)])
qed (rule getDirect_same [OF assms(1)])

theorem bucket_isolation_witness:
  "getDirect (setDirect exLib (hashDirect (exLib :: centry dnslib) ''lan'' ''a.'' 1 False False) exEntry newStore)
     (hashDirect (exLib :: centry dnslib) ''iot'' ''a.'' 1 False False) 0 0 = None"
proof -
  have ok: "store_ok (newStore :: centry store)" by (simp add: store_ok_def newStore_def)
  have h: "lib_fnv64 (exLib :: centry dnslib) (directBytes ''lan'' ''a.'' 1 False False) \<noteq>
      lib_fnv64 (exLib :: centry dnslib) (directBytes ''iot'' ''a.'' 1 False False)"
    by (simp add: exLib_def directBytes_def boolByte_def qtypeBytes_def strBytes_def)
  have "getDirect newStore k 0 0 = None" for k by (simp add: getDirect_def newStore_def)
  then show ?thesis
    using bucket_isolation [OF exLib_add ok, of "''lan''" "''iot''" "''a.''" 1 False False "''a.''" 1 False False
        exEntry 0 0] h by simp
qed

text \<open>
  Among the scoped entries of a key whose prefix contains the client's address and that may
  still be served, the lookup returns one that no other beats: a fresh one if there is one, and
  among those as fresh the longest prefix. It returns nothing exactly when there is none.
\<close>

theorem scoped_best_match:
  "(getScoped s key a now st = None \<longleftrightarrow> a = [] \<or> (\<forall>se\<in>set (scopedAt s key). \<not> eligible a now st se)) \<and>
   (\<forall>e fresh. getScoped s key a now st = Some (e, fresh) \<longrightarrow>
     (\<exists>x\<in>set (scopedAt s key). eligible a now st x \<and> e = se_e x \<and> fresh = isFresh now x \<and>
       (\<forall>y\<in>set (scopedAt s key). eligible a now st y \<longrightarrow> at_least now x y)))"
proof (intro conjI allI impI)
  fix e fresh
  assume "getScoped s key a now st = Some (e, fresh)"
  then show "\<exists>x\<in>set (scopedAt s key). eligible a now st x \<and> e = se_e x \<and> fresh = isFresh now x \<and>
       (\<forall>y\<in>set (scopedAt s key). eligible a now st y \<longrightarrow> at_least now x y)"
    by (rule getScoped_Some) blast
qed (rule getScoped_None)

theorem scoped_best_match_witness:
  "\<exists>fresh. getScoped (setScoped 1 \<lparr>net_ip = [10, 0, 0, 0], net_mask = [255, 0, 0, 0]\<rparr> exEntry newStore)
     1 [10, 0, 0, 1] 0 0 = Some (exEntry, fresh)"
proof -
  let ?p = "\<lparr>net_ip = [10, 0, 0, 0], net_mask = [255, 0, 0, 0]\<rparr>"
  let ?s = "setScoped 1 ?p exEntry newStore"
  have at: "scopedAt ?s 1 = [\<lparr>se_prefix = ?p, se_e = exEntry\<rparr>]"
    by (simp add: setScoped_def newStore_def scopedAt_def maxScopedPerKey_def)
  have "eligible [10, 0, 0, 1] 0 0 \<lparr>se_prefix = ?p, se_e = exEntry\<rparr>"
    by (simp add: eligible_def servable_def remaining_def exEntry_def newEntry_def second_def
        net_contains_def networkNumberAndMask_def to4_def)
  then have "getScoped ?s 1 [10, 0, 0, 1] 0 0 \<noteq> None"
    using scoped_best_match [of ?s 1 "[10, 0, 0, 1]" 0 0] at by simp
  then obtain e fresh where g: "getScoped ?s 1 [10, 0, 0, 1] 0 0 = Some (e, fresh)" by auto
  then have "e = exEntry" using scoped_best_match [of ?s 1 "[10, 0, 0, 1]" 0 0] at by auto
  with g show ?thesis by blast
qed

text \<open>
  C35. Whatever sequence of stores and flushes runs, no key has more than sixteen scoped
  entries, no two of them have the same prefix, no key is left with an empty list, and both
  tiers have one value per key.
\<close>

theorem store_bounded:
  assumes "cache_add_doc (lib_cacheAdd lib)"
  shows "store_ok (fold (run_op lib) ops newStore)"
  by (rule store_ok_run [OF assms]) (simp add: store_ok_def newStore_def)

theorem store_bounded_witness:
  "store_ok (fold (run_op exLib) [SetDirect 1 exEntry, SetScoped 2 \<lparr>net_ip = [10, 0, 0, 0], net_mask = [255, 0, 0, 0]\<rparr> exEntry,
     ClearWhere (\<lambda>_. True)] newStore)"
  by (rule store_bounded [OF exLib_add])

text \<open>
  C36. A reply from the cache never promises more than the entry has left: every TTL in it is
  the remaining lifetime in whole seconds, without wrap-around, and 0 for a stale entry. An
  entry lives at least the minimal and at most the maximal TTL, a cached failure for the
  configured time.
\<close>

theorem cached_ttl_bounds:
  assumes "0 < lib_minDefaultTTL lib" "lib_minDefaultTTL lib \<le> lib_maxDefaultTTL lib div 2"
    and "lib_maxDefaultTTL lib \<le> 4294967295 * second" "vc_failTTL c \<le> 4294967295 * second"
    and "e = newEntry q res stored (ttlFor lib c res t)" "stored \<le> now"
    and "m = toMsg lib e req now do ad" "r \<in> set (m_answer m @ m_ns m @ m_extra m)"
  shows "uint (hdr_ttl (rr_header r)) = max 0 (remaining e now) div second \<and>
    uint (hdr_ttl (rr_header r)) * second \<le> max 0 (ttlFor lib c res t - (now - stored)) \<and>
    (if t = ServerError then ce_origTTL e = vc_failTTL c
     else lib_minDefaultTTL lib \<le> ce_origTTL e \<and> ce_origTTL e \<le> lib_maxDefaultTTL lib)"
proof -
  have f: "ce_origTTL e = ttlFor lib c res t" "ce_stored e = stored" by (simp_all add: assms(5) newEntry_def)
  have le: "ce_origTTL e \<le> 4294967295 * second"
    using ttlFor_bounds [OF assms(1,2), of t c res] assms(3,4) by (cases "t = ServerError") (auto simp: f)
  have h: "hdr_ttl (rr_header r) = replyTTL e now"
    using assms(7,8) by (auto simp: toMsg_def Let_def dest!: copyWithTTL_header)
  have u: "uint (hdr_ttl (rr_header r)) = max 0 (remaining e now) div second"
    unfolding h by (rule replyTTL_exact [OF le]) (simp add: f assms(6))
  have "x div second * second \<le> x" for x
    using minus_mod_eq_div_mult [of x second] pos_mod_sign [of second x] by (simp add: second_def)
  then have "uint (hdr_ttl (rr_header r)) * second \<le> max 0 (remaining e now)" unfolding u .
  with u f ttlFor_bounds [OF assms(1,2), of t c res] show ?thesis by (simp add: remaining_def)
qed

theorem cached_ttl_bounds_witness:
  "uint (hdr_ttl (rr_header (hd (m_answer (toMsg (exLib :: centry dnslib)
     (newEntry ''a.'' (zero_msg\<lparr>m_answer := [OtherRR \<lparr>hdr_name = ''a.'', hdr_rrtype = 16, hdr_ttl = 9\<rparr> []]\<rparr>) 0
       (ttlFor (exLib :: centry dnslib) exCache zero_msg NoError)) zero_msg second False False))))) * second
   \<le> 3600 * second"
proof -
  let ?res = "zero_msg\<lparr>m_answer := [OtherRR \<lparr>hdr_name = ''a.'', hdr_rrtype = 16, hdr_ttl = 9\<rparr> []]\<rparr>"
  let ?e = "newEntry ''a.'' ?res 0 (ttlFor (exLib :: centry dnslib) exCache ?res NoError)"
  let ?m = "toMsg (exLib :: centry dnslib) ?e zero_msg second False False"
  let ?r = "hd (m_answer ?m)"
  have ttl: "ttlFor (exLib :: centry dnslib) exCache x NoError = 3600 * second" for x
    by (simp add: ttlFor_def exLib_def clampDuration_def second_def Let_def)
  have r: "?r \<in> set (m_answer ?m @ m_ns ?m @ m_extra ?m)"
    by (simp add: toMsg_def newEntry_def stripOPT_def copyWithTTL_def zero_msg_def Let_def)
  have "uint (hdr_ttl (rr_header ?r)) * second \<le> max 0 (ttlFor (exLib :: centry dnslib) exCache ?res NoError - (second - 0))"
    using cached_ttl_bounds [OF _ _ _ _ refl _ refl r]
    by (simp add: exLib_def exCache_def second_def)
  then show ?thesis by (simp add: ttl second_def)
qed

text \<open>
  C8. What a client is sent is meant for it: an entry of the scoped tier whose prefix contains
  its address, an entry of its own VLAN's tier, or an upstream answer of one of three kinds: one
  shared by a call in flight for its VLAN whose reported scope, if any, contains its address; one
  shared by a call in flight under the key that names its VLAN, question and address; or one this
  query fetched itself. An answer that another client of the VLAN fetched and the upstream scoped to
  other addresses is not used. The scope of an answer fetched for this very address is not checked again,
  whatever the upstream reported. Nothing is assumed of the upstream, the store or the calls in flight.
\<close>

theorem reply_meant_for_client:
  assumes "vc_serveDNS lib c nxt during sf wok now rq ctx s = (oc, rf, c', s')" "oc_written oc = Some m"
  shows "(\<exists>x\<in>set (scopedAt (vc_store c) (vc_scopedKey lib rq)). net_contains (se_prefix x) (parseIP (rq_ip rq)) \<and>
      servable (se_e x) now (vc_staleTTL c) \<and> m = toMsg lib (se_e x) (rq_msg rq) now (rq_do rq) (m_ad (rq_msg rq))) \<or>
    (\<exists>e. map_of (cs_direct (vc_store c)) (vc_directKey lib c rq) = Some e \<and>
      servable e now (vc_staleTTL c) \<and> m = toMsg lib e (rq_msg rq) now (rq_do rq) (m_ad (rq_msg rq))) \<or>
    (\<exists>fr. sourceOfMiss lib c nxt during sf rq now ctx s fr \<and>
      m = toClientReply (fr_msg fr) (rq_msg rq) (rq_do rq) (m_ad (rq_msg rq)))"
proof (cases "getScoped (vc_store c) (vc_scopedKey lib rq) (parseIP (rq_ip rq)) now (vc_staleTTL c)")
  case (Some ef)
  obtain e fresh where ef: "ef = (e, fresh)" by (cases ef)
  with Some assms(1,2) have m: "m = toMsg lib e (rq_msg rq) now (rq_do rq) (m_ad (rq_msg rq))"
    by (auto simp: vc_serveDNS_def Let_def vc_scopedKey_def hitReply_def vc_reply_def split: if_splits prod.splits)
  from Some ef obtain x where "x \<in> set (scopedAt (vc_store c) (vc_scopedKey lib rq))"
    "eligible (parseIP (rq_ip rq)) now (vc_staleTTL c) x" "e = se_e x"
    using getScoped_Some by blast
  with m show ?thesis unfolding eligible_def by blast
next
  case scoped: None
  show ?thesis
  proof (cases "getDirect (vc_store c) (vc_directKey lib c rq) now (vc_staleTTL c)")
    case (Some ef)
    obtain e fresh where ef: "ef = (e, fresh)" by (cases ef)
    with scoped Some assms(1,2) have "m = toMsg lib e (rq_msg rq) now (rq_do rq) (m_ad (rq_msg rq))"
      by (auto simp: vc_serveDNS_def Let_def vc_scopedKey_def vc_directKey_def hitReply_def vc_reply_def
          split: if_splits prod.splits)
    moreover have "map_of (cs_direct (vc_store c)) (vc_directKey lib c rq) = Some e \<and> servable e now (vc_staleTTL c)"
      using Some ef by (auto simp: getDirect_def servable_def split: option.splits if_splits)
    ultimately show ?thesis by blast
  next
    case None
    show ?thesis
      using miss_reply_source [OF assms scoped None] missReply_written assms(2) by blast
  qed
qed

text \<open>A call in flight for the VLAN has an answer scoped to \<open>10.0.9.0/24\<close>; the client is \<open>10.0.0.1\<close>.\<close>

definition exScoped :: fetchResult where
  "exScoped = \<lparr>fr_msg = zero_msg\<lparr>m_rcode := 3\<rparr>, fr_prefix = Some \<lparr>net_ip = [10, 0, 9, 0], net_mask = [255, 255, 255, 0]\<rparr>\<rparr>"

definition exShared :: "string \<Rightarrow> fetchResult option option" where
  "exShared key = (if CHR ''|'' \<in> set key then None
     else Some (Some exScoped))"

definition exUpstream :: "nat handler" where
  "exUpstream rq ctx n = (\<lparr>oc_rcode = 0, oc_err = False, oc_written = Some (rq_msg rq), oc_ctx = ctx\<rparr>, Suc n)"

lemma base36_no_bar: "n < 36 \<Longrightarrow> base36 n \<noteq> CHR ''|''"
  by (auto simp: base36_def dest: arg_cong [where f = "of_char :: char \<Rightarrow> nat"])

lemma formatUint36_no_bar: "CHR ''|'' \<notin> set (formatUint36 n)"
proof (induction n rule: formatUint36.induct)
  case (1 n)
  then show ?case using base36_no_bar [of "n mod 36"] base36_no_bar [of n]
    by (cases "n < 36") (auto simp: formatUint36.simps [of n] simp del: formatUint36.simps)
qed

theorem reply_meant_for_client_witness:
  "\<exists>oc rf c' s' m. vc_serveDNS exLib exCache exUpstream id exShared True 0 exRequest None 0 = (oc, rf, c', s') \<and>
     oc_written oc = Some m \<and> m = toClientReply (rq_msg exRequest) (rq_msg exRequest) False False"
proof -
  let ?rq = exRequest and ?ip = "parseIP ''10.0.0.1''"
  have flds: "rq_ip ?rq = ''10.0.0.1''" "rq_do ?rq = False" "m_ad (rq_msg ?rq) = False"
    by (simp_all add: exRequest_def zero_msg_def)
  have ip: "?ip = [0, 0, 0, 0, 0, 0, 0, 0, 0, 0, 255, 255, 10, 0, 0, 1]" by code_simp
  have out: "\<not> net_contains \<lparr>net_ip = [10, 0, 9, 0], net_mask = [255, 255, 255, 0]\<rparr> ?ip"
    unfolding ip by code_simp
  have none: "scopedAt (vc_store exCache) k = []" "map_of (cs_direct (vc_store exCache)) k = None" for k
    by (simp_all add: exCache_def newStore_def scopedAt_def)
  have p: "scopePrefix exLib m a = None" for m a by (simp add: scopePrefix_def exLib_def)
  have own: "fst (ownFetch exLib c exUpstream id ?rq 0 ctx n) = Some \<lparr>fr_msg = rq_msg ?rq, fr_prefix = None\<rparr>" for c ctx n
    by (simp add: ownFetch_def fetchLeader_def exUpstream_def storeResult_def Let_def p)
  have bar: "CHR ''|'' \<notin> set (vc_bucketKey exLib exCache ?rq)"
    unfolding vc_bucketKey_def by (rule formatUint36_no_bar)
  have in_flight: "exShared (vc_bucketKey exLib exCache ?rq) = Some (Some exScoped)"
    "exShared (vc_bucketKey exLib exCache ?rq @ ''|'' @ t) = None" for t
    using bar by (simp_all add: exShared_def)
  have far: "\<not> covers exScoped ?ip" using out by (simp add: covers_def exScoped_def ip)
  have src: "fr = \<lparr>fr_msg = rq_msg ?rq, fr_prefix = None\<rparr>"
    if "sourceOfMiss exLib exCache exUpstream id exShared ?rq 0 None 0 fr" for fr
  proof -
    obtain r c1 ctx1 s1 where o1: "ownFetch exLib exCache exUpstream id ?rq 0 None 0 = (r, c1, ctx1, s1)"
      by (cases "ownFetch exLib exCache exUpstream id ?rq 0 None 0")
    with that far own [of exCache None 0] own [of c1 ctx1 s1] show ?thesis
      unfolding sourceOfMiss_def in_flight flds by auto
  qed
  obtain oc rf c' s' where o: "vc_serveDNS exLib exCache exUpstream id exShared True 0 ?rq None 0 = (oc, rf, c', s')"
    by (cases "vc_serveDNS exLib exCache exUpstream id exShared True 0 ?rq None 0")
  have miss: "getScoped (vc_store exCache) k a 0 st = None" "getDirect (vc_store exCache) k 0 st = None" for k a st
    by (simp_all add: exCache_def getScoped_None scopedAt_def newStore_def getDirect_def)
  have "\<exists>m. oc_written oc = Some m"
    using o far
    by (subst (asm) vc_serveDNS_miss [OF miss(1) miss(2)])
      (auto simp: vc_fetch_def in_flight in_flight(2) [simplified] appliesTo_iff flds fetchLeader_def exUpstream_def storeResult_def Let_def p
        missReply_def vc_reply_def split: if_splits)
  then obtain m where m: "oc_written oc = Some m" by blast
  have "m = toClientReply (rq_msg ?rq) (rq_msg ?rq) False False"
  proof -
    from reply_meant_for_client [OF o m] obtain fr where
      fr: "sourceOfMiss exLib exCache exUpstream id exShared ?rq 0 None 0 fr" "m = toClientReply (fr_msg fr) (rq_msg ?rq) False False"
      unfolding none flds by auto
    then show ?thesis using src [OF fr(1)] by simp
  qed
  with o m show ?thesis by blast
qed

text \<open>
  A failure of the upstream is remembered. If the rest of the chain fails without writing a
  message and no flush intervenes, then for the configured time every query with the same key is
  answered from the cache, with the failure, and does not reach the upstream.
\<close>

theorem upstream_failure_cached:
  assumes doc: "cache_add_doc (lib_cacheAdd lib)"
    and miss: "getScoped (vc_store c) (vc_scopedKey lib rq) (parseIP (rq_ip rq)) now (vc_staleTTL c) = None"
      "getDirect (vc_store c) (vc_directKey lib c rq) now (vc_staleTTL c) = None"
    and lead: "sf (vc_bucketKey lib c rq) = None"
    and fails: "nxt rq ctx s = (noc, s1)" "oc_written noc = None" "oc_err noc"
    and epoch: "cs_epoch (during (vc_store c)) = cs_epoch (vc_store c)"
    and sf: "res = lib_setRcode lib (rq_msg rq) rcodeServerFailure" "lib_typify lib res now = ServerError" "\<not> m_truncated res"
    and t: "now \<le> now'" "now' < now + vc_failTTL c"
    and serve: "vc_serveDNS lib c nxt during sf wok now rq ctx s = (oc, rf, c', s')"
  shows "\<exists>e. getDirect (vc_store c') (vc_directKey lib c rq) now' (vc_staleTTL c) = Some (e, True) \<and>
    ce_rcode e = m_rcode res"
proof -
  let ?e = "newEntry (lib_canonicalName lib (questionName (rq_msg rq))) res now (vc_failTTL c)"
  have ttl: "ttlFor lib c m ServerError = vc_failTTL c" for m by (simp add: ttlFor_def Let_def)
  have "storeResult lib c d k a (rq_msg rq) res now = (\<lparr>fr_msg = res, fr_prefix = None\<rparr>, setDirect lib d ?e)" for d k a
    using sf t by (simp add: storeResult_def Let_def ttl cacheable_def split: option.splits)
  then have "c' = c\<lparr>vc_store := setDirect lib (vc_directKey lib c rq) ?e (during (vc_store c))\<rparr>"
    using serve lead fails epoch sf(1)
    by (simp add: vc_serveDNS_miss [OF miss] vc_fetch_def fetchLeader_def Let_def appliesTo_def ifCurrent_def
        generation_def)
  moreover have "remaining ?e now' > 0" "ce_rcode ?e = m_rcode res"
    using t by (simp_all add: remaining_def newEntry_def)
  ultimately show ?thesis by (auto simp: getDirect_same [OF doc] servable_def)
qed

theorem upstream_failure_cached_witness:
  "\<exists>oc rf c' s' e. vc_serveDNS exLib exCache
      (\<lambda>rq ctx n. (\<lparr>oc_rcode = 2, oc_err = True, oc_written = None, oc_ctx = ctx\<rparr>, Suc n)) id (\<lambda>_. None)
      True 0 exRequest None 0 = (oc, rf, c', s') \<and>
     getDirect (vc_store c') (vc_directKey (exLib :: centry dnslib) exCache exRequest) second 0 = Some (e, True) \<and>
     ce_rcode e = rcodeServerFailure"
proof -
  let ?next = "\<lambda>rq ctx n. (\<lparr>oc_rcode = 2, oc_err = True, oc_written = None, oc_ctx = ctx\<rparr>, Suc n)"
  obtain oc rf c' s' where o: "vc_serveDNS exLib exCache ?next id (\<lambda>_. None) True 0 exRequest None 0 = (oc, rf, c', s')"
    by (cases "vc_serveDNS exLib exCache ?next id (\<lambda>_. None) True 0 exRequest None 0")
  have miss: "getScoped (vc_store exCache) k a 0 st = None" "getDirect (vc_store exCache) k 0 st = None" for k a st
    by (simp_all add: exCache_def getScoped_None scopedAt_def newStore_def getDirect_def)
  have f: "?next exRequest None 0 = (\<lparr>oc_rcode = 2, oc_err = True, oc_written = None, oc_ctx = None\<rparr>, Suc 0)" by simp
  have "\<exists>e. getDirect (vc_store c') (vc_directKey (exLib :: centry dnslib) exCache exRequest) second (vc_staleTTL exCache) = Some (e, True) \<and>
      ce_rcode e = m_rcode (lib_setRcode (exLib :: centry dnslib) (rq_msg exRequest) rcodeServerFailure)"
    by (rule upstream_failure_cached [OF exLib_add miss(1) miss(2) _ f _ _ _ refl _ _ _ _ o])
      (simp_all add: exLib_def exCache_def exRequest_def second_def simpleReply_def zero_msg_def)
  with o show ?thesis by (auto simp: exLib_def exCache_def)
qed

text \<open>
  Clearing the cache empties every running instance, leaves the others alone, and reports
  the number of entries that were dropped.
\<close>

theorem flush_all_instances:
  assumes "distinct (rg_live g)" "Flush g = (g', n)"
  shows "(\<forall>i. i \<in> set (rg_live g) \<longrightarrow> cs_direct (vc_store (rg_cache g' i)) = [] \<and> cs_scoped (vc_store (rg_cache g' i)) = []) \<and>
    (\<forall>i. i \<notin> set (rg_live g) \<longrightarrow> vc_store (rg_cache g' i) = vc_store (rg_cache g i)) \<and>
    n = sum_list (map (\<lambda>i. storeSize (vc_store (rg_cache g i))) (rg_live g))"
  using flushWith_fold [OF assms(1), of clear g 0 g' n] assms(2)
  by (simp add: Flush_def flushWith_def clear_size)

theorem flush_all_instances_witness:
  "distinct (rg_live \<lparr>rg_live = [1, 2], rg_cache = (\<lambda>_. exCache)\<rparr>) \<and>
   snd (Flush \<lparr>rg_live = [1, 2], rg_cache = (\<lambda>_. exCache\<lparr>vc_store := setDirect exLib 3 exEntry newStore\<rparr>)\<rparr>) = 2"
proof -
  let ?g = "\<lparr>rg_live = [1, 2], rg_cache = (\<lambda>_. exCache\<lparr>vc_store := setDirect exLib 3 exEntry newStore\<rparr>)\<rparr>"
  obtain g' n where f: "Flush ?g = (g', n)" by (cases "Flush ?g")
  have d: "distinct (rg_live ?g)" by simp
  from flush_all_instances [OF d f] have "n = 2"
    by (simp add: storeSize_def setDirect_def exLib_def newStore_def)
  with f show ?thesis by simp
qed

end
