(* ===== verification/Config_Store.thy ===== *)
theory Config_Store
  imports Configgen
begin

text \<open>
  The files of the configuration directory: \<^verbatim>\<open>internal/store\<close> (the YAML files of the user), the
  writes of generated files in \<^verbatim>\<open>internal/configgen/runtime.go\<close>, and the plugin registry
  \<^verbatim>\<open>pluginreg/registry.go\<close>.

  The file system is a map from paths to contents. A write goes through the states of the file
  system that a reader, or a machine that comes up after a crash, can see; which calls fail is an
  argument. The YAML package is an argument too.
\<close>

section \<open>Atomic writes\<close>

type_synonym fs = "string \<rightharpoonup> string"

text \<open>Which call of a write fails; \<open>wf_partial\<close> is what a failed write leaves in the file.\<close>

record write_faults =
  wf_mkdir :: bool
  wf_createTemp :: bool
  wf_write :: bool
  wf_partial :: string
  wf_chmod :: bool
  wf_sync :: bool
  wf_close :: bool
  wf_rename :: bool
  wf_remove :: bool

definition wf_fine :: write_faults where
  "wf_fine = \<lparr>wf_mkdir = False, wf_createTemp = False, wf_write = False, wf_partial = [], wf_chmod = False,
     wf_sync = False, wf_close = False, wf_rename = False, wf_remove = False\<rparr>"

datatype write_error = MkdirErr | CreateTempErr | WriteErr | ChmodErr | SyncErr | CloseErr | RenameErr

text \<open>Removing the temporary file, if it is there.\<close>

definition cleanup :: "write_faults \<Rightarrow> string \<Rightarrow> fs \<Rightarrow> fs" where
  "cleanup f tmp fs = (if fs tmp \<noteq> None \<and> \<not> wf_remove f then fs(tmp := None) else fs)"

text \<open>\<^verbatim>\<open>atomicWrite\<close>: the error and the states of the file system, the last one when it returns.\<close>

definition atomicWrite :: "write_faults \<Rightarrow> string \<Rightarrow> string \<Rightarrow> string \<Rightarrow> fs \<Rightarrow> write_error option \<times> fs list" where
  "atomicWrite f tmp path data fs =
     (if wf_mkdir f then (Some MkdirErr, [fs])
      else if wf_createTemp f then (Some CreateTempErr, [fs])
      else let fs1 = fs(tmp \<mapsto> []) in
        if wf_write f then
          let fs2 = fs1(tmp \<mapsto> wf_partial f) in (Some WriteErr, [fs, fs1, fs2, cleanup f tmp fs2])
        else let fs2 = fs1(tmp \<mapsto> data) in
          if wf_chmod f then (Some ChmodErr, [fs, fs1, fs2, cleanup f tmp fs2])
          else if wf_sync f then (Some SyncErr, [fs, fs1, fs2, cleanup f tmp fs2])
          else if wf_close f then (Some CloseErr, [fs, fs1, fs2, cleanup f tmp fs2])
          else if wf_rename f then (Some RenameErr, [fs, fs1, fs2, cleanup f tmp fs2])
          else let fs3 = (fs2(path \<mapsto> data))(tmp := None) in (None, [fs, fs1, fs2, fs3, cleanup f tmp fs3]))"

text \<open>\<^verbatim>\<open>writeFileAtomic\<close> of the generated files: the same without permissions and synchronisation.\<close>

definition writeFileAtomic :: "write_faults \<Rightarrow> string \<Rightarrow> string \<Rightarrow> string \<Rightarrow> fs \<Rightarrow> write_error option \<times> fs list" where
  "writeFileAtomic f tmp path data fs =
     (if wf_mkdir f then (Some MkdirErr, [fs])
      else if wf_createTemp f then (Some CreateTempErr, [fs])
      else let fs1 = fs(tmp \<mapsto> []) in
        if wf_write f then
          let fs2 = fs1(tmp \<mapsto> wf_partial f) in (Some WriteErr, [fs, fs1, fs2, cleanup f tmp fs2])
        else let fs2 = fs1(tmp \<mapsto> data) in
          if wf_close f then (Some CloseErr, [fs, fs1, fs2, cleanup f tmp fs2])
          else if wf_rename f then (Some RenameErr, [fs, fs1, fs2, cleanup f tmp fs2])
          else let fs3 = (fs2(path \<mapsto> data))(tmp := None) in (None, [fs, fs1, fs2, fs3]))"

section \<open>The user's files\<close>

definition settingsPath :: "string \<Rightarrow> string" where "settingsPath dir = dir @ ''/settings.yaml''"
definition recordsPath :: "string \<Rightarrow> string" where "recordsPath dir = dir @ ''/records.yaml''"
definition hostsPath :: "string \<Rightarrow> string" where "hostsPath dir = dir @ ''/hosts.yaml''"

text \<open>The YAML package on the three types; \<open>None\<close> is an error.\<close>

record yaml_lib =
  y_settings :: "settings \<Rightarrow> string option"
  y_records :: "recordSet \<Rightarrow> string option"
  y_hosts :: "hostSet \<Rightarrow> string option"
  y_toSettings :: "string \<Rightarrow> settings option"
  y_toRecords :: "string \<Rightarrow> recordSet option"
  y_toHosts :: "string \<Rightarrow> hostSet option"

text \<open>What is marshalled reads back.\<close>

definition yaml_doc :: "yaml_lib \<Rightarrow> bool" where
  "yaml_doc y \<longleftrightarrow> (\<forall>s b. y_settings y s = Some b \<longrightarrow> y_toSettings y b = Some s) \<and>
     (\<forall>r b. y_records y r = Some b \<longrightarrow> y_toRecords y b = Some r) \<and>
     (\<forall>h b. y_hosts y h = Some b \<longrightarrow> y_toHosts y b = Some h)"

datatype store_error = ReadFailed string | ParseFailed string | MarshalFailed string | WriteFailed write_error

definition readYAML :: "(string \<Rightarrow> 'a option) \<Rightarrow> string \<Rightarrow> fs \<Rightarrow> store_error + 'a" where
  "readYAML unmarshal path fs = (case fs path of
     None \<Rightarrow> Inl (ReadFailed path)
   | Some raw \<Rightarrow> (case unmarshal raw of None \<Rightarrow> Inl (ParseFailed path) | Some x \<Rightarrow> Inr x))"

definition writeYAML ::
  "('a \<Rightarrow> string option) \<Rightarrow> write_faults \<Rightarrow> string \<Rightarrow> string \<Rightarrow> 'a \<Rightarrow> fs \<Rightarrow> store_error option \<times> fs list" where
  "writeYAML marshal f tmp path x fs = (case marshal x of
     None \<Rightarrow> (Some (MarshalFailed path), [fs])
   | Some raw \<Rightarrow> (case atomicWrite f tmp path raw fs of (e, tr) \<Rightarrow> (map_option WriteFailed e, tr)))"

definition settingsExist :: "string \<Rightarrow> fs \<Rightarrow> bool" where
  "settingsExist dir fs = (fs (settingsPath dir) \<noteq> None)"

definition loadSettings :: "yaml_lib \<Rightarrow> string \<Rightarrow> fs \<Rightarrow> store_error + settings" where
  "loadSettings y dir fs = readYAML (y_toSettings y) (settingsPath dir) fs"

definition store_loadRecords :: "yaml_lib \<Rightarrow> string \<Rightarrow> fs \<Rightarrow> store_error + recordSet" where
  "store_loadRecords y dir fs =
     (if fs (recordsPath dir) = None then Inr [] else readYAML (y_toRecords y) (recordsPath dir) fs)"

definition loadHosts :: "yaml_lib \<Rightarrow> string \<Rightarrow> fs \<Rightarrow> store_error + hostSet" where
  "loadHosts y dir fs =
     (if fs (hostsPath dir) = None then Inr [] else readYAML (y_toHosts y) (hostsPath dir) fs)"

definition saveSettings ::
  "yaml_lib \<Rightarrow> write_faults \<Rightarrow> string \<Rightarrow> string \<Rightarrow> settings \<Rightarrow> fs \<Rightarrow> store_error option \<times> fs list" where
  "saveSettings y f tmp dir s fs = writeYAML (y_settings y) f tmp (settingsPath dir) s fs"

definition saveRecords ::
  "yaml_lib \<Rightarrow> write_faults \<Rightarrow> string \<Rightarrow> string \<Rightarrow> recordSet \<Rightarrow> fs \<Rightarrow> store_error option \<times> fs list" where
  "saveRecords y f tmp dir r fs = writeYAML (y_records y) f tmp (recordsPath dir) r fs"

definition saveHosts ::
  "yaml_lib \<Rightarrow> write_faults \<Rightarrow> string \<Rightarrow> string \<Rightarrow> hostSet \<Rightarrow> fs \<Rightarrow> store_error option \<times> fs list" where
  "saveHosts y f tmp dir h fs = writeYAML (y_hosts y) f tmp (hostsPath dir) h fs"

section \<open>The plugin registry\<close>

datatype plugin_kind = CoreDNSPlugin | BrambleOnly

record plugin_desc =
  pd_name :: string
  pd_kind :: plugin_kind
  pd_required :: bool
  pd_dependsOn :: "string list"

record plugin_state =
  ps_loaded :: bool
  ps_reason :: string

record plugin_registry =
  pr_descs :: "(string \<times> plugin_desc) list"
  pr_states :: "string \<Rightarrow> plugin_state"

definition zero_plugin_state :: plugin_state where
  "zero_plugin_state = \<lparr>ps_loaded = False, ps_reason = []\<rparr>"

definition new_registry :: plugin_registry where
  "new_registry = \<lparr>pr_descs = [], pr_states = (\<lambda>_. zero_plugin_state)\<rparr>"

fun upd_desc :: "plugin_desc \<Rightarrow> (string \<times> plugin_desc) list \<Rightarrow> (string \<times> plugin_desc) list" where
  "upd_desc d [] = [(pd_name d, d)]"
| "upd_desc d ((n, d') # ds) = (if n = pd_name d then (n, d) # ds else (n, d') # upd_desc d ds)"

definition pr_register :: "plugin_desc \<Rightarrow> plugin_registry \<Rightarrow> plugin_registry" where
  "pr_register d r = r\<lparr>pr_descs := upd_desc d (pr_descs r)\<rparr>"

definition setLoaded :: "string \<Rightarrow> bool \<Rightarrow> string \<Rightarrow> plugin_registry \<Rightarrow> plugin_registry" where
  "setLoaded n loaded reason r = r\<lparr>pr_states := (pr_states r)(n := \<lparr>ps_loaded = loaded, ps_reason = reason\<rparr>)\<rparr>"

definition pr_loaded :: "string \<Rightarrow> plugin_registry \<Rightarrow> bool" where
  "pr_loaded n r = ps_loaded (pr_states r n)"

definition pr_get :: "string \<Rightarrow> plugin_registry \<Rightarrow> (plugin_desc \<times> plugin_state) option" where
  "pr_get n r = map_option (\<lambda>d. (d, pr_states r n)) (map_of (pr_descs r) n)"

definition pr_all :: "plugin_registry \<Rightarrow> (plugin_desc \<times> plugin_state) list" where
  "pr_all r = sort_key (\<lambda>(d, _). pd_name d) (map (\<lambda>(n, d). (d, pr_states r n)) (pr_descs r))"

datatype registry_error = DependsOnUnregistered string string | RequiredNotLoaded string

text \<open>\<^verbatim>\<open>Validate\<close>: the errors that are joined, none for the nil error.\<close>

definition pr_validate :: "plugin_registry \<Rightarrow> registry_error list" where
  "pr_validate r = concat (map (\<lambda>(_, d).
     concat (map (\<lambda>dep. if map_of (pr_descs r) dep = None then [DependsOnUnregistered (pd_name d) dep] else []) (pd_dependsOn d)) @
     (if pd_required d \<and> \<not> ps_loaded (pr_states r (pd_name d)) then [RequiredNotLoaded (pd_name d)] else [])) (pr_descs r))"

section \<open>Atomicity\<close>

lemma atomicWrite_states:
  assumes "tmp \<noteq> path" "atomicWrite f tmp path data fs = (e, tr)"
  shows "tr \<noteq> [] \<and> (\<forall>s\<in>set tr. (s path = fs path \<or> s path = Some data) \<and> (\<forall>p. p \<noteq> path \<longrightarrow> p \<noteq> tmp \<longrightarrow> s p = fs p)) \<and>
    last tr path = (if e = None then Some data else fs path)"
  using assms by (auto simp: atomicWrite_def cleanup_def Let_def split: if_splits)

lemma writeFileAtomic_states:
  assumes "tmp \<noteq> path" "writeFileAtomic f tmp path data fs = (e, tr)"
  shows "tr \<noteq> [] \<and> (\<forall>s\<in>set tr. (s path = fs path \<or> s path = Some data) \<and> (\<forall>p. p \<noteq> path \<longrightarrow> p \<noteq> tmp \<longrightarrow> s p = fs p)) \<and>
    last tr path = (if e = None then Some data else fs path)"
  using assms by (auto simp: writeFileAtomic_def cleanup_def Let_def split: if_splits)

text \<open>
  C28. Configuration files are replaced atomically: in every state a reader or a crash can meet
  during a save, the file has its old content or the whole new one, every other file but the
  temporary one is untouched, and the save reports success exactly if the new content is in place.
  After an error-free cleanup no temporary file is left.
\<close>

theorem save_atomic:
  assumes "tmp \<noteq> path" "fs tmp = None" "atomicWrite f tmp path data fs = (e, tr)"
  shows "(\<forall>s\<in>set tr. (s path = fs path \<or> s path = Some data) \<and> (\<forall>p. p \<noteq> path \<longrightarrow> p \<noteq> tmp \<longrightarrow> s p = fs p)) \<and>
    last tr path = (if e = None then Some data else fs path) \<and> (\<not> wf_remove f \<longrightarrow> last tr tmp = None)"
proof -
  have "last tr tmp = None" if "\<not> wf_remove f"
    using assms that by (auto simp: atomicWrite_def cleanup_def Let_def split: if_splits)
  with atomicWrite_states [OF assms(1,3)] show ?thesis by blast
qed

theorem save_atomic_witness:
  "last (snd (atomicWrite wf_fine ''.t'' ''s'' ''new'' (Map.empty(''s'' \<mapsto> ''old'')))) ''s'' = Some ''new''"
  using save_atomic [of "''.t''" "''s''" "Map.empty(''s'' \<mapsto> ''old'')" wf_fine "''new''", OF _ _ surjective_pairing]
  by (simp add: atomicWrite_def wf_fine_def Let_def)

section \<open>The contract of a configuration file\<close>

text \<open>
  What the service relies on for each of its three files: a save that reports success has put
  the encoded value in place, a failed one has left the old content, and neither touches another
  file but the temporary one.
\<close>

locale config_file =
  fixes save :: "write_faults \<Rightarrow> string \<Rightarrow> string \<Rightarrow> 'a \<Rightarrow> fs \<Rightarrow> store_error option \<times> fs list"
    and path :: "string \<Rightarrow> string"
    and enc :: "'a \<Rightarrow> string option"
  assumes saved: "tmp \<noteq> path dir \<Longrightarrow> save f tmp dir x fs = (None, tr) \<Longrightarrow> \<exists>b. enc x = Some b \<and> last tr (path dir) = Some b"
    and failed: "tmp \<noteq> path dir \<Longrightarrow> save f tmp dir x fs = (Some e, tr) \<Longrightarrow> last tr (path dir) = fs (path dir)"
    and frame: "tmp \<noteq> path dir \<Longrightarrow> save f tmp dir x fs = (r, tr) \<Longrightarrow> p \<noteq> path dir \<Longrightarrow> p \<noteq> tmp \<Longrightarrow> last tr p = fs p"
begin

lemma saved_reads:
  assumes "tmp \<noteq> path dir" "save f tmp dir x fs = (None, tr)" "\<And>b. enc x = Some b \<Longrightarrow> dec b = Some x"
  shows "readYAML dec (path dir) (last tr) = Inr x" "last tr (path dir) \<noteq> None"
  using saved [OF assms(1,2)] assms(3) by (auto simp: readYAML_def)

lemma failed_keeps: "tmp \<noteq> path dir \<Longrightarrow> save f tmp dir x fs = (Some e, tr) \<Longrightarrow> p \<noteq> tmp \<Longrightarrow> last tr p = fs p"
  using failed frame by metis

end

lemma writeYAML_states:
  assumes "writeYAML enc f tmp path x fs = (r, tr)" "tmp \<noteq> path"
  shows "(r = None \<longrightarrow> (\<exists>b. enc x = Some b \<and> last tr path = Some b)) \<and> (r \<noteq> None \<longrightarrow> last tr path = fs path) \<and>
    (\<forall>p. p \<noteq> path \<longrightarrow> p \<noteq> tmp \<longrightarrow> last tr p = fs p)"
proof (cases "enc x")
  case None
  then show ?thesis using assms(1) by (auto simp: writeYAML_def)
next
  case (Some b)
  then obtain e where w: "atomicWrite f tmp path b fs = (e, tr)" "r = map_option WriteFailed e"
    using assms(1) by (auto simp: writeYAML_def split: prod.splits)
  from atomicWrite_states [OF assms(2) w(1)] have st: "tr \<noteq> []" "last tr path = (if e = None then Some b else fs path)"
    "\<forall>s\<in>set tr. \<forall>p. p \<noteq> path \<longrightarrow> p \<noteq> tmp \<longrightarrow> s p = fs p" by auto
  show ?thesis using st(2,3) last_in_set [OF st(1)] w(2) Some by auto
qed

interpretation settings_file: config_file "saveSettings y" settingsPath "y_settings y" for y
  by unfold_locales (auto simp: saveSettings_def dest: writeYAML_states)

interpretation records_file: config_file "saveRecords y" recordsPath "y_records y" for y
  by unfold_locales (auto simp: saveRecords_def dest: writeYAML_states)

interpretation hosts_file: config_file "saveHosts y" hostsPath "y_hosts y" for y
  by unfold_locales (auto simp: saveHosts_def dest: writeYAML_states)

section \<open>What is saved loads\<close>

lemma paths_distinct [simp]:
  "settingsPath d \<noteq> recordsPath d" "settingsPath d \<noteq> hostsPath d" "recordsPath d \<noteq> hostsPath d"
  "recordsPath d \<noteq> settingsPath d" "hostsPath d \<noteq> settingsPath d" "hostsPath d \<noteq> recordsPath d"
  by (simp_all add: settingsPath_def recordsPath_def hostsPath_def)

lemma loads_unchanged:
  "fs' (settingsPath dir) = fs (settingsPath dir) \<Longrightarrow> loadSettings y dir fs' = loadSettings y dir fs"
  "fs' (recordsPath dir) = fs (recordsPath dir) \<Longrightarrow> store_loadRecords y dir fs' = store_loadRecords y dir fs"
  "fs' (hostsPath dir) = fs (hostsPath dir) \<Longrightarrow> loadHosts y dir fs' = loadHosts y dir fs"
  by (simp_all add: loadSettings_def store_loadRecords_def loadHosts_def readYAML_def)

lemma saved_settings_load:
  assumes "yaml_doc y" "tmp \<notin> {settingsPath dir, recordsPath dir, hostsPath dir}" "saveSettings y f tmp dir s fs = (None, tr)"
  shows "loadSettings y dir (last tr) = Inr s \<and> store_loadRecords y dir (last tr) = store_loadRecords y dir fs \<and>
      loadHosts y dir (last tr) = loadHosts y dir fs"
  using settings_file.saved_reads(1) [OF _ assms(3), of "y_toSettings y"] settings_file.frame [OF _ assms(3)] assms(1,2)
  by (auto simp: loadSettings_def yaml_doc_def intro!: loads_unchanged)

lemma saved_records_load:
  assumes "yaml_doc y" "tmp \<notin> {settingsPath dir, recordsPath dir, hostsPath dir}" "saveRecords y f tmp dir r fs = (None, tr)"
  shows "store_loadRecords y dir (last tr) = Inr r \<and> loadSettings y dir (last tr) = loadSettings y dir fs \<and>
      loadHosts y dir (last tr) = loadHosts y dir fs"
  using records_file.saved_reads [OF _ assms(3), of "y_toRecords y"] records_file.frame [OF _ assms(3)] assms(1,2)
  by (auto simp: store_loadRecords_def yaml_doc_def intro!: loads_unchanged)

lemma saved_hosts_load:
  assumes "yaml_doc y" "tmp \<notin> {settingsPath dir, recordsPath dir, hostsPath dir}" "saveHosts y f tmp dir h fs = (None, tr)"
  shows "loadHosts y dir (last tr) = Inr h \<and> loadSettings y dir (last tr) = loadSettings y dir fs \<and>
      store_loadRecords y dir (last tr) = store_loadRecords y dir fs"
  using hosts_file.saved_reads [OF _ assms(3), of "y_toHosts y"] hosts_file.frame [OF _ assms(3)] assms(1,2)
  by (auto simp: loadHosts_def yaml_doc_def intro!: loads_unchanged)

lemma concat_if_Nil: "concat (map (\<lambda>x. if P x then [f x] else []) xs) = [] \<longleftrightarrow> (\<forall>x\<in>set xs. \<not> P x)"
  by (induction xs) auto

text \<open>
  The registry reports no error exactly if every declared dependency is registered and every
  required component is loaded; the list of all components is sorted by name.
\<close>

lemma registry_validate_exact:
  "(pr_validate r = [] \<longleftrightarrow> (\<forall>(n, d)\<in>set (pr_descs r).
      (\<forall>dep\<in>set (pd_dependsOn d). map_of (pr_descs r) dep \<noteq> None) \<and> (pd_required d \<longrightarrow> pr_loaded (pd_name d) r))) \<and>
   sorted (map (\<lambda>(d, _). pd_name d) (pr_all r))"
proof
  have nil: "concat (map g xs) = [] \<longleftrightarrow> (\<forall>x\<in>set xs. g x = [])" for g :: "string \<times> plugin_desc \<Rightarrow> registry_error list" and xs
    by (induction xs) auto
  show "pr_validate r = [] \<longleftrightarrow> (\<forall>(n, d)\<in>set (pr_descs r).
      (\<forall>dep\<in>set (pd_dependsOn d). map_of (pr_descs r) dep \<noteq> None) \<and> (pd_required d \<longrightarrow> pr_loaded (pd_name d) r))"
    unfolding pr_validate_def nil case_prod_unfold append_is_Nil_conv concat_if_Nil by (simp add: pr_loaded_def) blast
  show "sorted (map (\<lambda>(d, _). pd_name d) (pr_all r))" unfolding pr_all_def by (rule sorted_sort_key)
qed

end
