(* ===== verification/Client_Names.thy ===== *)
theory Client_Names
  imports Mdns_Table
begin

text \<open>
  Client names: \<^verbatim>\<open>plugins/clientnames\<close>. A table of the client addresses seen, with a name from
  the hosts file, from the discovery table or from a cached reverse lookup.

  The discovery table is shared; its state at the time of a call is an argument. A resolver is a
  function that fails, gives no name or gives one; the exchange of the real one with its upstream
  is an argument of \<open>ptrLookup\<close>. The calls of the request path, the worker and the hourly sweep
  are operations, so that a list of operations is an interleaving.
\<close>

section \<open>Entries, configuration, resolvers\<close>

datatype cn_source = SourceHosts | SourceMDNS | SourcePTR | SourceNone

record cnEntry =
  ce_ip :: string
  ce_vlan :: string
  ce_hostname :: string
  ce_source :: cn_source
  ce_lastSeen :: time
  ce_resolvedAt :: time

type_synonym resolver = "string \<Rightarrow> string option"

text \<open>
  \<^verbatim>\<open>dnsResolver.Lookup\<close>: \<open>reverseAddr\<close> is \<^verbatim>\<open>dns.ReverseAddr\<close>, and the exchange gives for each answer
  record the target if it is a PTR record.
\<close>

fun firstPTR :: "string option list \<Rightarrow> string" where
  "firstPTR [] = []"
| "firstPTR (Some target # rs) = trimSuffix target ''.''"
| "firstPTR (None # rs) = firstPTR rs"

definition ptrLookup :: "(string \<Rightarrow> string option) \<Rightarrow> (string \<Rightarrow> string option list option) \<Rightarrow> resolver" where
  "ptrLookup reverseAddr exchange ipStr = (case reverseAddr ipStr of
     None \<Rightarrow> None
   | Some n \<Rightarrow> (case exchange n of None \<Rightarrow> None | Some answers \<Rightarrow> Some (firstPTR answers)))"

record cnConfig =
  cc_hostsIndex :: "(string \<times> string) list"
  cc_resolvers :: "(string \<times> resolver) list"
  cc_unmatched :: "resolver option"
  cc_refreshHostnames :: string

definition resolverFor :: "cnConfig \<Rightarrow> string \<Rightarrow> resolver option" where
  "resolverFor cfg v = (if v = [] then cc_unmatched cfg else map_of (cc_resolvers cfg) v)"

section \<open>The table\<close>

record cnTable =
  ct_entries :: "(string \<times> cnEntry) list"
  ct_cfg :: cnConfig
  ct_queue :: "string list"

definition resolveQueueSize :: nat where "resolveQueueSize = 64"

definition ct_new :: "cnConfig \<Rightarrow> cnTable" where
  "ct_new cfg = \<lparr>ct_entries = [], ct_cfg = cfg, ct_queue = []\<rparr>"

definition ct_setConfig :: "cnConfig \<Rightarrow> cnTable \<Rightarrow> cnTable" where
  "ct_setConfig cfg t = t\<lparr>ct_cfg := cfg\<rparr>"

fun containsIP :: "string list \<Rightarrow> string \<Rightarrow> bool" where
  "containsIP [] ipStr = False"
| "containsIP (s # ss) ipStr =
     (let target = parseIP ipStr in
      if target \<noteq> [] then
        (if parseIP s \<noteq> [] \<and> ip_equal (parseIP s) target then True else containsIP ss ipStr)
      else if s = ipStr then True else containsIP ss ipStr)"

fun matchMDNSIn :: "mentry list \<Rightarrow> string \<Rightarrow> string option" where
  "matchMDNSIn [] ipStr = None"
| "matchMDNSIn (e # es) ipStr =
     (if (containsIP (me_ipv4 e) ipStr \<or> containsIP (me_ipv6 e) ipStr) \<and> trimSuffix (me_host e) ''.'' \<noteq> []
      then Some (trimSuffix (me_host e) ''.'') else matchMDNSIn es ipStr)"

definition matchMDNS :: "time \<Rightarrow> mtable \<Rightarrow> string \<Rightarrow> string option" where
  "matchMDNS now m ipStr = matchMDNSIn (mt_snapshot now m) ipStr"

text \<open>\<open>mdns\<close> is the discovery table of the configuration, \<open>None\<close> when discovery is off.\<close>

definition resolveLive :: "time \<Rightarrow> mtable option \<Rightarrow> cnConfig \<Rightarrow> string \<Rightarrow> string \<times> cn_source" where
  "resolveLive now mdns cfg ipStr =
     (case map_of (cc_hostsIndex cfg) ipStr of
        Some (c # n) \<Rightarrow> (c # n, SourceHosts)
      | _ \<Rightarrow> (case mdns of
          None \<Rightarrow> ([], SourceNone)
        | Some m \<Rightarrow> (case matchMDNS now m ipStr of
            Some h \<Rightarrow> (h, SourceMDNS)
          | None \<Rightarrow> ([], SourceNone))))"

definition cn_observe :: "time \<Rightarrow> mtable option \<Rightarrow> string \<Rightarrow> string \<Rightarrow> cnTable \<Rightarrow> cnTable" where
  "cn_observe now mdns ipStr v t =
     (if ipStr = [] then t
      else case map_of (ct_entries t) ipStr of
        Some e \<Rightarrow> t\<lparr>ct_entries := AList.update ipStr (e\<lparr>ce_lastSeen := now, ce_vlan := v\<rparr>) (ct_entries t)\<rparr>
      | None \<Rightarrow>
          let t' = t\<lparr>ct_entries := AList.update ipStr \<lparr>ce_ip = ipStr, ce_vlan = v, ce_hostname = [],
                ce_source = SourceNone, ce_lastSeen = now, ce_resolvedAt = 0\<rparr> (ct_entries t)\<rparr> in
          if resolverFor (ct_cfg t) v = None then t'
          else if snd (resolveLive now mdns (ct_cfg t) ipStr) \<noteq> SourceNone then t'
          else if length (ct_queue t) < resolveQueueSize then t'\<lparr>ct_queue := ct_queue t @ [ipStr]\<rparr>
          else t')"

definition cn_resolve :: "time \<Rightarrow> mtable option \<Rightarrow> string \<Rightarrow> cnTable \<Rightarrow> string \<times> cn_source" where
  "cn_resolve now mdns ipStr t =
     (let (n, src) = resolveLive now mdns (ct_cfg t) ipStr in
      if src \<noteq> SourceNone then (n, src)
      else case map_of (ct_entries t) ipStr of
        Some e \<Rightarrow> if ce_source e = SourcePTR then (ce_hostname e, SourcePTR) else ([], SourceNone)
      | None \<Rightarrow> ([], SourceNone))"

definition cn_snapshot :: "time \<Rightarrow> mtable option \<Rightarrow> cnTable \<Rightarrow> cnEntry list" where
  "cn_snapshot now mdns t = sort_key ce_ip (map (\<lambda>(_, e).
     let (n, src) = resolveLive now mdns (ct_cfg t) (ce_ip e) in
     if src \<noteq> SourceNone then e\<lparr>ce_hostname := n, ce_source := src\<rparr> else e) (ct_entries t))"

definition attemptPTR :: "time \<Rightarrow> string \<Rightarrow> cnTable \<Rightarrow> cnTable" where
  "attemptPTR now ipStr t = (case map_of (ct_entries t) ipStr of
     None \<Rightarrow> t
   | Some e \<Rightarrow> (case resolverFor (ct_cfg t) (ce_vlan e) of
       None \<Rightarrow> t
     | Some lookup \<Rightarrow> (case lookup ipStr of
         Some (c # n) \<Rightarrow> t\<lparr>ct_entries := AList.update ipStr
             (e\<lparr>ce_hostname := c # n, ce_source := SourcePTR, ce_resolvedAt := now\<rparr>) (ct_entries t)\<rparr>
       | _ \<Rightarrow> t)))"

text \<open>The addresses a sweep asks for again.\<close>

definition sweepIPs :: "cnTable \<Rightarrow> string list" where
  "sweepIPs t =
     (let mode = (if cc_refreshHostnames (ct_cfg t) = [] then ''ipv4_only'' else cc_refreshHostnames (ct_cfg t)) in
      if mode \<noteq> ''none'' then
        map fst (filter (\<lambda>(a, e). ce_source e = SourcePTR \<and> \<not> (mode = ''ipv4_only'' \<and> containsStr a '':'')) (ct_entries t))
      else [])"

definition cn_sweep :: "time \<Rightarrow> cnTable \<Rightarrow> nat \<times> cnTable" where
  "cn_sweep now t = (length (sweepIPs t), fold (attemptPTR now) (sweepIPs t) t)"

text \<open>The operations: a query is seen, the worker takes the head of its queue, the hourly sweep, a configuration change.\<close>

datatype cn_op =
    Seen time "mtable option" string string
  | Worker time
  | SweepTick time
  | CnConfigured cnConfig

fun cn_apply :: "cn_op \<Rightarrow> cnTable \<Rightarrow> cnTable" where
  "cn_apply (Seen now mdns ipStr v) t = cn_observe now mdns ipStr v t"
| "cn_apply (Worker now) t = (case ct_queue t of [] \<Rightarrow> t | a # q \<Rightarrow> attemptPTR now a (t\<lparr>ct_queue := q\<rparr>))"
| "cn_apply (SweepTick now) t = snd (cn_sweep now t)"
| "cn_apply (CnConfigured cfg) t = ct_setConfig cfg t"

section \<open>Invariants\<close>

text \<open>
  Keys are unique and the addresses of their entries; an entry has a name exactly if it comes from
  a reverse lookup; the queue is bounded and holds known addresses.
\<close>

definition cn_ok :: "cnTable \<Rightarrow> bool" where
  "cn_ok t \<longleftrightarrow> distinct (map fst (ct_entries t)) \<and>
     (\<forall>(a, e)\<in>set (ct_entries t). ce_ip e = a \<and> a \<noteq> [] \<and>
        (ce_source e = SourcePTR \<and> ce_hostname e \<noteq> [] \<or> ce_source e = SourceNone \<and> ce_hostname e = [])) \<and>
     length (ct_queue t) \<le> resolveQueueSize \<and> set (ct_queue t) \<subseteq> fst ` set (ct_entries t)"

lemma set_update_cases: "x \<in> set (AList.update k v es) \<Longrightarrow> x = (k, v) \<or> x \<in> set es"
  by (induction es) (auto split: if_splits)

lemma cn_ok_update:
  assumes "cn_ok t" "ce_ip e = a" "a \<noteq> []"
    "ce_source e = SourcePTR \<and> ce_hostname e \<noteq> [] \<or> ce_source e = SourceNone \<and> ce_hostname e = []"
    "length q \<le> resolveQueueSize" "set q \<subseteq> insert a (fst ` set (ct_entries t))"
  shows "cn_ok (t\<lparr>ct_entries := AList.update a e (ct_entries t), ct_queue := q\<rparr>)"
proof -
  have "fst ` set (AList.update a e (ct_entries t)) = insert a (fst ` set (ct_entries t))"
    by (simp add: update_conv' flip: dom_map_of_conv_image_fst)
  then show ?thesis using assms set_update_cases [of _ a e "ct_entries t"]
    by (fastforce simp: cn_ok_def distinct_update)
qed

text \<open>A known entry is replaced by one with the same address and a name that fits its source.\<close>

lemma cn_ok_replace:
  assumes "cn_ok t" "map_of (ct_entries t) a = Some e0" "ce_ip e = ce_ip e0"
    "ce_source e = SourcePTR \<and> ce_hostname e \<noteq> [] \<or> ce_source e = SourceNone \<and> ce_hostname e = []"
  shows "cn_ok (t\<lparr>ct_entries := AList.update a e (ct_entries t)\<rparr>)"
proof -
  have "(a, e0) \<in> set (ct_entries t)" using assms(2) by (rule map_of_SomeD)
  then have "ce_ip e = a" "a \<noteq> []" "length (ct_queue t) \<le> resolveQueueSize"
    "set (ct_queue t) \<subseteq> insert a (fst ` set (ct_entries t))" using assms(1,3) by (auto simp: cn_ok_def)
  from cn_ok_update [OF assms(1) this(1,2) assms(4) this(3,4)] show ?thesis by simp
qed

lemma cn_ok_source:
  "cn_ok t \<Longrightarrow> map_of (ct_entries t) a = Some e \<Longrightarrow>
     ce_source e = SourcePTR \<and> ce_hostname e \<noteq> [] \<or> ce_source e = SourceNone \<and> ce_hostname e = []"
  by (drule map_of_SomeD) (auto simp: cn_ok_def)

lemma cn_ok_attempt: "cn_ok t \<Longrightarrow> cn_ok (attemptPTR now a t)"
  by (auto simp: attemptPTR_def cn_ok_replace split: option.splits list.splits)

lemma cn_ok_observe: "cn_ok t \<Longrightarrow> cn_ok (cn_observe now mdns a v t)"
proof (cases "map_of (ct_entries t) a")
  case None
  assume ok: "cn_ok t"
  let ?e = "\<lparr>ce_ip = a, ce_vlan = v, ce_hostname = [], ce_source = SourceNone, ce_lastSeen = now, ce_resolvedAt = 0\<rparr>"
  have upd: "cn_ok (t\<lparr>ct_entries := AList.update a ?e (ct_entries t), ct_queue := q\<rparr>)"
    if "a \<noteq> []" "length q \<le> resolveQueueSize" "set q \<subseteq> insert a (fst ` set (ct_entries t))" for q
    using that by (intro cn_ok_update [OF ok]) auto
  have q: "length (ct_queue t) \<le> resolveQueueSize" "set (ct_queue t) \<subseteq> fst ` set (ct_entries t)"
    using ok by (simp_all add: cn_ok_def)
  have "cn_ok (t\<lparr>ct_entries := AList.update a ?e (ct_entries t)\<rparr>)" if "a \<noteq> []"
    using upd [OF that q(1)] q(2) by auto
  moreover have "cn_ok (t\<lparr>ct_entries := AList.update a ?e (ct_entries t), ct_queue := ct_queue t @ [a]\<rparr>)"
    if "a \<noteq> []" "length (ct_queue t) < resolveQueueSize"
    using that q(2) by (intro upd) auto
  ultimately show ?thesis using ok None by (simp add: cn_observe_def Let_def)
next
  case (Some e)
  assume ok: "cn_ok t"
  then show ?thesis using cn_ok_source [OF ok Some]
    by (auto simp: cn_observe_def Some intro!: cn_ok_replace)
qed

lemma cn_ok_apply: "cn_ok t \<Longrightarrow> cn_ok (cn_apply op t)"
proof (induction op t rule: cn_apply.induct)
  case (1 now mdns ipStr v t)
  then show ?case by (simp add: cn_ok_observe)
next
  case (2 now t)
  then have "cn_ok (t\<lparr>ct_queue := q\<rparr>)" if "ct_queue t = a # q" for a q using that by (auto simp: cn_ok_def)
  with 2 show ?case by (auto intro: cn_ok_attempt split: list.split)
next
  case (3 now t)
  have "cn_ok (fold (attemptPTR now) as t)" if "cn_ok t" for as t
    using that by (induction as arbitrary: t) (auto intro: cn_ok_attempt)
  with 3 show ?case by (simp add: cn_sweep_def)
next
  case (4 cfg t)
  then show ?case by (simp add: ct_setConfig_def cn_ok_def)
qed

lemma cn_ok_run: "cn_ok t \<Longrightarrow> cn_ok (fold cn_apply ops t)"
  by (induction ops arbitrary: t) (auto intro: cn_ok_apply)

section \<open>An address that was not queued\<close>

text \<open>The address is known, has no name and is not queued.\<close>

definition unresolved :: "string \<Rightarrow> cnTable \<Rightarrow> bool" where
  "unresolved a t \<longleftrightarrow> (\<exists>e. map_of (ct_entries t) a = Some e \<and> ce_source e = SourceNone) \<and> a \<notin> set (ct_queue t)"

lemma unresolved_attempt: "unresolved a t \<Longrightarrow> a \<noteq> b \<Longrightarrow> unresolved a (attemptPTR now b t)"
  by (auto simp: unresolved_def attemptPTR_def update_conv' split: option.splits list.splits)

lemma unresolved_observe: "unresolved a t \<Longrightarrow> unresolved a (cn_observe now mdns b v t)"
  by (cases "b = a") (auto simp: unresolved_def cn_observe_def Let_def update_conv' split: option.splits)

lemma unresolved_sweep:
  assumes "cn_ok t" "unresolved a t"
  shows "unresolved a (snd (cn_sweep now t))"
proof -
  have "ce_source e = SourceNone" if "(a, e) \<in> set (ct_entries t)" for e
    using assms map_of_is_SomeI [OF _ that] by (auto simp: unresolved_def cn_ok_def)
  then have "a \<notin> set (sweepIPs t)" by (auto simp: sweepIPs_def Let_def split: if_splits)
  moreover have "unresolved a (fold (attemptPTR now) as t)" if "unresolved a t" "a \<notin> set as" for as t
    using that by (induction as arbitrary: t) (auto intro: unresolved_attempt)
  ultimately show ?thesis using assms(2) by (simp add: cn_sweep_def)
qed

lemma unresolved_apply: "cn_ok t \<Longrightarrow> unresolved a t \<Longrightarrow> unresolved a (cn_apply op t)"
proof (induction op t rule: cn_apply.induct)
  case (2 now t)
  then have "unresolved a (t\<lparr>ct_queue := q\<rparr>)" "a \<noteq> b" if "ct_queue t = b # q" for b q
    using that by (auto simp: unresolved_def)
  with 2 show ?case by (auto intro: unresolved_attempt split: list.split)
next
  case (4 cfg t)
  then show ?case by (simp add: unresolved_def ct_setConfig_def)
qed (simp_all add: unresolved_observe unresolved_sweep)

section \<open>Properties\<close>

text \<open>
  C24. In every interleaving of queries, lookups, sweeps and configuration changes, the table holds
  one entry per address, an entry has a name exactly if a reverse lookup gave it one, the queue
  stays within its bound, and a query makes its client known.
\<close>

theorem client_table_consistent:
  "let t = fold cn_apply ops (ct_new cfg) in
   distinct (map fst (ct_entries t)) \<and> length (ct_queue t) \<le> 64 \<and>
   (\<forall>(a, e)\<in>set (ct_entries t). ce_ip e = a \<and>
     (ce_source e = SourcePTR \<and> ce_hostname e \<noteq> [] \<or> ce_source e = SourceNone \<and> ce_hostname e = [])) \<and>
   (a \<noteq> [] \<longrightarrow> (\<exists>e. map_of (ct_entries (cn_observe now mdns a v t)) a = Some e \<and> ce_vlan e = v \<and> ce_lastSeen e = now))"
proof -
  have "cn_ok (fold cn_apply ops (ct_new cfg))" by (rule cn_ok_run) (simp add: cn_ok_def ct_new_def)
  moreover have "a \<noteq> [] \<Longrightarrow> \<exists>e. map_of (ct_entries (cn_observe now mdns a v t)) a = Some e \<and> ce_vlan e = v \<and> ce_lastSeen e = now" for t
    by (auto simp: cn_observe_def Let_def update_conv' split: option.split)
  ultimately show ?thesis unfolding Let_def cn_ok_def resolveQueueSize_def by fast
qed

theorem client_table_consistent_witness:
  "\<exists>e. map_of (ct_entries (cn_observe 5 None ''10.0.0.9'' ''lan'' (fold cn_apply []
      (ct_new \<lparr>cc_hostsIndex = [], cc_resolvers = [], cc_unmatched = None, cc_refreshHostnames = []\<rparr>)))) ''10.0.0.9'' = Some e \<and> ce_lastSeen e = 5"
  using client_table_consistent [of "[]" "\<lparr>cc_hostsIndex = [], cc_resolvers = [], cc_unmatched = None, cc_refreshHostnames = []\<rparr>"
      "''10.0.0.9''" 5 None "''lan''"] by (auto simp: Let_def)

text \<open>
  A client whose first reverse lookup was dropped or failed is never looked up again: once an
  address is known, without a name and not in the queue, no later query, lookup, sweep or
  configuration change gives it one.
\<close>

theorem dropped_lookup_never_retried:
  assumes "t = fold cn_apply ops (ct_new cfg)" "unresolved a t"
  shows "\<exists>e. map_of (ct_entries (fold cn_apply later t)) a = Some e \<and> ce_source e = SourceNone"
proof -
  have ok: "cn_ok t" unfolding assms(1) by (rule cn_ok_run) (simp add: cn_ok_def ct_new_def)
  have "unresolved a (fold cn_apply later t)" if "cn_ok t" "unresolved a t" for t
    using that by (induction later arbitrary: t) (auto intro: unresolved_apply cn_ok_apply)
  from this [OF ok assms(2)] show ?thesis by (simp add: unresolved_def)
qed

definition exCnConfig :: cnConfig where
  "exCnConfig = \<lparr>cc_hostsIndex = [], cc_resolvers = [], cc_unmatched = Some (\<lambda>_. None), cc_refreshHostnames = []\<rparr>"

theorem dropped_lookup_never_retried_witness:
  "\<exists>e. map_of (ct_entries (fold cn_apply [CnConfigured (exCnConfig\<lparr>cc_unmatched := Some (\<lambda>_. Some ''nas'')\<rparr>),
       Seen 2 None ''10.0.0.9'' [], SweepTick 3, Worker 4]
      (fold cn_apply [Seen 0 None ''10.0.0.9'' [], Worker 1] (ct_new exCnConfig)))) ''10.0.0.9'' = Some e \<and> ce_source e = SourceNone"
proof -
  have "unresolved ''10.0.0.9'' (fold cn_apply [Seen 0 None ''10.0.0.9'' [], Worker 1] (ct_new exCnConfig))"
    by (simp add: unresolved_def cn_observe_def ct_new_def exCnConfig_def resolverFor_def resolveLive_def
        resolveQueueSize_def attemptPTR_def)
  from dropped_lookup_never_retried [OF refl this] show ?thesis .
qed

end
