(* ===== verification/Gui_Service.thy ===== *)
theory Gui_Service
  imports Config_Store Client_Names Log_Reads
begin

text \<open>
  The application layer of the GUI, \<^verbatim>\<open>internal/gui/service.go\<close>: edits of the configuration are
  validated by rendering, persisted, and applied to the running engine and to the components the
  process owns (discovery, advertisement, query-log store, client names).

  The engine is the text it was last loaded with. A background goroutine is represented by what
  it was started with. Everything an operation meets outside the program is in its \<open>env\<close>: which
  calls fail, the temporary file's name, the detected addresses and gateways. Operations hold
  one lock, so they do not interleave.
\<close>

section \<open>State and environment\<close>

record env =
  ev_tmp :: string
  ev_save :: write_faults
  ev_zone :: write_faults
  ev_hosts :: write_faults
  ev_corefile :: write_faults
  ev_reloadFails :: bool
  ev_selfIPs :: "vlan list \<Rightarrow> selfip_result"
  ev_gateways :: "vlan list \<Rightarrow> (string \<times> string) list \<times> string"
  ev_advertiserFails :: bool
  ev_finish :: "logStore \<Rightarrow> logStore"
  ev_closeFails :: bool
  ev_open :: open_env

text \<open>The packages the service calls: YAML, the encoding of the zone data, the PTR resolver of an upstream.\<close>

record svc_lib =
  sl_yaml :: yaml_lib
  sl_zoneJSON :: "zoneData \<Rightarrow> string"
  sl_ptrResolver :: "string \<Rightarrow> resolver"

record svc =
  sv_fs :: fs
  sv_dir :: string
  sv_certOpts :: options
  sv_vlans :: vtable
  sv_running :: string
  sv_mdns :: "mtable option"
  sv_injected :: bool
  sv_listener :: "(string list \<times> string list) option"
  sv_mdnsCfg :: "string list \<times> string list"
  sv_advertiser :: "settings option"
  sv_store :: store_state
  sv_clientNames :: "cnTable option"
  sv_cnObserver :: bool
  sv_registry :: plugin_registry

datatype svc_error =
    SvcStore store_error
  | SvcInvalid render_error
  | SvcDuplicate
  | SvcNotFound
  | SvcWriteZone write_error
  | SvcWriteHosts write_error
  | SvcReload
  | SvcMdnsDisabled
  | SvcNoHost
  | SvcClientNamesDisabled

text \<open>An operation gives an error or none and the new state.\<close>

type_synonym svc_result = "svc_error option \<times> svc"

section \<open>mDNS discovery\<close>

definition svc_setLoaded :: "string \<Rightarrow> bool \<Rightarrow> string \<Rightarrow> svc \<Rightarrow> svc" where
  "svc_setLoaded n b reason v = v\<lparr>sv_registry := setLoaded n b reason (sv_registry v)\<rparr>"

definition startMDNS :: "mtable option \<Rightarrow> mdns \<Rightarrow> svc \<Rightarrow> svc" where
  "startMDNS tbl cfg v = v\<lparr>sv_mdns := tbl, sv_mdnsCfg := (mdns_serviceTypes cfg, mdns_interfaces cfg),
     sv_listener := Some (mdns_serviceTypes cfg, mdns_interfaces cfg)\<rparr>"

definition stopMDNS :: "svc \<Rightarrow> svc" where
  "stopMDNS v = svc_setLoaded ''mdnsbridge'' False ''disabled in settings''
     ((case sv_mdns v of None \<Rightarrow> v | Some _ \<Rightarrow> v\<lparr>sv_injected := False, sv_mdns := None\<rparr>)
      \<lparr>sv_listener := None, sv_mdnsCfg := ([], [])\<rparr>)"

definition refreshMDNS :: "settings \<Rightarrow> recordSet \<Rightarrow> svc \<Rightarrow> svc" where
  "refreshMDNS s rs v = (case sv_mdns v of
     None \<Rightarrow> v
   | Some t \<Rightarrow> v\<lparr>sv_mdns := Some (mt_setConfig (sv_vlans v) (mdnscfg_build s rs) t)\<rparr>)"

definition mdnsPreReload :: "settings \<Rightarrow> recordSet \<Rightarrow> svc \<Rightarrow> svc" where
  "mdnsPreReload s rs v =
     (if mdns_enabled (st_mdns s) \<and> sv_mdns v = None
      then v\<lparr>sv_injected := True, sv_mdns := Some (mt_new (mdnscfg_build s rs) 0)\<rparr> else v)"

definition mdnsPostReload :: "settings \<Rightarrow> recordSet \<Rightarrow> svc \<Rightarrow> svc" where
  "mdnsPostReload s rs v =
     (if \<not> mdns_enabled (st_mdns s) then stopMDNS v
      else if sv_listener v = None then startMDNS (sv_mdns v) (st_mdns s) v
      else if sv_mdnsCfg v \<noteq> (mdns_serviceTypes (st_mdns s), mdns_interfaces (st_mdns s)) then
        startMDNS (map_option (snd \<circ> mt_clear) (sv_mdns v)) (st_mdns s) v
      else refreshMDNS s rs v)"

section \<open>Advertisement, query-log store, client names\<close>

definition startAdvertise :: "env \<Rightarrow> settings \<Rightarrow> svc \<Rightarrow> svc" where
  "startAdvertise ev s v =
     (if ev_advertiserFails ev then svc_setLoaded ''mdnsadvertise'' False ''failed to start'' v
      else svc_setLoaded ''mdnsadvertise'' True [] (v\<lparr>sv_advertiser := Some s\<rparr>))"

definition stopAdvertise :: "svc \<Rightarrow> svc" where
  "stopAdvertise v = svc_setLoaded ''mdnsadvertise'' False ''disabled in settings'' (v\<lparr>sv_advertiser := None\<rparr>)"

definition reconcileAdvertise :: "env \<Rightarrow> settings \<Rightarrow> svc \<Rightarrow> svc" where
  "reconcileAdvertise ev s v =
     (if \<not> adv_enabled (mdns_advertise (st_mdns s)) then stopAdvertise v
      else if sv_advertiser v = None then startAdvertise ev s v
      else v\<lparr>sv_advertiser := Some s\<rparr>)"

definition reconcileQueryLogStore :: "env \<Rightarrow> settings \<Rightarrow> svc \<Rightarrow> svc" where
  "reconcileQueryLogStore ev s v =
     v\<lparr>sv_store := snd (reconcileStore (ev_finish ev) (ev_closeFails ev) (ev_open ev)
        (queryLogStoreConfig (st_queryLog s) (sv_dir v)) (sv_store v))\<rparr>"

definition clientNamesConfig :: "svc_lib \<Rightarrow> env \<Rightarrow> settings \<Rightarrow> hostSet \<Rightarrow> cnConfig" where
  "clientNamesConfig lib ev s hs =
     (let up = ptrUpstream (st_clientNames s);
          (resolvers, unmatched) =
            (if up \<noteq> [] then
               (fold (\<lambda>v m. AList.update (vlan_name v) (sl_ptrResolver lib up) m) (st_vlans s) [],
                Some (sl_ptrResolver lib up))
             else let (perVLAN, primary) = ev_gateways ev (st_vlans s) in
               (map (\<lambda>(n, a). (n, sl_ptrResolver lib (a @ '':53''))) perVLAN,
                if primary \<noteq> [] then Some (sl_ptrResolver lib (primary @ '':53'')) else None)) in
      \<lparr>cc_hostsIndex = fold (\<lambda>h m. AList.update (host_ip h) (host_hostname h) m) hs [],
       cc_resolvers = resolvers, cc_unmatched = unmatched,
       cc_refreshHostnames = refreshHostnames (st_clientNames s)\<rparr>)"

definition startClientNames :: "svc_lib \<Rightarrow> env \<Rightarrow> settings \<Rightarrow> hostSet \<Rightarrow> svc \<Rightarrow> svc" where
  "startClientNames lib ev s hs v = svc_setLoaded ''clientnames'' True []
     (v\<lparr>sv_clientNames := Some (ct_new (clientNamesConfig lib ev s hs)), sv_cnObserver := True\<rparr>)"

definition stopClientNames :: "svc \<Rightarrow> svc" where
  "stopClientNames v = svc_setLoaded ''clientnames'' False ''disabled in settings''
     (case sv_clientNames v of None \<Rightarrow> v | Some _ \<Rightarrow> v\<lparr>sv_cnObserver := False, sv_clientNames := None\<rparr>)"

definition refreshClientNames :: "svc_lib \<Rightarrow> env \<Rightarrow> settings \<Rightarrow> hostSet \<Rightarrow> svc \<Rightarrow> svc" where
  "refreshClientNames lib ev s hs v = (case sv_clientNames v of
     None \<Rightarrow> v
   | Some t \<Rightarrow> v\<lparr>sv_clientNames := Some (ct_setConfig (clientNamesConfig lib ev s hs) t)\<rparr>)"

definition reconcileClientNames :: "svc_lib \<Rightarrow> env \<Rightarrow> settings \<Rightarrow> hostSet \<Rightarrow> svc \<Rightarrow> svc" where
  "reconcileClientNames lib ev s hs v =
     (if \<not> clientNames_enabled (st_clientNames s) then stopClientNames v
      else if sv_clientNames v = None then startClientNames lib ev s hs v
      else svc_setLoaded ''clientnames'' True [] (refreshClientNames lib ev s hs v))"

section \<open>Rendering and reloading\<close>

definition svc_render :: "env \<Rightarrow> settings \<Rightarrow> recordSet \<Rightarrow> hostSet \<Rightarrow> svc \<Rightarrow> (svc_error + rendered) \<times> svc" where
  "svc_render ev s rs hs v =
     (let v' = v\<lparr>sv_vlans := newTable (vlancfg_build (st_vlans s))\<rparr>;
          opts = (sv_certOpts v)\<lparr>opt_acmeSelfIPs := ev_selfIPs ev (st_vlans s)\<rparr> in
      case render s rs hs opts of
        Inl e \<Rightarrow> (Inl (SvcInvalid e), v')
      | Inr r \<Rightarrow> (Inr r, v'))"

definition svc_reload :: "svc_lib \<Rightarrow> env \<Rightarrow> rendered \<Rightarrow> svc \<Rightarrow> svc_result" where
  "svc_reload lib ev r v =
     (case writeFileAtomic (ev_zone ev) (ev_tmp ev) (zoneDataPath (sv_dir v)) (sl_zoneJSON lib (rd_zoneData r)) (sv_fs v) of
        (Some e, tr) \<Rightarrow> (Some (SvcWriteZone e), v\<lparr>sv_fs := last tr\<rparr>)
      | (None, tr) \<Rightarrow>
          (case writeFileAtomic (ev_hosts ev) (ev_tmp ev) (hostsDataPath (sv_dir v)) (rd_hostsData r) (last tr) of
             (Some e, tr2) \<Rightarrow> (Some (SvcWriteHosts e), v\<lparr>sv_fs := last tr2\<rparr>)
           | (None, tr2) \<Rightarrow>
               let fs' = last (snd (writeFileAtomic (ev_corefile ev) (ev_tmp ev) (runtimeCorefilePath (sv_dir v))
                     (rd_corefile r) (last tr2))) in
               if ev_reloadFails ev then (Some SvcReload, v\<lparr>sv_fs := fs'\<rparr>)
               else (None, svc_setLoaded ''hosts'' True [] (v\<lparr>sv_fs := fs', sv_running := rd_corefile r\<rparr>))))"

section \<open>Edits\<close>

text \<open>\<^verbatim>\<open>if err != nil { return err }\<close> around a load.\<close>

definition with_load :: "(store_error + 'a) \<Rightarrow> svc \<Rightarrow> ('a \<Rightarrow> svc_result) \<Rightarrow> svc_result" where
  "with_load l v k = (case l of Inl e \<Rightarrow> (Some (SvcStore e), v) | Inr x \<Rightarrow> k x)"

definition applyRecords :: "svc_lib \<Rightarrow> env \<Rightarrow> settings \<Rightarrow> recordSet \<Rightarrow> svc \<Rightarrow> svc_result" where
  "applyRecords lib ev s rs v =
     with_load (loadHosts (sl_yaml lib) (sv_dir v) (sv_fs v)) v (\<lambda>hs.
       case svc_render ev s rs hs v of
         (Inl e, v1) \<Rightarrow> (Some e, v1)
       | (Inr r, v1) \<Rightarrow>
           (case saveRecords (sl_yaml lib) (ev_save ev) (ev_tmp ev) (sv_dir v1) rs (sv_fs v1) of
              (Some e, tr) \<Rightarrow> (Some (SvcStore e), v1\<lparr>sv_fs := last tr\<rparr>)
            | (None, tr) \<Rightarrow>
                let (re, v2) = svc_reload lib ev r (v1\<lparr>sv_fs := last tr\<rparr>) in (re, refreshMDNS s rs v2)))"

definition applyHosts :: "svc_lib \<Rightarrow> env \<Rightarrow> settings \<Rightarrow> hostSet \<Rightarrow> svc \<Rightarrow> svc_result" where
  "applyHosts lib ev s hs v =
     with_load (store_loadRecords (sl_yaml lib) (sv_dir v) (sv_fs v)) v (\<lambda>rs.
       case svc_render ev s rs hs v of
         (Inl e, v1) \<Rightarrow> (Some e, v1)
       | (Inr r, v1) \<Rightarrow>
           (case saveHosts (sl_yaml lib) (ev_save ev) (ev_tmp ev) (sv_dir v1) hs (sv_fs v1) of
              (Some e, tr) \<Rightarrow> (Some (SvcStore e), v1\<lparr>sv_fs := last tr\<rparr>)
            | (None, tr) \<Rightarrow> svc_reload lib ev r (refreshClientNames lib ev s hs (v1\<lparr>sv_fs := last tr\<rparr>))))"

definition svc_saveSettings :: "svc_lib \<Rightarrow> env \<Rightarrow> settings \<Rightarrow> svc \<Rightarrow> svc_result" where
  "svc_saveSettings lib ev s v =
     with_load (store_loadRecords (sl_yaml lib) (sv_dir v) (sv_fs v)) v (\<lambda>rs.
     with_load (loadHosts (sl_yaml lib) (sv_dir v) (sv_fs v)) v (\<lambda>hs.
       case svc_render ev s rs hs v of
         (Inl e, v1) \<Rightarrow> (Some e, v1)
       | (Inr r, v1) \<Rightarrow>
           (case saveSettings (sl_yaml lib) (ev_save ev) (ev_tmp ev) (sv_dir v1) s (sv_fs v1) of
              (Some e, tr) \<Rightarrow> (Some (SvcStore e), v1\<lparr>sv_fs := last tr\<rparr>)
            | (None, tr) \<Rightarrow>
                let (re, v2) = svc_reload lib ev r (mdnsPreReload s rs (v1\<lparr>sv_fs := last tr\<rparr>)) in
                (re, reconcileClientNames lib ev s hs (reconcileQueryLogStore ev s
                  (reconcileAdvertise ev s (mdnsPostReload s rs v2)))))))"

definition svc_saveRecords :: "svc_lib \<Rightarrow> env \<Rightarrow> recordSet \<Rightarrow> svc \<Rightarrow> svc_result" where
  "svc_saveRecords lib ev rs v =
     with_load (loadSettings (sl_yaml lib) (sv_dir v) (sv_fs v)) v (\<lambda>s. applyRecords lib ev s rs v)"

definition restartEngine :: "svc_lib \<Rightarrow> env \<Rightarrow> svc \<Rightarrow> svc_result" where
  "restartEngine lib ev v =
     with_load (loadSettings (sl_yaml lib) (sv_dir v) (sv_fs v)) v (\<lambda>s.
     with_load (store_loadRecords (sl_yaml lib) (sv_dir v) (sv_fs v)) v (\<lambda>rs.
     with_load (loadHosts (sl_yaml lib) (sv_dir v) (sv_fs v)) v (\<lambda>hs.
       case svc_render ev s rs hs v of
         (Inl e, v1) \<Rightarrow> (Some e, v1)
       | (Inr r, v1) \<Rightarrow> svc_reload lib ev r v1)))"

text \<open>The index of the record with a name and a type, of the host with a hostname, of a host with a name.\<close>

fun find_index_from :: "('a \<Rightarrow> bool) \<Rightarrow> nat \<Rightarrow> 'a list \<Rightarrow> nat option" where
  "find_index_from P i [] = None"
| "find_index_from P i (x # xs) = (if P x then Some i else find_index_from P (Suc i) xs)"

definition indexOf :: "recordSet \<Rightarrow> string \<Rightarrow> recordType \<Rightarrow> nat option" where
  "indexOf rs n t =
     (let target = normalizedHostName n in
      find_index_from (\<lambda>r. rec_normalizedName r = target \<and> equalFold (rec_type r) t) 0 rs)"

definition indexOfHost :: "hostSet \<Rightarrow> string \<Rightarrow> nat option" where
  "indexOfHost hs n =
     (let target = normalizedHostName n in find_index_from (\<lambda>h. normalizedHostName (host_hostname h) = target) 0 hs)"

definition indexOfHostName :: "hostSet \<Rightarrow> string \<Rightarrow> nat option" where
  "indexOfHostName hs n =
     (let target = normalizedHostName n in
      find_index_from (\<lambda>h. list_ex (\<lambda>m. normalizedHostName m = target) (host_names h)) 0 hs)"

text \<open>\<^verbatim>\<open>append(xs[:i], xs[i+1:]...)\<close>.\<close>

definition remove_at :: "nat \<Rightarrow> 'a list \<Rightarrow> 'a list" where
  "remove_at i xs = take i xs @ drop (Suc i) xs"

definition svc_addRecord :: "svc_lib \<Rightarrow> env \<Rightarrow> dnsRecord \<Rightarrow> svc \<Rightarrow> svc_result" where
  "svc_addRecord lib ev r v =
     with_load (loadSettings (sl_yaml lib) (sv_dir v) (sv_fs v)) v (\<lambda>s.
     with_load (store_loadRecords (sl_yaml lib) (sv_dir v) (sv_fs v)) v (\<lambda>rs.
       case indexOf rs (rec_name r) (rec_type r) of
         Some _ \<Rightarrow> (Some SvcDuplicate, v)
       | None \<Rightarrow> applyRecords lib ev s (rs @ [r]) v))"

definition updateRecord :: "svc_lib \<Rightarrow> env \<Rightarrow> string \<Rightarrow> recordType \<Rightarrow> dnsRecord \<Rightarrow> svc \<Rightarrow> svc_result" where
  "updateRecord lib ev n t r v =
     with_load (loadSettings (sl_yaml lib) (sv_dir v) (sv_fs v)) v (\<lambda>s.
     with_load (store_loadRecords (sl_yaml lib) (sv_dir v) (sv_fs v)) v (\<lambda>rs.
       case indexOf rs n t of
         None \<Rightarrow> (Some SvcNotFound, v)
       | Some i \<Rightarrow> applyRecords lib ev s (rs[i := r]) v))"

definition deleteRecord :: "svc_lib \<Rightarrow> env \<Rightarrow> string \<Rightarrow> recordType \<Rightarrow> svc \<Rightarrow> svc_result" where
  "deleteRecord lib ev n t v =
     with_load (loadSettings (sl_yaml lib) (sv_dir v) (sv_fs v)) v (\<lambda>s.
     with_load (store_loadRecords (sl_yaml lib) (sv_dir v) (sv_fs v)) v (\<lambda>rs.
       case indexOf rs n t of
         None \<Rightarrow> (Some SvcNotFound, v)
       | Some i \<Rightarrow> applyRecords lib ev s (remove_at i rs) v))"

definition addHost :: "svc_lib \<Rightarrow> env \<Rightarrow> host \<Rightarrow> svc \<Rightarrow> svc_result" where
  "addHost lib ev h v =
     with_load (loadSettings (sl_yaml lib) (sv_dir v) (sv_fs v)) v (\<lambda>s.
     with_load (loadHosts (sl_yaml lib) (sv_dir v) (sv_fs v)) v (\<lambda>hs.
       if list_ex (\<lambda>n. indexOfHostName hs n \<noteq> None) (host_names h) then (Some SvcDuplicate, v)
       else applyHosts lib ev s (hs @ [h]) v))"

definition updateHost :: "svc_lib \<Rightarrow> env \<Rightarrow> string \<Rightarrow> host \<Rightarrow> svc \<Rightarrow> svc_result" where
  "updateHost lib ev n h v =
     with_load (loadSettings (sl_yaml lib) (sv_dir v) (sv_fs v)) v (\<lambda>s.
     with_load (loadHosts (sl_yaml lib) (sv_dir v) (sv_fs v)) v (\<lambda>hs.
       case indexOfHost hs n of
         None \<Rightarrow> (Some SvcNotFound, v)
       | Some i \<Rightarrow> applyHosts lib ev s (hs[i := h]) v))"

definition deleteHost :: "svc_lib \<Rightarrow> env \<Rightarrow> string \<Rightarrow> svc \<Rightarrow> svc_result" where
  "deleteHost lib ev n v =
     with_load (loadSettings (sl_yaml lib) (sv_dir v) (sv_fs v)) v (\<lambda>s.
     with_load (loadHosts (sl_yaml lib) (sv_dir v) (sv_fs v)) v (\<lambda>hs.
       case indexOfHost hs n of
         None \<Rightarrow> (Some SvcNotFound, v)
       | Some i \<Rightarrow> applyHosts lib ev s (remove_at i hs) v))"

section \<open>Discovered devices\<close>

definition mdnsCandidates :: "time \<Rightarrow> svc \<Rightarrow> svc_error + mentry list" where
  "mdnsCandidates now v = (case sv_mdns v of None \<Rightarrow> Inl SvcMdnsDisabled | Some t \<Rightarrow> Inr (mt_snapshot now t))"

definition setMDNSPublished :: "string \<Rightarrow> bool \<Rightarrow> svc \<Rightarrow> svc_result" where
  "setMDNSPublished n published v = (case sv_mdns v of
     None \<Rightarrow> (Some SvcMdnsDisabled, v)
   | Some t \<Rightarrow>
       let (found, t') = setPublished (sv_vlans v) n published t in
       (if \<not> found then Some SvcNotFound else None, v\<lparr>sv_mdns := Some t'\<rparr>))"

definition ensureDot :: "string \<Rightarrow> string" where
  "ensureDot n = (if hasSuffix n ''.'' then n else n @ ''.'')"

definition promotedRecord :: "mentry \<Rightarrow> dnsRecord" where
  "promotedRecord e = \<lparr>rec_name = trimSuffix (me_name e) ''.'', rec_type = typeMDNS, rec_default = [], rec_ttl = 0,
     rec_overrides = [], rec_match = Some \<lparr>sel_service = [], sel_instance = [], sel_host = trimSuffix (me_host e) ''.'',
       sel_txt = [], sel_vlan = [], sel_family = []\<rparr>\<rparr>"

definition promoteMDNS :: "svc_lib \<Rightarrow> env \<Rightarrow> time \<Rightarrow> string \<Rightarrow> svc \<Rightarrow> svc_result" where
  "promoteMDNS lib ev now n v = (case sv_mdns v of
     None \<Rightarrow> (Some SvcMdnsDisabled, v)
   | Some t \<Rightarrow>
       (case find (\<lambda>e. equalFold (me_name e) (ensureDot n)) (mt_snapshot now t) of
          None \<Rightarrow> (Some SvcNotFound, v)
        | Some e \<Rightarrow>
            if me_name e = [] then (Some SvcNotFound, v)
            else if trimSuffix (me_host e) ''.'' = [] then (Some SvcNoHost, v)
            else svc_addRecord lib ev (promotedRecord e) v))"

definition clients :: "time \<Rightarrow> svc \<Rightarrow> svc_error + cnEntry list" where
  "clients now v = (case sv_clientNames v of
     None \<Rightarrow> Inl SvcClientNamesDisabled
   | Some t \<Rightarrow> Inr (cn_snapshot now (sv_mdns v) t))"

section \<open>All edits\<close>

datatype svc_op =
    SaveSettings settings
  | SaveRecords recordSet
  | RestartEngine
  | AddRecord dnsRecord
  | UpdateRecord string recordType dnsRecord
  | DeleteRecord string recordType
  | AddHost host
  | UpdateHost string host
  | DeleteHost string
  | SetMDNSPublished string bool
  | PromoteMDNS time string

fun svc_apply :: "svc_lib \<Rightarrow> env \<Rightarrow> svc_op \<Rightarrow> svc \<Rightarrow> svc_result" where
  "svc_apply lib ev (SaveSettings s) v = svc_saveSettings lib ev s v"
| "svc_apply lib ev (SaveRecords rs) v = svc_saveRecords lib ev rs v"
| "svc_apply lib ev RestartEngine v = restartEngine lib ev v"
| "svc_apply lib ev (AddRecord r) v = svc_addRecord lib ev r v"
| "svc_apply lib ev (UpdateRecord n t r) v = updateRecord lib ev n t r v"
| "svc_apply lib ev (DeleteRecord n t) v = deleteRecord lib ev n t v"
| "svc_apply lib ev (AddHost h) v = addHost lib ev h v"
| "svc_apply lib ev (UpdateHost n h) v = updateHost lib ev n h v"
| "svc_apply lib ev (DeleteHost n) v = deleteHost lib ev n v"
| "svc_apply lib ev (SetMDNSPublished n b) v = setMDNSPublished n b v"
| "svc_apply lib ev (PromoteMDNS now n) v = promoteMDNS lib ev now n v"

section \<open>What the files hold\<close>

definition config_paths :: "string \<Rightarrow> string set" where
  "config_paths dir = {settingsPath dir, recordsPath dir, hostsPath dir}"

definition runtime_paths :: "string \<Rightarrow> string set" where
  "runtime_paths dir = {zoneDataPath dir, hostsDataPath dir, runtimeCorefilePath dir}"

text \<open>The temporary file is a new one.\<close>

definition env_ok :: "env \<Rightarrow> string \<Rightarrow> bool" where
  "env_ok ev dir \<longleftrightarrow> ev_tmp ev \<notin> config_paths dir \<union> runtime_paths dir"

definition loads :: "svc_lib \<Rightarrow> svc \<Rightarrow> (store_error + settings) \<times> (store_error + recordSet) \<times> (store_error + hostSet)" where
  "loads lib v = (loadSettings (sl_yaml lib) (sv_dir v) (sv_fs v), store_loadRecords (sl_yaml lib) (sv_dir v) (sv_fs v),
     loadHosts (sl_yaml lib) (sv_dir v) (sv_fs v))"

definition disk_ok :: "svc_lib \<Rightarrow> svc \<Rightarrow> bool" where
  "disk_ok lib v \<longleftrightarrow> (\<exists>s rs hs. loads lib v = (Inr s, Inr rs, Inr hs) \<and> validate s rs hs = None)"

lemma paths_disjoint: "config_paths dir \<inter> runtime_paths dir = {}"
  by (auto simp: config_paths_def runtime_paths_def settingsPath_def recordsPath_def hostsPath_def
      zoneDataPath_def hostsDataPath_def runtimeCorefilePath_def)

lemma loads_cong: "sv_dir v = sv_dir w \<Longrightarrow> (\<And>p. p \<in> config_paths (sv_dir w) \<Longrightarrow> sv_fs v p = sv_fs w p) \<Longrightarrow> loads lib v = loads lib w"
  by (simp add: loads_def loadSettings_def store_loadRecords_def loadHosts_def readYAML_def config_paths_def)

text \<open>A reload writes only generated files and leaves the components alone.\<close>

lemma runtime_write:
  assumes "writeFileAtomic f tmp path data fs = (e, tr)" "tmp \<noteq> path" "p \<noteq> tmp" "p \<noteq> path"
  shows "last tr p = fs p"
  using writeFileAtomic_states [OF assms(2,1)] assms(3,4) last_in_set by auto

lemma svc_reload_frame:
  assumes "svc_reload lib ev r v = (e, v')" "env_ok ev (sv_dir v)"
  shows "sv_dir v' = sv_dir v \<and> (\<forall>p\<in>config_paths (sv_dir v). sv_fs v' p = sv_fs v p) \<and>
    sv_mdns v' = sv_mdns v \<and> sv_listener v' = sv_listener v \<and> sv_mdnsCfg v' = sv_mdnsCfg v \<and> sv_vlans v' = sv_vlans v \<and>
    sv_running v' = (if e = None then rd_corefile r else sv_running v)"
proof -
  let ?z = "writeFileAtomic (ev_zone ev) (ev_tmp ev) (zoneDataPath (sv_dir v)) (sl_zoneJSON lib (rd_zoneData r)) (sv_fs v)"
  let ?h = "writeFileAtomic (ev_hosts ev) (ev_tmp ev) (hostsDataPath (sv_dir v)) (rd_hostsData r) (last (snd ?z))"
  let ?c = "writeFileAtomic (ev_corefile ev) (ev_tmp ev) (runtimeCorefilePath (sv_dir v)) (rd_corefile r) (last (snd ?h))"
  have tmp: "ev_tmp ev \<noteq> zoneDataPath (sv_dir v)" "ev_tmp ev \<noteq> hostsDataPath (sv_dir v)" "ev_tmp ev \<noteq> runtimeCorefilePath (sv_dir v)"
    using assms(2) by (auto simp: env_ok_def runtime_paths_def)
  have keep: "last (snd ?z) p = sv_fs v p" "last (snd ?h) p = sv_fs v p" "last (snd ?c) p = sv_fs v p"
    if p: "p \<in> config_paths (sv_dir v)" for p
  proof -
    have "p \<noteq> ev_tmp ev" "p \<notin> runtime_paths (sv_dir v)" using assms(2) p paths_disjoint by (auto simp: env_ok_def)
    then have ne: "p \<noteq> ev_tmp ev" "p \<noteq> zoneDataPath (sv_dir v)" "p \<noteq> hostsDataPath (sv_dir v)" "p \<noteq> runtimeCorefilePath (sv_dir v)"
      by (auto simp: runtime_paths_def)
    show "last (snd ?z) p = sv_fs v p" using runtime_write [OF surjective_pairing tmp(1) ne(1,2)] .
    then show "last (snd ?h) p = sv_fs v p" using runtime_write [OF surjective_pairing tmp(2) ne(1,3)] by simp
    then show "last (snd ?c) p = sv_fs v p" using runtime_write [OF surjective_pairing tmp(3) ne(1,4)] by simp
  qed
  show ?thesis
  proof (cases ?z)
    case z: (Pair ez trz)
    then have sz: "snd ?z = trz" by simp
    obtain eh trh where h: "?h = (eh, trh)" by (cases ?h)
    have kz: "last trz p = sv_fs v p" and kh: "last trh p = sv_fs v p" and kc: "last (snd ?c) p = sv_fs v p"
      if "p \<in> config_paths (sv_dir v)" for p using keep [OF that] z h by simp_all
    show ?thesis using assms(1) z h kz kh kc
      unfolding svc_reload_def by (auto simp: svc_setLoaded_def sz Let_def split: option.splits if_splits)
  qed
qed

lemma svc_reload_loads:
  "svc_reload lib ev r v = (e, v') \<Longrightarrow> env_ok ev (sv_dir v) \<Longrightarrow> loads lib v' = loads lib v \<and> sv_dir v' = sv_dir v"
  using svc_reload_frame [of lib ev r v e v'] by (auto intro!: loads_cong)

lemma reload_keeps:
  "env_ok ev (sv_dir v) \<Longrightarrow> loads lib (snd (svc_reload lib ev r v)) = loads lib v"
  "env_ok ev (sv_dir v) \<Longrightarrow> sv_dir (snd (svc_reload lib ev r v)) = sv_dir v"
  using svc_reload_loads [OF surjective_pairing] by blast+

lemma svc_render_cases:
  "(\<exists>e. svc_render ev s rs hs v = (Inl (SvcInvalid e), v\<lparr>sv_vlans := newTable (vlancfg_build (st_vlans s))\<rparr>)) \<or>
   (\<exists>r. svc_render ev s rs hs v = (Inr r, v\<lparr>sv_vlans := newTable (vlancfg_build (st_vlans s))\<rparr>) \<and> validate s rs hs = None \<and>
      render s rs hs ((sv_certOpts v)\<lparr>opt_acmeSelfIPs := ev_selfIPs ev (st_vlans s)\<rparr>) = Inr r)"
  by (auto simp: svc_render_def Let_def render_def split: option.split sum.split)

lemma loads_vlans [simp]: "loads lib (v\<lparr>sv_vlans := t\<rparr>) = loads lib v"
  by (simp add: loads_def)

lemma refresh_loads [simp]:
  "loads lib (refreshMDNS s rs v) = loads lib v" "sv_dir (refreshMDNS s rs v) = sv_dir v"
  "loads lib (refreshClientNames lib' ev s hs v) = loads lib v" "sv_dir (refreshClientNames lib' ev s hs v) = sv_dir v"
  "loads lib (mdnsPreReload s rs v) = loads lib v" "sv_dir (mdnsPreReload s rs v) = sv_dir v"
  by (simp_all add: refreshMDNS_def refreshClientNames_def mdnsPreReload_def loads_def split: option.split)

text \<open>What a successful reload leaves for the engine: the Corefile it runs and the data its plugins read.\<close>

definition serving :: "svc_lib \<Rightarrow> rendered \<Rightarrow> svc \<Rightarrow> bool" where
  "serving lib r w \<longleftrightarrow> sv_running w = rd_corefile r \<and>
     sv_fs w (zoneDataPath (sv_dir w)) = Some (sl_zoneJSON lib (rd_zoneData r)) \<and>
     sv_fs w (hostsDataPath (sv_dir w)) = Some (rd_hostsData r)"

lemma runtime_paths_distinct [simp]:
  "zoneDataPath d \<noteq> hostsDataPath d" "zoneDataPath d \<noteq> runtimeCorefilePath d" "hostsDataPath d \<noteq> runtimeCorefilePath d"
  by (simp_all add: zoneDataPath_def hostsDataPath_def runtimeCorefilePath_def)

lemma reload_serving:
  assumes "env_ok ev (sv_dir v)" "fst (svc_reload lib ev r v) = None"
  shows "serving lib r (snd (svc_reload lib ev r v))"
proof -
  let ?z = "writeFileAtomic (ev_zone ev) (ev_tmp ev) (zoneDataPath (sv_dir v)) (sl_zoneJSON lib (rd_zoneData r)) (sv_fs v)"
  have tmp: "ev_tmp ev \<noteq> zoneDataPath (sv_dir v)" "ev_tmp ev \<noteq> hostsDataPath (sv_dir v)" "ev_tmp ev \<noteq> runtimeCorefilePath (sv_dir v)"
    using assms(1) by (auto simp: env_ok_def runtime_paths_def)
  obtain tz where z: "?z = (None, tz)" using assms(2) by (cases ?z; cases "fst ?z") (auto simp: svc_reload_def)
  let ?h = "writeFileAtomic (ev_hosts ev) (ev_tmp ev) (hostsDataPath (sv_dir v)) (rd_hostsData r) (last tz)"
  obtain th where h: "?h = (None, th)" using assms(2) z by (cases ?h; cases "fst ?h") (auto simp: svc_reload_def)
  let ?c = "writeFileAtomic (ev_corefile ev) (ev_tmp ev) (runtimeCorefilePath (sv_dir v)) (rd_corefile r) (last th)"
  have zd: "last tz (zoneDataPath (sv_dir v)) = Some (sl_zoneJSON lib (rd_zoneData r))"
    using writeFileAtomic_states [OF tmp(1) z] by simp
  have hd: "last th (zoneDataPath (sv_dir v)) = last tz (zoneDataPath (sv_dir v))"
    "last th (hostsDataPath (sv_dir v)) = Some (rd_hostsData r)"
    using writeFileAtomic_states [OF tmp(2) h] runtime_write [OF h tmp(2) tmp(1) [symmetric]] by simp_all
  have "last (snd ?c) (zoneDataPath (sv_dir v)) = last th (zoneDataPath (sv_dir v))"
    "last (snd ?c) (hostsDataPath (sv_dir v)) = last th (hostsDataPath (sv_dir v))"
    using runtime_write [OF surjective_pairing tmp(3) tmp(1) [symmetric]]
      runtime_write [OF surjective_pairing tmp(3) tmp(2) [symmetric]] by simp_all
  then show ?thesis using assms(2) z h zd hd
    by (auto simp: svc_reload_def serving_def svc_setLoaded_def Let_def split: if_splits)
qed

lemma refresh_serving [simp]:
  "serving lib r (refreshMDNS s rs v) = serving lib r v"
  "serving lib r (mdnsPostReload s rs v) = serving lib r v" "serving lib r (reconcileAdvertise ev s v) = serving lib r v"
  "serving lib r (reconcileQueryLogStore ev s v) = serving lib r v"
  "serving lib r (reconcileClientNames lib' ev s hs v) = serving lib r v"
  by (simp_all add: serving_def refreshMDNS_def mdnsPostReload_def stopMDNS_def startMDNS_def reconcileAdvertise_def
      stopAdvertise_def startAdvertise_def reconcileQueryLogStore_def reconcileClientNames_def stopClientNames_def
      startClientNames_def refreshClientNames_def svc_setLoaded_def split: option.split)

lemma mdnsPostReload_loads [simp]:
  "loads lib (mdnsPostReload s rs v) = loads lib v" "sv_dir (mdnsPostReload s rs v) = sv_dir v"
  by (simp_all add: mdnsPostReload_def stopMDNS_def startMDNS_def refreshMDNS_def svc_setLoaded_def loads_def split: option.split)

lemma reconcile_loads [simp]:
  "loads lib (reconcileAdvertise ev s v) = loads lib v" "sv_dir (reconcileAdvertise ev s v) = sv_dir v"
  "loads lib (reconcileQueryLogStore ev s v) = loads lib v" "sv_dir (reconcileQueryLogStore ev s v) = sv_dir v"
  "loads lib (reconcileClientNames lib' ev s hs v) = loads lib v" "sv_dir (reconcileClientNames lib' ev s hs v) = sv_dir v"
  by (simp_all add: reconcileAdvertise_def stopAdvertise_def startAdvertise_def reconcileQueryLogStore_def
      reconcileClientNames_def stopClientNames_def startClientNames_def refreshClientNames_def svc_setLoaded_def loads_def
      split: option.split)

text \<open>
  What a persisted edit leaves: the loads before it on any error before the save or in it, the
  edited configuration otherwise, which has passed validation.
\<close>

definition serves :: "svc_lib \<Rightarrow> env \<Rightarrow> svc \<Rightarrow> settings \<Rightarrow> recordSet \<Rightarrow> hostSet \<Rightarrow> svc \<Rightarrow> bool" where
  "serves lib ev v s rs hs w \<longleftrightarrow>
     (\<exists>r. render s rs hs ((sv_certOpts v)\<lparr>opt_acmeSelfIPs := ev_selfIPs ev (st_vlans s)\<rparr>) = Inr r \<and> serving lib r w)"

definition edit_outcome :: "svc_lib \<Rightarrow> env \<Rightarrow> svc \<Rightarrow> svc_result \<Rightarrow> settings \<Rightarrow> recordSet \<Rightarrow> hostSet \<Rightarrow> bool" where
  "edit_outcome lib ev v res s rs hs \<longleftrightarrow> sv_dir (snd res) = sv_dir v \<and>
     (loads lib (snd res) = loads lib v \<or> loads lib (snd res) = (Inr s, Inr rs, Inr hs) \<and> validate s rs hs = None) \<and>
     (fst res = None \<longrightarrow> loads lib (snd res) = (Inr s, Inr rs, Inr hs) \<and> serves lib ev v s rs hs (snd res))"

lemma failed_save_loads:
  assumes "\<And>p. p \<noteq> ev_tmp ev \<Longrightarrow> last tr p = sv_fs v p" "env_ok ev (sv_dir v)"
  shows "loads lib (v\<lparr>sv_fs := last tr\<rparr>) = loads lib v"
proof (rule loads_cong)
  fix p
  assume "p \<in> config_paths (sv_dir v)"
  then have "p \<noteq> ev_tmp ev" using assms(2) by (auto simp: env_ok_def)
  then show "sv_fs (v\<lparr>sv_fs := last tr\<rparr>) p = sv_fs v p" using assms(1) by simp
qed simp

text \<open>The shape of every edit: render, save, then a continuation that leaves the user's files alone.\<close>

lemma persist_outcome:
  assumes failed: "\<And>e tr. save (sv_dir v) (sv_fs v) = (Some e, tr) \<Longrightarrow> loads lib (v\<lparr>sv_fs := last tr\<rparr>) = loads lib v"
    and saved: "\<And>tr. save (sv_dir v) (sv_fs v) = (None, tr) \<Longrightarrow> loads lib (v\<lparr>sv_fs := last tr\<rparr>) = (Inr s, Inr rs, Inr hs)"
    and k: "\<And>r w. sv_dir w = sv_dir v \<Longrightarrow> loads lib (snd (k r w)) = loads lib w \<and> sv_dir (snd (k r w)) = sv_dir w"
    and running: "\<And>r w. sv_dir w = sv_dir v \<Longrightarrow> fst (k r w) = None \<Longrightarrow> serving lib r (snd (k r w))"
  shows "edit_outcome lib ev v (case svc_render ev s rs hs v of
      (Inl e, v1) \<Rightarrow> (Some e, v1)
    | (Inr r, v1) \<Rightarrow> (case save (sv_dir v1) (sv_fs v1) of
         (Some e, tr) \<Rightarrow> (Some (SvcStore e), v1\<lparr>sv_fs := last tr\<rparr>)
       | (None, tr) \<Rightarrow> k r (v1\<lparr>sv_fs := last tr\<rparr>))) s rs hs"
proof -
  let ?v1 = "v\<lparr>sv_vlans := newTable (vlancfg_build (st_vlans s))\<rparr>"
  have l: "loads lib (?v1\<lparr>sv_fs := x\<rparr>) = loads lib (v\<lparr>sv_fs := x\<rparr>)" for x by (simp add: loads_def)
  from svc_render_cases [of ev s rs hs v] show ?thesis
  proof (elim disjE exE conjE)
    fix e
    assume "svc_render ev s rs hs v = (Inl (SvcInvalid e), ?v1)"
    then show ?thesis by (simp add: edit_outcome_def)
  next
    fix r
    assume r: "svc_render ev s rs hs v = (Inr r, ?v1)" "validate s rs hs = None"
      "render s rs hs ((sv_certOpts v)\<lparr>opt_acmeSelfIPs := ev_selfIPs ev (st_vlans s)\<rparr>) = Inr r"
    obtain e tr where w: "save (sv_dir v) (sv_fs v) = (e, tr)" by (cases "save (sv_dir v) (sv_fs v)")
    show ?thesis
      using r w failed [of _ tr] saved [of tr] k [of "?v1\<lparr>sv_fs := last tr\<rparr>" r]
        running [of "?v1\<lparr>sv_fs := last tr\<rparr>" r]
      by (cases e) (simp_all add: edit_outcome_def serves_def l)
  qed
qed

lemma applyRecords_outcome:
  assumes y: "yaml_doc (sl_yaml lib)" and ev: "env_ok ev (sv_dir v)" and l: "loads lib v = (Inr s, rs0, Inr hs)"
  shows "edit_outcome lib ev v (applyRecords lib ev s rs v) s rs hs"
proof -
  have hs: "loadHosts (sl_yaml lib) (sv_dir v) (sv_fs v) = Inr hs"
    and st: "loadSettings (sl_yaml lib) (sv_dir v) (sv_fs v) = Inr s" using l by (auto simp: loads_def)
  show ?thesis
    unfolding applyRecords_def with_load_def hs sum.case
  proof (rule persist_outcome)
    show "loads lib (v\<lparr>sv_fs := last tr\<rparr>) = loads lib v"
      if "saveRecords (sl_yaml lib) (ev_save ev) (ev_tmp ev) (sv_dir v) rs (sv_fs v) = (Some e, tr)" for e tr
      using records_file.failed_keeps [OF _ that] ev by (intro failed_save_loads [where ev = ev]) (auto simp: env_ok_def config_paths_def)
    show "loads lib (v\<lparr>sv_fs := last tr\<rparr>) = (Inr s, Inr rs, Inr hs)"
      if "saveRecords (sl_yaml lib) (ev_save ev) (ev_tmp ev) (sv_dir v) rs (sv_fs v) = (None, tr)" for tr
      using saved_records_load [OF y _ that] ev hs st by (auto simp: loads_def env_ok_def config_paths_def)
  qed (use ev in \<open>simp_all add: reload_keeps reload_serving case_prod_unfold Let_def\<close>)
qed

lemma applyHosts_outcome:
  assumes y: "yaml_doc (sl_yaml lib)" and ev: "env_ok ev (sv_dir v)" and l: "loads lib v = (Inr s, Inr rs, hs0)"
  shows "edit_outcome lib ev v (applyHosts lib ev s hs v) s rs hs"
proof -
  have rs: "store_loadRecords (sl_yaml lib) (sv_dir v) (sv_fs v) = Inr rs"
    and st: "loadSettings (sl_yaml lib) (sv_dir v) (sv_fs v) = Inr s" using l by (auto simp: loads_def)
  show ?thesis
    unfolding applyHosts_def with_load_def rs sum.case
  proof (rule persist_outcome)
    show "loads lib (v\<lparr>sv_fs := last tr\<rparr>) = loads lib v"
      if "saveHosts (sl_yaml lib) (ev_save ev) (ev_tmp ev) (sv_dir v) hs (sv_fs v) = (Some e, tr)" for e tr
      using hosts_file.failed_keeps [OF _ that] ev by (intro failed_save_loads [where ev = ev]) (auto simp: env_ok_def config_paths_def)
    show "loads lib (v\<lparr>sv_fs := last tr\<rparr>) = (Inr s, Inr rs, Inr hs)"
      if "saveHosts (sl_yaml lib) (ev_save ev) (ev_tmp ev) (sv_dir v) hs (sv_fs v) = (None, tr)" for tr
      using saved_hosts_load [OF y _ that] ev rs st by (auto simp: loads_def env_ok_def config_paths_def)
  qed (use ev in \<open>simp_all add: reload_keeps reload_serving\<close>)
qed

lemma saveSettings_outcome:
  assumes y: "yaml_doc (sl_yaml lib)" and ev: "env_ok ev (sv_dir v)" and l: "loads lib v = (s0, Inr rs, Inr hs)"
  shows "edit_outcome lib ev v (svc_saveSettings lib ev s v) s rs hs"
proof -
  have rs: "store_loadRecords (sl_yaml lib) (sv_dir v) (sv_fs v) = Inr rs"
    and hs: "loadHosts (sl_yaml lib) (sv_dir v) (sv_fs v) = Inr hs" using l by (auto simp: loads_def)
  show ?thesis
    unfolding svc_saveSettings_def with_load_def rs hs sum.case
  proof (rule persist_outcome)
    show "loads lib (v\<lparr>sv_fs := last tr\<rparr>) = loads lib v"
      if "saveSettings (sl_yaml lib) (ev_save ev) (ev_tmp ev) (sv_dir v) s (sv_fs v) = (Some e, tr)" for e tr
      using settings_file.failed_keeps [OF _ that] ev by (intro failed_save_loads [where ev = ev]) (auto simp: env_ok_def config_paths_def)
    show "loads lib (v\<lparr>sv_fs := last tr\<rparr>) = (Inr s, Inr rs, Inr hs)"
      if "saveSettings (sl_yaml lib) (ev_save ev) (ev_tmp ev) (sv_dir v) s (sv_fs v) = (None, tr)" for tr
      using saved_settings_load [OF y _ that] ev rs hs by (auto simp: loads_def env_ok_def config_paths_def)
  qed (use ev in \<open>simp_all add: reload_keeps reload_serving case_prod_unfold Let_def\<close>)
qed

text \<open>What an edit leaves: a valid configuration on disk, and on success the engine serving it.\<close>

definition edit_ok :: "svc_lib \<Rightarrow> env \<Rightarrow> svc \<Rightarrow> svc_result \<Rightarrow> bool" where
  "edit_ok lib ev v res \<longleftrightarrow> disk_ok lib (snd res) \<and> sv_dir (snd res) = sv_dir v \<and>
     (fst res = None \<longrightarrow> (\<exists>s rs hs. loads lib (snd res) = (Inr s, Inr rs, Inr hs) \<and> serves lib ev v s rs hs (snd res)))"

lemma edit_ok_outcome: "disk_ok lib v \<Longrightarrow> edit_outcome lib ev v res s rs hs \<Longrightarrow> edit_ok lib ev v res"
  by (auto simp: disk_ok_def edit_outcome_def edit_ok_def)

lemma edit_ok_rejected: "disk_ok lib v \<Longrightarrow> edit_ok lib ev v (Some e, v)"
  by (simp add: edit_ok_def)

lemma disk_ok_loads: "disk_ok lib v \<Longrightarrow> loads lib w = loads lib v \<Longrightarrow> disk_ok lib w"
  by (simp add: disk_ok_def)

lemma edit_ok_restart:
  assumes "env_ok ev (sv_dir v)" "disk_ok lib v" "loads lib v = (Inr s, Inr rs, Inr hs)"
  shows "edit_ok lib ev v (restartEngine lib ev v)"
proof -
  let ?v1 = "v\<lparr>sv_vlans := newTable (vlancfg_build (st_vlans s))\<rparr>"
  have ld: "loadSettings (sl_yaml lib) (sv_dir v) (sv_fs v) = Inr s" "store_loadRecords (sl_yaml lib) (sv_dir v) (sv_fs v) = Inr rs"
    "loadHosts (sl_yaml lib) (sv_dir v) (sv_fs v) = Inr hs" using assms(3) by (simp_all add: loads_def)
  have d1: "disk_ok lib ?v1" using assms(2) by (rule disk_ok_loads) simp
  have reload: "disk_ok lib (snd (svc_reload lib ev r ?v1))" "loads lib (snd (svc_reload lib ev r ?v1)) = loads lib v"
    "sv_dir (snd (svc_reload lib ev r ?v1)) = sv_dir v" for r
    using assms(1) disk_ok_loads [OF assms(2)] by (simp_all add: reload_keeps)
  have run: "fst (svc_reload lib ev r ?v1) = None \<Longrightarrow> serving lib r (snd (svc_reload lib ev r ?v1))" for r
    using assms(1) by (simp add: reload_serving)
  from svc_render_cases [of ev s rs hs v] show ?thesis
  proof (elim disjE exE conjE)
    fix e
    assume "svc_render ev s rs hs v = (Inl (SvcInvalid e), ?v1)"
    then show ?thesis using d1 by (simp add: restartEngine_def with_load_def ld edit_ok_def)
  next
    fix r
    assume "svc_render ev s rs hs v = (Inr r, ?v1)"
      "render s rs hs ((sv_certOpts v)\<lparr>opt_acmeSelfIPs := ev_selfIPs ev (st_vlans s)\<rparr>) = Inr r"
    then show ?thesis using reload run assms(3)
      by (simp add: restartEngine_def with_load_def ld edit_ok_def serves_def)
  qed
qed

text \<open>Every edit of records and hosts is a rejected one or goes through \<^verbatim>\<open>applyRecords\<close> or \<^verbatim>\<open>applyHosts\<close>.\<close>

lemma edit_ok_apply:
  assumes "yaml_doc (sl_yaml lib)" "env_ok ev (sv_dir v)" "disk_ok lib v" "\<forall>n b. op \<noteq> SetMDNSPublished n b"
  shows "edit_ok lib ev v (svc_apply lib ev op v)"
proof -
  obtain s rs hs where l: "loads lib v = (Inr s, Inr rs, Inr hs)" using assms(3) by (auto simp: disk_ok_def)
  note ld = l [unfolded loads_def prod.inject]
  note out = edit_ok_outcome [OF assms(3) applyRecords_outcome [OF assms(1,2) l]]
    edit_ok_outcome [OF assms(3) applyHosts_outcome [OF assms(1,2) l]]
    edit_ok_outcome [OF assms(3) saveSettings_outcome [OF assms(1,2) l]]
    edit_ok_restart [OF assms(2,3) l] edit_ok_rejected [OF assms(3)]
  show ?thesis
    by (cases op) (use out ld assms(4) in \<open>auto simp: svc_saveRecords_def svc_addRecord_def updateRecord_def deleteRecord_def
      addHost_def updateHost_def deleteHost_def promoteMDNS_def with_load_def split: option.split\<close>)
qed

lemma svc_apply_disk_ok:
  assumes "yaml_doc (sl_yaml lib)" "env_ok ev (sv_dir v)" "disk_ok lib v"
  shows "disk_ok lib (snd (svc_apply lib ev op v)) \<and> sv_dir (snd (svc_apply lib ev op v)) = sv_dir v"
proof (cases "\<exists>n b. op = SetMDNSPublished n b")
  case True
  have "disk_ok lib (v\<lparr>sv_mdns := m\<rparr>)" for m using assms(3) by (rule disk_ok_loads) (simp add: loads_def)
  then show ?thesis using True assms(3)
    by (auto simp: setMDNSPublished_def case_prod_unfold Let_def split: option.split)
next
  case False
  then show ?thesis using edit_ok_apply [OF assms] by (simp add: edit_ok_def)
qed

section \<open>The components and the settings\<close>

text \<open>
  The hooks the components hold in the plugins agree with the components the service holds, and
  a running browse goroutine has a table and the parameters on record.
\<close>

definition wired :: "svc \<Rightarrow> bool" where
  "wired v \<longleftrightarrow> sv_injected v = (sv_mdns v \<noteq> None) \<and> sv_cnObserver v = (sv_clientNames v \<noteq> None) \<and>
     (sv_listener v \<noteq> None \<longrightarrow> sv_mdns v \<noteq> None \<and> sv_listener v = Some (sv_mdnsCfg v))"

lemma svc_reload_components:
  "sv_mdns (snd (svc_reload lib ev r v)) = sv_mdns v" "sv_injected (snd (svc_reload lib ev r v)) = sv_injected v"
  "sv_listener (snd (svc_reload lib ev r v)) = sv_listener v" "sv_mdnsCfg (snd (svc_reload lib ev r v)) = sv_mdnsCfg v"
  "sv_clientNames (snd (svc_reload lib ev r v)) = sv_clientNames v" "sv_cnObserver (snd (svc_reload lib ev r v)) = sv_cnObserver v"
  "sv_advertiser (snd (svc_reload lib ev r v)) = sv_advertiser v" "sv_store (snd (svc_reload lib ev r v)) = sv_store v"
  "sv_vlans (snd (svc_reload lib ev r v)) = sv_vlans v" "sv_dir (snd (svc_reload lib ev r v)) = sv_dir v"
  by (auto simp: svc_reload_def svc_setLoaded_def Let_def split: prod.split option.split)

lemma wired_cong:
  "sv_injected w = sv_injected v \<Longrightarrow> (sv_mdns w = None) = (sv_mdns v = None) \<Longrightarrow> sv_cnObserver w = sv_cnObserver v \<Longrightarrow>
   (sv_clientNames w = None) = (sv_clientNames v = None) \<Longrightarrow> sv_listener w = sv_listener v \<Longrightarrow> sv_mdnsCfg w = sv_mdnsCfg v \<Longrightarrow>
   wired w = wired v"
  by (simp add: wired_def)

lemma wired_simps [simp]:
  "wired (snd (svc_reload lib ev r v)) = wired v" "wired (v\<lparr>sv_vlans := t\<rparr>) = wired v" "wired (v\<lparr>sv_fs := f\<rparr>) = wired v"
  "wired (refreshMDNS s rs v) = wired v" "wired (refreshClientNames lib ev s hs v) = wired v"
  by (rule wired_cong; simp add: svc_reload_components refreshMDNS_def refreshClientNames_def split: option.split)+

lemmas component_defs = mdnsPreReload_def mdnsPostReload_def stopMDNS_def startMDNS_def refreshMDNS_def reconcileAdvertise_def
  stopAdvertise_def startAdvertise_def reconcileQueryLogStore_def reconcileClientNames_def stopClientNames_def
  startClientNames_def refreshClientNames_def svc_setLoaded_def

lemma wired_reconcile:
  "wired v \<Longrightarrow> wired (mdnsPreReload s rs v)"
  "wired v \<Longrightarrow> mdns_enabled (st_mdns s) \<longrightarrow> sv_mdns v \<noteq> None \<Longrightarrow> wired (mdnsPostReload s rs v)"
  "wired v \<Longrightarrow> wired (reconcileAdvertise ev s v)" "wired v \<Longrightarrow> wired (reconcileQueryLogStore ev s v)"
  "wired v \<Longrightarrow> wired (reconcileClientNames lib ev s hs v)"
  by (auto simp: component_defs wired_def split: option.split)

lemma reconcile_frames [simp]:
  "sv_mdns (reconcileAdvertise ev s v) = sv_mdns v" "sv_mdns (reconcileQueryLogStore ev s v) = sv_mdns v"
  "sv_mdns (reconcileClientNames lib ev s hs v) = sv_mdns v"
  "sv_injected (reconcileAdvertise ev s v) = sv_injected v" "sv_injected (reconcileQueryLogStore ev s v) = sv_injected v"
  "sv_injected (reconcileClientNames lib ev s hs v) = sv_injected v"
  "sv_listener (reconcileAdvertise ev s v) = sv_listener v" "sv_listener (reconcileQueryLogStore ev s v) = sv_listener v"
  "sv_listener (reconcileClientNames lib ev s hs v) = sv_listener v"
  "sv_advertiser (reconcileQueryLogStore ev s v) = sv_advertiser v"
  "sv_advertiser (reconcileClientNames lib ev s hs v) = sv_advertiser v"
  by (simp_all add: component_defs split: option.split)

lemma component_frames [simp]:
  "sv_vlans (mdnsPreReload s rs v) = sv_vlans v" "sv_vlans (mdnsPostReload s rs v) = sv_vlans v"
  "sv_vlans (reconcileAdvertise ev s v) = sv_vlans v" "sv_vlans (reconcileQueryLogStore ev s v) = sv_vlans v"
  "sv_vlans (reconcileClientNames lib ev s hs v) = sv_vlans v"
  "sv_dir (mdnsPreReload s rs v) = sv_dir v" "sv_dir (mdnsPostReload s rs v) = sv_dir v"
  "sv_dir (reconcileAdvertise ev s v) = sv_dir v" "sv_dir (reconcileQueryLogStore ev s v) = sv_dir v"
  "sv_dir (reconcileClientNames lib ev s hs v) = sv_dir v"
  "sv_store (mdnsPreReload s rs v) = sv_store v" "sv_store (mdnsPostReload s rs v) = sv_store v"
  "sv_store (reconcileAdvertise ev s v) = sv_store v" "sv_store (reconcileClientNames lib ev s hs v) = sv_store v"
  "sv_advertiser (mdnsPreReload s rs v) = sv_advertiser v" "sv_advertiser (mdnsPostReload s rs v) = sv_advertiser v"
  by (simp_all add: component_defs split: option.split)

text \<open>
  What the settings ask for: the discovery table with its configuration \<open>cfg\<close>, its hook and its browse
  goroutine; the client-name table with the hosts and resolvers of the settings, and its observer;
  the store of the query log at its path with its tuning, where zero is a default.
\<close>

definition discovery_runs :: "settings \<Rightarrow> mdnsConfig \<Rightarrow> svc \<Rightarrow> bool" where
  "discovery_runs s cfg w \<longleftrightarrow>
     (if mdns_enabled (st_mdns s)
      then map_option mt_cfg (sv_mdns w) = Some cfg \<and> sv_injected w \<and>
        sv_listener w = Some (mdns_serviceTypes (st_mdns s), mdns_interfaces (st_mdns s))
      else sv_mdns w = None \<and> \<not> sv_injected w \<and> sv_listener w = None)"

definition client_names_run :: "svc_lib \<Rightarrow> env \<Rightarrow> settings \<Rightarrow> hostSet \<Rightarrow> svc \<Rightarrow> bool" where
  "client_names_run lib ev s hs w \<longleftrightarrow>
     map_option ct_cfg (sv_clientNames w) =
       (if clientNames_enabled (st_clientNames s) then Some (clientNamesConfig lib ev s hs) else None) \<and>
     sv_cnObserver w = clientNames_enabled (st_clientNames s)"

definition store_follows :: "settings \<Rightarrow> svc \<Rightarrow> bool" where
  "store_follows s w \<longleftrightarrow>
     (case currentStore (sv_store w) of
        None \<Rightarrow> \<not> queryLog_enabled (st_queryLog s)
      | Some st \<Rightarrow> queryLog_enabled (st_queryLog s) \<and> st_path st = queryLogDBPath (sv_dir w) \<and>
          st_retentionDays st = (if retentionDays (st_queryLog s) \<le> 0 then 7 else retentionDays (st_queryLog s)) \<and>
          st_maxRows st = (if maxRows (st_queryLog s) \<le> 0 then 200000 else maxRows (st_queryLog s)) \<and>
          st_flushInterval st =
            (if flushIntervalSeconds (st_queryLog s) \<le> 0 then 2 else flushIntervalSeconds (st_queryLog s)) * 1000000000)"

text \<open>The configuration of the table after a save: the saved one, unless a browse for other services ran.\<close>

definition mdnsConfigAfter :: "settings \<Rightarrow> recordSet \<Rightarrow> svc \<Rightarrow> mdnsConfig" where
  "mdnsConfigAfter s rs v = (case sv_mdns v of
     None \<Rightarrow> mdnscfg_build s rs
   | Some t \<Rightarrow> if sv_listener v = Some (mdns_serviceTypes (st_mdns s), mdns_interfaces (st_mdns s)) then mdnscfg_build s rs else mt_cfg t)"

lemma postReload_follows:
  assumes "wired v" "sv_mdns u = sv_mdns (mdnsPreReload s rs v)" "sv_injected u = sv_injected (mdnsPreReload s rs v)"
    "sv_listener u = sv_listener v" "sv_mdnsCfg u = sv_mdnsCfg v"
  shows "discovery_runs s (mdnsConfigAfter s rs v) (mdnsPostReload s rs u)"
proof (cases "mdns_enabled (st_mdns s)")
  case True
  then show ?thesis using assms
    by (auto simp: discovery_runs_def mdnsConfigAfter_def mdnsPreReload_def mdnsPostReload_def startMDNS_def refreshMDNS_def
        wired_def mt_new_def mt_setConfig_def mt_clear_def split: option.split)
next
  case False
  then show ?thesis using assms
    by (auto simp: discovery_runs_def mdnsPreReload_def mdnsPostReload_def stopMDNS_def svc_setLoaded_def wired_def split: option.split)
qed

lemma advertise_follows:
  "sv_advertiser (reconcileAdvertise ev s v) =
     (if \<not> adv_enabled (mdns_advertise (st_mdns s)) \<or> sv_advertiser v = None \<and> ev_advertiserFails ev then None else Some s)"
  by (simp add: reconcileAdvertise_def stopAdvertise_def startAdvertise_def svc_setLoaded_def)

lemma clientNames_follows: "wired v \<Longrightarrow> client_names_run lib ev s hs (reconcileClientNames lib ev s hs v)"
  by (auto simp: client_names_run_def reconcileClientNames_def stopClientNames_def startClientNames_def refreshClientNames_def
      svc_setLoaded_def wired_def ct_new_def ct_setConfig_def split: option.split)

lemma store_follows_cong: "sv_store w = sv_store u \<Longrightarrow> sv_dir w = sv_dir u \<Longrightarrow> store_follows s w = store_follows s u"
  by (simp only: store_follows_def)

lemma reconcile_follows:
  assumes "reconcileStore finish closeFails env (queryLogStoreConfig (st_queryLog s) (sv_dir v)) st = (None, sv_store v)"
  shows "store_follows s v"
  using reconcile_matches [OF assms]
  by (auto simp: store_follows_def queryLogStoreConfig_def queryLogDBPath_def split: if_splits option.split)

lemma queryLog_follows:
  assumes "fst (reconcileStore (ev_finish ev) (ev_closeFails ev) (ev_open ev) (queryLogStoreConfig (st_queryLog s) (sv_dir v)) (sv_store v)) = None"
  shows "store_follows s (reconcileQueryLogStore ev s v)"
  by (rule reconcile_follows) (use assms in \<open>auto simp: reconcileQueryLogStore_def prod_eq_iff\<close>)

text \<open>The tail of \<^verbatim>\<open>SaveSettings\<close>, after the files are written.\<close>

lemma saveSettings_cases:
  assumes "svc_saveSettings lib ev s v = (e, w)"
  obtains "e \<noteq> None" "w = v" | t where "e \<noteq> None" "w = v\<lparr>sv_vlans := t\<rparr>" | t f where "e \<noteq> None" "w = v\<lparr>sv_vlans := t, sv_fs := f\<rparr>"
  | t f r rs hs where "store_loadRecords (sl_yaml lib) (sv_dir v) (sv_fs v) = Inr rs"
      "fst (svc_reload lib ev r (mdnsPreReload s rs (v\<lparr>sv_vlans := t, sv_fs := f\<rparr>))) = e"
      "w = reconcileClientNames lib ev s hs (reconcileQueryLogStore ev s (reconcileAdvertise ev s
         (mdnsPostReload s rs (snd (svc_reload lib ev r (mdnsPreReload s rs (v\<lparr>sv_vlans := t, sv_fs := f\<rparr>)))))))"
      "loadHosts (sl_yaml lib) (sv_dir v) (sv_fs v) = Inr hs" "t = newTable (vlancfg_build (st_vlans s))"
proof (cases "store_loadRecords (sl_yaml lib) (sv_dir v) (sv_fs v)")
  case (Inl x)
  then show ?thesis using assms that(1) by (auto simp: svc_saveSettings_def with_load_def)
next
  case rs: (Inr rs)
  show ?thesis
  proof (cases "loadHosts (sl_yaml lib) (sv_dir v) (sv_fs v)")
    case (Inl x)
    then show ?thesis using assms that(1) rs by (auto simp: svc_saveSettings_def with_load_def)
  next
    case hs: (Inr hs)
    let ?t = "newTable (vlancfg_build (st_vlans s))"
    obtain x tr where w: "saveSettings (sl_yaml lib) (ev_save ev) (ev_tmp ev) (sv_dir v) s (sv_fs v) = (x, tr)"
      by (cases "saveSettings (sl_yaml lib) (ev_save ev) (ev_tmp ev) (sv_dir v) s (sv_fs v)")
    from svc_render_cases [of ev s rs hs v] show ?thesis
    proof (elim disjE exE conjE)
      fix d
      assume "svc_render ev s rs hs v = (Inl (SvcInvalid d), v\<lparr>sv_vlans := ?t\<rparr>)"
      then show ?thesis using assms that(2) rs hs by (auto simp: svc_saveSettings_def with_load_def)
    next
      fix r
      assume "svc_render ev s rs hs v = (Inr r, v\<lparr>sv_vlans := ?t\<rparr>)"
      note eqs = this rs hs w
      let ?v2 = "v\<lparr>sv_vlans := ?t, sv_fs := last tr\<rparr>"
      let ?u = "svc_reload lib ev r (mdnsPreReload s rs ?v2)"
      show ?thesis
      proof (cases x)
        case None
        have "svc_saveSettings lib ev s v = (fst ?u, reconcileClientNames lib ev s hs (reconcileQueryLogStore ev s
            (reconcileAdvertise ev s (mdnsPostReload s rs (snd ?u)))))"
          using eqs None by (simp add: svc_saveSettings_def with_load_def case_prod_unfold Let_def)
        then show ?thesis using assms that(4) [OF rs _ _ hs, where r = r and t = ?t and f = "last tr"] by simp
      next
        case (Some d)
        have "svc_saveSettings lib ev s v = (Some (SvcStore d), ?v2)" using eqs Some by (simp add: svc_saveSettings_def with_load_def)
        then show ?thesis using assms that(3) [where t = ?t and f = "last tr"] by simp
      qed
    qed
  qed
qed

lemma preReload_mdns: "mdns_enabled (st_mdns s) \<Longrightarrow> sv_mdns (mdnsPreReload s rs v) \<noteq> None"
  by (simp add: mdnsPreReload_def)

lemma wired_saveSettings: "wired v \<Longrightarrow> wired (snd (svc_saveSettings lib ev s v))"
proof -
  assume v: "wired v"
  obtain e w where sw: "svc_saveSettings lib ev s v = (e, w)" by (cases "svc_saveSettings lib ev s v")
  then have "wired w"
  proof (cases rule: saveSettings_cases)
    case (4 t f r rs hs)
    let ?u = "mdnsPreReload s rs (v\<lparr>sv_vlans := t, sv_fs := f\<rparr>)"
    have "wired (snd (svc_reload lib ev r ?u))" using v by (simp add: wired_reconcile(1))
    moreover have "mdns_enabled (st_mdns s) \<longrightarrow> sv_mdns (snd (svc_reload lib ev r ?u)) \<noteq> None"
      using preReload_mdns [of s] by (simp add: svc_reload_components)
    ultimately show ?thesis using 4 by (simp add: wired_reconcile)
  qed (use v in simp_all)
  then show ?thesis using sw by simp
qed

lemma wired_edits:
  "wired v \<Longrightarrow> wired (snd (applyRecords lib ev s rs v))" "wired v \<Longrightarrow> wired (snd (applyHosts lib ev s hs v))"
  "wired v \<Longrightarrow> wired (snd (restartEngine lib ev v))" "wired v \<Longrightarrow> wired (snd (setMDNSPublished n b v))"
  by (auto simp: applyRecords_def applyHosts_def restartEngine_def setMDNSPublished_def svc_render_def with_load_def Let_def
      case_prod_unfold wired_def svc_reload_components refreshMDNS_def refreshClientNames_def split: sum.split option.split)

lemma wired_apply: "wired v \<Longrightarrow> wired (snd (svc_apply lib ev op v))"
  by (cases op) (auto simp: wired_saveSettings wired_edits svc_saveRecords_def svc_addRecord_def updateRecord_def deleteRecord_def
      addHost_def updateHost_def deleteHost_def promoteMDNS_def with_load_def split: sum.split option.split)

section \<open>Rejected edits\<close>

text \<open>The errors that say the request was refused, as opposed to a file or the engine failing.\<close>

fun is_rejection :: "svc_error \<Rightarrow> bool" where
  "is_rejection (SvcInvalid _) = True"
| "is_rejection SvcDuplicate = True"
| "is_rejection SvcNotFound = True"
| "is_rejection SvcMdnsDisabled = True"
| "is_rejection SvcNoHost = True"
| "is_rejection SvcClientNamesDisabled = True"
| "is_rejection _ = False"

definition untouched :: "svc \<Rightarrow> svc_result \<Rightarrow> bool" where
  "untouched v res \<longleftrightarrow> (\<forall>e. fst res = Some e \<and> is_rejection e \<longrightarrow> snd res = v\<lparr>sv_vlans := sv_vlans (snd res)\<rparr>)"

lemma reload_not_rejection: "fst (svc_reload lib ev r v) = Some e \<Longrightarrow> \<not> is_rejection e"
  by (auto simp: svc_reload_def Let_def split: prod.splits option.splits if_splits)

lemma with_load_untouched: "(\<And>x. l = Inr x \<Longrightarrow> untouched v (k x)) \<Longrightarrow> untouched v (with_load l v k)"
  by (simp add: with_load_def untouched_def split: sum.split)

lemma persist_untouched:
  assumes "\<And>r w e. fst (k r w) = Some e \<Longrightarrow> \<not> is_rejection e"
  shows "untouched v (case svc_render ev s rs hs v of
      (Inl e, v1) \<Rightarrow> (Some e, v1)
    | (Inr r, v1) \<Rightarrow> (case save (sv_dir v1) (sv_fs v1) of
         (Some e, tr) \<Rightarrow> (Some (SvcStore e), v1\<lparr>sv_fs := last tr\<rparr>)
       | (None, tr) \<Rightarrow> k r (v1\<lparr>sv_fs := last tr\<rparr>)))"
  using svc_render_cases [of ev s rs hs v]
proof (elim disjE exE conjE)
  fix r
  assume "svc_render ev s rs hs v = (Inr r, v\<lparr>sv_vlans := newTable (vlancfg_build (st_vlans s))\<rparr>)"
  then show ?thesis using assms by (auto simp: untouched_def split: prod.split option.split)
qed (simp add: untouched_def)

lemma applyRecords_untouched: "untouched v (applyRecords lib ev s rs v)"
  unfolding applyRecords_def
  by (intro with_load_untouched persist_untouched) (auto simp: case_prod_unfold Let_def dest: reload_not_rejection)

lemma applyHosts_untouched: "untouched v (applyHosts lib ev s hs v)"
  unfolding applyHosts_def by (intro with_load_untouched persist_untouched) (auto dest: reload_not_rejection)

lemma saveSettings_untouched: "untouched v (svc_saveSettings lib ev s v)"
  unfolding svc_saveSettings_def
  by (intro with_load_untouched persist_untouched) (auto simp: case_prod_unfold Let_def dest: reload_not_rejection)

lemma restart_untouched: "untouched v (restartEngine lib ev v)"
  unfolding restartEngine_def
proof (intro with_load_untouched)
  fix s rs hs
  show "untouched v (case svc_render ev s rs hs v of (Inl e, v1) \<Rightarrow> (Some e, v1) | (Inr r, v1) \<Rightarrow> svc_reload lib ev r v1)"
    using svc_render_cases [of ev s rs hs v] by (auto simp: untouched_def dest: reload_not_rejection)
qed

lemma untouched_same: "untouched v (e, v)"
  by (simp add: untouched_def)

lemmas untouched_intros = with_load_untouched applyRecords_untouched applyHosts_untouched saveSettings_untouched
  restart_untouched untouched_same

lemma svc_addRecord_untouched: "untouched v (svc_addRecord lib ev r v)"
  by (auto simp: svc_addRecord_def split: option.split intro!: untouched_intros)

lemma setPublished_not_found: "\<not> fst (setPublished vt n b t) \<Longrightarrow> snd (setPublished vt n b t) = t"
proof -
  assume "\<not> fst (setPublished vt n b t)"
  then have "map (\<lambda>(k, e). (k, if me_name e = fqdn n then rederive vt (mt_cfg t) (e\<lparr>me_manual := b\<rparr>) else e)) (mt_entries t) = mt_entries t"
    by (intro map_idI) (auto simp: setPublished_def list_ex_iff Let_def)
  then show ?thesis by (simp add: setPublished_def)
qed

lemma svc_apply_untouched: "untouched v (svc_apply lib ev op v)"
proof (cases op)
  case (SetMDNSPublished n b)
  then show ?thesis using setPublished_not_found
    by (auto simp: setMDNSPublished_def untouched_def case_prod_unfold Let_def split: option.split)
qed (auto simp: svc_saveRecords_def updateRecord_def deleteRecord_def addHost_def updateHost_def deleteHost_def promoteMDNS_def
    svc_addRecord_untouched split: option.split intro!: untouched_intros)

section \<open>Promotion\<close>

lemma promoted_binding:
  "isMDNS r \<Longrightarrow> rec_match r = Some sel \<Longrightarrow>
   map_of (mc_promoted (mdnscfg_build s (rs @ [r]))) (fqdn (rec_name r)) = Some (toSelector sel)"
  by (simp add: mdnscfg_build_def Let_def update_conv')

lemma applyRecords_mdns:
  assumes "applyRecords lib ev s rs v = (None, w)" "sv_mdns v = Some t"
  shows "\<exists>vt. sv_mdns w = Some (mt_setConfig vt (mdnscfg_build s rs) t)"
proof -
  obtain r v1 f where "w = refreshMDNS s rs (snd (svc_reload lib ev r (v1\<lparr>sv_fs := f\<rparr>)))" "sv_mdns v1 = sv_mdns v"
    using assms(1)
    by (auto simp: applyRecords_def with_load_def svc_render_def Let_def case_prod_unfold split: sum.splits option.splits)
  then show ?thesis using assms(2) by (auto simp: refreshMDNS_def svc_reload_components)
qed

lemma svc_addRecord_mdns:
  assumes "svc_addRecord lib ev r v = (None, w)" "sv_mdns v = Some t"
  shows "\<exists>vt s rs. sv_mdns w = Some (mt_setConfig vt (mdnscfg_build s (rs @ [r])) t)"
proof -
  obtain s rs where "applyRecords lib ev s (rs @ [r]) v = (None, w)"
    using assms(1) by (auto simp: svc_addRecord_def with_load_def split: sum.splits option.splits)
  from applyRecords_mdns [OF this assms(2)] show ?thesis by blast
qed

lemma promotedRecord_match:
  "isMDNS (promotedRecord e)"
  "rec_match (promotedRecord e) = Some \<lparr>sel_service = [], sel_instance = [], sel_host = trimSuffix (me_host e) ''.'',
     sel_txt = [], sel_vlan = [], sel_family = []\<rparr>"
  by (simp_all add: promotedRecord_def isMDNS_def equalFold_def)

lemma promoted_entry_matches:
  assumes "CHR ''*'' \<notin> set (me_host e)" "\<not> hasSuffix (trimSuffix (me_host e) ''.'') ''.''" "rec_match (promotedRecord e) = Some sel"
  shows "sel_match vt (toSelector sel) e"
proof -
  let ?h = "trimSuffix (me_host e) ''.''"
  have "CHR ''*'' \<notin> set ?h" using assms(1) set_trimSuffix [of "me_host e" "''.''"] by blast
  then have "CHR ''*'' \<notin> set (toLower ?h)" by (simp add: set_toLower_punct)
  then have "globMatch (trimSuffix ?h ''.'') ?h"
    using assms(2) by (simp add: globMatch_refl trimSuffix_def [of ?h])
  moreover have "sel = \<lparr>sel_service = [], sel_instance = [], sel_host = ?h, sel_txt = [], sel_vlan = [], sel_family = []\<rparr>"
    using assms(3) by (simp add: promotedRecord_match)
  ultimately show ?thesis by (simp add: sel_match_def toSelector_def)
qed

lemma in_snapshot: "e \<in> set (mt_snapshot now t) \<Longrightarrow> \<exists>k. (k, e) \<in> set (mt_entries t) \<and> \<not> m_expired now t e"
  by (auto simp: mt_snapshot_def)

lemma setConfig_live:
  assumes "(k, e) \<in> set (mt_entries t)" "\<not> m_expired now t e" "sel_match vt' sel e"
  shows "set (me_ipv4 e) - {[]} \<subseteq> live_addrs now (mt_setConfig vt cfg t) (sel_match vt' sel) me_ipv4"
    "set (me_ipv6 e) - {[]} \<subseteq> live_addrs now (mt_setConfig vt cfg t) (sel_match vt' sel) me_ipv6"
proof -
  let ?t = "mt_setConfig vt cfg t" and ?e = "rederive vt cfg e"
  have "(k, ?e) \<in> set (mt_entries ?t)" using assms(1) by (force simp: mt_setConfig_def)
  moreover have "\<not> m_expired now ?t ?e" "sel_match vt' sel ?e"
    using assms(2,3) by (auto simp: m_expired_def mt_setConfig_def rederive_def Let_def split: if_splits)
  ultimately have "(k, ?e) \<in> {(k, e) \<in> set (mt_entries ?t). \<not> m_expired now ?t e \<and> sel_match vt' sel e}" by simp
  then show "set (me_ipv4 e) - {[]} \<subseteq> live_addrs now ?t (sel_match vt' sel) me_ipv4"
    "set (me_ipv6 e) - {[]} \<subseteq> live_addrs now ?t (sel_match vt' sel) me_ipv6"
    by (force simp: live_addrs_def)+
qed

section \<open>A small installation\<close>

definition exLibOf :: "settings \<Rightarrow> recordSet \<Rightarrow> svc_lib" where
  "exLibOf d rs = \<lparr>sl_yaml = \<lparr>y_settings = (\<lambda>s. if s = d then Some ''D'' else None),
       y_records = (\<lambda>r. if r = rs then Some ''R'' else None), y_hosts = (\<lambda>h. if h = [] then Some ''H'' else None),
       y_toSettings = (\<lambda>b. if b = ''D'' then Some d else None),
       y_toRecords = (\<lambda>b. if b = ''R'' then Some rs else None), y_toHosts = (\<lambda>b. if b = ''H'' then Some [] else None)\<rparr>,
     sl_zoneJSON = (\<lambda>_. ''Z''), sl_ptrResolver = (\<lambda>_ _. None)\<rparr>"

abbreviation exLib :: svc_lib where "exLib \<equiv> exLibOf defaultSettings []"

definition exEnv :: env where
  "exEnv = \<lparr>ev_tmp = ''/tmp/x'', ev_save = wf_fine, ev_zone = wf_fine, ev_hosts = wf_fine, ev_corefile = wf_fine,
     ev_reloadFails = False, ev_selfIPs = (\<lambda>_. opt_acmeSelfIPs exOptions), ev_gateways = (\<lambda>_. ([], [])),
     ev_advertiserFails = False, ev_finish = id, ev_closeFails = False,
     ev_open = \<lparr>oe_mkdirFails = False, oe_openFails = False, oe_prepareFails = False, oe_found = empty_db\<rparr>\<rparr>"

definition exSvc :: svc where
  "exSvc = \<lparr>sv_fs = [settingsPath ''/c'' \<mapsto> ''D''], sv_dir = ''/c'', sv_certOpts = exOptions, sv_vlans = zeroTable, sv_running = [],
     sv_mdns = None, sv_injected = False, sv_listener = None, sv_mdnsCfg = ([], []), sv_advertiser = None,
     sv_store = \<lparr>ss_current = None\<rparr>, sv_clientNames = None, sv_cnObserver = False, sv_registry = new_registry\<rparr>"

lemma exLib_doc: "yaml_doc (sl_yaml exLib)"
  by (simp add: yaml_doc_def exLibOf_def)

lemma exEnv_ok: "env_ok exEnv (sv_dir exSvc)"
  by (simp add: env_ok_def exEnv_def exSvc_def config_paths_def runtime_paths_def settingsPath_def recordsPath_def hostsPath_def
      zoneDataPath_def hostsDataPath_def runtimeCorefilePath_def)

lemma default_valid: "validate defaultSettings [] [] = None"
  by code_simp

lemma exSvc_loads: "loads exLib exSvc = (Inr defaultSettings, Inr [], Inr [])"
  by (simp add: loads_def loadSettings_def store_loadRecords_def loadHosts_def readYAML_def exLibOf_def exSvc_def)

lemma exSvc_loads_each:
  "loadSettings (sl_yaml exLib) (sv_dir exSvc) (sv_fs exSvc) = Inr defaultSettings"
  "store_loadRecords (sl_yaml exLib) (sv_dir exSvc) (sv_fs exSvc) = Inr []" "loadHosts (sl_yaml exLib) (sv_dir exSvc) (sv_fs exSvc) = Inr []"
  using exSvc_loads by (simp_all add: loads_def)

lemma exSvc_ok: "disk_ok exLib exSvc" "wired exSvc"
  using default_valid by (simp add: disk_ok_def exSvc_loads) (simp add: wired_def exSvc_def)

lemma default_renders: "\<exists>r. render defaultSettings [] [] opts = Inr r"
proof -
  have "normalizedACMEDomain defaultSettings = []" by code_simp
  then have "ddrRecords defaultSettings = []" by (simp add: ddrRecords_def)
  then show ?thesis using default_valid by (simp add: render_def)
qed

lemma exReload: "fst (svc_reload lib exEnv r v) = None"
  by (simp add: svc_reload_def exEnv_def wf_fine_def writeFileAtomic_def Let_def)

lemma ex_saves:
  assumes "render s [] [] ((sv_certOpts v)\<lparr>opt_acmeSelfIPs := ev_selfIPs exEnv (st_vlans s)\<rparr>) = Inr r"
    "store_loadRecords (sl_yaml (exLibOf s [])) (sv_dir v) (sv_fs v) = Inr []" "loadHosts (sl_yaml (exLibOf s [])) (sv_dir v) (sv_fs v) = Inr []"
  shows "fst (svc_saveSettings (exLibOf s []) exEnv s v) = None"
proof -
  have "svc_render exEnv s [] [] v = (Inr r, v\<lparr>sv_vlans := newTable (vlancfg_build (st_vlans s))\<rparr>)"
    using assms(1) by (simp add: svc_render_def)
  moreover have "fst (saveSettings (sl_yaml (exLibOf s [])) (ev_save exEnv) (ev_tmp exEnv) d s f) = None" for d f
    by (simp add: saveSettings_def writeYAML_def exLibOf_def exEnv_def wf_fine_def atomicWrite_def Let_def)
  ultimately show ?thesis using assms(2,3)
    by (simp add: svc_saveSettings_def with_load_def exReload case_prod_unfold Let_def split: option.split)
qed

lemma exSvc_saves: "fst (svc_apply exLib exEnv (SaveSettings defaultSettings) exSvc) = None"
proof -
  obtain r where "render defaultSettings [] [] ((sv_certOpts exSvc)\<lparr>opt_acmeSelfIPs := ev_selfIPs exEnv (st_vlans defaultSettings)\<rparr>) = Inr r"
    using default_renders by blast
  from ex_saves [OF this] show ?thesis by (simp add: exSvc_loads_each)
qed

text \<open>Discovery is running for all services, and settings for one service and another suffix.\<close>

definition exDiscovering :: svc where
  "exDiscovering = exSvc\<lparr>sv_fs := Map.empty, sv_mdns := Some (mt_new (mdnscfg_build defaultSettings []) 0), sv_injected := True,
     sv_listener := Some ([], [])\<rparr>"

definition exMdnsOn :: settings where
  "exMdnsOn = defaultSettings\<lparr>st_mdns := zero_mdns\<lparr>mdns_enabled := True, mdns_serviceTypes := [''_http._tcp''], mdns_suffix := ''dev.home.arpa''\<rparr>\<rparr>"

lemma exMdnsOn_saves: "fst (svc_saveSettings (exLibOf exMdnsOn []) exEnv exMdnsOn exDiscovering) = None"
proof -
  have "normalizedACMEDomain exMdnsOn = []" "validate exMdnsOn [] [] = None" by code_simp+
  then have "ddrRecords exMdnsOn = []" "validate exMdnsOn [] [] = None" by (simp_all add: ddrRecords_def)
  then obtain r where "render exMdnsOn [] [] ((sv_certOpts exDiscovering)\<lparr>opt_acmeSelfIPs := ev_selfIPs exEnv (st_vlans exMdnsOn)\<rparr>) = Inr r"
    by (auto simp: render_def)
  from ex_saves [OF this] show ?thesis
    by (simp add: store_loadRecords_def loadHosts_def exDiscovering_def)
qed

lemma ex_adds:
  assumes "render s [r] [] ((sv_certOpts v)\<lparr>opt_acmeSelfIPs := ev_selfIPs exEnv (st_vlans s)\<rparr>) = Inr rd"
    "loadSettings (sl_yaml (exLibOf s [r])) (sv_dir v) (sv_fs v) = Inr s"
    "store_loadRecords (sl_yaml (exLibOf s [r])) (sv_dir v) (sv_fs v) = Inr []" "loadHosts (sl_yaml (exLibOf s [r])) (sv_dir v) (sv_fs v) = Inr []"
  shows "fst (svc_addRecord (exLibOf s [r]) exEnv r v) = None"
proof -
  have "svc_render exEnv s [r] [] v = (Inr rd, v\<lparr>sv_vlans := newTable (vlancfg_build (st_vlans s))\<rparr>)"
    using assms(1) by (simp add: svc_render_def)
  moreover have "fst (saveRecords (sl_yaml (exLibOf s [r])) (ev_save exEnv) (ev_tmp exEnv) d [r] f) = None" for d f
    by (simp add: saveRecords_def writeYAML_def exLibOf_def exEnv_def wf_fine_def atomicWrite_def Let_def)
  ultimately show ?thesis using assms(2-)
    by (simp add: svc_addRecord_def applyRecords_def with_load_def indexOf_def Let_def exReload case_prod_unfold split: option.split)
qed

text \<open>A device that has been seen but is not published.\<close>

definition exTvEntry :: mentry where
  "exTvEntry = zero_mentry\<lparr>me_name := ''tv.home.arpa.'', me_host := ''tv.local.'', me_service := ''_http._tcp'', me_ipv4 := [''10.0.0.7'']\<rparr>"

definition exTvSvc :: svc where
  "exTvSvc = exSvc\<lparr>sv_mdns := Some \<lparr>mt_entries = [(''k'', exTvEntry)], mt_cfg = mdnscfg_build exMdnsOn [], mt_ttl = 100\<rparr>, sv_injected := True\<rparr>"

lemma exTv_adds: "fst (svc_addRecord (exLibOf exMdnsOn [promotedRecord exTvEntry]) exEnv (promotedRecord exTvEntry) exTvSvc) = None"
proof -
  let ?r = "promotedRecord exTvEntry"
  have "normalizedACMEDomain exMdnsOn = []" "validate exMdnsOn [?r] [] = None" by code_simp+
  then have "ddrRecords exMdnsOn = []" "validate exMdnsOn [?r] [] = None" by (simp_all add: ddrRecords_def)
  then obtain rd where "render exMdnsOn [?r] [] ((sv_certOpts exTvSvc)\<lparr>opt_acmeSelfIPs := ev_selfIPs exEnv (st_vlans exMdnsOn)\<rparr>) = Inr rd"
    by (auto simp: render_def)
  from ex_adds [OF this] show ?thesis
    by (simp add: loadSettings_def store_loadRecords_def loadHosts_def readYAML_def exTvSvc_def exSvc_def exLibOf_def)
qed

section \<open>Properties\<close>

inductive svc_reaches :: "svc_lib \<Rightarrow> svc \<Rightarrow> svc \<Rightarrow> bool" for lib v where
  start: "svc_reaches lib v v"
| edit: "svc_reaches lib v w \<Longrightarrow> env_ok ev (sv_dir w) \<Longrightarrow> svc_reaches lib v (snd (svc_apply lib ev op w))"

text \<open>
  The configuration on disk is always valid: from a valid one, after any sequence of edits,
  whatever writes, reloads or component starts fail, the three files still load and pass
  validation together.
\<close>

theorem disk_always_valid:
  assumes "yaml_doc (sl_yaml lib)" "disk_ok lib v" "svc_reaches lib v w"
  shows "\<exists>s rs hs. loadSettings (sl_yaml lib) (sv_dir w) (sv_fs w) = Inr s \<and>
    store_loadRecords (sl_yaml lib) (sv_dir w) (sv_fs w) = Inr rs \<and> loadHosts (sl_yaml lib) (sv_dir w) (sv_fs w) = Inr hs \<and>
    validate s rs hs = None"
proof -
  have "disk_ok lib w"
    using assms(3,2) by (induction rule: svc_reaches.induct) (auto dest: svc_apply_disk_ok [OF assms(1)])
  then show ?thesis by (auto simp: disk_ok_def loads_def)
qed

theorem disk_always_valid_witness:
  "\<exists>s rs hs. loads exLib (snd (svc_apply exLib exEnv (SaveSettings defaultSettings) exSvc)) = (Inr s, Inr rs, Inr hs) \<and> validate s rs hs = None"
  using disk_always_valid [OF exLib_doc exSvc_ok(1) svc_reaches.edit [OF svc_reaches.start exEnv_ok]]
  unfolding loads_def by blast

text \<open>
  C6. A successful edit is served: when an edit reports no error, the engine runs the Corefile
  rendered from exactly the configuration that is now on disk, and the zone and hosts data its
  plugins read are the ones rendered with it.
\<close>

theorem success_is_served:
  assumes "yaml_doc (sl_yaml lib)" "env_ok ev (sv_dir v)" "disk_ok lib v" "\<forall>n b. op \<noteq> SetMDNSPublished n b"
    "svc_apply lib ev op v = (None, w)"
  shows "\<exists>s rs hs r. loads lib w = (Inr s, Inr rs, Inr hs) \<and>
    render s rs hs ((sv_certOpts v)\<lparr>opt_acmeSelfIPs := ev_selfIPs ev (st_vlans s)\<rparr>) = Inr r \<and>
    sv_running w = rd_corefile r \<and> sv_fs w (zoneDataPath (sv_dir w)) = Some (sl_zoneJSON lib (rd_zoneData r)) \<and>
    sv_fs w (hostsDataPath (sv_dir w)) = Some (rd_hostsData r)"
  using edit_ok_apply [OF assms(1-4)] assms(5) by (auto simp: edit_ok_def serves_def serving_def)

theorem success_is_served_witness:
  "\<exists>s rs hs r. loads exLib (snd (svc_apply exLib exEnv (SaveSettings defaultSettings) exSvc)) = (Inr s, Inr rs, Inr hs) \<and>
     render s rs hs (exOptions\<lparr>opt_acmeSelfIPs := ev_selfIPs exEnv (st_vlans s)\<rparr>) = Inr r \<and>
     sv_running (snd (svc_apply exLib exEnv (SaveSettings defaultSettings) exSvc)) = rd_corefile r"
proof -
  let ?op = "SaveSettings defaultSettings"
  have "svc_apply exLib exEnv ?op exSvc = (None, snd (svc_apply exLib exEnv ?op exSvc))" "sv_certOpts exSvc = exOptions"
    using exSvc_saves by (metis prod.collapse) (simp add: exSvc_def)
  with success_is_served [OF exLib_doc exEnv_ok exSvc_ok(1) _ this(1)] show ?thesis by auto
qed


text \<open>All components are turned on.\<close>

definition exAllOn :: settings where
  "exAllOn = defaultSettings\<lparr>st_mdns := zero_mdns\<lparr>mdns_enabled := True, mdns_serviceTypes := [''_http._tcp''], mdns_advertise := \<lparr>adv_enabled = True\<rparr>\<rparr>,
     st_queryLog := \<lparr>queryLog_enabled = True, capacity = 0, retentionDays = 30, maxRows = 0, flushIntervalSeconds = 0\<rparr>,
     st_clientNames := \<lparr>clientNames_enabled = True, ptrUpstream = ''10.0.0.1:53'', refreshHostnames = []\<rparr>\<rparr>"

definition exEmptySvc :: svc where
  "exEmptySvc = exSvc\<lparr>sv_fs := Map.empty\<rparr>"

lemma exAllOn_renders: "\<exists>r. render exAllOn [] [] opts = Inr r"
proof -
  have "normalizedACMEDomain exAllOn = []" "validate exAllOn [] [] = None" by code_simp+
  then have "ddrRecords exAllOn = []" "validate exAllOn [] [] = None" by (simp_all add: ddrRecords_def)
  then show ?thesis by (auto simp: render_def)
qed

lemma exAllOn_saves: "fst (svc_saveSettings (exLibOf exAllOn []) exEnv exAllOn exEmptySvc) = None"
proof -
  obtain r where "render exAllOn [] [] ((sv_certOpts exEmptySvc)\<lparr>opt_acmeSelfIPs := ev_selfIPs exEnv (st_vlans exAllOn)\<rparr>) = Inr r"
    using exAllOn_renders by blast
  from ex_saves [OF this] show ?thesis by (simp add: store_loadRecords_def loadHosts_def exEmptySvc_def)
qed

lemma exAllOn_simps:
  "mdns_enabled (st_mdns exAllOn)" "mdns_serviceTypes (st_mdns exAllOn) = [''_http._tcp'']" "mdns_interfaces (st_mdns exAllOn) = []"
  "adv_enabled (mdns_advertise (st_mdns exAllOn))" "queryLog_enabled (st_queryLog exAllOn)" "clientNames_enabled (st_clientNames exAllOn)"
  "retentionDays (st_queryLog exAllOn) = 30" "maxRows (st_queryLog exAllOn) = 0"
  by (simp_all add: exAllOn_def zero_mdns_def)


text \<open>
  A refused edit changes nothing: when a request is refused as invalid, a duplicate or
  unknown, the files, the running engine and all components are as before. The exception is
  the VLAN table of the plugins.
\<close>

theorem rejected_edit_untouched:
  assumes "svc_apply lib ev op v = (Some e, w)" "is_rejection e"
  shows "w = v\<lparr>sv_vlans := sv_vlans w\<rparr>"
  using svc_apply_untouched [of v lib ev op] assms by (simp add: untouched_def)

definition exBadVlan :: settings where
  "exBadVlan = defaultSettings\<lparr>st_vlans := [\<lparr>vlan_name = ''lan'', vlan_cidrs = []\<rparr>, \<lparr>vlan_name = ''lan'', vlan_cidrs = []\<rparr>]\<rparr>"

lemma exBadVlan_rejected: "\<exists>e. validate exBadVlan [] [] = Some e"
proof -
  have "(case validate exBadVlan [] [] of None \<Rightarrow> False | Some _ \<Rightarrow> True)" by code_simp
  then show ?thesis by (auto split: option.splits)
qed

theorem rejected_edit_untouched_witness:
  "sv_running (snd (svc_apply exLib exEnv (DeleteHost ''nas'') exSvc)) = [] \<and>
   fst (svc_apply exLib exEnv (DeleteHost ''nas'') exSvc) = Some SvcNotFound"
proof -
  have "svc_apply exLib exEnv (DeleteHost ''nas'') exSvc = (Some SvcNotFound, exSvc)"
    by (simp add: deleteHost_def with_load_def exSvc_loads_each indexOfHost_def)
  with rejected_edit_untouched [OF this] show ?thesis by (simp add: exSvc_def)
qed

text \<open>
  The exception is real: settings that fail validation are refused, but the VLAN table the
  plugins consult is already the one of the refused settings.
\<close>

theorem rejected_settings_switch_vlans:
  assumes "loads lib v = (s0, Inr rs, Inr hs)" "validate s rs hs = Some e"
  shows "svc_apply lib ev (SaveSettings s) v =
    (Some (SvcInvalid (RenderInvalid e)), v\<lparr>sv_vlans := newTable (vlancfg_build (st_vlans s))\<rparr>)"
  using assms by (simp add: loads_def svc_saveSettings_def with_load_def svc_render_def render_def)

theorem rejected_settings_switch_vlans_witness:
  "\<exists>e w. svc_apply exLib exEnv (SaveSettings exBadVlan) exSvc = (Some (SvcInvalid e), w) \<and>
     sv_vlans w \<noteq> sv_vlans exSvc \<and> sv_running w = sv_running exSvc"
proof -
  obtain e where "validate exBadVlan [] [] = Some e" using exBadVlan_rejected by blast
  from rejected_settings_switch_vlans [OF exSvc_loads this]
  have "svc_apply exLib exEnv (SaveSettings exBadVlan) exSvc =
      (Some (SvcInvalid (RenderInvalid e)), exSvc\<lparr>sv_vlans := newTable (vlancfg_build (st_vlans exBadVlan))\<rparr>)" .
  moreover have "newTable (vlancfg_build (st_vlans exBadVlan)) \<noteq> zeroTable" by code_simp
  ultimately show ?thesis by (simp add: exSvc_def)
qed

text \<open>
  A change of the browsed service types or interfaces leaves the discovery table with its
  old configuration: the suffix, the publishing rules, the naming and the promoted bindings
  saved with it are not in force.
\<close>

theorem mdns_config_stale:
  assumes "svc_saveSettings lib ev s v = (None, w)" "mdns_enabled (st_mdns s)" "sv_mdns v = Some t" "sv_listener v \<noteq> None"
    "sv_mdnsCfg v \<noteq> (mdns_serviceTypes (st_mdns s), mdns_interfaces (st_mdns s))"
  shows "sv_mdns w = Some (t\<lparr>mt_entries := []\<rparr>)"
  using assms(1)
proof (cases rule: saveSettings_cases)
  case (4 t' f r rs hs)
  have "mdnsPreReload s rs (v\<lparr>sv_vlans := t', sv_fs := f\<rparr>) = v\<lparr>sv_vlans := t', sv_fs := f\<rparr>"
    using assms(3) by (simp add: mdnsPreReload_def)
  then have "sv_mdns w = sv_mdns (mdnsPostReload s rs (snd (svc_reload lib ev r (v\<lparr>sv_vlans := t', sv_fs := f\<rparr>))))"
    unfolding 4(3) by simp
  then show ?thesis using assms(2-)
    by (simp add: mdnsPostReload_def svc_reload_components startMDNS_def mt_clear_def)
qed simp_all

theorem mdns_config_stale_witness:
  "\<exists>w t. svc_saveSettings (exLibOf exMdnsOn []) exEnv exMdnsOn exDiscovering = (None, w) \<and> sv_mdns w = Some t \<and>
     mc_defaultSuffix (mt_cfg t) \<noteq> mc_defaultSuffix (mdnscfg_build exMdnsOn [])"
proof -
  obtain w where w: "svc_saveSettings (exLibOf exMdnsOn []) exEnv exMdnsOn exDiscovering = (None, w)"
    using exMdnsOn_saves by (metis prod.collapse)
  have "sv_mdns w = Some ((mt_new (mdnscfg_build defaultSettings []) 0)\<lparr>mt_entries := []\<rparr>)"
    by (rule mdns_config_stale [OF w])
      (simp_all add: exDiscovering_def exMdnsOn_def zero_mdns_def exSvc_def)
  moreover have "mc_defaultSuffix (mdnscfg_build defaultSettings []) \<noteq> mc_defaultSuffix (mdnscfg_build exMdnsOn [])" by code_simp
  ultimately show ?thesis using w by (simp add: mt_new_def)
qed

text \<open>
  C9. A promoted device is served at once: when promoting a discovered entry succeeds, a query for
  the new name is answered from the discovery table with at least all addresses the device has
  announced, for every client and whatever the entry's publication state was. The announced host name
  holds no star, which the selector of the record would read as a pattern, and does not end in two
  dots, of which the selector keeps one.
\<close>

theorem promoted_device_served:
  assumes "promoteMDNS lib ev now n v = (None, w)" "sv_mdns v = Some t"
    "find (\<lambda>e. equalFold (me_name e) (ensureDot n)) (mt_snapshot now t) = Some e"
    "CHR ''*'' \<notin> set (me_host e)" "\<not> hasSuffix (trimSuffix (me_host e) ''.'') ''.''"
  shows "\<exists>t' v4 v6. sv_mdns w = Some t' \<and> mt_resolve vt now (rec_name (promotedRecord e)) t' = (v4, v6, True) \<and>
    set (me_ipv4 e) - {[]} \<subseteq> set v4 \<and> set (me_ipv6 e) - {[]} \<subseteq> set v6"
proof -
  let ?r = "promotedRecord e"
  obtain sel where sel: "rec_match ?r = Some sel" by (simp add: promotedRecord_def)
  have "svc_addRecord lib ev ?r v = (None, w)"
    using assms(1-3) by (auto simp: promoteMDNS_def split: if_splits)
  then obtain vt' s rs where w: "sv_mdns w = Some (mt_setConfig vt' (mdnscfg_build s (rs @ [?r])) t)"
    using svc_addRecord_mdns assms(2) by blast
  let ?t = "mt_setConfig vt' (mdnscfg_build s (rs @ [?r])) t"
  obtain k where k: "(k, e) \<in> set (mt_entries t)" "\<not> m_expired now t e"
    using in_snapshot assms(3) by (metis find_Some_iff nth_mem)
  have "map_of (mc_promoted (mt_cfg ?t)) (fqdn (rec_name ?r)) = Some (toSelector sel)"
    using promoted_binding [OF promotedRecord_match(1) sel] by (simp add: mt_setConfig_def)
  then have "mt_resolve vt now (rec_name ?r) ?t =
      (fst (collect now ?t (sel_match vt (toSelector sel))), snd (collect now ?t (sel_match vt (toSelector sel))), True)"
    by (simp add: mt_resolve_def case_prod_unfold Let_def)
  then show ?thesis using w setConfig_live [OF k promoted_entry_matches [OF assms(4,5) sel], of vt' "mdnscfg_build s (rs @ [?r])"]
    by (simp add: collect_eq)
qed

theorem promoted_device_served_witness:
  "\<exists>w t' v4 v6. promoteMDNS (exLibOf exMdnsOn [promotedRecord exTvEntry]) exEnv 0 ''tv.home.arpa'' exTvSvc = (None, w) \<and>
     sv_mdns w = Some t' \<and> mt_resolve zeroTable 0 ''tv.home.arpa'' t' = (v4, v6, True) \<and> ''10.0.0.7'' \<in> set v4"
proof -
  let ?t = "\<lparr>mt_entries = [(''k'', exTvEntry)], mt_cfg = mdnscfg_build exMdnsOn [], mt_ttl = 100\<rparr>"
  let ?lib = "exLibOf exMdnsOn [promotedRecord exTvEntry]"
  have t: "sv_mdns exTvSvc = Some ?t" by (simp add: exTvSvc_def)
  have "mt_snapshot 0 ?t = [exTvEntry]"
    by (simp add: mt_snapshot_def m_expired_def exTvEntry_def zero_mentry_def)
  moreover have "equalFold (me_name exTvEntry) (ensureDot ''tv.home.arpa'')" by code_simp
  ultimately have f: "find (\<lambda>e. equalFold (me_name e) (ensureDot ''tv.home.arpa'')) (mt_snapshot 0 ?t) = Some exTvEntry" by simp
  have h: "CHR ''*'' \<notin> set (me_host exTvEntry)" "\<not> hasSuffix (trimSuffix (me_host exTvEntry) ''.'') ''.''"
    "me_name exTvEntry \<noteq> []" "trimSuffix (me_host exTvEntry) ''.'' \<noteq> []" "rec_name (promotedRecord exTvEntry) = ''tv.home.arpa''"
    by code_simp+
  obtain w where w: "promoteMDNS ?lib exEnv 0 ''tv.home.arpa'' exTvSvc = (None, w)"
    using exTv_adds f h(3,4) t by (simp add: promoteMDNS_def) (metis prod.collapse)
  have "me_ipv4 exTvEntry = [''10.0.0.7'']" by (simp add: exTvEntry_def)
  then show ?thesis using promoted_device_served [OF w t f h(1,2), of zeroTable] w h(5) by auto
qed

end
