(* ===== verification/Net_Detect.thy ===== *)
theory Net_Detect
  imports Configgen "HOL-Library.AList"
begin

text \<open>
  What the machine can find out about its networks: its own address in each VLAN and the networks
  no VLAN covers (\<^verbatim>\<open>internal/configgen/selfip/selfip.go\<close>), and the router of each VLAN
  (\<^verbatim>\<open>internal/gatewaydetect\<close>). The interfaces, their addresses and the lines of
  \<^verbatim>\<open>/proc/net/route\<close> are arguments; a map of the sources is an association list in the order in
  which a loop meets it.
\<close>

section \<open>Addresses of interfaces\<close>

text \<open>The concrete types behind \<^verbatim>\<open>net.Addr\<close>; a nil address is \<open>[]\<close>.\<close>

datatype netAddr = AddrIPNet ip "byte list" | AddrIPAddr ip | AddrOther

definition isLinkLocalMulticast :: "ip \<Rightarrow> bool" where
  "isLinkLocalMulticast a = (case to4 a of
     b0 # b1 # b2 # _ \<Rightarrow> b0 = 224 \<and> b1 = 0 \<and> b2 = 0
   | _ \<Rightarrow> length a = 16 \<and> a ! 0 = 255 \<and> a ! 1 AND 15 = 2)"

definition isUnspecified :: "ip \<Rightarrow> bool" where
  "isUnspecified a = (ip_equal a (v4InV6Prefix @ [0, 0, 0, 0]) \<or> ip_equal a (replicate 16 0))"

definition usableIP :: "ip \<Rightarrow> bool" where
  "usableIP a = (\<not> (a = [] \<or> isLoopback a \<or> isLinkLocalUnicast a \<or> isLinkLocalMulticast a \<or> isUnspecified a))"

fun addrIP :: "netAddr \<Rightarrow> ip" where
  "addrIP (AddrIPNet a _) = a"
| "addrIP (AddrIPAddr a) = a"
| "addrIP AddrOther = []"

definition extractIPs :: "netAddr list \<Rightarrow> ip list" where
  "extractIPs addrs = filter usableIP (map addrIP addrs)"

section \<open>The machine's own addresses\<close>

definition zeroAddrs :: vlanAddrs where
  "zeroAddrs = \<lparr>va_v4 = [], va_v6 = []\<rparr>"

text \<open>The body both loops of \<^verbatim>\<open>Detect\<close> share: the first address of each family is kept.\<close>

definition noteAddr :: "ip \<Rightarrow> vlanAddrs \<Rightarrow> vlanAddrs" where
  "noteAddr a va =
     (if to4 a \<noteq> [] then (if va_v4 va = [] then va\<lparr>va_v4 := ip_string (to4 a)\<rparr> else va)
      else if va_v6 va = [] then va\<lparr>va_v6 := ip_string a\<rparr> else va)"

definition addrs_of :: "(string \<times> vlanAddrs) list \<Rightarrow> string \<Rightarrow> vlanAddrs" where
  "addrs_of m n = (case map_of m n of None \<Rightarrow> zeroAddrs | Some va \<Rightarrow> va)"

definition selfip_detect :: "vlan list \<Rightarrow> netAddr list \<Rightarrow> selfip_result" where
  "selfip_detect vlans addrs =
     (let ips = extractIPs addrs; tbl = newTable (vlancfg_build vlans) in
      \<lparr>si_perVLAN = fold (\<lambda>a m. case vt_lookup tbl a of
           None \<Rightarrow> m | Some n \<Rightarrow> AList.update n (noteAddr a (addrs_of m n)) m) ips [],
       si_primary = fold noteAddr ips zeroAddrs\<rparr>)"

text \<open>\<^verbatim>\<open>DetectLive\<close>; \<open>None\<close> is a failed enumeration.\<close>

definition selfip_detectLive :: "vlan list \<Rightarrow> netAddr list option \<Rightarrow> selfip_result" where
  "selfip_detectLive vlans addrs = (case addrs of
     None \<Rightarrow> \<lparr>si_perVLAN = [], si_primary = zeroAddrs\<rparr>
   | Some as \<Rightarrow> selfip_detect vlans as)"

section \<open>Networks no VLAN covers\<close>

record candidate =
  cd_cidr :: string
  cd_sampleIP :: string
  cd_suggested :: string

definition replaceChar :: "char \<Rightarrow> char \<Rightarrow> string \<Rightarrow> string" where
  "replaceChar x y s = map (\<lambda>c. if c = x then y else c) s"

definition suggestName :: "ip \<Rightarrow> string" where
  "suggestName a = ''net-'' @ replaceChar (CHR '':'') (CHR ''-'') (replaceChar (CHR ''.'') (CHR ''-'') (ip_string a))"

text \<open>\<^verbatim>\<open>IPNet.String\<close>; a mask that is not a prefix is written in hexadecimal.\<close>

definition net_string :: "ipnet \<Rightarrow> string" where
  "net_string n = (case networkNumberAndMask n of (nn, m) \<Rightarrow>
     if nn = [] \<or> m = [] then ''<nil>''
     else ip_string nn @ ''/'' @ (case find (\<lambda>p. cidr_mask p (length m) = m) [0..<8 * length m + 1] of
        Some p \<Rightarrow> itoa_nat p
      | None \<Rightarrow> concat (map (\<lambda>b. [hex_digit (unat b div 16), hex_digit (unat b mod 16)]) m)))"

fun candidatesFrom :: "vtable \<Rightarrow> string list \<Rightarrow> netAddr list \<Rightarrow> candidate list" where
  "candidatesFrom tbl seen [] = []"
| "candidatesFrom tbl seen (AddrIPNet a m # addrs) =
     (if \<not> usableIP a then candidatesFrom tbl seen addrs
      else if vt_lookup tbl a \<noteq> None then candidatesFrom tbl seen addrs
      else
        (let network = \<lparr>net_ip = ip_mask a m, net_mask = m\<rparr>; cidr = net_string network in
         if cidr \<in> set seen then candidatesFrom tbl seen addrs
         else \<lparr>cd_cidr = cidr, cd_sampleIP = ip_string a, cd_suggested = suggestName (net_ip network)\<rparr>
           # candidatesFrom tbl (cidr # seen) addrs))"
| "candidatesFrom tbl seen (_ # addrs) = candidatesFrom tbl seen addrs"

definition candidates :: "vlan list \<Rightarrow> netAddr list \<Rightarrow> candidate list" where
  "candidates existing addrs = candidatesFrom (newTable (vlancfg_build existing)) [] addrs"

definition candidatesLive :: "vlan list \<Rightarrow> netAddr list option \<Rightarrow> candidate list" where
  "candidatesLive existing addrs = (case addrs of None \<Rightarrow> [] | Some as \<Rightarrow> candidates existing as)"

section \<open>Gateways\<close>

record gateway_result =
  gr_perVLAN :: "(string \<times> string) list"
  gr_primary :: string

text \<open>Network plus one, for the first IPv4 network; the last byte wraps.\<close>

fun heuristicGateway :: "string list \<Rightarrow> string" where
  "heuristicGateway [] = []"
| "heuristicGateway (c # cs) = (case parseCIDR c of
     None \<Rightarrow> heuristicGateway cs
   | Some n \<Rightarrow>
       (let a = to4 (net_ip n) in
        if a = [] then heuristicGateway cs else ip_string (a[3 := a ! 3 + 1])))"

definition put_new :: "string \<Rightarrow> string \<Rightarrow> (string \<times> string) list \<Rightarrow> (string \<times> string) list" where
  "put_new k v m = (if map_of m k = None then m @ [(k, v)] else m)"

text \<open>The body of the loop over the interfaces.\<close>

definition routeStep :: "vtable \<Rightarrow> (string \<times> ip) list \<Rightarrow> string \<times> ip list \<Rightarrow> gateway_result \<Rightarrow> gateway_result" where
  "routeStep tbl gateways ifc r = (case map_of gateways (fst ifc) of
     None \<Rightarrow> r
   | Some gw \<Rightarrow>
       if gw = [] then r
       else \<lparr>gr_perVLAN = fold (\<lambda>a m. case vt_lookup tbl a of None \<Rightarrow> m | Some n \<Rightarrow> put_new n (ip_string gw) m)
              (snd ifc) (gr_perVLAN r),
             gr_primary = (if gr_primary r = [] then ip_string gw else gr_primary r)\<rparr>)"

definition heuristicStep :: "vlan \<Rightarrow> (string \<times> string) list \<Rightarrow> (string \<times> string) list" where
  "heuristicStep v m =
     (let gw = heuristicGateway (vlan_cidrs v) in if gw \<noteq> [] then put_new (vlan_name v) gw m else m)"

definition gw_detect :: "vlan list \<Rightarrow> (string \<times> ip list) list \<Rightarrow> (string \<times> ip) list \<Rightarrow> gateway_result" where
  "gw_detect vlans ifaces gateways =
     (let tbl = newTable (vlancfg_build vlans);
          r = fold (routeStep tbl gateways) ifaces \<lparr>gr_perVLAN = [], gr_primary = []\<rparr> in
      r\<lparr>gr_perVLAN := fold heuristicStep vlans (gr_perVLAN r)\<rparr>)"

text \<open>
  \<^verbatim>\<open>DetectLive\<close>: the interfaces with their addresses, \<open>None\<close> where listing fails. An interface with
  no usable address has no entry.
\<close>

definition gw_detectLive :: "vlan list \<Rightarrow> (string \<times> netAddr list option) list option \<Rightarrow> (string \<times> ip) list \<Rightarrow> gateway_result" where
  "gw_detectLive vlans ifaces gateways =
     (let ips = (case ifaces of None \<Rightarrow> [] | Some l \<Rightarrow>
            map (\<lambda>(n, as). (n, case as of None \<Rightarrow> [] | Some as \<Rightarrow> extractIPs as)) l) in
      gw_detect vlans (filter (\<lambda>(_, as). as \<noteq> []) ips) gateways)"

section \<open>The kernel's routes\<close>

text \<open>\<^verbatim>\<open>strings.Fields\<close>.\<close>

fun fieldsFrom :: "string \<Rightarrow> string \<Rightarrow> string list" where
  "fieldsFrom w [] = (if w = [] then [] else [w])"
| "fieldsFrom w (c # s) =
     (if is_space c then (if w = [] then fieldsFrom [] s else w # fieldsFrom [] s) else fieldsFrom (w @ [c]) s)"

definition fields :: "string \<Rightarrow> string list" where
  "fields s = fieldsFrom [] s"

text \<open>\<^verbatim>\<open>strconv.ParseUint(s, 16, 32)\<close>.\<close>

fun hex_digits :: "nat \<Rightarrow> string \<Rightarrow> nat option" where
  "hex_digits acc [] = Some acc"
| "hex_digits acc (c # s) = (case hex_val c of None \<Rightarrow> None | Some d \<Rightarrow> hex_digits (acc * 16 + d) s)"

definition parseHex32 :: "string \<Rightarrow> nat option" where
  "parseHex32 s = (if s = [] then None else case hex_digits 0 s of
     None \<Rightarrow> None | Some n \<Rightarrow> if n < 2 ^ 32 then Some n else None)"

definition parseHexLittleEndianIPv4 :: "string \<Rightarrow> ip" where
  "parseHexLittleEndianIPv4 h = (case parseHex32 h of
     None \<Rightarrow> []
   | Some v \<Rightarrow> [of_nat v, of_nat (v div 2 ^ 8), of_nat (v div 2 ^ 16), of_nat (v div 2 ^ 24)])"

definition routeLine :: "string \<Rightarrow> (string \<times> ip) list \<Rightarrow> (string \<times> ip) list" where
  "routeLine line out = (case fields line of
     ifc # dest # gateway # _ \<Rightarrow>
       if dest \<noteq> ''00000000'' then out
       else
         (let gw = parseHexLittleEndianIPv4 gateway in
          if gw = [] \<or> isUnspecified gw then out
          else if map_of out ifc = None then out @ [(ifc, gw)] else out)
   | _ \<Rightarrow> out)"

text \<open>The lines as the scanner delivers them; the first is the header.\<close>

definition parseProcNetRoute :: "string list \<Rightarrow> (string \<times> ip) list" where
  "parseProcNetRoute lines = fold routeLine (drop 1 lines) []"

definition defaultGateways :: "string list option \<Rightarrow> (string \<times> ip) list" where
  "defaultGateways file = (case file of None \<Rightarrow> [] | Some lines \<Rightarrow> parseProcNetRoute lines)"

section \<open>Own addresses\<close>

lemma joinStr_Nil: "xs \<noteq> [] \<Longrightarrow> hd xs \<noteq> [] \<Longrightarrow> joinStr sep xs \<noteq> []"
  by (cases xs; cases "tl xs") auto

declare hexStr.simps [simp del]

lemma hexStr_not_Nil [simp]: "hexStr n \<noteq> []"
  by (simp add: hexStr.simps [of n])

lemma v6_string_not_Nil: "length a = 16 \<Longrightarrow> v6_string a \<noteq> []"
proof -
  assume "length a = 16"
  then obtain x y r where "a = x # y # r" by (cases a; cases "tl a") auto
  then have "map hexStr (v6_groups a) \<noteq> []" "hd (map hexStr (v6_groups a)) \<noteq> []" by simp_all
  from joinStr_Nil [OF this, of "'':''"] show ?thesis by (simp add: v6_string_def Let_def case_prod_unfold)
qed

lemma ip_string_not_Nil [simp]: "ip_string a \<noteq> []"
proof -
  have "joinStr ''.'' (map (\<lambda>b. itoa_nat (unat b)) (to4 a)) \<noteq> []" if "to4 a \<noteq> []"
    using that itoa_nat_digits by (intro joinStr_Nil) (auto simp: hd_map)
  then show ?thesis using v6_string_not_Nil [of a] by (simp add: ip_string_def)
qed

text \<open>The first address of each family.\<close>

definition firstAddrs :: "ip list \<Rightarrow> vlanAddrs" where
  "firstAddrs xs =
     \<lparr>va_v4 = (case find (\<lambda>a. to4 a \<noteq> []) xs of None \<Rightarrow> [] | Some a \<Rightarrow> ip_string (to4 a)),
      va_v6 = (case find (\<lambda>a. to4 a = []) xs of None \<Rightarrow> [] | Some a \<Rightarrow> ip_string a)\<rparr>"

lemma fold_noteAddr:
  "fold noteAddr xs va = \<lparr>va_v4 = (if va_v4 va \<noteq> [] then va_v4 va else va_v4 (firstAddrs xs)),
     va_v6 = (if va_v6 va \<noteq> [] then va_v6 va else va_v6 (firstAddrs xs))\<rparr>"
  by (induction xs arbitrary: va) (simp_all add: noteAddr_def firstAddrs_def)

lemma fold_noteAddr_zero: "fold noteAddr xs zeroAddrs = firstAddrs xs"
  by (simp add: fold_noteAddr zeroAddrs_def)

lemma perVLAN_fold:
  "map_of (fold (\<lambda>a m. case vt_lookup tbl a of None \<Rightarrow> m | Some n \<Rightarrow> AList.update n (noteAddr a (addrs_of m n)) m) ips m) n =
     (let mine = filter (\<lambda>a. vt_lookup tbl a = Some n) ips in
      if mine = [] then map_of m n else Some (fold noteAddr mine (addrs_of m n)))"
proof (induction ips arbitrary: m)
  case (Cons a ips)
  show ?case
  proof (cases "vt_lookup tbl a")
    case None
    then show ?thesis using Cons by simp
  next
    case (Some k)
    then show ?thesis using Cons [of "AList.update k (noteAddr a (addrs_of m k)) m"]
      by (auto simp: Let_def update_conv' addrs_of_def filter_empty_conv)
  qed
qed simp

section \<open>Candidates\<close>

definition uncovered :: "vtable \<Rightarrow> netAddr list \<Rightarrow> string set" where
  "uncovered tbl addrs = {net_string \<lparr>net_ip = ip_mask a m, net_mask = m\<rparr> | a m.
     AddrIPNet a m \<in> set addrs \<and> usableIP a \<and> vt_lookup tbl a = None}"

lemma candidatesFrom_cidrs:
  "distinct (map cd_cidr (candidatesFrom tbl seen addrs)) \<and>
   set (map cd_cidr (candidatesFrom tbl seen addrs)) = uncovered tbl addrs - set seen"
proof (induction tbl seen addrs rule: candidatesFrom.induct)
  case (2 tbl seen a m addrs)
  let ?c = "net_string \<lparr>net_ip = ip_mask a m, net_mask = m\<rparr>"
  have "uncovered tbl (AddrIPNet a m # addrs) =
      (if usableIP a \<and> vt_lookup tbl a = None then {?c} else {}) \<union> uncovered tbl addrs"
    by (auto simp: uncovered_def)
  then show ?case using 2 by (auto simp: Let_def)
qed (auto simp: uncovered_def)

lemma candidates_exact:
  "distinct (map cd_cidr (candidates existing addrs)) \<and>
   set (map cd_cidr (candidates existing addrs)) = uncovered (newTable (vlancfg_build existing)) addrs"
  using candidatesFrom_cidrs [of "newTable (vlancfg_build existing)" "[]" addrs] by (simp add: candidates_def)

section \<open>Gateways\<close>

lemma map_of_put_new: "map_of (put_new k v m) n = (if map_of m k = None \<and> n = k then Some v else map_of m n)"
  by (auto simp: put_new_def map_add_def split: option.split)

text \<open>An interface whose default route stands for the VLAN.\<close>

definition routes_for :: "vtable \<Rightarrow> (string \<times> ip) list \<Rightarrow> string \<Rightarrow> string \<times> ip list \<Rightarrow> bool" where
  "routes_for tbl gateways n ifc \<longleftrightarrow> (\<exists>gw. map_of gateways (fst ifc) = Some gw \<and> gw \<noteq> []) \<and>
     (\<exists>a\<in>set (snd ifc). vt_lookup tbl a = Some n)"

definition routeOf :: "(string \<times> ip) list \<Rightarrow> string \<times> ip list \<Rightarrow> string" where
  "routeOf gateways ifc = ip_string (the (map_of gateways (fst ifc)))"

lemma put_new_fold:
  "map_of (fold (\<lambda>a m. case vt_lookup tbl a of None \<Rightarrow> m | Some k \<Rightarrow> put_new k g m) as m) n =
     (if map_of m n = None \<and> (\<exists>a\<in>set as. vt_lookup tbl a = Some n) then Some g else map_of m n)"
  by (induction as arbitrary: m) (auto simp: map_of_put_new split: option.split)

lemma routes_fold:
  "map_of (gr_perVLAN (fold (routeStep tbl gateways) ifaces r)) n =
     (case map_of (gr_perVLAN r) n of Some g \<Rightarrow> Some g
      | None \<Rightarrow> map_option (routeOf gateways) (find (routes_for tbl gateways n) ifaces))"
proof (induction ifaces arbitrary: r)
  case (Cons ifc ifaces)
  have step: "map_of (gr_perVLAN (routeStep tbl gateways ifc r)) n =
      (if map_of (gr_perVLAN r) n = None \<and> routes_for tbl gateways n ifc then Some (routeOf gateways ifc)
       else map_of (gr_perVLAN r) n)"
    by (auto simp: routeStep_def put_new_fold routes_for_def routeOf_def split: option.split)
  show ?case using Cons.IH [of "routeStep tbl gateways ifc r"] by (auto simp: step split: option.split)
qed (simp split: option.split)

lemma heuristic_fold:
  "map_of (fold heuristicStep vs m) n =
     (case map_of m n of Some g \<Rightarrow> Some g
      | None \<Rightarrow> map_option (heuristicGateway \<circ> vlan_cidrs) (find (\<lambda>v. vlan_name v = n \<and> heuristicGateway (vlan_cidrs v) \<noteq> []) vs))"
proof (induction vs arbitrary: m)
  case (Cons v vs)
  then show ?case by (auto simp: heuristicStep_def Let_def map_of_put_new split: option.split)
qed (simp split: option.split)

text \<open>Network plus one is in the network, if the network has a second address.\<close>

lemma succ_masked:
  fixes z m :: byte
  assumes "z AND m = z" "even m"
  shows "(z + 1) AND m = z AND m"
proof -
  have "even (z AND m)" using assms(2) by (simp add: even_and_iff)
  then have e: "even z" using assms(1) by simp
  then have "z + 1 = z OR 1" by (simp add: or_one_eq)
  then have "(z + 1) AND m = (z AND m) OR (1 AND m)" by (simp only: bit.conj_disj_distrib2)
  also have "1 AND m = 0" using assms(2) by (simp only: one_and_eq even_iff_mod_2_eq_zero)
  finally show ?thesis by simp
qed

lemma last_mask_even: "p < 32 \<Longrightarrow> even (cidr_mask p 4 ! 3)"
proof -
  assume p: "p < 32"
  have "cidr_mask p 4 ! 3 = hd (drop 3 (cidr_mask p 4))" by (simp add: hd_drop_conv_nth)
  also have "\<dots> = hd (cidr_mask (p - 24) (Suc 0))" by (simp add: drop_cidr_mask)
  also have "\<dots> = NOT (drop_bit (p - 24) 255)" using p by (simp only: cidr_mask.simps) simp
  finally show ?thesis using p low_mask_even [of "p - 24"] by simp
qed

lemma parseCIDR_masked:
  assumes "parseCIDR c = Some n" "to4 (net_ip n) \<noteq> []" "networkNumberAndMask n = (a, m)" "m \<noteq> []"
  shows "and_bytes a m = a" "length a = 4" "a = to4 (net_ip n)"
proof -
  show l: "length a = 4" "a = to4 (net_ip n)" using assms(2-) to4_length [of "net_ip n"]
    by (auto simp: networkNumberAndMask_def Let_def split: if_splits)
  have d: "and_bytes (drop k x) (drop k y) = drop k (and_bytes x y)" for k and x y :: "byte list"
    by (simp add: drop_map drop_zip)
  obtain s k is4 b where p: "parseAddr s = Some (is4, b)"
    "n = \<lparr>net_ip = ip_mask b (cidr_mask k (if is4 then 4 else 16)), net_mask = cidr_mask k (if is4 then 4 else 16)\<rparr>"
    using assms(1) by (auto simp: parseCIDR_def Let_def split: prod.splits option.splits if_splits)
  note b = parseAddr_length [OF p(1)]
  show "and_bytes a m = a"
  proof (cases is4)
    case True
    then have n: "net_ip n = and_bytes (drop 12 b) (cidr_mask k 4)" using p b parseAddr_v4 by (simp add: ip_mask_v4)
    then have "a = and_bytes (drop 12 b) (cidr_mask k 4)" "m = cidr_mask k 4"
      using assms(3) b p(2) True by (auto simp: networkNumberAndMask_def to4_def Let_def split: if_splits)
    then show ?thesis by (simp add: and_bytes_same)
  next
    case False
    then have n: "net_ip n = and_bytes b (cidr_mask k 16)" using p b by (simp add: ip_mask_v6)
    then have "a = drop 12 (and_bytes b (cidr_mask k 16))" using l b by (auto simp: to4_def split: if_splits)
    moreover have "m = drop 12 (cidr_mask k 16)"
      using assms(2,3) False p(2) l(1) by (auto simp: networkNumberAndMask_def Let_def split: if_splits)
    ultimately show ?thesis by (simp only: d and_bytes_same)
  qed
qed

lemma norm_ip_4: "length a = 4 \<Longrightarrow> norm_ip a = a"
  by (auto simp: norm_ip_def to4_def)

lemma succ_in_net:
  assumes "parseCIDR c = Some n" "to4 (net_ip n) \<noteq> []" "cidr_net n p 4" "p < 32"
  shows "net_contains n ((to4 (net_ip n))[3 := to4 (net_ip n) ! 3 + 1])"
proof -
  let ?a = "to4 (net_ip n)" and ?m = "cidr_mask p 4"
  have nm: "networkNumberAndMask n = (?a, ?m)" using assms(2,3) by (simp add: cidr_net_def norm_ip_def)
  have "?m \<noteq> []" by simp
  note masked = parseCIDR_masked [OF assms(1,2) nm this]
  have "?a ! 3 AND ?m ! 3 = ?a ! 3"
    using arg_cong [OF masked(1), of "\<lambda>xs. xs ! 3"] masked(2) by simp
  then have z: "(?a ! 3 + 1) AND ?m ! 3 = ?a ! 3 AND ?m ! 3" using succ_masked last_mask_even [OF assms(4)] by blast
  have "and_bytes (?a[3 := ?a ! 3 + 1]) ?m = and_bytes ?a ?m"
    using masked(2) z by (intro nth_equalityI) (auto simp: nth_list_update)
  moreover have "norm_ip (?a[3 := ?a ! 3 + 1]) = ?a[3 := ?a ! 3 + 1]"
    using masked(2) by (intro norm_ip_4) simp
  ultimately show ?thesis using masked(2) by (simp add: net_contains_iff nm)
qed

lemma heuristicGateway_source:
  assumes "heuristicGateway cs \<noteq> []"
  shows "\<exists>c n. c \<in> set cs \<and> parseCIDR c = Some n \<and> to4 (net_ip n) \<noteq> [] \<and>
    heuristicGateway cs = ip_string ((to4 (net_ip n))[3 := to4 (net_ip n) ! 3 + 1])"
  using assms by (induction cs) (auto simp: Let_def split: option.splits if_splits)

section \<open>Routes\<close>

text \<open>How the kernel writes an address into the table: the bytes as a little-endian number, in eight hexadecimal digits.\<close>

definition upper_hex :: "nat \<Rightarrow> char" where
  "upper_hex n = (if n < 10 then char_of (48 + n) else char_of (55 + n))"

definition route_hex :: "ip \<Rightarrow> string" where
  "route_hex a = concat (map (\<lambda>b. [upper_hex (unat b div 16), upper_hex (unat b mod 16)]) (rev a))"

lemma hex_val_upper [simp]: "n < 16 \<Longrightarrow> hex_val (upper_hex n) = Some n"
  by (auto simp: hex_val_def upper_hex_def Let_def is_digit_def digit_val_def)

lemma hex_digits_bytes:
  "hex_digits acc (concat (map (\<lambda>b. [upper_hex (unat b div 16), upper_hex (unat b mod 16)]) bs)) =
     Some (fold (\<lambda>b n. n * 256 + unat b) bs acc)" for bs :: "byte list"
proof (induction bs arbitrary: acc)
  case (Cons b bs)
  have "unat b < 256" using unsigned_less [of b] by simp
  moreover have "(acc * 16 + unat b div 16) * 16 + unat b mod 16 = acc * 256 + (unat b div 16 * 16 + unat b mod 16)" by simp
  ultimately have "unat b div 16 < 16" "(acc * 16 + unat b div 16) * 16 + unat b mod 16 = acc * 256 + unat b"
    by simp_all
  note b = this
  have "hex_digits acc (upper_hex (unat b div 16) # upper_hex (unat b mod 16) # r) = hex_digits (acc * 256 + unat b) r" for r
    using b(1) by (simp only: hex_digits.simps hex_val_upper option.case b(2) mod_less_divisor zero_less_numeral)
  then show ?case using Cons by simp
qed simp

lemma low_byte: "of_nat (unat w + 256 * r) = (w :: byte)" "(unat w + 256 * r) div 256 = r"
proof -
  have "(256 :: byte) = 0" by simp
  then have "(of_nat (256 * r) :: byte) = 0" by (simp only: of_nat_mult of_nat_numeral mult_zero_left)
  then show "of_nat (unat w + 256 * r) = w" by (simp only: of_nat_add) simp
  show "(unat w + 256 * r) div 256 = r" using unsigned_less [of w, where ?'a = nat] by simp
qed

lemma route_hex_parses:
  assumes "length a = 4"
  shows "parseHexLittleEndianIPv4 (route_hex a) = a"
proof -
  obtain w x y z where a: "a = [w, x, y, z]" using assms by (auto simp: numeral_eq_Suc length_Suc_conv)
  let ?v = "unat w + 256 * (unat x + 256 * (unat y + 256 * unat z))"
  have lt: "unat b < 256" for b :: byte using unsigned_less [of b] by simp
  have "parseHex32 (route_hex a) = Some ?v"
    using lt [of w] lt [of x] lt [of y] lt [of z]
    by (simp add: parseHex32_def route_hex_def hex_digits_bytes a del: concat.simps list.map fold_simps)
  moreover have "?v div 2 ^ 8 = unat x + 256 * (unat y + 256 * unat z)" "?v div 2 ^ 16 = unat y + 256 * unat z" "?v div 2 ^ 24 = unat z"
  proof -
    have pow: "(2::nat) ^ 8 = 256" "(2::nat) ^ 16 = 256 * 256" "(2::nat) ^ 24 = 256 * 256 * 256" by simp_all
    show "?v div 2 ^ 8 = unat x + 256 * (unat y + 256 * unat z)" "?v div 2 ^ 16 = unat y + 256 * unat z" "?v div 2 ^ 24 = unat z"
      unfolding pow div_mult2_eq low_byte(2) by (rule refl)+
  qed
  moreover have "of_nat ?v = w" "of_nat (unat x + 256 * (unat y + 256 * unat z)) = x" "of_nat (unat y + 256 * unat z) = y"
    by (rule low_byte(1))+
  moreover have "of_nat (unat z) = z" by simp
  ultimately show ?thesis unfolding parseHexLittleEndianIPv4_def by (simp only: option.case a)
qed

section \<open>Properties\<close>

text \<open>
  The machine's own addresses are the first usable ones: for each VLAN, and for clients of none,
  the detected address of a family is the first usable address of that family that lies in the
  VLAN, or on any interface; a VLAN without one is not listed.
\<close>

theorem own_addresses_exact:
  "map_of (si_perVLAN (selfip_detect vlans addrs)) n =
     (let mine = filter (\<lambda>a. vt_lookup (newTable (vlancfg_build vlans)) a = Some n) (extractIPs addrs) in
      if mine = [] then None else Some (firstAddrs mine)) \<and>
   si_primary (selfip_detect vlans addrs) = firstAddrs (extractIPs addrs)"
  unfolding selfip_detect_def Let_def
  by (simp add: perVLAN_fold fold_noteAddr_zero Let_def) (simp add: addrs_of_def fold_noteAddr_zero)

text \<open>
  The router guessed for a VLAN is the default route of the first interface with an address in
  the VLAN, and else the address after the network's own in the first declared network that is an
  IPv4 one; that address lies in the network unless the network is a single address.
\<close>

theorem gateway_guess_exact:
  "map_of (gr_perVLAN (gw_detect vlans ifaces gateways)) n =
     (case find (routes_for (newTable (vlancfg_build vlans)) gateways n) ifaces of
        Some ifc \<Rightarrow> Some (routeOf gateways ifc)
      | None \<Rightarrow> map_option (heuristicGateway \<circ> vlan_cidrs) (find (\<lambda>v. vlan_name v = n \<and> heuristicGateway (vlan_cidrs v) \<noteq> []) vlans)) \<and>
   (heuristicGateway cs \<noteq> [] \<longrightarrow> (\<exists>c net gw. c \<in> set cs \<and> parseCIDR c = Some net \<and> heuristicGateway cs = ip_string gw \<and>
      (\<forall>p<32. cidr_net net p 4 \<longrightarrow> net_contains net gw)))"
proof
  let ?tbl = "newTable (vlancfg_build vlans)"
  show "map_of (gr_perVLAN (gw_detect vlans ifaces gateways)) n =
     (case find (routes_for ?tbl gateways n) ifaces of
        Some ifc \<Rightarrow> Some (routeOf gateways ifc)
      | None \<Rightarrow> map_option (heuristicGateway \<circ> vlan_cidrs) (find (\<lambda>v. vlan_name v = n \<and> heuristicGateway (vlan_cidrs v) \<noteq> []) vlans))"
    by (simp add: gw_detect_def Let_def heuristic_fold routes_fold split: option.split)
  show "heuristicGateway cs \<noteq> [] \<longrightarrow> (\<exists>c net gw. c \<in> set cs \<and> parseCIDR c = Some net \<and> heuristicGateway cs = ip_string gw \<and>
      (\<forall>p<32. cidr_net net p 4 \<longrightarrow> net_contains net gw))"
    using heuristicGateway_source [of cs] succ_in_net by metis
qed

theorem gateway_guess_exact_witness:
  "map_of (gr_perVLAN (gw_detect [\<lparr>vlan_name = ''lan'', vlan_cidrs = [''10.1.0.0/16'']\<rparr>] [] [])) ''lan'' = Some ''10.1.0.1''"
proof -
  have "heuristicGateway [''10.1.0.0/16''] = ''10.1.0.1''"
    by (simp add: ip_eval ip_string_def itoa_nat.simps digit_char_def, code_simp)
  then show ?thesis
    using gateway_guess_exact [of "[\<lparr>vlan_name = ''lan'', vlan_cidrs = [''10.1.0.0/16'']\<rparr>]" "[]" "[]" "''lan''" "[''10.1.0.0/16'']"]
    by (simp add: comp_def del: heuristicGateway.simps)
qed

text \<open>A single-address network gets a guess outside it.\<close>

lemma host_network_guess_outside:
  "heuristicGateway [''10.0.0.255/32''] = ''10.0.0.0'' \<and>
   \<not> net_contains (the (parseCIDR ''10.0.0.255/32'')) (parseIP ''10.0.0.0'')"
  by (simp add: ip_eval ip_string_def itoa_nat.simps digit_char_def, code_simp)

text \<open>The name suggested for a network has all four numbers of its address.\<close>

lemma suggested_name: "suggestName (parseIP ''192.168.30.0'') = ''net-192-168-30-0''"
  by (simp add: suggestName_def ip_eval ip_string_def itoa_nat.simps digit_char_def, code_simp)

end
