(* ===== verification/Go_Float.thy ===== *)
theory Go_Float
  imports BG_Prelude "HOL-Library.Log_Nat"
begin

text \<open>
  The \<^verbatim>\<open>float64\<close> arithmetic the sources use on durations. A finite double is the rational number it
  stands for; \<open>f64\<close> rounds a rational to the nearest double, ties to the even one, so that every
  operation is the exact one followed by \<open>f64\<close>. The values are far from the ends of the exponent
  range (they are between a nanosecond and some centuries), which is left out.
\<close>

section \<open>Rounding\<close>

definition round_even :: "rat \<Rightarrow> int" where
  "round_even q = (let f = \<lfloor>q\<rfloor>; r = q - of_int f in
     if r < 1 / 2 \<or> (r = 1 / 2 \<and> even f) then f else f + 1)"

text \<open>The exponent of the last of the 53 bits of a positive rational.\<close>

definition ulp_exp :: "rat \<Rightarrow> int" where
  "ulp_exp q = (case quotient_of q of (a, b) \<Rightarrow>
     let e = bitlen a - bitlen b - 53 in if 2 ^ 53 * 2 powi e \<le> q then e + 1 else e)"

definition f64 :: "rat \<Rightarrow> rat" where
  "f64 q = (if q = 0 then 0
     else let e = ulp_exp \<bar>q\<bar> in sgn q * of_int (round_even (\<bar>q\<bar> / 2 powi e)) * 2 powi e)"

text \<open>\<^verbatim>\<open>Duration.Seconds\<close> and \<^verbatim>\<open>Duration.Hours\<close>; Go's division and remainder truncate.\<close>

definition quot_trunc :: "int \<Rightarrow> int \<Rightarrow> int" where
  "quot_trunc a b = sgn a * (\<bar>a\<bar> div b)"

definition dur_float :: "int \<Rightarrow> duration \<Rightarrow> rat" where
  "dur_float unit d = (let h = quot_trunc d unit; rest = d - h * unit in
     f64 (f64 (of_int h) + f64 (f64 (of_int rest) / of_int unit)))"

definition seconds :: "duration \<Rightarrow> rat" where
  "seconds d = dur_float 1000000000 d"

definition hours :: "duration \<Rightarrow> rat" where
  "hours d = dur_float 3600000000000 d"

text \<open>Conversion of a float to an integer type.\<close>

definition trunc :: "rat \<Rightarrow> int" where
  "trunc q = (if q < 0 then - \<lfloor>- q\<rfloor> else \<lfloor>q\<rfloor>)"

section \<open>Error bounds\<close>

lemma round_even_error: "\<bar>of_int (round_even q) - q\<bar> \<le> 1 / 2"
proof -
  have "of_int \<lfloor>q\<rfloor> \<le> q" "q < of_int \<lfloor>q\<rfloor> + 1" by linarith+
  then show ?thesis unfolding round_even_def Let_def by (simp add: abs_if) linarith
qed

lemma round_even_int [simp]: "round_even (of_int n) = n"
  by (simp add: round_even_def)

lemma bitlen_rat:
  assumes "a > 0"
  shows "2 powi (bitlen a - 1) \<le> (of_int a :: rat)" "(of_int a :: rat) < 2 powi bitlen a"
proof -
  have b: "2 ^ nat (bitlen a - 1) \<le> a" "a < 2 ^ nat (bitlen a)" using bitlen_bounds [OF assms] by auto
  have n: "1 \<le> bitlen a" using bitlen_ge_iff_power [of 1 a] assms by simp
  have "(2 :: rat) ^ nat (bitlen a - 1) \<le> of_int a" using b(1) by (metis of_int_le_iff of_int_numeral of_int_power)
  then show "2 powi (bitlen a - 1) \<le> (of_int a :: rat)" using n by (simp add: power_int_def)
  have "(of_int a :: rat) < 2 ^ nat (bitlen a)" using b(2) by (metis of_int_less_iff of_int_numeral of_int_power)
  then show "(of_int a :: rat) < 2 powi bitlen a" using n by (simp add: power_int_def)
qed

lemma ulp_exp_lower:
  assumes "q > 0"
  shows "2 ^ 52 * 2 powi ulp_exp q \<le> q"
proof -
  obtain a b where ab: "quotient_of q = (a, b)" by (cases "quotient_of q")
  have b: "b > 0" and q: "q = of_int a / of_int b" using quotient_of_denom_pos [OF ab] quotient_of_div [OF ab] by auto
  then have a: "a > 0" using assms by (simp add: zero_less_divide_iff)
  let ?e = "bitlen a - bitlen b - 53"
  have "2 ^ 52 * (2 :: rat) powi ?e = 2 powi (bitlen a - 1) / 2 powi bitlen b"
  proof -
    have "2 ^ 52 * (2 :: rat) powi ?e = 2 powi 52 * 2 powi ?e" by (simp add: power_int_def)
    also have "\<dots> = 2 powi (bitlen a - 1 - bitlen b)" by (subst power_int_add [symmetric]) (simp_all add: algebra_simps)
    also have "\<dots> = 2 powi (bitlen a - 1) / 2 powi bitlen b" by (rule power_int_diff) simp
    finally show ?thesis .
  qed
  also have "\<dots> \<le> of_int a / of_int b"
    using bitlen_rat [OF a] bitlen_rat [OF b] a b by (intro frac_le) auto
  finally have "2 ^ 52 * 2 powi ?e \<le> q" by (simp add: q)
  moreover have "2 ^ 52 * (2 :: rat) powi (?e + 1) = 2 ^ 53 * 2 powi ?e" by (subst power_int_add) simp_all
  ultimately show ?thesis by (auto simp: ulp_exp_def ab Let_def)
qed

lemma f64_error: "\<bar>f64 q - q\<bar> \<le> \<bar>q\<bar> / 2 ^ 53"
proof (cases "q = 0")
  case False
  let ?e = "ulp_exp \<bar>q\<bar>" and ?u = "2 powi ulp_exp \<bar>q\<bar> :: rat"
  have u: "?u > 0" by simp
  have "f64 q - q = sgn q * (of_int (round_even (\<bar>q\<bar> / ?u)) - \<bar>q\<bar> / ?u) * ?u"
    using False u by (simp add: f64_def Let_def algebra_simps abs_mult_sgn)
  then have "\<bar>f64 q - q\<bar> = \<bar>of_int (round_even (\<bar>q\<bar> / ?u)) - \<bar>q\<bar> / ?u\<bar> * ?u"
    using False u by (simp add: abs_mult abs_sgn_eq)
  also have "\<dots> \<le> 1 / 2 * ?u" using round_even_error u by (intro mult_right_mono) auto
  also have "\<dots> \<le> \<bar>q\<bar> / 2 ^ 53" using ulp_exp_lower [of "\<bar>q\<bar>"] False by simp
  finally show ?thesis .
qed (simp add: f64_def)

lemma f64_zero [simp]: "f64 0 = 0"
  by (simp add: f64_def)

lemma powi_neg: "e \<le> 0 \<Longrightarrow> (2 :: rat) powi e = 1 / 2 ^ nat (- e)"
  using power_int_minus_divide [of "2 :: rat" "- e"] power_int_of_nat [of "2 :: rat" "nat (- e)"] by simp

lemma f64_int:
  assumes "\<bar>n\<bar> < 2 ^ 53"
  shows "f64 (of_int n) = of_int n"
proof (cases "n = 0")
  case False
  let ?e = "ulp_exp \<bar>of_int n\<bar>"
  have "2 ^ 52 * 2 powi ?e \<le> (\<bar>of_int n\<bar> :: rat)" using False by (intro ulp_exp_lower) simp
  also have "\<dots> < 2 ^ 53" using assms by (metis of_int_abs of_int_less_iff of_int_numeral of_int_power)
  finally have "(2 :: rat) powi ?e < 2 powi 1" by simp
  then have e: "?e \<le> 0" using power_int_le_imp_less_exp [of "2::rat" ?e 1] by simp
  define k where "k = nat (- ?e)"
  have eq: "\<bar>of_int n\<bar> / (2 :: rat) powi ?e = of_int (\<bar>n\<bar> * 2 ^ k)"
    unfolding powi_neg [OF e] k_def by simp
  have "f64 (of_int n) = sgn (of_int n) * of_int (round_even (\<bar>of_int n\<bar> / 2 powi ?e)) * 2 powi ?e"
    using False unfolding f64_def Let_def by (simp only: of_int_eq_0_iff if_False)
  also have "\<dots> = sgn (of_int n) * of_int (\<bar>n\<bar> * 2 ^ k) * 2 powi ?e"
    unfolding eq round_even_int by (rule refl)
  also have "\<dots> = sgn (of_int n) * \<bar>of_int n\<bar> * (2 ^ k * 2 powi ?e)" by simp
  also have "2 ^ k * (2 :: rat) powi ?e = 1" unfolding powi_neg [OF e] k_def by simp
  finally show ?thesis by (simp add: mult_sgn_abs)
qed simp

text \<open>Bounds in the form in which products of rounded numbers need them.\<close>

lemma f64_bounds:
  assumes "0 \<le> q"
  shows "q * (1 - 1 / 2 ^ 53) \<le> f64 q" "f64 q \<le> q * (1 + 1 / 2 ^ 53)" "0 \<le> f64 q"
proof -
  have "f64 q - q \<le> q / 2 ^ 53" "q - f64 q \<le> q / 2 ^ 53"
    using f64_error [of q] assms unfolding abs_le_iff by simp_all
  then show lo: "q * (1 - 1 / 2 ^ 53) \<le> f64 q" and "f64 q \<le> q * (1 + 1 / 2 ^ 53)"
    by (simp_all only: distrib_left right_diff_distrib) simp_all
  have "0 \<le> q * (1 - 1 / 2 ^ 53)" using assms by simp
  then show "0 \<le> f64 q" using lo by simp
qed

end
