(* ===== verification/Mdns_Browse.thy ===== *)
theory Mdns_Browse
  imports Mdns_Table Go_Float
begin

text \<open>
  Browsing for services over multicast DNS: \<^verbatim>\<open>mdnssd\<close> (the record cache with its refresh
  schedule, known answers, queries, the state of a browse for one service type and of a browse for
  the types) and the loops that drive it, down to the discovery table of \<open>Mdns_Table\<close> that the
  listener of \<^verbatim>\<open>plugins/mdnsbridge\<close> feeds. A Go map is an association list; a message is processed at
  one reading of the clock.
\<close>

section \<open>Messages\<close>

record mdns_hdr = rr_hdr +
  hdr_class :: uint16

datatype mdns_rr =
    M_PTR mdns_hdr string
  | M_SRV mdns_hdr string uint16
  | M_TXT mdns_hdr "string list"
  | M_A mdns_hdr ip
  | M_AAAA mdns_hdr ip
  | M_Other mdns_hdr string

fun mrr_header :: "mdns_rr \<Rightarrow> mdns_hdr" where
  "mrr_header (M_PTR h _) = h"
| "mrr_header (M_SRV h _ _) = h"
| "mrr_header (M_TXT h _) = h"
| "mrr_header (M_A h _) = h"
| "mrr_header (M_AAAA h _) = h"
| "mrr_header (M_Other h _) = h"

fun mrr_set_header :: "mdns_hdr \<Rightarrow> mdns_rr \<Rightarrow> mdns_rr" where
  "mrr_set_header h (M_PTR _ t) = M_PTR h t"
| "mrr_set_header h (M_SRV _ t p) = M_SRV h t p"
| "mrr_set_header h (M_TXT _ s) = M_TXT h s"
| "mrr_set_header h (M_A _ a) = M_A h a"
| "mrr_set_header h (M_AAAA _ a) = M_AAAA h a"
| "mrr_set_header h (M_Other _ d) = M_Other h d"

record mdns_question =
  mq_name :: string
  mq_type :: uint16
  mq_class :: uint16

record mdns_msg =
  mm_response :: bool
  mm_question :: "mdns_question list"
  mm_answer :: "mdns_rr list"
  mm_ns :: "mdns_rr list"
  mm_extra :: "mdns_rr list"

definition dnsTypePTR :: uint16 where "dnsTypePTR = 12"
definition classINET :: uint16 where "classINET = 1"

definition second :: duration where "second = 1000000000"

section \<open>Parsed answers\<close>

record ptrRecord =
  pt_name :: string
  pt_ptr :: string
  pt_ttl :: duration

definition ptr_RR :: "ptrRecord \<Rightarrow> mdns_rr" where
  "ptr_RR p = M_PTR \<lparr>hdr_name = pt_name p, hdr_rrtype = dnsTypePTR, hdr_ttl = of_int (trunc (seconds (pt_ttl p))),
     hdr_class = classINET\<rparr> (pt_ptr p)"

record srvRecord =
  srv_name :: string
  srv_target :: string
  srv_port :: int
  srv_ttl :: duration

record txtRecord =
  tx_name :: string
  tx_text :: "(string \<times> string) list"
  tx_ttl :: duration

text \<open>\<^verbatim>\<open>aRecord\<close> and \<^verbatim>\<open>aaaaRecord\<close>.\<close>

record addrRecord =
  ar_name :: string
  ar_ip :: ip
  ar_ttl :: duration

record parsedAnswers =
  pa_PTR :: "ptrRecord list"
  pa_SRV :: "srvRecord list"
  pa_TXT :: "txtRecord list"
  pa_A :: "addrRecord list"
  pa_AAAA :: "addrRecord list"

text \<open>A segment without an equals sign is skipped; a later segment of the same key wins.\<close>

definition parseTXT :: "string list \<Rightarrow> (string \<times> string) list" where
  "parseTXT segments = fold (\<lambda>s text. case cutAt (CHR ''='') s of
     (_, None) \<Rightarrow> text | (key, Some v) \<Rightarrow> AList.update key v text) segments []"

definition rr_ttl :: "mdns_rr \<Rightarrow> duration" where
  "rr_ttl r = uint (hdr_ttl (mrr_header r)) * second"

fun parseRR :: "mdns_rr \<Rightarrow> parsedAnswers \<Rightarrow> parsedAnswers" where
  "parseRR (M_PTR h t) out = out\<lparr>pa_PTR := pa_PTR out @
     [\<lparr>pt_name = hdr_name h, pt_ptr = t, pt_ttl = rr_ttl (M_PTR h t)\<rparr>]\<rparr>"
| "parseRR (M_SRV h t p) out = out\<lparr>pa_SRV := pa_SRV out @
     [\<lparr>srv_name = hdr_name h, srv_target = t, srv_port = uint p, srv_ttl = rr_ttl (M_SRV h t p)\<rparr>]\<rparr>"
| "parseRR (M_TXT h s) out = out\<lparr>pa_TXT := pa_TXT out @
     [\<lparr>tx_name = hdr_name h, tx_text = parseTXT s, tx_ttl = rr_ttl (M_TXT h s)\<rparr>]\<rparr>"
| "parseRR (M_A h a) out = out\<lparr>pa_A := pa_A out @
     [\<lparr>ar_name = hdr_name h, ar_ip = a, ar_ttl = rr_ttl (M_A h a)\<rparr>]\<rparr>"
| "parseRR (M_AAAA h a) out = out\<lparr>pa_AAAA := pa_AAAA out @
     [\<lparr>ar_name = hdr_name h, ar_ip = a, ar_ttl = rr_ttl (M_AAAA h a)\<rparr>]\<rparr>"
| "parseRR (M_Other h d) out = out"

definition parseAnswers :: "mdns_msg \<Rightarrow> parsedAnswers" where
  "parseAnswers m = fold parseRR (mm_answer m @ mm_ns m @ mm_extra m)
     \<lparr>pa_PTR = [], pa_SRV = [], pa_TXT = [], pa_A = [], pa_AAAA = []\<rparr>"

section \<open>The record cache\<close>

text \<open>\<^verbatim>\<open>refreshThresholds\<close>, as doubles.\<close>

definition refreshThresholds :: "rat list" where
  "refreshThresholds = [f64 (80 / 100), f64 (85 / 100), f64 (90 / 100), f64 (95 / 100)]"

record cacheRecord =
  cr_rr :: "mdns_rr option"
  cr_question :: string
  cr_ttl :: duration
  cr_storedAt :: time
  cr_refreshesSent :: nat

type_synonym cache = "(string \<times> cacheRecord) list"

definition cr_elapsed :: "time \<Rightarrow> cacheRecord \<Rightarrow> duration" where
  "cr_elapsed now r = now - cr_storedAt r"

definition cr_expired :: "time \<Rightarrow> cacheRecord \<Rightarrow> bool" where
  "cr_expired now r = (cr_elapsed now r \<ge> cr_ttl r)"

definition thresholdAt :: "duration \<Rightarrow> nat \<Rightarrow> duration" where
  "thresholdAt ttl i = trunc (f64 (f64 (of_int ttl) * (refreshThresholds ! i)))"

text \<open>The loop of \<^verbatim>\<open>dueThreshold\<close>: how many thresholds are behind, given how many were.\<close>

function dueFrom :: "duration \<Rightarrow> duration \<Rightarrow> nat \<Rightarrow> nat" where
  "dueFrom ttl el n =
     (if n < length refreshThresholds then (if el < thresholdAt ttl n then n else dueFrom ttl el (n + 1)) else n)"
  by auto

termination dueFrom
  by (relation "measure (\<lambda>(_, _, n). length refreshThresholds - n)") auto

definition dueThreshold :: "time \<Rightarrow> cacheRecord \<Rightarrow> bool \<times> cacheRecord" where
  "dueThreshold now r =
     (let n = dueFrom (cr_ttl r) (cr_elapsed now r) (cr_refreshesSent r) in
      (n \<noteq> cr_refreshesSent r, r\<lparr>cr_refreshesSent := n\<rparr>))"

definition cache_store :: "time \<Rightarrow> string \<Rightarrow> string \<Rightarrow> mdns_rr option \<Rightarrow> duration \<Rightarrow> cache \<Rightarrow> bool \<times> cache" where
  "cache_store now key q r ttl c =
     (map_of c key = None,
      AList.update key \<lparr>cr_rr = r, cr_question = q, cr_ttl = ttl, cr_storedAt = now, cr_refreshesSent = 0\<rparr> c)"

definition cache_remove :: "string \<Rightarrow> cache \<Rightarrow> cache" where
  "cache_remove key c = AList.delete key c"

fun cache_tick :: "time \<Rightarrow> cache \<Rightarrow> string list \<times> string list \<times> cache" where
  "cache_tick now [] = ([], [], [])"
| "cache_tick now ((key, r) # c) =
     (case cache_tick now c of (due, expired, c') \<Rightarrow>
        if cr_expired now r then (due, key # expired, c')
        else case dueThreshold now r of (fired, r') \<Rightarrow>
          (if fired then cr_question r # due else due, expired, (key, r') # c'))"

section \<open>Known answers and queries\<close>

record knownRecord =
  kr_rr :: mdns_rr
  kr_question :: string
  kr_ttl :: duration
  kr_elapsed :: duration

definition knownAnswersFor :: "string \<Rightarrow> time \<Rightarrow> cache \<Rightarrow> knownRecord list" where
  "knownAnswersFor q now c = List.map_filter (\<lambda>(_, r).
     if cr_question r \<noteq> q then None
     else map_option (\<lambda>rr. \<lparr>kr_rr = rr, kr_question = cr_question r, kr_ttl = cr_ttl r, kr_elapsed = cr_elapsed now r\<rparr>)
            (cr_rr r)) c"

definition knownAnswers :: "knownRecord list \<Rightarrow> string \<Rightarrow> mdns_rr list" where
  "knownAnswers records q = List.map_filter (\<lambda>k.
     if kr_question k \<noteq> q then None
     else let remaining = kr_ttl k - kr_elapsed k in
       if remaining * 2 \<le> kr_ttl k then None
       else Some (mrr_set_header ((mrr_header (kr_rr k))\<lparr>hdr_ttl := of_int (trunc (seconds remaining))\<rparr>) (kr_rr k))) records"

definition quBit :: uint16 where "quBit = push_bit 15 1"

definition buildQuery :: "string \<Rightarrow> mdns_rr list \<Rightarrow> bool \<Rightarrow> mdns_msg" where
  "buildQuery qname known unicast =
     \<lparr>mm_response = False,
      mm_question = [\<lparr>mq_name = qname, mq_type = dnsTypePTR, mq_class = (if unicast then or classINET quBit else classINET)\<rparr>],
      mm_answer = known, mm_ns = [], mm_extra = []\<rparr>"

section \<open>Browsing one service type\<close>

record mdnsEntry =
  en_host :: string
  en_instance :: string
  en_type :: string
  en_domain :: string
  en_txt :: "(string \<times> string) list"
  en_ipv4 :: "string list"
  en_ipv6 :: "string list"
  en_ifaceName :: string
  en_ttl :: duration

record browserState =
  bs_question :: string
  bs_typ :: string
  bs_domain :: string
  bs_cache :: cache
  bs_entries :: "(string \<times> mdnsEntry) list"

definition splitServiceQuestion :: "string \<Rightarrow> string \<times> string" where
  "splitServiceQuestion q =
     (if hasSuffix q ''.local.'' then (trimSuffix q ''.local.'', ''local'') else (trimSuffix q ''.'', []))"

definition newBrowserState :: "string \<Rightarrow> browserState" where
  "newBrowserState q = (case splitServiceQuestion q of (styp, domain) \<Rightarrow>
     \<lparr>bs_question = q, bs_typ = styp, bs_domain = domain, bs_cache = [], bs_entries = []\<rparr>)"

definition instanceLabel :: "string \<Rightarrow> string \<Rightarrow> string" where
  "instanceLabel inst q = trimSuffix (trimSuffix inst q) ''.''"

definition bs_initialQuery :: "browserState \<Rightarrow> mdns_msg" where
  "bs_initialQuery b = buildQuery (bs_question b) [] True"

text \<open>\<^verbatim>\<open>ensureEntry\<close>: the entry of the instance, a new one if there is none.\<close>

definition ensureEntry :: "string \<Rightarrow> string \<Rightarrow> browserState \<Rightarrow> mdnsEntry" where
  "ensureEntry inst iface b = (case map_of (bs_entries b) inst of
     Some e \<Rightarrow> e
   | None \<Rightarrow> \<lparr>en_host = [], en_instance = instanceLabel inst (bs_question b), en_type = bs_typ b,
       en_domain = bs_domain b, en_txt = [], en_ipv4 = [], en_ipv6 = [], en_ifaceName = iface, en_ttl = 0\<rparr>)"

definition mergeUniqueStr :: "string list \<Rightarrow> string \<Rightarrow> string list" where
  "mergeUniqueStr existing add = (if add \<in> set existing then existing else sort (existing @ [add]))"

text \<open>What \<^verbatim>\<open>Ingest\<close> keeps while it walks a message; \<^verbatim>\<open>touched\<close> in the order of first touching.\<close>

record ingestState =
  is_state :: browserState
  is_touched :: "string list"
  is_removed :: "mdnsEntry list"

definition touch :: "string \<Rightarrow> string list \<Rightarrow> string list" where
  "touch k ts = (if k \<in> set ts then ts else ts @ [k])"

definition ptrStep :: "string \<Rightarrow> time \<Rightarrow> ptrRecord \<Rightarrow> ingestState \<Rightarrow> ingestState" where
  "ptrStep iface now p s =
     (let b = is_state s in
      if pt_name p \<noteq> bs_question b then s
      else if pt_ttl p \<le> 0 then
        (let b' = b\<lparr>bs_cache := cache_remove (pt_ptr p) (bs_cache b)\<rparr> in
         case map_of (bs_entries b) (pt_ptr p) of
           Some e \<Rightarrow> s\<lparr>is_state := b'\<lparr>bs_entries := AList.delete (pt_ptr p) (bs_entries b)\<rparr>,
               is_removed := is_removed s @ [e]\<rparr>
         | None \<Rightarrow> s\<lparr>is_state := b'\<rparr>)
      else
        s\<lparr>is_state := b\<lparr>bs_cache := snd (cache_store now (pt_ptr p) (bs_question b) (Some (ptr_RR p)) (pt_ttl p) (bs_cache b)),
              bs_entries := AList.update (pt_ptr p) ((ensureEntry (pt_ptr p) iface b)\<lparr>en_ttl := pt_ttl p\<rparr>) (bs_entries b)\<rparr>,
          is_touched := touch (pt_ptr p) (is_touched s)\<rparr>)"

definition setEntry :: "string \<Rightarrow> (mdnsEntry \<Rightarrow> mdnsEntry) \<Rightarrow> ingestState \<Rightarrow> ingestState" where
  "setEntry k f s = (case map_of (bs_entries (is_state s)) k of
     None \<Rightarrow> s
   | Some e \<Rightarrow> s\<lparr>is_state := (is_state s)\<lparr>bs_entries := AList.update k (f e) (bs_entries (is_state s))\<rparr>,
       is_touched := touch k (is_touched s)\<rparr>)"

definition srvStep :: "srvRecord \<Rightarrow> ingestState \<Rightarrow> ingestState" where
  "srvStep r = setEntry (srv_name r) (\<lambda>e. e\<lparr>en_host := trimSuffix (srv_target r) ''.''\<rparr>)"

definition txtStep :: "txtRecord \<Rightarrow> ingestState \<Rightarrow> ingestState" where
  "txtStep r = setEntry (tx_name r) (\<lambda>e. e\<lparr>en_txt := tx_text r\<rparr>)"

text \<open>The two loops over the address records; every entry of the host is updated.\<close>

definition addrStep :: "(string \<Rightarrow> mdnsEntry \<Rightarrow> mdnsEntry) \<Rightarrow> addrRecord \<Rightarrow> ingestState \<Rightarrow> ingestState" where
  "addrStep merge r s =
     (let h = trimSuffix (ar_name r) ''.''; here = (\<lambda>e. en_host e \<noteq> [] \<and> en_host e = h) in
      s\<lparr>is_state := (is_state s)\<lparr>bs_entries := map (\<lambda>(k, e). (k, if here e then merge (ip_string (ar_ip r)) e else e))
            (bs_entries (is_state s))\<rparr>,
        is_touched := fold (\<lambda>(k, e) ts. if here e then touch k ts else ts) (bs_entries (is_state s)) (is_touched s)\<rparr>)"

definition aStep :: "addrRecord \<Rightarrow> ingestState \<Rightarrow> ingestState" where
  "aStep = addrStep (\<lambda>a e. e\<lparr>en_ipv4 := mergeUniqueStr (en_ipv4 e) a\<rparr>)"

definition aaaaStep :: "addrRecord \<Rightarrow> ingestState \<Rightarrow> ingestState" where
  "aaaaStep = addrStep (\<lambda>a e. e\<lparr>en_ipv6 := mergeUniqueStr (en_ipv6 e) a\<rparr>)"

definition resolvable :: "mdnsEntry \<Rightarrow> bool" where
  "resolvable e = (\<not> (en_host e = [] \<or> length (en_ipv4 e) + length (en_ipv6 e) = 0))"

definition bs_ingest :: "mdns_msg \<Rightarrow> string \<Rightarrow> time \<Rightarrow> browserState \<Rightarrow> mdnsEntry list \<times> mdnsEntry list \<times> browserState" where
  "bs_ingest m iface now b =
     (let p = parseAnswers m;
          s = (fold aaaaStep (pa_AAAA p) \<circ> fold aStep (pa_A p) \<circ> fold txtStep (pa_TXT p) \<circ> fold srvStep (pa_SRV p)
               \<circ> fold (ptrStep iface now) (pa_PTR p)) \<lparr>is_state = b, is_touched = [], is_removed = []\<rparr>;
          added = List.map_filter (\<lambda>k. case map_of (bs_entries (is_state s)) k of
                    None \<Rightarrow> None | Some e \<Rightarrow> if resolvable e then Some e else None) (is_touched s) in
      (added, is_removed s, is_state s))"

text \<open>The expired instances in turn: those with an entry are reported and forgotten.\<close>

fun dropExpired :: "string list \<Rightarrow> (string \<times> mdnsEntry) list \<Rightarrow> mdnsEntry list \<times> (string \<times> mdnsEntry) list" where
  "dropExpired [] es = ([], es)"
| "dropExpired (k # ks) es = (case map_of es k of
     None \<Rightarrow> dropExpired ks es
   | Some e \<Rightarrow> (case dropExpired ks (AList.delete k es) of (removed, es') \<Rightarrow> (e # removed, es')))"

definition bs_tick :: "time \<Rightarrow> browserState \<Rightarrow> mdns_msg list \<times> mdnsEntry list \<times> browserState" where
  "bs_tick now b =
     (case cache_tick now (bs_cache b) of (due, expired, c) \<Rightarrow>
      let toQuery = (if length due > 0 then [buildQuery (bs_question b) (knownAnswers (knownAnswersFor (bs_question b) now c) (bs_question b)) False]
                     else []) in
      case dropExpired expired (bs_entries b) of (removed, es) \<Rightarrow>
        (toQuery, removed, b\<lparr>bs_cache := c, bs_entries := es\<rparr>))"

section \<open>The loop of a browse\<close>

datatype browseEvent = Inbound string mdns_msg time | Ticker time

datatype browseAction = SendQuery mdns_msg | AddInstance mdnsEntry | RmvInstance mdnsEntry

datatype browse_error = ErrSendQuery

fun browseStep :: "string list \<Rightarrow> browseEvent \<Rightarrow> browserState \<Rightarrow> browseAction list \<times> browserState" where
  "browseStep allowed (Inbound iface m now) b =
     (if allowed \<noteq> [] \<and> iface \<notin> set allowed then ([], b)
      else case bs_ingest m iface now b of (added, removed, b') \<Rightarrow> (map AddInstance added @ map RmvInstance removed, b'))"
| "browseStep allowed (Ticker now) b =
     (case bs_tick now b of (toQuery, removed, b') \<Rightarrow> (map SendQuery toQuery @ map RmvInstance removed, b'))"

fun browseRun :: "string list \<Rightarrow> browseEvent list \<Rightarrow> browserState \<Rightarrow> browseAction list \<times> browserState" where
  "browseRun allowed [] b = ([], b)"
| "browseRun allowed (ev # evs) b =
     (case browseStep allowed ev b of (acts, b') \<Rightarrow>
      case browseRun allowed evs b' of (acts', b'') \<Rightarrow> (acts @ acts', b''))"

text \<open>\<^verbatim>\<open>Browse\<close> up to the end of its context; \<open>sent\<close> tells whether the first query could be sent.\<close>

definition browse :: "bool \<Rightarrow> string \<Rightarrow> string list \<Rightarrow> browseEvent list \<Rightarrow> browse_error + (browseAction list \<times> browserState)" where
  "browse sent serviceType ifaceNames evs =
     (let b = newBrowserState (trimSuffix serviceType ''.'' @ ''.local.'') in
      if \<not> sent then Inl ErrSendQuery
      else case browseRun ifaceNames evs b of (acts, b') \<Rightarrow> Inr (SendQuery (bs_initialQuery b) # acts, b'))"

section \<open>Browsing for service types\<close>

record typeBrowserState =
  ty_question :: string
  ty_cache :: cache
  ty_seen :: "string list"

definition metaServiceType :: string where "metaServiceType = ''_services._dns-sd._udp''"

definition newTypeBrowserState :: typeBrowserState where
  "newTypeBrowserState = \<lparr>ty_question = metaServiceType @ ''.local.'', ty_cache = [], ty_seen = []\<rparr>"

definition ty_initialQuery :: "typeBrowserState \<Rightarrow> mdns_msg" where
  "ty_initialQuery t = buildQuery (ty_question t) [] True"

definition typeStep :: "time \<Rightarrow> ptrRecord \<Rightarrow> string list \<times> typeBrowserState \<Rightarrow> string list \<times> typeBrowserState" where
  "typeStep now p = (\<lambda>(newTypes, t).
     if pt_name p \<noteq> ty_question t then (newTypes, t)
     else if pt_ttl p \<le> 0 then (newTypes, t\<lparr>ty_cache := cache_remove (pt_ptr p) (ty_cache t)\<rparr>)
     else
       (let t' = t\<lparr>ty_cache := snd (cache_store now (pt_ptr p) (ty_question t) (Some (ptr_RR p)) (pt_ttl p) (ty_cache t))\<rparr>;
            styp = fst (splitServiceQuestion (pt_ptr p)) in
        if styp \<in> set (ty_seen t') then (newTypes, t')
        else (newTypes @ [styp], t'\<lparr>ty_seen := styp # ty_seen t'\<rparr>)))"

definition ty_ingest :: "mdns_msg \<Rightarrow> time \<Rightarrow> typeBrowserState \<Rightarrow> string list \<times> typeBrowserState" where
  "ty_ingest m now t = fold (typeStep now) (pa_PTR (parseAnswers m)) ([], t)"

definition ty_tick :: "time \<Rightarrow> typeBrowserState \<Rightarrow> mdns_msg list \<times> typeBrowserState" where
  "ty_tick now t = (case cache_tick now (ty_cache t) of (due, _, c) \<Rightarrow>
     (if length due > 0 then [buildQuery (ty_question t) (knownAnswers (knownAnswersFor (ty_question t) now c) (ty_question t)) False] else [],
      t\<lparr>ty_cache := c\<rparr>))"

text \<open>The loop of \<^verbatim>\<open>BrowseTypes\<close>: the types handed to \<^verbatim>\<open>onType\<close> and the queries sent.\<close>

fun browseTypesRun :: "string list \<Rightarrow> browseEvent list \<Rightarrow> typeBrowserState \<Rightarrow> string list \<times> mdns_msg list \<times> typeBrowserState" where
  "browseTypesRun allowed [] t = ([], [], t)"
| "browseTypesRun allowed (Inbound iface m now # evs) t =
     (if allowed \<noteq> [] \<and> iface \<notin> set allowed then browseTypesRun allowed evs t
      else case ty_ingest m now t of (typs, t') \<Rightarrow>
        case browseTypesRun allowed evs t' of (typs', qs, t'') \<Rightarrow> (typs @ typs', qs, t''))"
| "browseTypesRun allowed (Ticker now # evs) t =
     (case ty_tick now t of (qs, t') \<Rightarrow>
        case browseTypesRun allowed evs t' of (typs, qs', t'') \<Rightarrow> (typs, qs @ qs', t''))"

section \<open>The listener\<close>

definition toEntry :: "mdnsEntry \<Rightarrow> discovery" where
  "toEntry e = \<lparr>ds_host = en_host e, ds_instance = en_instance e, ds_txt = en_txt e, ds_ipv4 = en_ipv4 e,
     ds_ipv6 = en_ipv6 e, ds_ttl = en_ttl e\<rparr>"

fun event_time :: "browseEvent \<Rightarrow> time" where
  "event_time (Inbound _ _ now) = now"
| "event_time (Ticker now) = now"

text \<open>The callbacks of \<^verbatim>\<open>browseService\<close>, on the discovery table.\<close>

fun feed :: "vtable \<Rightarrow> time \<Rightarrow> string \<Rightarrow> browseAction \<Rightarrow> mtable \<Rightarrow> mtable" where
  "feed vt now service (SendQuery _) t = t"
| "feed vt now service (AddInstance e) t = ingest vt now service (toEntry e) t"
| "feed vt now service (RmvInstance e) t = listener_remove service (toEntry e) t"

text \<open>Browsing one service into the table.\<close>

fun browseService :: "vtable \<Rightarrow> string \<Rightarrow> string list \<Rightarrow> browseEvent list \<Rightarrow> browserState \<times> mtable \<Rightarrow> browserState \<times> mtable" where
  "browseService vt service allowed [] s = s"
| "browseService vt service allowed (ev # evs) (b, t) =
     (case browseStep allowed ev b of (acts, b') \<Rightarrow>
        browseService vt service allowed evs (b', fold (feed vt (event_time ev) service) acts t))"

text \<open>
  Which services a listener browses: a fixed list, the built-in one for the name \<^verbatim>\<open>default\<close>, or
  with \<^verbatim>\<open>all\<close> the types discovered so far, each once (\<^verbatim>\<open>started\<close> in \<^verbatim>\<open>browseAllTypes\<close>).
\<close>

definition DefaultServiceTypes :: "string list" where
  "DefaultServiceTypes = [''_http._tcp'', ''_https._tcp'', ''_ssh._tcp'', ''_smb._tcp'', ''_ipp._tcp'', ''_ipps._tcp'',
     ''_printer._tcp'', ''_airplay._tcp'', ''_raop._tcp'', ''_googlecast._tcp'', ''_sonos._tcp'', ''_hap._tcp'']"

definition newListener_services :: "string list \<Rightarrow> string list" where
  "newListener_services services =
     (if length services = 1 \<and> equalFold (services ! 0) ''default'' then DefaultServiceTypes else services)"

definition browseAllTypes :: "string list \<Rightarrow> string list" where
  "browseAllTypes typs = rev (fold (\<lambda>styp started. if styp \<in> set started then started else styp # started) typs [])"

definition listener_browses :: "string list \<Rightarrow> string list \<Rightarrow> string list" where
  "listener_browses services typs = (if usesDynamicServices services then browseAllTypes typs else services)"

section \<open>The transport\<close>

record netIface =
  if_name :: string
  if_up :: bool
  if_multicast :: bool

datatype transport_error = ErrInterfaces | ErrNoMulticastIfaces | ErrNoUsableSocket | ErrPack | ErrSendFailed

record udpTransport =
  ut_pc4 :: bool
  ut_pc6 :: bool
  ut_ifaces :: "netIface list"

definition isMulticastCapable :: "netIface \<Rightarrow> bool" where
  "isMulticastCapable i = (if_up i \<and> if_multicast i)"

definition resolveMulticastIfaces :: "netIface list option \<Rightarrow> string list \<Rightarrow> transport_error + netIface list" where
  "resolveMulticastIfaces all names = (case all of
     None \<Rightarrow> Inl ErrInterfaces
   | Some ifs \<Rightarrow> Inr (filter (\<lambda>i. isMulticastCapable i \<and> (names = [] \<or> if_name i \<in> set names)) ifs))"

text \<open>\<open>listen4\<close> and \<open>listen6\<close> tell whether the socket of the family could be opened.\<close>

definition newUDPTransport :: "netIface list option \<Rightarrow> bool \<Rightarrow> bool \<Rightarrow> string list \<Rightarrow> transport_error + udpTransport" where
  "newUDPTransport all listen4 listen6 names = (case resolveMulticastIfaces all names of
     Inl e \<Rightarrow> Inl e
   | Inr ifs \<Rightarrow>
       if length ifs = 0 then Inl ErrNoMulticastIfaces
       else if \<not> listen4 \<and> \<not> listen6 then Inl ErrNoUsableSocket
       else Inr \<lparr>ut_pc4 = listen4, ut_pc6 = listen6, ut_ifaces = ifs\<rparr>)"

text \<open>\<open>write4\<close> and \<open>write6\<close> tell on which interfaces a datagram of the family can be sent.\<close>

definition udp_sendQuery ::
  "(netIface \<Rightarrow> bool) \<Rightarrow> (netIface \<Rightarrow> bool) \<Rightarrow> string \<Rightarrow> bool \<Rightarrow> udpTransport \<Rightarrow> transport_error option" where
  "udp_sendQuery write4 write6 ifaceName packs t =
     (if \<not> packs then Some ErrPack
      else
        let sent = fold (\<lambda>i sent.
              if ifaceName \<noteq> [] \<and> if_name i \<noteq> ifaceName then sent
              else sent \<or> (ut_pc4 t \<and> write4 i) \<or> (ut_pc6 t \<and> write6 i)) (ut_ifaces t) False in
        if \<not> sent then Some ErrSendFailed else None)"

section \<open>Thresholds\<close>

lemma f64_product:
  assumes "0 \<le> x" "0 \<le> f"
  shows "x * f * (999 / 1000) \<le> f64 (f64 x * f64 f)" "f64 (f64 x * f64 f) \<le> x * f * (1001 / 1000)"
proof -
  let ?l = "1 - 1 / 2 ^ 53 :: rat" and ?h = "1 + 1 / 2 ^ 53 :: rat"
  note bx = f64_bounds [OF assms(1)] and bf = f64_bounds [OF assms(2)]
  have p: "0 \<le> f64 x * f64 f" using bx(3) bf(3) by simp
  have "x * f * (999 / 1000) \<le> x * f * (?l * ?l * ?l)" using assms by (intro mult_left_mono) simp_all
  also have "\<dots> = (x * ?l) * (f * ?l) * ?l" by (simp only: mult.assoc mult.left_commute)
  also have "\<dots> \<le> f64 x * f64 f * ?l"
    using assms bx bf by (intro mult_right_mono mult_mono) simp_all
  also have "\<dots> \<le> f64 (f64 x * f64 f)" by (rule f64_bounds(1) [OF p])
  finally show "x * f * (999 / 1000) \<le> f64 (f64 x * f64 f)" .
  have "f64 (f64 x * f64 f) \<le> f64 x * f64 f * ?h" by (rule f64_bounds(2) [OF p])
  also have "\<dots> \<le> (x * ?h) * (f * ?h) * ?h"
    using assms bx bf by (intro mult_right_mono mult_mono) simp_all
  also have "\<dots> = x * f * (?h * ?h * ?h)" by (simp only: mult.assoc mult.left_commute)
  also have "\<dots> \<le> x * f * (1001 / 1000)" using assms by (intro mult_left_mono) simp_all
  finally show "f64 (f64 x * f64 f) \<le> x * f * (1001 / 1000)" .
qed

lemma refreshThresholds_nth: "i < 4 \<Longrightarrow> refreshThresholds ! i = f64 ((80 + 5 * of_nat i) / 100)"
  by (auto simp: refreshThresholds_def numeral_eq_Suc less_Suc_eq)

lemma length_refreshThresholds [simp]: "length refreshThresholds = 4"
  by (simp add: refreshThresholds_def)

lemma schedule_arith:
  fixes t p y z :: rat
  assumes "1000000000 \<le> t" "0 \<le> p" "p \<le> t * 3"
    and "79920 * t + 4995 * p \<le> 100000 * y" "100000 * y \<le> 80080 * t + 5005 * p" "y - 1 < z" "z \<le> y"
  shows "79 * t + 5 * p < 100 * z \<and> 100 * z < 81 * t + 5 * p"
  using assms by - (intro conjI; linarith)

text \<open>The schedule of a record that lives for a second or more, in hundredths of its lifetime.\<close>

lemma thresholdAt_bounds:
  assumes "second \<le> ttl" "i < 4"
  shows "(79 + 5 * int i) * ttl < 100 * thresholdAt ttl i" "100 * thresholdAt ttl i < (81 + 5 * int i) * ttl"
proof -
  let ?t = "of_int ttl :: rat" and ?f = "(80 + 5 * of_nat i) / 100 :: rat"
  let ?y = "f64 (f64 ?t * f64 ?f)"
  have t: "1000000000 \<le> ?t" using assms(1) by (metis second_def of_int_le_iff of_int_numeral)
  have f: "0 \<le> ?f" by simp
  have y: "?t * ?f * (999 / 1000) \<le> ?y" "?y \<le> ?t * ?f * (1001 / 1000)"
    by (rule f64_product; use t f in simp)+
  then have "0 \<le> ?y" using t f by (meson order_trans mult_nonneg_nonneg zero_le_numeral divide_nonneg_nonneg)
  then have eq: "thresholdAt ttl i = \<lfloor>?y\<rfloor>"
    by (simp add: thresholdAt_def trunc_def refreshThresholds_nth [OF assms(2)])
  have fl: "?y - 1 < of_int \<lfloor>?y\<rfloor>" "of_int \<lfloor>?y\<rfloor> \<le> ?y" by linarith+
  define p where "p = ?t * of_nat i"
  have "of_nat i \<le> (of_nat 3 :: rat)" using assms(2) unfolding of_nat_le_iff by simp
  then have p: "0 \<le> p" "p \<le> ?t * 3" unfolding p_def using t by (auto intro: mult_left_mono)
  have y': "79920 * ?t + 4995 * p \<le> 100000 * ?y" "100000 * ?y \<le> 80080 * ?t + 5005 * p"
    using y by (simp_all add: p_def algebra_simps)
  have "79 * ?t + 5 * p < 100 * of_int \<lfloor>?y\<rfloor>" "100 * of_int \<lfloor>?y\<rfloor> < 81 * ?t + 5 * p"
    using schedule_arith [OF t p y' fl] by auto
  then have "(of_int ((79 + 5 * int i) * ttl) :: rat) < of_int (100 * \<lfloor>?y\<rfloor>)"
    "(of_int (100 * \<lfloor>?y\<rfloor>) :: rat) < of_int ((81 + 5 * int i) * ttl)"
    by (simp_all add: p_def algebra_simps)
  then show "(79 + 5 * int i) * ttl < 100 * thresholdAt ttl i" "100 * thresholdAt ttl i < (81 + 5 * int i) * ttl"
    unfolding eq of_int_less_iff by this
qed

section \<open>The cache\<close>

lemma dueFrom_le: "n \<le> 4 \<Longrightarrow> n \<le> dueFrom ttl el n \<and> dueFrom ttl el n \<le> 4"
proof (induction ttl el n rule: dueFrom.induct)
  case (1 ttl el n)
  then show ?case by (subst (1 2) dueFrom.simps) auto
qed

lemma dueFrom_fires: "n \<le> 4 \<Longrightarrow> dueFrom ttl el n \<noteq> n \<longleftrightarrow> n < 4 \<and> thresholdAt ttl n \<le> el"
  using dueFrom_le [of "n + 1" ttl el] by (subst dueFrom.simps) auto

declare dueFrom.simps [simp del]

lemma cache_tick_eq:
  "cache_tick now c =
     (map (cr_question \<circ> snd) (filter (\<lambda>(_, r). \<not> cr_expired now r \<and> fst (dueThreshold now r)) c),
      map fst (filter (\<lambda>(_, r). cr_expired now r) c),
      map (\<lambda>(k, r). (k, snd (dueThreshold now r))) (filter (\<lambda>(_, r). \<not> cr_expired now r) c))"
  by (induction now c rule: cache_tick.induct) (auto split: prod.splits)

lemma dueThreshold_fields [simp]:
  "cr_rr (snd (dueThreshold now r)) = cr_rr r" "cr_question (snd (dueThreshold now r)) = cr_question r"
  "cr_ttl (snd (dueThreshold now r)) = cr_ttl r" "cr_storedAt (snd (dueThreshold now r)) = cr_storedAt r"
  by (simp_all add: dueThreshold_def Let_def)

lemma map_of_filter_snd:
  "distinct (map fst c) \<Longrightarrow> map_of (filter (\<lambda>(_, r). P r) c) k = (case map_of c k of Some r \<Rightarrow> if P r then Some r else None | None \<Rightarrow> None)"
  by (induction c) (auto simp: map_of_eq_None_iff split: option.splits)

lemma map_of_map_snd: "map_of (map (\<lambda>(k, r). (k, f r)) c) k = map_option f (map_of c k)"
  by (induction c) auto

lemma keys_map_snd [simp]: "map fst (map (\<lambda>(k, r). (k, f r)) c) = map fst c"
  by (induction c) auto

lemma distinct_keys_filter: "distinct (map fst c) \<Longrightarrow> distinct (map fst (filter P c))"
  by (induction c) auto

lemma map_filter_cong: "(\<And>x. x \<in> set xs \<Longrightarrow> f x = g x) \<Longrightarrow> List.map_filter f xs = List.map_filter g xs"
  by (induction xs) (auto simp: map_filter_simps split: option.split)

lemma dropExpired_eq:
  assumes "distinct ks"
  shows "dropExpired ks es = (List.map_filter (map_of es) ks, filter (\<lambda>(k, _). k \<notin> set ks) es)"
  using assms
proof (induction ks es rule: dropExpired.induct)
  case (2 k ks es)
  have del: "AList.delete k es = filter (\<lambda>(x, _). x \<noteq> k) es" by (induction es) auto
  have "List.map_filter (map_of (AList.delete k es)) ks = List.map_filter (map_of es) ks"
    using 2(3) by (intro map_filter_cong) (auto simp: AList.delete_conv')
  moreover have "map_of es k = None \<Longrightarrow> filter (\<lambda>(x, _). x \<notin> set ks) es = filter (\<lambda>(x, _). x \<notin> set (k # ks)) es"
    by (rule filter_cong) (force simp: map_of_eq_None_iff)+
  ultimately show ?case using 2
    by (cases "map_of es k") (simp_all add: del map_filter_simps conj_commute case_prod_unfold)
qed (simp add: map_filter_simps)

section \<open>Announcements\<close>

text \<open>
  What a browse should know: each instance with the time and the lifetime of its last
  announcement, forgotten on a goodbye and when the lifetime is over.
\<close>

type_synonym announced = "string \<Rightarrow> (time \<times> duration) option"

definition hear :: "string \<Rightarrow> time \<Rightarrow> ptrRecord \<Rightarrow> announced \<Rightarrow> announced" where
  "hear q now p A = (if pt_name p \<noteq> q then A else A(pt_ptr p := if pt_ttl p \<le> 0 then None else Some (now, pt_ttl p)))"

fun heard :: "string list \<Rightarrow> string \<Rightarrow> browseEvent \<Rightarrow> announced \<Rightarrow> announced" where
  "heard allowed q (Inbound iface m now) A =
     (if allowed \<noteq> [] \<and> iface \<notin> set allowed then A else fold (hear q now) (pa_PTR (parseAnswers m)) A)"
| "heard allowed q (Ticker now) A = (\<lambda>k. case A k of None \<Rightarrow> None | Some (t, d) \<Rightarrow> if now - t \<ge> d then None else Some (t, d))"

definition announced_of :: "browserState \<Rightarrow> announced" where
  "announced_of b = (\<lambda>k. map_option (\<lambda>r. (cr_storedAt r, cr_ttl r)) (map_of (bs_cache b) k))"

section \<open>The state of a browse\<close>

definition record_ok :: "string \<Rightarrow> string \<Rightarrow> cacheRecord \<Rightarrow> bool" where
  "record_ok q k r \<longleftrightarrow> cr_question r = q \<and> second \<le> cr_ttl r \<and> cr_refreshesSent r \<le> 4 \<and>
     cr_rr r = Some (ptr_RR \<lparr>pt_name = q, pt_ptr = k, pt_ttl = cr_ttl r\<rparr>)"

definition entry_ok :: "browserState \<Rightarrow> string \<Rightarrow> mdnsEntry \<Rightarrow> bool" where
  "entry_ok b k e \<longleftrightarrow> map_option cr_ttl (map_of (bs_cache b) k) = Some (en_ttl e) \<and> en_type e = bs_typ b \<and>
     en_domain e = bs_domain b \<and> en_instance e = instanceLabel k (bs_question b)"

definition bs_ok :: "browserState \<Rightarrow> bool" where
  "bs_ok b \<longleftrightarrow> distinct (map fst (bs_cache b)) \<and> distinct (map fst (bs_entries b)) \<and>
     (\<forall>k. map_of (bs_entries b) k = None \<longrightarrow> map_of (bs_cache b) k = None) \<and>
     (\<forall>k r. map_of (bs_cache b) k = Some r \<longrightarrow> record_ok (bs_question b) k r) \<and>
     (\<forall>k e. map_of (bs_entries b) k = Some e \<longrightarrow> entry_ok b k e)"

lemma bs_okD:
  assumes "bs_ok b"
  shows "distinct (map fst (bs_cache b))" "map_of (bs_entries b) k = None \<Longrightarrow> map_of (bs_cache b) k = None"
    "map_of (bs_cache b) k = Some r \<Longrightarrow> record_ok (bs_question b) k r"
    "map_of (bs_entries b) k = Some e \<Longrightarrow> entry_ok b k e"
  using assms unfolding bs_ok_def by blast+

lemma parse_fold_ptr:
  "\<forall>p\<in>set (pa_PTR out). pt_ttl p \<le> 0 \<or> second \<le> pt_ttl p \<Longrightarrow>
   \<forall>p\<in>set (pa_PTR (fold parseRR rs out)). pt_ttl p \<le> 0 \<or> second \<le> pt_ttl p"
proof (induction rs arbitrary: out)
  case (Cons r rs)
  have "pt_ttl p \<le> 0 \<or> second \<le> pt_ttl p" if "p \<in> set (pa_PTR (parseRR r out))" for p
  proof (cases r)
    case (M_PTR h t)
    have "uint (hdr_ttl h) = 0 \<or> 1 \<le> uint (hdr_ttl h)" using uint_ge_0 [of "hdr_ttl h"] by linarith
    then have "rr_ttl r = 0 \<or> second \<le> rr_ttl r" using M_PTR by (auto simp: rr_ttl_def second_def)
    then show ?thesis using that Cons(2) M_PTR by auto
  qed (use that Cons(2) in auto)
  then show ?case using Cons(1) [of "parseRR r out"] by simp
qed simp

lemma parse_ptr_ttl: "p \<in> set (pa_PTR (parseAnswers m)) \<Longrightarrow> pt_ttl p \<le> 0 \<or> second \<le> pt_ttl p"
  using parse_fold_ptr [of "\<lparr>pa_PTR = [], pa_SRV = [], pa_TXT = [], pa_A = [], pa_AAAA = []\<rparr>" "mm_answer m @ mm_ns m @ mm_extra m"]
  by (simp only: parseAnswers_def parsedAnswers.simps list.set ball_simps simp_thms)

text \<open>Steps that only rewrite what an entry says keep the state.\<close>

definition same_identity :: "mdnsEntry \<Rightarrow> mdnsEntry \<Rightarrow> bool" where
  "same_identity e f \<longleftrightarrow> en_ttl e = en_ttl f \<and> en_type e = en_type f \<and> en_domain e = en_domain f \<and> en_instance e = en_instance f"

lemma bs_ok_rewrite:
  assumes "bs_ok b" "map fst es = map fst (bs_entries b)"
    and "\<And>k e. map_of es k = Some e \<Longrightarrow> \<exists>f. map_of (bs_entries b) k = Some f \<and> same_identity e f"
  shows "bs_ok (b\<lparr>bs_entries := es\<rparr>)"
proof -
  have "map_of es k = None \<longleftrightarrow> map_of (bs_entries b) k = None" for k
    using assms(2) by (simp add: map_of_eq_None_iff flip: set_map)
  moreover have "entry_ok (b\<lparr>bs_entries := es\<rparr>) k e" if "map_of es k = Some e" for k e
    using assms(1) assms(3) [OF that] by (auto simp: bs_ok_def entry_ok_def same_identity_def)
  ultimately show ?thesis using assms(1,2) by (auto simp: bs_ok_def)
qed

lemma setEntry_ok:
  assumes "bs_ok (is_state s)" "\<And>e. same_identity (f e) e"
  shows "bs_ok (is_state (setEntry k f s)) \<and> bs_cache (is_state (setEntry k f s)) = bs_cache (is_state s) \<and>
    bs_question (is_state (setEntry k f s)) = bs_question (is_state s)"
proof (cases "map_of (bs_entries (is_state s)) k")
  case (Some e)
  have "k \<in> set (map fst (bs_entries (is_state s)))" using map_of_SomeD [OF Some] by force
  then have "map fst (AList.update k (f e) (bs_entries (is_state s))) = map fst (bs_entries (is_state s))"
    by (simp add: AList.update_keys)
  then have "bs_ok ((is_state s)\<lparr>bs_entries := AList.update k (f e) (bs_entries (is_state s))\<rparr>)"
    using Some assms by (intro bs_ok_rewrite) (auto simp: AList.update_conv' same_identity_def split: if_splits)
  then show ?thesis using Some by (simp add: setEntry_def)
qed (use assms in \<open>simp add: setEntry_def\<close>)

lemma addrStep_ok:
  assumes "bs_ok (is_state s)" "\<And>a e. same_identity (merge a e) e"
  shows "bs_ok (is_state (addrStep merge r s)) \<and> bs_cache (is_state (addrStep merge r s)) = bs_cache (is_state s) \<and>
    bs_question (is_state (addrStep merge r s)) = bs_question (is_state s)"
  unfolding addrStep_def Let_def
  by (simp, rule bs_ok_rewrite) (use assms in \<open>auto simp: map_of_map_snd same_identity_def\<close>)

lemma fold_step_ok:
  assumes "\<And>x s. bs_ok (is_state s) \<Longrightarrow> bs_ok (is_state (g x s)) \<and> bs_cache (is_state (g x s)) = bs_cache (is_state s) \<and>
      bs_question (is_state (g x s)) = bs_question (is_state s)"
  shows "bs_ok (is_state s) \<Longrightarrow> bs_ok (is_state (fold g xs s)) \<and> bs_cache (is_state (fold g xs s)) = bs_cache (is_state s) \<and>
      bs_question (is_state (fold g xs s)) = bs_question (is_state s)"
proof (induction xs arbitrary: s)
  case (Cons x xs)
  show ?case using Cons(1) [of "g x s"] assms [OF Cons(2), of x] by simp
qed simp

lemma data_steps_ok:
  assumes "bs_ok (is_state s)"
  shows "bs_ok (is_state (srvStep srv s)) \<and> bs_cache (is_state (srvStep srv s)) = bs_cache (is_state s) \<and>
      bs_question (is_state (srvStep srv s)) = bs_question (is_state s)"
    "bs_ok (is_state (txtStep txt s)) \<and> bs_cache (is_state (txtStep txt s)) = bs_cache (is_state s) \<and>
      bs_question (is_state (txtStep txt s)) = bs_question (is_state s)"
    "bs_ok (is_state (aStep a s)) \<and> bs_cache (is_state (aStep a s)) = bs_cache (is_state s) \<and>
      bs_question (is_state (aStep a s)) = bs_question (is_state s)"
    "bs_ok (is_state (aaaaStep a s)) \<and> bs_cache (is_state (aaaaStep a s)) = bs_cache (is_state s) \<and>
      bs_question (is_state (aaaaStep a s)) = bs_question (is_state s)"
  unfolding srvStep_def txtStep_def aStep_def aaaaStep_def
  by (rule setEntry_ok addrStep_ok; simp add: assms same_identity_def)+

lemma ptrStep_ok:
  assumes "bs_ok (is_state s)" "pt_ttl p \<le> 0 \<or> second \<le> pt_ttl p"
  shows "bs_ok (is_state (ptrStep iface now p s)) \<and> bs_question (is_state (ptrStep iface now p s)) = bs_question (is_state s) \<and>
    announced_of (is_state (ptrStep iface now p s)) = hear (bs_question (is_state s)) now p (announced_of (is_state s))"
proof -
  let ?b = "is_state s" and ?k = "pt_ptr p"
  consider "pt_name p \<noteq> bs_question ?b" | "pt_name p = bs_question ?b" "pt_ttl p \<le> 0"
    | "pt_name p = bs_question ?b" "\<not> pt_ttl p \<le> 0" by blast
  then show ?thesis
  proof cases
    case 2
    have "bs_ok (?b\<lparr>bs_cache := AList.delete ?k (bs_cache ?b), bs_entries := AList.delete ?k (bs_entries ?b)\<rparr>)"
      using assms(1) by (auto simp: bs_ok_def entry_ok_def AList.distinct_delete AList.delete_conv')
    moreover have "map_of (bs_entries ?b) ?k = None \<Longrightarrow> AList.delete ?k (bs_entries ?b) = bs_entries ?b"
      by (simp add: map_of_eq_None_iff)
    ultimately show ?thesis using 2
      by (auto simp: ptrStep_def Let_def cache_remove_def announced_of_def hear_def AList.delete_conv' fun_eq_iff split: option.split)
  next
    case 3
    let ?r = "\<lparr>cr_rr = Some (ptr_RR p), cr_question = bs_question ?b, cr_ttl = pt_ttl p, cr_storedAt = now, cr_refreshesSent = 0\<rparr>"
    have r: "record_ok (bs_question ?b) ?k ?r" using 3 assms(2) by (cases p) (auto simp: record_ok_def)
    have e: "en_type (ensureEntry ?k iface ?b) = bs_typ ?b" "en_domain (ensureEntry ?k iface ?b) = bs_domain ?b"
      "en_instance (ensureEntry ?k iface ?b) = instanceLabel ?k (bs_question ?b)"
      using assms(1) by (auto simp: ensureEntry_def bs_ok_def entry_ok_def split: option.split)
    have "bs_ok (?b\<lparr>bs_cache := AList.update ?k ?r (bs_cache ?b),
        bs_entries := AList.update ?k ((ensureEntry ?k iface ?b)\<lparr>en_ttl := pt_ttl p\<rparr>) (bs_entries ?b)\<rparr>)"
      using assms(1) r e by (auto simp: bs_ok_def entry_ok_def AList.distinct_update AList.update_conv')
    then show ?thesis using 3
      by (simp add: ptrStep_def Let_def cache_store_def announced_of_def hear_def AList.update_conv' fun_eq_iff)
  qed (use assms in \<open>simp add: ptrStep_def hear_def\<close>)
qed

lemma fold_ptrStep_ok:
  assumes "bs_ok (is_state s)" "\<And>p. p \<in> set ps \<Longrightarrow> pt_ttl p \<le> 0 \<or> second \<le> pt_ttl p"
  shows "bs_ok (is_state (fold (ptrStep iface now) ps s)) \<and> bs_question (is_state (fold (ptrStep iface now) ps s)) = bs_question (is_state s) \<and>
    announced_of (is_state (fold (ptrStep iface now) ps s)) = fold (hear (bs_question (is_state s)) now) ps (announced_of (is_state s))"
  using assms
proof (induction ps arbitrary: s)
  case (Cons p ps)
  show ?case using Cons(1) [of "ptrStep iface now p s"] ptrStep_ok [OF Cons(2), of p iface now] Cons(3) by simp
qed simp

lemma announced_of_cong: "bs_cache b = bs_cache c \<Longrightarrow> announced_of b = announced_of c"
  by (simp add: announced_of_def)

lemma bs_ingest_ok:
  assumes "bs_ok b" "bs_ingest m iface now b = (added, removed, b')"
  shows "bs_ok b' \<and> bs_question b' = bs_question b \<and>
    announced_of b' = fold (hear (bs_question b) now) (pa_PTR (parseAnswers m)) (announced_of b)"
proof -
  let ?p = "parseAnswers m"
  define s1 where "s1 = fold (ptrStep iface now) (pa_PTR ?p) \<lparr>is_state = b, is_touched = [], is_removed = []\<rparr>"
  define s2 where "s2 = fold srvStep (pa_SRV ?p) s1"
  define s3 where "s3 = fold txtStep (pa_TXT ?p) s2"
  define s4 where "s4 = fold aStep (pa_A ?p) s3"
  define s5 where "s5 = fold aaaaStep (pa_AAAA ?p) s4"
  have b': "b' = is_state s5" using assms(2) by (simp add: bs_ingest_def Let_def s1_def s2_def s3_def s4_def s5_def)
  have 1: "bs_ok (is_state s1) \<and> bs_question (is_state s1) = bs_question b \<and>
      announced_of (is_state s1) = fold (hear (bs_question b) now) (pa_PTR ?p) (announced_of b)"
    unfolding s1_def using fold_ptrStep_ok [of "\<lparr>is_state = b, is_touched = [], is_removed = []\<rparr>"] assms(1) parse_ptr_ttl by simp
  note 2 = fold_step_ok [of srvStep, OF data_steps_ok(1), of s1 "pa_SRV ?p", folded s2_def]
  note 3 = fold_step_ok [of txtStep, OF data_steps_ok(2), of s2 "pa_TXT ?p", folded s3_def]
  note 4 = fold_step_ok [of aStep, OF data_steps_ok(3), of s3 "pa_A ?p", folded s4_def]
  note 5 = fold_step_ok [of aaaaStep, OF data_steps_ok(4), of s4 "pa_AAAA ?p", folded s5_def]
  show ?thesis unfolding b' using 1 2 3 4 5 announced_of_cong by metis
qed

lemma bs_tick_eq:
  assumes "bs_ok b"
  shows "bs_tick now b =
     (let c = map (\<lambda>(k, r). (k, snd (dueThreshold now r))) (filter (\<lambda>(_, r). \<not> cr_expired now r) (bs_cache b));
          gone = map fst (filter (\<lambda>(_, r). cr_expired now r) (bs_cache b)) in
      (if \<exists>(k, r)\<in>set (bs_cache b). \<not> cr_expired now r \<and> fst (dueThreshold now r)
       then [buildQuery (bs_question b) (knownAnswers (knownAnswersFor (bs_question b) now c) (bs_question b)) False] else [],
       List.map_filter (map_of (bs_entries b)) gone,
       b\<lparr>bs_cache := c, bs_entries := filter (\<lambda>(k, _). k \<notin> set gone) (bs_entries b)\<rparr>))"
proof -
  have d: "distinct (map fst (filter (\<lambda>(_, r). cr_expired now r) (bs_cache b)))"
    using assms by (simp add: bs_ok_def distinct_keys_filter)
  have "filter (\<lambda>(_, r). \<not> cr_expired now r \<and> fst (dueThreshold now r)) (bs_cache b) = [] \<longleftrightarrow>
      \<not> (\<exists>(k, r)\<in>set (bs_cache b). \<not> cr_expired now r \<and> fst (dueThreshold now r))"
    by (auto simp: filter_empty_conv)
  then show ?thesis by (simp add: bs_tick_def cache_tick_eq dropExpired_eq [OF d] Let_def)
qed

text \<open>The records that outlive a tick.\<close>

lemma tick_cache:
  assumes "bs_ok b" "bs_tick now b = (qs, removed, b')"
  shows "map_of (bs_cache b') k = (case map_of (bs_cache b) k of None \<Rightarrow> None
    | Some r \<Rightarrow> if cr_expired now r then None else Some (snd (dueThreshold now r)))"
proof -
  have c: "bs_cache b' = map (\<lambda>(k, r). (k, snd (dueThreshold now r))) (filter (\<lambda>(_, r). \<not> cr_expired now r) (bs_cache b))"
    using assms by (auto simp: bs_tick_eq Let_def)
  have "distinct (map fst (bs_cache b))" using assms(1) by (simp add: bs_ok_def)
  then show ?thesis unfolding c map_of_map_snd by (simp add: map_of_filter_snd split: option.split)
qed

lemma map_of_filter_key: "map_of (filter (\<lambda>(k, _). P k) es) k = (if P k then map_of es k else None)"
  by (induction es) auto

lemma gone_iff:
  assumes "bs_ok b"
  shows "k \<in> set (map fst (filter (\<lambda>(_, r). cr_expired now r) (bs_cache b))) \<longleftrightarrow>
    (\<exists>r. map_of (bs_cache b) k = Some r \<and> cr_expired now r)"
proof
  assume "k \<in> set (map fst (filter (\<lambda>(_, r). cr_expired now r) (bs_cache b)))"
  then obtain r where "(k, r) \<in> set (bs_cache b)" "cr_expired now r" by auto
  then show "\<exists>r. map_of (bs_cache b) k = Some r \<and> cr_expired now r" using bs_okD(1) [OF assms] by auto
next
  assume "\<exists>r. map_of (bs_cache b) k = Some r \<and> cr_expired now r"
  then show "k \<in> set (map fst (filter (\<lambda>(_, r). cr_expired now r) (bs_cache b)))" using map_of_SomeD by force
qed

lemma tick_entries:
  assumes "bs_ok b" "bs_tick now b = (qs, removed, b')"
  shows "map_of (bs_entries b') k = (if \<exists>r. map_of (bs_cache b) k = Some r \<and> cr_expired now r then None else map_of (bs_entries b) k)"
proof -
  have e: "bs_entries b' = filter (\<lambda>(k, _). k \<notin> set (map fst (filter (\<lambda>(_, r). cr_expired now r) (bs_cache b)))) (bs_entries b)"
    using assms by (auto simp: bs_tick_eq Let_def)
  show ?thesis unfolding e map_of_filter_key gone_iff [OF assms(1)] by auto
qed

lemma dueThreshold_ok: "record_ok q k r \<Longrightarrow> record_ok q k (snd (dueThreshold now r))"
  using dueFrom_le [of "cr_refreshesSent r"] by (simp add: record_ok_def) (simp add: dueThreshold_def Let_def)

lemma bs_tick_ok:
  assumes "bs_ok b" "bs_tick now b = (qs, removed, b')"
  shows "bs_ok b' \<and> bs_question b' = bs_question b \<and> announced_of b' = heard allowed (bs_question b) (Ticker now) (announced_of b) \<and>
    set removed = {e. \<exists>k r. map_of (bs_entries b) k = Some e \<and> map_of (bs_cache b) k = Some r \<and> cr_expired now r}"
proof (intro conjI)
  note tc = tick_cache [OF assms] and te = tick_entries [OF assms]
  have keep: "bs_question b' = bs_question b" "bs_typ b' = bs_typ b" "bs_domain b' = bs_domain b"
    and c: "bs_cache b' = map (\<lambda>(k, r). (k, snd (dueThreshold now r))) (filter (\<lambda>(_, r). \<not> cr_expired now r) (bs_cache b))"
    and d2: "distinct (map fst (bs_entries b'))"
    and rem: "removed = List.map_filter (map_of (bs_entries b)) (map fst (filter (\<lambda>(_, r). cr_expired now r) (bs_cache b)))"
    using assms by (auto simp: bs_tick_eq Let_def bs_ok_def distinct_keys_filter)
  have d1: "distinct (map fst (bs_cache b'))"
    unfolding c keys_map_snd using assms(1) by (simp add: bs_ok_def distinct_keys_filter)
  show "bs_question b' = bs_question b" by (rule keep)
  show "bs_ok b'" unfolding bs_ok_def
  proof (intro conjI allI impI)
    show "map_of (bs_cache b') k = None" if "map_of (bs_entries b') k = None" for k
      using that bs_okD(2) [OF assms(1), of k] by (cases "map_of (bs_cache b) k") (auto simp: tc te split: if_splits)
    show "record_ok (bs_question b') k r" if "map_of (bs_cache b') k = Some r" for k r
      using that bs_okD(3) [OF assms(1), of k] by (auto simp: tc keep dueThreshold_ok split: option.splits if_splits)
    show "entry_ok b' k e" if "map_of (bs_entries b') k = Some e" for k e
      using that bs_okD(4) [OF assms(1), of k e] by (auto simp: tc te keep entry_ok_def split: option.splits if_splits)
  qed (rule d1 d2)+
  show "announced_of b' = heard allowed (bs_question b) (Ticker now) (announced_of b)"
    by (auto simp: announced_of_def tc cr_expired_def cr_elapsed_def fun_eq_iff split: option.split)
  have "set removed = {e. \<exists>k\<in>set (map fst (filter (\<lambda>(_, r). cr_expired now r) (bs_cache b))). map_of (bs_entries b) k = Some e}"
    unfolding rem by (force simp: List.map_filter_def)
  then show "set removed = {e. \<exists>k r. map_of (bs_entries b) k = Some e \<and> map_of (bs_cache b) k = Some r \<and> cr_expired now r}"
    unfolding Bex_def gone_iff [OF assms(1)] by blast
qed

lemma new_ok: "bs_ok (newBrowserState q)" "bs_question (newBrowserState q) = q" "announced_of (newBrowserState q) = Map.empty"
  by (simp_all add: newBrowserState_def bs_ok_def announced_of_def split: prod.split)

lemma browseStep_ok:
  assumes "bs_ok b" "browseStep allowed ev b = (acts, b')"
  shows "bs_ok b' \<and> bs_question b' = bs_question b \<and> announced_of b' = heard allowed (bs_question b) ev (announced_of b)"
proof (cases ev)
  case (Inbound iface m now)
  then show ?thesis using assms bs_ingest_ok [OF assms(1)] by (auto split: if_splits prod.splits)
next
  case (Ticker now)
  then show ?thesis using assms bs_tick_ok [OF assms(1)] by (auto split: prod.splits)
qed

lemma browseRun_snoc: "snd (browseRun allowed (evs @ [ev]) b) = snd (browseStep allowed ev (snd (browseRun allowed evs b)))"
proof (induction evs arbitrary: b)
  case (Cons e evs)
  obtain acts c where "browseStep allowed e b = (acts, c)" by fastforce
  then show ?case using Cons [of c] by (simp add: case_prod_unfold)
qed (simp add: case_prod_unfold)

lemma browseRun_ok:
  assumes "bs_ok b" "browseRun allowed evs b = (acts, b')"
  shows "bs_ok b' \<and> bs_question b' = bs_question b \<and> announced_of b' = fold (heard allowed (bs_question b)) evs (announced_of b)"
  using assms
proof (induction evs arbitrary: b acts)
  case (Cons ev evs)
  obtain as c where s: "browseStep allowed ev b = (as, c)" by fastforce
  obtain as' where r: "browseRun allowed evs c = (as', b')" using Cons(3) s by (auto split: prod.splits)
  show ?case using browseStep_ok [OF Cons(2) s] Cons(1) [OF _ r] by simp
qed simp

section \<open>Reports of lost instances\<close>

text \<open>An instance known before is either still there, under the same host, or was reported.\<close>

definition kept_or_reported :: "string \<Rightarrow> string \<Rightarrow> string \<Rightarrow> ingestState \<Rightarrow> bool" where
  "kept_or_reported k i h s \<longleftrightarrow>
     (\<exists>e. map_of (bs_entries (is_state s)) k = Some e \<and> en_instance e = i \<and> en_host e = h) \<or>
     (\<exists>e\<in>set (is_removed s). en_instance e = i \<and> en_host e = h)"

lemma ptrStep_kept: "kept_or_reported k i h s \<Longrightarrow> kept_or_reported k i h (ptrStep iface now p s)"
  by (auto simp: kept_or_reported_def ptrStep_def Let_def AList.update_conv' AList.delete_conv' ensureEntry_def split: option.split)

lemma fold_ptrStep_kept: "kept_or_reported k i h s \<Longrightarrow> kept_or_reported k i h (fold (ptrStep iface now) ps s)"
  by (induction ps arbitrary: s) (simp_all add: ptrStep_kept)

lemma data_steps_keep:
  "map_of (bs_entries (is_state (srvStep srv s))) k = None \<longleftrightarrow> map_of (bs_entries (is_state s)) k = None"
  "map_of (bs_entries (is_state (txtStep txt s))) k = None \<longleftrightarrow> map_of (bs_entries (is_state s)) k = None"
  "map_of (bs_entries (is_state (aStep a s))) k = None \<longleftrightarrow> map_of (bs_entries (is_state s)) k = None"
  "map_of (bs_entries (is_state (aaaaStep a s))) k = None \<longleftrightarrow> map_of (bs_entries (is_state s)) k = None"
  "is_removed (srvStep srv s) = is_removed s" "is_removed (txtStep txt s) = is_removed s"
  "is_removed (aStep a s) = is_removed s" "is_removed (aaaaStep a s) = is_removed s"
  by (auto simp: srvStep_def txtStep_def aStep_def aaaaStep_def setEntry_def addrStep_def Let_def AList.update_conv' map_of_map_snd
      split: option.split)

lemma fold_keeps:
  assumes "\<And>x s. map_of (bs_entries (is_state (g x s))) k = None \<longleftrightarrow> map_of (bs_entries (is_state s)) k = None"
    "\<And>x s. is_removed (g x s) = is_removed s"
  shows "(map_of (bs_entries (is_state (fold g xs s))) k = None \<longleftrightarrow> map_of (bs_entries (is_state s)) k = None) \<and>
    is_removed (fold g xs s) = is_removed s"
  by (induction xs arbitrary: s) (simp_all add: assms)

lemma bs_ingest_reports:
  assumes "map_of (bs_entries b) k = Some e" "bs_ingest m iface now b = (added, removed, b')" "map_of (bs_entries b') k = None"
  shows "\<exists>f\<in>set removed. en_instance f = en_instance e \<and> en_host f = en_host e"
proof -
  let ?p = "parseAnswers m"
  define s1 where "s1 = fold (ptrStep iface now) (pa_PTR ?p) \<lparr>is_state = b, is_touched = [], is_removed = []\<rparr>"
  let ?s = "fold aaaaStep (pa_AAAA ?p) (fold aStep (pa_A ?p) (fold txtStep (pa_TXT ?p) (fold srvStep (pa_SRV ?p) s1)))"
  note k = fold_keeps [of aaaaStep k, OF data_steps_keep(4,8)] fold_keeps [of aStep k, OF data_steps_keep(3,7)]
    fold_keeps [of txtStep k, OF data_steps_keep(2,6)] fold_keeps [of srvStep k, OF data_steps_keep(1,5)]
  have "b' = is_state ?s" "removed = is_removed ?s" using assms(2) by (simp_all add: bs_ingest_def Let_def s1_def)
  then have "map_of (bs_entries (is_state s1)) k = None" "removed = is_removed s1" using assms(3) k by simp_all
  moreover have "kept_or_reported k (en_instance e) (en_host e) s1"
    unfolding s1_def by (rule fold_ptrStep_kept) (simp add: kept_or_reported_def assms(1))
  ultimately show ?thesis by (auto simp: kept_or_reported_def)
qed

lemma browseStep_reports:
  assumes "bs_ok b" "browseStep allowed ev b = (acts, b')" "map_of (bs_entries b) k = Some e" "map_of (bs_entries b') k = None"
  shows "\<exists>f. RmvInstance f \<in> set acts \<and> en_instance f = en_instance e \<and> en_host f = en_host e"
proof (cases ev)
  case (Inbound iface m now)
  obtain added removed c where i: "bs_ingest m iface now b = (added, removed, c)" by (cases "bs_ingest m iface now b")
  then have c: "c = b'" "set (map RmvInstance removed) \<subseteq> set acts" using assms Inbound by (auto split: if_splits)
  show ?thesis using bs_ingest_reports [OF assms(3) i] assms(4) c by auto
next
  case (Ticker now)
  obtain qs removed c where t: "bs_tick now b = (qs, removed, c)" by (cases "bs_tick now b")
  then have c: "c = b'" "set (map RmvInstance removed) \<subseteq> set acts" using assms Ticker by auto
  have "e \<in> set removed"
    using bs_tick_ok [OF assms(1) t] tick_entries [OF assms(1) t, of k] assms(3,4) c by (auto split: if_splits)
  then show ?thesis using c by auto
qed

section \<open>Refresh queries\<close>

lemma knownAnswers_live:
  assumes "bs_ok b" "bs_tick now b = (qs, removed, b')" "m \<in> set qs" "M_PTR h k \<in> set (mm_answer m)"
  shows "\<exists>r. map_of (bs_cache b) k = Some r \<and> 2 * (now - cr_storedAt r) < cr_ttl r"
proof -
  have ok': "bs_ok b'" and q': "bs_question b' = bs_question b" using bs_tick_ok [OF assms(1,2)] by auto
  have "m = buildQuery (bs_question b) (knownAnswers (knownAnswersFor (bs_question b) now (bs_cache b')) (bs_question b)) False"
    using assms by (auto simp: bs_tick_eq Let_def split: if_splits)
  then have "M_PTR h k \<in> set (knownAnswers (knownAnswersFor (bs_question b) now (bs_cache b')) (bs_question b))"
    using assms(4) by (simp add: buildQuery_def)
  then obtain j r rr where jr: "(j, r) \<in> set (bs_cache b')" "cr_rr r = Some rr" and half: "\<not> (cr_ttl r - cr_elapsed now r) * 2 \<le> cr_ttl r"
    and rr: "M_PTR h k = mrr_set_header ((mrr_header rr)\<lparr>hdr_ttl := of_int (trunc (seconds (cr_ttl r - cr_elapsed now r)))\<rparr>) rr"
    by (auto simp: knownAnswers_def knownAnswersFor_def List.map_filter_def Let_def split: if_splits)
  have r: "map_of (bs_cache b') j = Some r" using jr(1) bs_okD(1) [OF ok'] by simp
  have "rr = ptr_RR \<lparr>pt_name = bs_question b, pt_ptr = j, pt_ttl = cr_ttl r\<rparr>"
    using bs_okD(3) [OF ok' r] jr(2) q' by (simp add: record_ok_def)
  then have "j = k" using rr by (simp add: ptr_RR_def)
  then show ?thesis using r half tick_cache [OF assms(1,2), of k]
    by (auto simp: cr_elapsed_def split: option.splits if_splits)
qed

text \<open>An event that says nothing of an instance and comes before the end of its lifetime.\<close>

fun silent_on :: "string \<Rightarrow> string \<Rightarrow> time \<Rightarrow> browseEvent \<Rightarrow> bool" where
  "silent_on q k end (Inbound iface m now) \<longleftrightarrow> (\<forall>p\<in>set (pa_PTR (parseAnswers m)). \<not> (pt_name p = q \<and> pt_ptr p = k))"
| "silent_on q k end (Ticker now) \<longleftrightarrow> now < end"

text \<open>The cache after a message, through the records that speak of the instance.\<close>

lemma ptrStep_cache:
  "map_of (bs_cache (is_state (ptrStep iface now p s))) k =
     (if pt_name p = bs_question (is_state s) \<and> pt_ptr p = k then
        (if pt_ttl p \<le> 0 then None else Some \<lparr>cr_rr = Some (ptr_RR p), cr_question = bs_question (is_state s), cr_ttl = pt_ttl p,
           cr_storedAt = now, cr_refreshesSent = 0\<rparr>)
      else map_of (bs_cache (is_state s)) k)"
  "bs_question (is_state (ptrStep iface now p s)) = bs_question (is_state s)"
  by (auto simp: ptrStep_def Let_def cache_remove_def cache_store_def AList.delete_conv' AList.update_conv' split: option.split)

lemma fold_ptrStep_question: "bs_question (is_state (fold (ptrStep iface now) ps s)) = bs_question (is_state s)"
  by (induction ps arbitrary: s) (simp_all add: ptrStep_cache(2))

lemma bs_ingest_cache:
  assumes "bs_ok b" "bs_ingest m iface now b = (added, removed, b')"
  shows "bs_cache b' = bs_cache (is_state (fold (ptrStep iface now) (pa_PTR (parseAnswers m)) \<lparr>is_state = b, is_touched = [], is_removed = []\<rparr>))"
proof -
  let ?p = "parseAnswers m"
  define s1 where "s1 = fold (ptrStep iface now) (pa_PTR ?p) \<lparr>is_state = b, is_touched = [], is_removed = []\<rparr>"
  have 1: "bs_ok (is_state s1)" unfolding s1_def
    using fold_ptrStep_ok [of "\<lparr>is_state = b, is_touched = [], is_removed = []\<rparr>"] assms(1) parse_ptr_ttl by simp
  note 2 = fold_step_ok [of srvStep, OF data_steps_ok(1)] and 3 = fold_step_ok [of txtStep, OF data_steps_ok(2)]
    and 4 = fold_step_ok [of aStep, OF data_steps_ok(3)] and 5 = fold_step_ok [of aaaaStep, OF data_steps_ok(4)]
  have "b' = is_state (fold aaaaStep (pa_AAAA ?p) (fold aStep (pa_A ?p) (fold txtStep (pa_TXT ?p) (fold srvStep (pa_SRV ?p) s1))))"
    using assms(2) by (simp add: bs_ingest_def Let_def s1_def)
  then show ?thesis unfolding s1_def [symmetric] using 1 2 3 4 5 by presburger
qed

lemma silent_message:
  assumes "\<And>p. p \<in> set ps \<Longrightarrow> \<not> (pt_name p = bs_question (is_state s) \<and> pt_ptr p = k)"
  shows "map_of (bs_cache (is_state (fold (ptrStep iface now) ps s))) k = map_of (bs_cache (is_state s)) k"
  using assms
proof (induction ps arbitrary: s)
  case (Cons p ps)
  have "\<not> (pt_name p = bs_question (is_state s) \<and> pt_ptr p = k)" using Cons(2) by simp
  then have "map_of (bs_cache (is_state (ptrStep iface now p s))) k = map_of (bs_cache (is_state s)) k"
    unfolding ptrStep_cache by auto
  then show ?case using Cons(1) [of "ptrStep iface now p s"] Cons(2) by (simp add: ptrStep_cache(2))
qed simp

lemma announcing_message:
  assumes "fold (hear (bs_question (is_state s)) now) ps Map.empty k = Some (t, d)"
  shows "\<exists>r. map_of (bs_cache (is_state (fold (ptrStep iface now) ps s))) k = Some r \<and> cr_storedAt r = t \<and> cr_ttl r = d \<and>
    cr_refreshesSent r = 0"
  using assms
proof (induction ps rule: rev_induct)
  case (snoc p ps)
  then show ?case by (auto simp: ptrStep_cache fold_ptrStep_question hear_def split: if_splits)
qed simp

text \<open>A tick before the first threshold leaves the record alone; one after it asks for the instance.\<close>

lemma tick_asks:
  assumes "bs_ok b" "bs_tick now b = (qs, removed, b')" "map_of (bs_cache b) k = Some r" "cr_refreshesSent r = 0"
    and live: "\<not> cr_expired now r"
  shows "if thresholdAt (cr_ttl r) 0 \<le> now - cr_storedAt r
    then \<exists>m\<in>set qs. map mq_name (mm_question m) = [bs_question b] \<and> (\<forall>h. M_PTR h k \<notin> set (mm_answer m))
    else map_of (bs_cache b') k = Some r"
proof -
  have ttl: "second \<le> cr_ttl r" using bs_okD(3) [OF assms(1,3)] by (simp add: record_ok_def)
  have fires: "fst (dueThreshold now r) \<longleftrightarrow> thresholdAt (cr_ttl r) 0 \<le> now - cr_storedAt r"
    using dueFrom_fires [of 0] assms(4) by (simp add: dueThreshold_def Let_def cr_elapsed_def)
  show ?thesis
  proof (cases "fst (dueThreshold now r)")
    case True
    have "(k, r) \<in> set (bs_cache b)" using assms(3) by (rule map_of_SomeD)
    then have "\<exists>(k, r)\<in>set (bs_cache b). \<not> cr_expired now r \<and> fst (dueThreshold now r)" using live True by blast
    then obtain m where m: "m \<in> set qs" "map mq_name (mm_question m) = [bs_question b]"
      using assms(2) by (simp add: bs_tick_eq [OF assms(1)] Let_def) (auto simp: buildQuery_def)
    have "M_PTR h k \<notin> set (mm_answer m)" for h
    proof
      assume "M_PTR h k \<in> set (mm_answer m)"
      then have "2 * (now - cr_storedAt r) < cr_ttl r" using knownAnswers_live [OF assms(1,2) m(1)] assms(3) by fastforce
      moreover have "79 * cr_ttl r < 100 * (now - cr_storedAt r)" using True fires thresholdAt_bounds(1) [OF ttl, of 0] by simp
      moreover have "0 < cr_ttl r" using ttl by (simp add: second_def)
      ultimately show False by linarith
    qed
    then have "\<exists>m\<in>set qs. map mq_name (mm_question m) = [bs_question b] \<and> (\<forall>h. M_PTR h k \<notin> set (mm_answer m))"
      using m by (intro bexI [of _ m] conjI allI)
    then show ?thesis using True fires by simp
  next
    case False
    then have "snd (dueThreshold now r) = r" using assms(4) by (simp add: dueThreshold_def Let_def)
    then show ?thesis using tick_cache [OF assms(1,2), of k] assms(3) live False fires by simp
  qed
qed

lemma silent_step:
  assumes "bs_ok b" "browseStep allowed (Inbound iface m now) b = (acts, b')" "silent_on (bs_question b) k t (Inbound iface m now)"
  shows "map_of (bs_cache b') k = map_of (bs_cache b) k"
proof (cases "allowed \<noteq> [] \<and> iface \<notin> set allowed")
  case False
  then obtain added removed where "bs_ingest m iface now b = (added, removed, b')"
    using assms(2) by (auto split: prod.splits)
  then show ?thesis using bs_ingest_cache [OF assms(1)] silent_message assms(3) by fastforce
qed (use assms in auto)

lemma requeried:
  assumes "bs_ok b" "map_of (bs_cache b) k = Some r" "cr_refreshesSent r = 0"
    and "list_all (silent_on (bs_question b) k (cr_storedAt r + cr_ttl r)) evs"
    and "Ticker n \<in> set evs" "81 * cr_ttl r \<le> 100 * (n - cr_storedAt r)"
  shows "\<exists>m. SendQuery m \<in> set (fst (browseRun allowed evs b)) \<and> map mq_name (mm_question m) = [bs_question b] \<and>
    (\<forall>h. M_PTR h k \<notin> set (mm_answer m))"
  using assms
proof (induction evs arbitrary: b r)
  case (Cons ev evs)
  obtain acts b' where step: "browseStep allowed ev b = (acts, b')" by fastforce
  note ok' = browseStep_ok [OF Cons(2) step]
  have run: "set (fst (browseRun allowed (ev # evs) b)) = set acts \<union> set (fst (browseRun allowed evs b'))"
    using step by (simp split: prod.split)
  have go_on: ?case if "map_of (bs_cache b') k = Some r" "Ticker n \<in> set evs"
    using Cons(1) [of b' r] Cons(4-7) that ok' run by fastforce
  show ?case
  proof (cases ev)
    case (Inbound iface m now)
    then show ?thesis using go_on silent_step [OF Cons(2)] step Cons(3,5,6) by auto
  next
    case (Ticker now)
    obtain qs removed where t: "bs_tick now b = (qs, removed, b')" and acts: "acts = map SendQuery qs @ map RmvInstance removed"
      using step Ticker by (auto split: prod.splits)
    have "\<not> cr_expired now r" using Cons(5) Ticker by (auto simp: cr_expired_def cr_elapsed_def)
    note asks = tick_asks [OF Cons(2) t Cons(3,4) this]
    have ttl: "second \<le> cr_ttl r" using bs_okD(3) [OF Cons(2,3)] by (simp add: record_ok_def)
    show ?thesis
    proof (cases "thresholdAt (cr_ttl r) 0 \<le> now - cr_storedAt r")
      case True
      then show ?thesis using asks unfolding run acts by auto
    next
      case False
      then have "n \<noteq> now" using Cons(7) thresholdAt_bounds(2) [OF ttl, of 0] by auto
      then show ?thesis using go_on False asks Cons(6) Ticker by auto
    qed
  qed
qed simp

section \<open>Types\<close>

definition heardTypes :: "string list \<Rightarrow> string \<Rightarrow> browseEvent list \<Rightarrow> string set" where
  "heardTypes allowed q evs = {fst (splitServiceQuestion (pt_ptr p)) | p iface m now. Inbound iface m now \<in> set evs \<and>
     (allowed = [] \<or> iface \<in> set allowed) \<and> p \<in> set (pa_PTR (parseAnswers m)) \<and> pt_name p = q \<and> pt_ttl p > 0}"

lemma fold_typeStep:
  assumes "fold (typeStep now) ps (acc, t) = (typs, t')"
  shows "\<exists>new. typs = acc @ new \<and> distinct new \<and> set new \<inter> set (ty_seen t) = {} \<and> ty_question t' = ty_question t \<and>
    set (ty_seen t') = set (ty_seen t) \<union> set new \<and>
    set (ty_seen t') = set (ty_seen t) \<union> {fst (splitServiceQuestion (pt_ptr p)) | p. p \<in> set ps \<and> pt_name p = ty_question t \<and> pt_ttl p > 0}"
  using assms
proof (induction ps arbitrary: acc t)
  case (Cons p ps)
  obtain acc1 t1 where s: "typeStep now p (acc, t) = (acc1, t1)" by fastforce
  have f: "fold (typeStep now) ps (acc1, t1) = (typs, t')" using Cons(2) s by simp
  have q: "ty_question t1 = ty_question t" using s by (auto simp: typeStep_def Let_def split: if_splits)
  obtain new where new: "typs = acc1 @ new" "distinct new" "set new \<inter> set (ty_seen t1) = {}" "ty_question t' = ty_question t1"
    "set (ty_seen t') = set (ty_seen t1) \<union> set new"
    "set (ty_seen t') = set (ty_seen t1) \<union> {fst (splitServiceQuestion (pt_ptr p)) | p. p \<in> set ps \<and> pt_name p = ty_question t1 \<and> pt_ttl p > 0}"
    using Cons(1) [OF f] by (elim exE conjE) (rule that; assumption)
  let ?styp = "fst (splitServiceQuestion (pt_ptr p))"
  consider "acc1 = acc" "set (ty_seen t1) = set (ty_seen t)" "\<not> (pt_name p = ty_question t \<and> pt_ttl p > 0) \<or> ?styp \<in> set (ty_seen t)"
    | "acc1 = acc @ [?styp]" "set (ty_seen t1) = insert ?styp (set (ty_seen t))" "?styp \<notin> set (ty_seen t)" "pt_name p = ty_question t" "pt_ttl p > 0"
    using s by (auto simp: typeStep_def Let_def split: if_splits)
  then show ?case
  proof cases
    case 1
    then show ?thesis using new q by (intro exI [of _ new]) auto
  next
    case 2
    then show ?thesis using new q by (intro exI [of _ "?styp # new"]) auto
  qed
qed simp

lemma browseTypesRun_exact:
  assumes "browseTypesRun allowed evs t = (typs, qs, t')"
  shows "distinct typs \<and> set typs \<inter> set (ty_seen t) = {} \<and> set (ty_seen t) \<union> set typs = set (ty_seen t) \<union> heardTypes allowed (ty_question t) evs"
  using assms
proof (induction allowed evs t arbitrary: typs qs t' rule: browseTypesRun.induct)
  case (2 allowed iface m now evs t)
  show ?case
  proof (cases "allowed \<noteq> [] \<and> iface \<notin> set allowed")
    case True
    then have "heardTypes allowed (ty_question t) (Inbound iface m now # evs) = heardTypes allowed (ty_question t) evs"
      by (auto simp: heardTypes_def)
    then show ?thesis using 2(1) [OF True] 2(3) True by simp
  next
    case False
    obtain ts t1 where i: "ty_ingest m now t = (ts, t1)" by fastforce
    obtain ts2 qs2 where r: "browseTypesRun allowed evs t1 = (ts2, qs2, t')" "typs = ts @ ts2" using 2(3) False i by (auto split: prod.splits)
    note ih = 2(2) [OF False i [symmetric] r(1)]
    have "distinct ts" "set ts \<inter> set (ty_seen t) = {}" "ty_question t1 = ty_question t" "set (ty_seen t1) = set (ty_seen t) \<union> set ts"
      "set (ty_seen t1) = set (ty_seen t) \<union> {fst (splitServiceQuestion (pt_ptr p)) | p. p \<in> set (pa_PTR (parseAnswers m)) \<and> pt_name p = ty_question t \<and> pt_ttl p > 0}"
      using fold_typeStep [OF i [unfolded ty_ingest_def]] by auto
    moreover have "heardTypes allowed (ty_question t) (Inbound iface m now # evs) = heardTypes allowed (ty_question t) evs \<union>
        {fst (splitServiceQuestion (pt_ptr p)) | p. p \<in> set (pa_PTR (parseAnswers m)) \<and> pt_name p = ty_question t \<and> pt_ttl p > 0}"
      using False by (auto simp: heardTypes_def)
    ultimately show ?thesis using ih r(2) by auto
  qed
next
  case (3 allowed now evs t)
  obtain q1 t1 where i: "ty_tick now t = (q1, t1)" by fastforce
  have "ty_seen t1 = ty_seen t" "ty_question t1 = ty_question t" using i by (auto simp: ty_tick_def split: prod.splits)
  moreover obtain qs2 where "browseTypesRun allowed evs t1 = (typs, qs2, t')" using 3(2) i by (auto split: prod.splits)
  moreover have "heardTypes allowed q (Ticker now # evs) = heardTypes allowed q evs" for q by (auto simp: heardTypes_def)
  ultimately show ?case using 3(1) [OF i [symmetric]] by simp
qed (simp add: heardTypes_def)

section \<open>The table\<close>

text \<open>The key under which the table holds an instance.\<close>

definition tableKey :: "string \<Rightarrow> mdnsEntry \<Rightarrow> string" where
  "tableKey service e = entryKey (zero_mentry\<lparr>me_service := service, me_instance := en_instance e,
     me_host := toLower (trimSuffix (en_host e) ''.'')\<rparr>)"

lemma feed_rmv:
  "mt_entries (feed vt now service (RmvInstance e) t) = AList.delete (tableKey service e) (mt_entries t)"
  by (auto simp: listener_remove_def mt_remove_def Let_def tableKey_def toEntry_def map_of_eq_None_iff split: option.split)

lemma fold_feed_rmv:
  "map_of (mt_entries (fold (feed vt now service) (map RmvInstance rs) t)) k =
     (if k \<in> tableKey service ` set rs then None else map_of (mt_entries t) k)"
  by (induction rs arbitrary: t) (auto simp: feed_rmv AList.delete_conv' simp del: feed.simps)

text \<open>An instance reported at the given time is in the table, live, with its addresses.\<close>

definition reported :: "time \<Rightarrow> string \<Rightarrow> mdnsEntry \<Rightarrow> mtable \<Rightarrow> bool" where
  "reported now service e t \<longleftrightarrow> (\<exists>me. map_of (mt_entries t) (tableKey service e) = Some me \<and> me_lastSeen me = now \<and>
     set (en_ipv4 e) - {[]} \<subseteq> set (me_ipv4 me) \<and> set (en_ipv6 e) - {[]} \<subseteq> set (me_ipv6 me))"

lemma feed_add:
  assumes "trimSuffix (en_host e) ''.'' \<noteq> []"
  shows "reported now service e (feed vt now service (AddInstance e) t)"
    and "reported now service f t \<Longrightarrow> reported now service f (feed vt now service (AddInstance e) t)"
proof -
  have key: "entryKey (zero_mentry\<lparr>me_host := h, me_service := s, me_instance := i, me_txt := x, me_ipv4 := a, me_ipv6 := b, me_ttl := d\<rparr>) =
      entryKey (zero_mentry\<lparr>me_service := s, me_instance := i, me_host := h\<rparr>)" for h s i x a b d
    by (simp add: entryKey_def)
  show "reported now service e (feed vt now service (AddInstance e) t)"
    using assms by (auto simp: reported_def ingest_def Let_def upsert_def toEntry_def tableKey_def key AList.update_conv' mergeUnique_eq split: option.split)
  show "reported now service f (feed vt now service (AddInstance e) t)" if "reported now service f t"
    using that assms
    by (auto simp: reported_def ingest_def Let_def upsert_def toEntry_def tableKey_def key AList.update_conv' mergeUnique_eq split: option.split)
qed

lemma fold_feed_add:
  assumes "\<And>e. e \<in> set es \<Longrightarrow> trimSuffix (en_host e) ''.'' \<noteq> []" "f \<in> set es \<or> reported now service f t"
  shows "reported now service f (fold (feed vt now service) (map AddInstance es) t)"
  using assms
proof (induction es arbitrary: t)
  case (Cons e es)
  have e: "trimSuffix (en_host e) ''.'' \<noteq> []" using Cons(2) by simp
  have "f \<in> set es \<or> reported now service f (feed vt now service (AddInstance e) t)" using Cons(3) feed_add [OF e] by auto
  then show ?case using Cons(1) [of "feed vt now service (AddInstance e) t"] Cons(2) by simp
qed simp

section \<open>Properties\<close>

text \<open>
  C20. A browse knows an instance exactly while its last announcement is alive: whatever messages
  and ticks came, an instance has an entry exactly if its last announcement on an accepted
  interface was not a goodbye and its lifetime had not run out at a tick since; a tick reports
  exactly the instances whose lifetime is over.
\<close>

theorem instances_follow_announcements:
  "let b = snd (browseRun allowed evs (newBrowserState q)); A = fold (heard allowed q) evs Map.empty in
   (map_of (bs_entries b) k = None \<longleftrightarrow> A k = None) \<and>
   set (fst (snd (bs_tick now b))) = {e. \<exists>k t d. map_of (bs_entries b) k = Some e \<and> A k = Some (t, d) \<and> t + d \<le> now}"
proof -
  obtain acts b where run: "browseRun allowed evs (newBrowserState q) = (acts, b)" by fastforce
  have ok: "bs_ok b" "announced_of b = fold (heard allowed q) evs Map.empty"
    using browseRun_ok [OF new_ok(1) run] by (simp_all add: new_ok)
  obtain qs removed b' where t: "bs_tick now b = (qs, removed, b')" by (cases "bs_tick now b")
  have "map_of (bs_entries b) k = None \<longleftrightarrow> announced_of b k = None"
    using bs_okD(2,4) [OF ok(1), of k] by (cases "map_of (bs_entries b) k") (auto simp: announced_of_def entry_ok_def)
  moreover have "set removed = {e. \<exists>k t d. map_of (bs_entries b) k = Some e \<and> announced_of b k = Some (t, d) \<and> t + d \<le> now}"
    using bs_tick_ok [OF ok(1) t] by (auto simp: announced_of_def cr_expired_def cr_elapsed_def algebra_simps)
  ultimately show ?thesis by (simp add: run t Let_def flip: ok(2))
qed

text \<open>
  C21. A device that stays silent is asked for before it is forgotten: after an announcement, if
  some tick falls between 81 and 100 hundredths of its lifetime, then by that tick a query for the
  service was sent that does not claim the instance as known, so that the device has to answer.
\<close>

theorem silent_instance_requeried:
  assumes "b = snd (browseRun [] (evs @ [Inbound iface m t]) (newBrowserState q))"
    and "fold (hear q t) (pa_PTR (parseAnswers m)) Map.empty k = Some (t, d)"
    and "list_all (silent_on q k (t + d)) later" "Ticker n \<in> set later" "81 * d \<le> 100 * (n - t)"
  shows "\<exists>q'. SendQuery q' \<in> set (fst (browseRun [] later b)) \<and> map mq_name (mm_question q') = [q] \<and>
    (\<forall>h. M_PTR h k \<notin> set (mm_answer q'))"
proof -
  obtain acts c where run: "browseRun [] evs (newBrowserState q) = (acts, c)" by fastforce
  have c: "bs_ok c" "bs_question c = q" using browseRun_ok [OF new_ok(1) run] by (simp_all add: new_ok)
  obtain added removed b2 where i: "bs_ingest m iface t c = (added, removed, b2)" by (cases "bs_ingest m iface t c")
  have b: "b = b2" using assms(1) run i by (simp add: browseRun_snoc)
  have ok: "bs_ok b" "bs_question b = q" using bs_ingest_ok [OF c(1) i] c(2) b by auto
  obtain r where r: "map_of (bs_cache b) k = Some r" "cr_storedAt r = t" "cr_ttl r = d" "cr_refreshesSent r = 0"
    using announcing_message [of "\<lparr>is_state = c, is_touched = [], is_removed = []\<rparr>" t _ k t d iface] assms(2) c(2)
      bs_ingest_cache [OF c(1) i] b by auto
  show ?thesis using requeried [OF ok(1) r(1,4)] assms(3-5) r ok(2) by auto
qed

definition exAnnounce :: mdns_msg where
  "exAnnounce = \<lparr>mm_response = True, mm_question = [],
     mm_answer = [M_PTR \<lparr>hdr_name = ''_http._tcp.local.'', hdr_rrtype = 12, hdr_ttl = 120, hdr_class = 1\<rparr> ''tv._http._tcp.local.''],
     mm_ns = [], mm_extra = []\<rparr>"

lemma exAnnounce_ptr:
  "pa_PTR (parseAnswers exAnnounce) = [\<lparr>pt_name = ''_http._tcp.local.'', pt_ptr = ''tv._http._tcp.local.'', pt_ttl = 120 * second\<rparr>]"
  by (simp add: parseAnswers_def exAnnounce_def rr_ttl_def)

theorem silent_instance_requeried_witness:
  "\<exists>q'. SendQuery q' \<in> set (fst (browseRun [] [Ticker (50 * second), Ticker (100 * second)]
       (snd (browseRun [] ([] @ [Inbound ''eth0'' exAnnounce 0]) (newBrowserState ''_http._tcp.local.''))))) \<and>
     map mq_name (mm_question q') = [''_http._tcp.local.''] \<and> (\<forall>h. M_PTR h ''tv._http._tcp.local.'' \<notin> set (mm_answer q'))"
  by (rule silent_instance_requeried [where d = "120 * second" and n = "100 * second", OF refl])
    (simp_all add: exAnnounce_ptr hear_def second_def)

text \<open>
  The discovery table follows a browse: when an event makes the browse lose an instance, by a
  goodbye or at the end of its lifetime, the table no longer has an entry for it; and a message
  that loses none leaves every instance it is about in the table, seen at that moment, with the
  addresses announced for it.
\<close>

theorem table_follows_browse:
  assumes "b = snd (browseRun allowed evs (newBrowserState q))"
    and "browseService vt service allowed [ev] (b, t) = (b', t')"
  shows "(map_of (bs_entries b) k = Some e \<and> map_of (bs_entries b') k = None \<longrightarrow> map_of (mt_entries t') (tableKey service e) = None) \<and>
    (\<forall>iface m now added. ev = Inbound iface m now \<and> (allowed = [] \<or> iface \<in> set allowed) \<and> bs_ingest m iface now b = (added, [], b') \<and>
      (\<forall>f\<in>set added. trimSuffix (en_host f) ''.'' \<noteq> []) \<longrightarrow> (\<forall>f\<in>set added. reported now service f t'))"
proof (intro conjI impI allI ballI)
  obtain xs c where run: "browseRun allowed evs (newBrowserState q) = (xs, c)" by fastforce
  have ok: "bs_ok b" using browseRun_ok [OF new_ok(1) run] assms(1) run by simp
  obtain acts where step: "browseStep allowed ev b = (acts, b')" and t': "t' = fold (feed vt (event_time ev) service) acts t"
    using assms(2) by (auto split: prod.splits)
  have acts: "\<exists>as rs. acts = as @ map RmvInstance rs \<and> RmvInstance ` set rs = {a \<in> set acts. \<exists>f. a = RmvInstance f}"
    using step by (cases ev) (force split: if_splits prod.splits)+
  show "map_of (mt_entries t') (tableKey service e) = None"
    if lost: "map_of (bs_entries b) k = Some e \<and> map_of (bs_entries b') k = None"
  proof -
    obtain f where f: "RmvInstance f \<in> set acts" "en_instance f = en_instance e" "en_host f = en_host e"
      using browseStep_reports [OF ok step] lost by blast
    obtain as rs where ar: "acts = as @ map RmvInstance rs" "RmvInstance ` set rs = {a \<in> set acts. \<exists>f. a = RmvInstance f}"
      using acts by blast
    then have "f \<in> set rs" using f(1) by blast
    moreover have "tableKey service f = tableKey service e" using f by (simp add: tableKey_def)
    ultimately show ?thesis unfolding t' ar fold_append comp_apply fold_feed_rmv by (auto simp: image_iff)
  qed
  show "reported now service f t'"
    if "ev = Inbound iface m now \<and> (allowed = [] \<or> iface \<in> set allowed) \<and> bs_ingest m iface now b = (added, [], b') \<and>
      (\<forall>f\<in>set added. trimSuffix (en_host f) ''.'' \<noteq> [])" "f \<in> set added" for iface m now added f
    using that step unfolding t' by (auto intro!: fold_feed_add)
qed

definition exBrowse :: browserState where
  "exBrowse = snd (browseRun [] [Inbound ''eth0'' exAnnounce 0] (newBrowserState ''_http._tcp.local.''))"

definition exTv :: mdnsEntry where
  "exTv = \<lparr>en_host = [], en_instance = ''tv'', en_type = ''_http._tcp'', en_domain = ''local'', en_txt = [], en_ipv4 = [],
     en_ipv6 = [], en_ifaceName = ''eth0'', en_ttl = 120 * second\<rparr>"

lemma exAnnounce_rest:
  "pa_SRV (parseAnswers exAnnounce) = []" "pa_TXT (parseAnswers exAnnounce) = []" "pa_A (parseAnswers exAnnounce) = []"
  "pa_AAAA (parseAnswers exAnnounce) = []"
  by (simp_all add: parseAnswers_def exAnnounce_def)

lemma exBrowse_names:
  "splitServiceQuestion ''_http._tcp.local.'' = (''_http._tcp'', ''local'')"
  "instanceLabel ''tv._http._tcp.local.'' ''_http._tcp.local.'' = ''tv''"
  by code_simp+

definition exState :: browserState where
  "exState = \<lparr>bs_question = ''_http._tcp.local.'', bs_typ = ''_http._tcp'', bs_domain = ''local'', bs_cache = [], bs_entries = []\<rparr>"

lemma exState_new: "newBrowserState ''_http._tcp.local.'' = exState"
  by (simp only: newBrowserState_def exBrowse_names(1) prod.case exState_def)

lemma exBrowse_ptr:
  "exBrowse = is_state (ptrStep ''eth0'' 0 (hd (pa_PTR (parseAnswers exAnnounce))) \<lparr>is_state = exState, is_touched = [], is_removed = []\<rparr>)"
  by (simp only: exBrowse_def browseRun.simps browseStep.simps exState_new bs_ingest_def Let_def exAnnounce_ptr exAnnounce_rest
      fold_simps comp_apply id_apply prod.case snd_conv list.sel simp_thms if_False)

lemma exBrowse_cache:
  "map_of (bs_cache exBrowse) ''tv._http._tcp.local.'' = Some \<lparr>cr_rr = Some (ptr_RR (hd (pa_PTR (parseAnswers exAnnounce)))),
     cr_question = ''_http._tcp.local.'', cr_ttl = 120 * second, cr_storedAt = 0, cr_refreshesSent = 0\<rparr>"
  unfolding exBrowse_ptr ptrStep_cache exAnnounce_ptr by (simp add: exState_def second_def)

lemma exBrowse_entries: "map_of (bs_entries exBrowse) ''tv._http._tcp.local.'' = Some exTv"
  unfolding exBrowse_ptr exAnnounce_ptr ptrStep_def exState_def Let_def cache_store_def ensureEntry_def
  by (simp add: exBrowse_names(2) exTv_def second_def)

theorem table_follows_browse_witness:
  "map_of (bs_entries exBrowse) ''tv._http._tcp.local.'' = Some exTv \<and>
   map_of (mt_entries (snd (browseService (newTable []) ''_http._tcp'' [] [Ticker (200 * second)] (exBrowse, exMdns))))
     (tableKey ''_http._tcp'' exTv) = None"
proof
  obtain b t where s: "browseService (newTable []) ''_http._tcp'' [] [Ticker (200 * second)] (exBrowse, exMdns) = (b, t)" by fastforce
  show e: "map_of (bs_entries exBrowse) ''tv._http._tcp.local.'' = Some exTv" by (rule exBrowse_entries)
  have ok: "bs_ok exBrowse"
    unfolding exBrowse_def by (rule browseRun_ok [OF new_ok(1) prod.collapse [symmetric], THEN conjunct1])
  obtain qs rs c where tk: "bs_tick (200 * second) exBrowse = (qs, rs, c)" by (cases "bs_tick (200 * second) exBrowse")
  have "b = c" using s tk by simp
  then have "map_of (bs_entries b) ''tv._http._tcp.local.'' = None"
    using tick_entries [OF ok tk] by (simp add: exBrowse_cache cr_expired_def cr_elapsed_def second_def)
  then show "map_of (mt_entries (snd (browseService (newTable []) ''_http._tcp'' [] [Ticker (200 * second)] (exBrowse, exMdns))))
     (tableKey ''_http._tcp'' exTv) = None"
    using table_follows_browse [OF exBrowse_def s, of "''tv._http._tcp.local.''" exTv] e s by simp
qed

text \<open>
  Browsing for types reports every type announced on an accepted interface, and each once.
\<close>

theorem types_reported_once:
  "let typs = fst (browseTypesRun allowed evs newTypeBrowserState) in
   distinct typs \<and> set typs = heardTypes allowed (ty_question newTypeBrowserState) evs"
proof -
  obtain typs qs t' where "browseTypesRun allowed evs newTypeBrowserState = (typs, qs, t')" by (cases "browseTypesRun allowed evs newTypeBrowserState")
  then show ?thesis using browseTypesRun_exact [of allowed evs newTypeBrowserState typs qs t'] by (simp add: newTypeBrowserState_def)
qed

end
