(* ===== verification/Acme_Manager.thy ===== *)
theory Acme_Manager
  imports Config_Store Go_Float "HOL-Library.Word"
begin

text \<open>
  The certificate of the encrypted listeners: \<^verbatim>\<open>internal/acme\<close> (the providers, the issuer, the
  manager that renews, the status for display) and the placeholder of \<^verbatim>\<open>internal/cli/selfsigned.go\<close>.
  The certificate files live in the file system of \<open>Config_Store\<close>, and a write runs through the
  states a crash can leave. Encoding and parsing of certificates, the hash, and the ACME client
  are arguments; which calls fail is part of the environment of a run.
\<close>

section \<open>Providers\<close>

record provider =
  pv_name :: string
  pv_display :: string
  pv_envVars :: "string list"
  pv_docs :: string

definition legoDoc :: string where "legoDoc = ''https://go-acme.github.io/lego/dns/''"

definition provider_entry :: "string \<Rightarrow> string \<Rightarrow> string list \<Rightarrow> string \<times> provider" where
  "provider_entry n display vars = (n, \<lparr>pv_name = n, pv_display = display, pv_envVars = vars, pv_docs = legoDoc @ n @ ''/''\<rparr>)"

definition acme_registry :: "(string \<times> provider) list" where
  "acme_registry =
     [provider_entry ''cloudflare'' ''Cloudflare'' [''CLOUDFLARE_DNS_API_TOKEN''],
      provider_entry ''route53'' ''AWS Route 53'' [''AWS_ACCESS_KEY_ID'', ''AWS_SECRET_ACCESS_KEY'', ''AWS_REGION''],
      provider_entry ''gcloud'' ''Google Cloud DNS'' [''GCE_PROJECT'', ''GCE_SERVICE_ACCOUNT''],
      provider_entry ''digitalocean'' ''DigitalOcean'' [''DO_AUTH_TOKEN''],
      provider_entry ''azuredns'' ''Azure DNS''
        [''AZURE_CLIENT_ID'', ''AZURE_CLIENT_SECRET'', ''AZURE_TENANT_ID'', ''AZURE_SUBSCRIPTION_ID'', ''AZURE_RESOURCE_GROUP''],
      provider_entry ''ovh'' ''OVH'' [''OVH_ENDPOINT'', ''OVH_APPLICATION_KEY'', ''OVH_APPLICATION_SECRET'', ''OVH_CONSUMER_KEY''],
      provider_entry ''rfc2136'' ''RFC2136 dynamic update (nsupdate)''
        [''RFC2136_NAMESERVER'', ''RFC2136_TSIG_KEY'', ''RFC2136_TSIG_SECRET'', ''RFC2136_TSIG_ALGORITHM''],
      provider_entry ''namecheap'' ''Namecheap'' [''NAMECHEAP_API_USER'', ''NAMECHEAP_API_KEY''],
      provider_entry ''linode'' ''Linode (Akamai)'' [''LINODE_TOKEN''],
      provider_entry ''hetzner'' ''Hetzner'' [''HETZNER_API_KEY''],
      provider_entry ''exec'' ''exec (custom script)'' [''EXEC_PATH''],
      provider_entry ''httpreq'' ''httpreq (webhook)'' [''HTTPREQ_ENDPOINT'']]"

definition acme_aliases :: "(string \<times> string) list" where
  "acme_aliases = [(''azure'', ''azuredns''), (''dnsupdate'', ''rfc2136''), (''google'', ''gcloud''), (''googlecloud'', ''gcloud''),
     (''do'', ''digitalocean''), (''aws'', ''route53'')]"

definition canonical_provider :: "string \<Rightarrow> string" where
  "canonical_provider name = (let n = toLower (trimSpace name) in case map_of acme_aliases n of Some c \<Rightarrow> c | None \<Rightarrow> n)"

definition lookupProvider :: "string \<Rightarrow> provider option" where
  "lookupProvider name = map_of acme_registry (canonical_provider name)"

definition supportedProviders :: "string list" where
  "supportedProviders = sort (map fst acme_registry)"

section \<open>Configuration and files\<close>

record acmeConfig =
  cf_configDir :: string
  cf_enabled :: bool
  cf_domain :: string
  cf_email :: string
  cf_provider :: string
  cf_production :: bool
  cf_caDirectoryURL :: string
  cf_renewBeforeDays :: int

text \<open>\<^verbatim>\<open>acmeConfig\<close> of the command: the part of the settings the manager works from.\<close>

definition acmeConfigOf :: "string \<Rightarrow> settings \<Rightarrow> acmeConfig" where
  "acmeConfigOf dir s = \<lparr>cf_configDir = dir, cf_enabled = acme_enabled (st_acme s), cf_domain = acme_domain (st_acme s),
     cf_email = acme_email (st_acme s), cf_provider = acme_dnsProvider (st_acme s), cf_production = acme_production (st_acme s),
     cf_caDirectoryURL = acme_caDirectoryURL (st_acme s), cf_renewBeforeDays = acme_renewBeforeDays (st_acme s)\<rparr>"

text \<open>What is read of a parsed certificate.\<close>

record x509 =
  xc_issuer :: string
  xc_subject :: string
  xc_commonName :: string
  xc_dnsNames :: "string list"
  xc_notAfter :: time

text \<open>
  The directories of Let's Encrypt, \<^verbatim>\<open>pem.Decode\<close> (the bytes of the first block),
  \<^verbatim>\<open>x509.ParseCertificate\<close> and SHA-256.
\<close>

record acme_lib =
  al_production :: string
  al_staging :: string
  al_pem :: "string \<Rightarrow> string option"
  al_parse :: "string \<Rightarrow> x509 option"
  al_sha256 :: "string \<Rightarrow> byte list"

definition caDirURL :: "acme_lib \<Rightarrow> acmeConfig \<Rightarrow> string" where
  "caDirURL L c = (if cf_caDirectoryURL c \<noteq> [] then cf_caDirectoryURL c
     else if cf_production c then al_production L else al_staging L)"

definition hexBytes :: "byte list \<Rightarrow> string" where
  "hexBytes bs = concat (map (\<lambda>b. [hex_digit (unat b div 16), hex_digit (unat b mod 16)]) bs)"

definition caSlug :: "acme_lib \<Rightarrow> string \<Rightarrow> string" where
  "caSlug L url = (if url = al_production L then ''production'' else if url = al_staging L then ''staging''
     else ''custom-'' @ hexBytes (take 8 (al_sha256 L url)))"

definition certFile :: "acmeConfig \<Rightarrow> string" where "certFile c = cf_configDir c @ ''/certs/cert.pem''"
definition keyFile :: "acmeConfig \<Rightarrow> string" where "keyFile c = cf_configDir c @ ''/certs/key.pem''"
definition caFile :: "acmeConfig \<Rightarrow> string" where "caFile c = cf_configDir c @ ''/certs/issuer_ca.txt''"
definition cacheDir :: "acmeConfig \<Rightarrow> string" where "cacheDir c = cf_configDir c @ ''/certs/cache''"
definition cacheCertFile :: "acmeConfig \<Rightarrow> string \<Rightarrow> string" where "cacheCertFile c slug = cacheDir c @ ''/'' @ slug @ ''.cert.pem''"
definition cacheKeyFile :: "acmeConfig \<Rightarrow> string \<Rightarrow> string" where "cacheKeyFile c slug = cacheDir c @ ''/'' @ slug @ ''.key.pem''"

definition checkInterval :: duration where "checkInterval = 12 * 3600 * 1000000000"
definition retryInterval :: duration where "retryInterval = 5 * 60 * 1000000000"

text \<open>A duration is a 64-bit integer, and the product of days wraps.\<close>

definition renewBefore :: "acmeConfig \<Rightarrow> duration" where
  "renewBefore c = (let d = (if cf_renewBeforeDays c \<le> 0 then 30 else cf_renewBeforeDays c) in
     sint (word_of_int (d * 24 * 3600 * 1000000000) :: 64 word))"

definition coversDomain :: "x509 \<Rightarrow> string \<Rightarrow> bool" where
  "coversDomain x domain = (equalFold (xc_commonName x) domain \<or> list_ex (\<lambda>n. equalFold n domain) (xc_dnsNames x))"

section \<open>Writing\<close>

text \<open>\<^verbatim>\<open>writeFileAtomic\<close> of the package: no directory is made and nothing is synchronised.\<close>

definition acme_writeFileAtomic :: "write_faults \<Rightarrow> string \<Rightarrow> string \<Rightarrow> string \<Rightarrow> fs \<Rightarrow> write_error option \<times> fs list" where
  "acme_writeFileAtomic f tmp path data fs =
     (if wf_createTemp f then (Some CreateTempErr, [fs])
      else let fs1 = fs(tmp \<mapsto> []) in
        if wf_write f then
          let fs2 = fs1(tmp \<mapsto> wf_partial f) in (Some WriteErr, [fs, fs1, fs2, cleanup f tmp fs2])
        else let fs2 = fs1(tmp \<mapsto> data) in
          if wf_chmod f then (Some ChmodErr, [fs, fs1, fs2, cleanup f tmp fs2])
          else if wf_close f then (Some CloseErr, [fs, fs1, fs2, cleanup f tmp fs2])
          else if wf_rename f then (Some RenameErr, [fs, fs1, fs2, cleanup f tmp fs2])
          else let fs3 = (fs2(path \<mapsto> data))(tmp := None) in (None, [fs, fs1, fs2, fs3]))"

text \<open>Which calls of a group of writes fail, and the names of the temporary files.\<close>

record write_plan =
  wp_mkdir :: bool
  wp_faults :: "string \<Rightarrow> write_faults"
  wp_tmp :: "string \<Rightarrow> string"

fun writeAll :: "write_plan \<Rightarrow> (string \<times> string) list \<Rightarrow> fs \<Rightarrow> write_error option \<times> fs list" where
  "writeAll w [] fs = (None, [fs])"
| "writeAll w ((p, d) # ps) fs = (case acme_writeFileAtomic (wp_faults w p) (wp_tmp w p) p d fs of
     (Some e, tr) \<Rightarrow> (Some e, tr)
   | (None, tr) \<Rightarrow> (case writeAll w ps (last tr) of (e, tr') \<Rightarrow> (e, tr @ tr')))"

text \<open>The key, then the certificate, then which directory issued it.\<close>

definition writeCertKey :: "acme_lib \<Rightarrow> write_plan \<Rightarrow> acmeConfig \<Rightarrow> string \<Rightarrow> string \<Rightarrow> fs \<Rightarrow> write_error option \<times> fs list" where
  "writeCertKey L w c cert key fs =
     (if wp_mkdir w then (Some MkdirErr, [fs])
      else writeAll w [(keyFile c, key), (certFile c, cert), (caFile c, caDirURL L c)] fs)"

definition cacheCurrent :: "acme_lib \<Rightarrow> write_plan \<Rightarrow> acmeConfig \<Rightarrow> string \<Rightarrow> string \<Rightarrow> fs \<Rightarrow> write_error option \<times> fs list" where
  "cacheCurrent L w c cert key fs =
     (if wp_mkdir w then (Some MkdirErr, [fs])
      else let slug = caSlug L (caDirURL L c) in
        writeAll w [(cacheKeyFile c slug, key), (cacheCertFile c slug, cert)] fs)"

section \<open>The manager\<close>

datatype issue_reason = NoCertificate | NotPEM | Unparsable | SelfSignedPlaceholder | WrongDomain | CAChanged | RenewalWindow

text \<open>\<^verbatim>\<open>needsIssue\<close>; \<open>None\<close> is the answer no.\<close>

definition needsIssue :: "acme_lib \<Rightarrow> acmeConfig \<Rightarrow> time \<Rightarrow> fs \<Rightarrow> issue_reason option" where
  "needsIssue L c now fs = (case fs (certFile c) of
     None \<Rightarrow> Some NoCertificate
   | Some raw \<Rightarrow> (case al_pem L raw of
       None \<Rightarrow> Some NotPEM
     | Some block \<Rightarrow> (case al_parse L block of
         None \<Rightarrow> Some Unparsable
       | Some x \<Rightarrow>
           if xc_issuer x = xc_subject x then Some SelfSignedPlaceholder
           else if \<not> coversDomain x (cf_domain c) then Some WrongDomain
           else if fs (caFile c) \<noteq> Some (caDirURL L c) then Some CAChanged
           else if xc_notAfter x - now < renewBefore c then Some RenewalWindow
           else None)))"

text \<open>The cached certificate and key of the directory in use, if they can be put in place again.\<close>

definition usableCached :: "acme_lib \<Rightarrow> acmeConfig \<Rightarrow> time \<Rightarrow> fs \<Rightarrow> (string \<times> string) option" where
  "usableCached L c now fs =
     (let slug = caSlug L (caDirURL L c) in
      case (fs (cacheCertFile c slug), fs (cacheKeyFile c slug)) of
        (Some cert, Some key) \<Rightarrow>
          (case al_pem L cert of None \<Rightarrow> None | Some block \<Rightarrow>
           case al_parse L block of None \<Rightarrow> None | Some x \<Rightarrow>
             if \<not> coversDomain x (cf_domain c) then None
             else if xc_notAfter x - now < renewBefore c then None
             else Some (cert, key))
      | _ \<Rightarrow> None)"

definition promoteFromCache :: "acme_lib \<Rightarrow> write_plan \<Rightarrow> acmeConfig \<Rightarrow> time \<Rightarrow> fs \<Rightarrow> bool \<times> fs list" where
  "promoteFromCache L w c now fs = (case usableCached L c now fs of
     None \<Rightarrow> (False, [fs])
   | Some (cert, key) \<Rightarrow> (case writeCertKey L w c cert key fs of (e, tr) \<Rightarrow> (e = None, tr)))"

text \<open>
  The manager's configuration, the files, the certificate and key files the engine last loaded,
  and how many certificates were requested.
\<close>

record manager =
  mg_cfg :: acmeConfig
  mg_fs :: fs
  mg_served :: "string option \<times> string option"
  mg_orders :: nat

text \<open>One run: the settings as they load, the clock, the issuer, what fails.\<close>

record acme_env =
  ae_loadCfg :: "acmeConfig option"
  ae_now :: time
  ae_obtain :: "acmeConfig \<Rightarrow> (string \<times> string) option"
  ae_promote :: write_plan
  ae_issue :: write_plan
  ae_cache :: write_plan
  ae_reloadFails :: bool

text \<open>The reload callback: when it succeeds the engine has read the certificate files again.\<close>

definition mg_reload :: "acme_env \<Rightarrow> manager \<Rightarrow> bool \<times> manager" where
  "mg_reload ev m = (if ae_reloadFails ev then (False, m)
     else (True, m\<lparr>mg_served := (mg_fs m (certFile (mg_cfg m)), mg_fs m (keyFile (mg_cfg m)))\<rparr>))"

text \<open>\<^verbatim>\<open>reconcile\<close>: the wait, the manager, and the states of the file system on the way.\<close>

definition acme_issue :: "acme_lib \<Rightarrow> acme_env \<Rightarrow> manager \<Rightarrow> duration \<times> manager \<times> fs list" where
  "acme_issue L ev m =
     (let m1 = m\<lparr>mg_orders := mg_orders m + 1\<rparr> in
      case ae_obtain ev (mg_cfg m) of
        None \<Rightarrow> (retryInterval, m1, [mg_fs m])
      | Some (cert, key) \<Rightarrow>
          (case writeCertKey L (ae_issue ev) (mg_cfg m) cert key (mg_fs m) of
             (Some e, tr) \<Rightarrow> (retryInterval, m1\<lparr>mg_fs := last tr\<rparr>, tr)
           | (None, tr) \<Rightarrow>
               (case cacheCurrent L (ae_cache ev) (mg_cfg m) cert key (last tr) of (_, tr') \<Rightarrow>
                let m2 = m1\<lparr>mg_fs := last tr'\<rparr> in
                case mg_reload ev m2 of (ok, m3) \<Rightarrow> (if ok then checkInterval else retryInterval, m3, tr @ tr'))))"

definition acme_reconcile :: "acme_lib \<Rightarrow> acme_env \<Rightarrow> manager \<Rightarrow> duration \<times> manager \<times> fs list" where
  "acme_reconcile L ev m0 =
     (let m = (case ae_loadCfg ev of None \<Rightarrow> m0 | Some c \<Rightarrow> m0\<lparr>mg_cfg := c\<rparr>); c = mg_cfg m in
      if \<not> cf_enabled c then (checkInterval, m, [mg_fs m])
      else if lookupProvider (cf_provider c) = None then (retryInterval, m, [mg_fs m])
      else if needsIssue L c (ae_now ev) (mg_fs m) = None then (checkInterval, m, [mg_fs m])
      else case promoteFromCache L (ae_promote ev) c (ae_now ev) (mg_fs m) of
        (True, tr) \<Rightarrow>
          (case mg_reload ev (m\<lparr>mg_fs := last tr\<rparr>) of (ok, m') \<Rightarrow> (if ok then checkInterval else retryInterval, m', tr))
      | (False, tr) \<Rightarrow>
          (case acme_issue L ev (m\<lparr>mg_fs := last tr\<rparr>) of (wait, m', tr') \<Rightarrow> (wait, m', tr @ tr')))"

text \<open>\<^verbatim>\<open>Run\<close> over a sequence of environments, one per turn of its loop.\<close>

fun acme_run :: "acme_lib \<Rightarrow> acme_env list \<Rightarrow> manager \<Rightarrow> manager" where
  "acme_run L [] m = m"
| "acme_run L (ev # evs) m = acme_run L evs (fst (snd (acme_reconcile L ev m)))"

section \<open>Status\<close>

record certStatus =
  cs_present :: bool
  cs_selfSigned :: bool
  cs_domain :: string
  cs_dnsNames :: "string list"
  cs_notAfter :: time
  cs_environment :: string

definition zeroStatus :: certStatus where
  "zeroStatus = \<lparr>cs_present = False, cs_selfSigned = False, cs_domain = [], cs_dnsNames = [], cs_notAfter = 0, cs_environment = []\<rparr>"

definition readStatus :: "acme_lib \<Rightarrow> string \<Rightarrow> fs \<Rightarrow> certStatus" where
  "readStatus L dir fs = (case fs (dir @ ''/certs/cert.pem'') of None \<Rightarrow> zeroStatus | Some raw \<Rightarrow>
     case al_pem L raw of None \<Rightarrow> zeroStatus | Some block \<Rightarrow>
     case al_parse L block of None \<Rightarrow> zeroStatus | Some x \<Rightarrow>
       \<lparr>cs_present = True, cs_selfSigned = (xc_issuer x = xc_subject x), cs_domain = xc_commonName x, cs_dnsNames = xc_dnsNames x,
        cs_notAfter = xc_notAfter x,
        cs_environment = (case fs (dir @ ''/certs/issuer_ca.txt'') of None \<Rightarrow> []
          | Some ca \<Rightarrow> if ca = al_production L then ''production'' else if ca = al_staging L then ''staging'' else ''custom'')\<rparr>)"

definition daysRemaining :: "certStatus \<Rightarrow> time \<Rightarrow> int" where
  "daysRemaining s now = trunc (f64 (hours (cs_notAfter s - now) / 24))"

section \<open>The issuer\<close>

text \<open>
  The account key: \<^verbatim>\<open>os.WriteFile\<close> truncates and writes in place, so a failing write leaves what it
  got to (\<open>ak_partial\<close>). \<open>ak_parse\<close> is \<^verbatim>\<open>x509.ParseECPrivateKey\<close>, \<open>ak_new\<close> a generated key with its PEM
  text.
\<close>

record account_env =
  ak_parse :: "string \<Rightarrow> string option"
  ak_mkdir :: bool
  ak_new :: "(string \<times> string) option"
  ak_open :: bool
  ak_write :: bool
  ak_partial :: string

datatype account_error = KeyNotPEM | KeyUnparsable | AccountDirErr | GenerateErr | KeyWriteErr

definition accountKeyFile :: "string \<Rightarrow> string" where
  "accountKeyFile dir = dir @ ''/certs/account/account.key''"

definition loadOrCreateAccountKey :: "acme_lib \<Rightarrow> account_env \<Rightarrow> string \<Rightarrow> fs \<Rightarrow> (account_error + string) \<times> fs" where
  "loadOrCreateAccountKey L k path fs = (case fs path of
     Some raw \<Rightarrow>
       (case al_pem L raw of
          None \<Rightarrow> (Inl KeyNotPEM, fs)
        | Some block \<Rightarrow> (case ak_parse k block of None \<Rightarrow> Inl KeyUnparsable | Some key \<Rightarrow> Inr key, fs))
   | None \<Rightarrow>
       if ak_mkdir k then (Inl AccountDirErr, fs)
       else (case ak_new k of
          None \<Rightarrow> (Inl GenerateErr, fs)
        | Some (key, pem) \<Rightarrow>
            if ak_open k then (Inl KeyWriteErr, fs)
            else if ak_write k then (Inl KeyWriteErr, fs(path \<mapsto> ak_partial k))
            else (Inr key, fs(path \<mapsto> pem))))"

text \<open>\<^verbatim>\<open>Obtain\<close> up to the calls of the ACME client, whose outcomes are arguments.\<close>

record issuer_env =
  ie_ctxDone :: bool
  ie_account :: account_env
  ie_client :: bool
  ie_newProvider :: bool
  ie_setProvider :: bool
  ie_register :: bool
  ie_order :: "(string \<times> string) option"

datatype obtain_error =
    CtxErr | AccountErr account_error | ClientErr | UnsupportedProvider string | ProviderErr | SetProviderErr | RegisterErr | OrderErr

definition newChallengeProvider :: "bool \<Rightarrow> string \<Rightarrow> obtain_error option" where
  "newChallengeProvider fails name = (if lookupProvider name = None then Some (UnsupportedProvider name)
     else if fails then Some ProviderErr else None)"

definition lego_obtain :: "acme_lib \<Rightarrow> issuer_env \<Rightarrow> acmeConfig \<Rightarrow> fs \<Rightarrow> (obtain_error + string \<times> string) \<times> fs" where
  "lego_obtain L ie c fs =
     (if ie_ctxDone ie then (Inl CtxErr, fs)
      else case loadOrCreateAccountKey L (ie_account ie) (accountKeyFile (cf_configDir c)) fs of
        (Inl e, fs') \<Rightarrow> (Inl (AccountErr e), fs')
      | (Inr key, fs') \<Rightarrow>
          (if ie_client ie then Inl ClientErr
           else case newChallengeProvider (ie_newProvider ie) (cf_provider c) of
             Some e \<Rightarrow> Inl e
           | None \<Rightarrow>
               if ie_setProvider ie then Inl SetProviderErr
               else if ie_register ie then Inl RegisterErr
               else case ie_order ie of None \<Rightarrow> Inl OrderErr | Some p \<Rightarrow> Inr p, fs'))"

section \<open>The placeholder\<close>

text \<open>
  \<^verbatim>\<open>ensureSelfSignedCert\<close>: the files are truncated and written in place, the certificate first; the
  result is the error, if any, and the states of the files. \<open>ss_new\<close> is a generated pair in PEM.
\<close>

record selfsigned_env =
  ss_mkdir :: bool
  ss_new :: "(string \<times> string) option"
  ss_open :: "string \<Rightarrow> bool"
  ss_write :: "string \<Rightarrow> bool"
  ss_partial :: string

datatype selfsigned_error = CertsDirErr | GeneratePairErr | OpenErr string | PemWriteErr string

definition writePEM :: "selfsigned_env \<Rightarrow> string \<Rightarrow> string \<Rightarrow> fs \<Rightarrow> selfsigned_error option \<times> fs list" where
  "writePEM se path pem fs =
     (if ss_open se path then (Some (OpenErr path), [fs])
      else if ss_write se path then (Some (PemWriteErr path), [fs, fs(path \<mapsto> []), fs(path \<mapsto> ss_partial se)])
      else (None, [fs, fs(path \<mapsto> []), fs(path \<mapsto> pem)]))"

definition certPaths :: "string \<Rightarrow> string \<times> string" where
  "certPaths dir = (dir @ ''/certs/cert.pem'', dir @ ''/certs/key.pem'')"

definition ensureSelfSignedCert :: "selfsigned_env \<Rightarrow> string \<Rightarrow> fs \<Rightarrow> selfsigned_error option \<times> fs list" where
  "ensureSelfSignedCert se dir fs = (case certPaths dir of (cert, key) \<Rightarrow>
     if fs cert \<noteq> None \<and> fs key \<noteq> None then (None, [fs])
     else if ss_mkdir se then (Some CertsDirErr, [fs])
     else case ss_new se of
       None \<Rightarrow> (Some GeneratePairErr, [fs])
     | Some (certPEM, keyPEM) \<Rightarrow>
         (case writePEM se cert certPEM fs of
            (Some e, tr) \<Rightarrow> (Some e, tr)
          | (None, tr) \<Rightarrow> (case writePEM se key keyPEM (last tr) of (e, tr') \<Rightarrow> (e, tr @ tr'))))"

section \<open>Files during a write\<close>

definition certFiles :: "acmeConfig \<Rightarrow> string set" where
  "certFiles c = {certFile c, keyFile c, caFile c} \<union> range (cacheCertFile c) \<union> range (cacheKeyFile c)"

text \<open>\<^verbatim>\<open>os.CreateTemp\<close> makes a new file: its name is none of the files of the package.\<close>

definition tmp_doc :: "acmeConfig \<Rightarrow> write_plan \<Rightarrow> bool" where
  "tmp_doc c w \<longleftrightarrow> (\<forall>p. wp_tmp w p \<notin> certFiles c)"

lemma acme_write_states:
  assumes "tmp \<noteq> path" "acme_writeFileAtomic f tmp path data fs = (e, tr)"
  shows "tr \<noteq> [] \<and> (\<forall>s\<in>set tr. (s path = fs path \<or> s path = Some data) \<and> (\<forall>p. p \<noteq> path \<longrightarrow> p \<noteq> tmp \<longrightarrow> s p = fs p)) \<and>
    last tr path = (if e = None then Some data else fs path)"
  using assms by (auto simp: acme_writeFileAtomic_def cleanup_def Let_def split: if_splits)

text \<open>The files after the first of a list of writes.\<close>

definition written :: "(string \<times> string) list \<Rightarrow> fs \<Rightarrow> fs" where
  "written ps fs q = (case map_of ps q of Some d \<Rightarrow> Some d | None \<Rightarrow> fs q)"

lemma written_simps [simp]:
  "written [] fs = fs" "written ((p, d) # ps) fs q = (if q = p then Some d else written ps fs q)"
  by (auto simp: written_def)

lemma writeAll_states:
  assumes "distinct (map fst ps)" "\<And>p. p \<in> fst ` set ps \<Longrightarrow> wp_tmp w p \<notin> F" "fst ` set ps \<subseteq> F" "writeAll w ps fs = (e, tr)"
  shows "tr \<noteq> [] \<and> (\<forall>s\<in>set tr. \<exists>n\<le>length ps. \<forall>q\<in>F. s q = written (take n ps) fs q) \<and>
    (e = None \<longrightarrow> (\<forall>q\<in>F. last tr q = written ps fs q))"
  using assms
proof (induction ps arbitrary: fs e tr)
  case (Cons pd ps)
  obtain p d where pd: "pd = (p, d)" by fastforce
  obtain e1 tr1 where w: "acme_writeFileAtomic (wp_faults w p) (wp_tmp w p) p d fs = (e1, tr1)" by fastforce
  have tmp: "wp_tmp w p \<notin> F" using Cons(3) pd by simp
  then have "wp_tmp w p \<noteq> p" using Cons(4) pd by auto
  note one = acme_write_states [OF this w]
  have first: "\<exists>n\<le>length (pd # ps). \<forall>q\<in>F. s q = written (take n (pd # ps)) fs q" if "s \<in> set tr1" for s
  proof (cases "s p = fs p")
    case True
    then have "\<forall>q\<in>F. s q = written (take 0 (pd # ps)) fs q" using one that tmp by (auto; metis)
    then show ?thesis by blast
  next
    case False
    then have "\<forall>q\<in>F. s q = written (take 1 (pd # ps)) fs q" using one that tmp pd by (auto; metis)
    then show ?thesis by (metis One_nat_def length_Cons le_add1 plus_1_eq_Suc Suc_le_mono zero_le)
  qed
  show ?case
  proof (cases e1)
    case (Some x)
    then show ?thesis using Cons(5) w pd one first by auto
  next
    case None
    obtain e2 tr2 where r: "writeAll w ps (last tr1) = (e2, tr2)" by fastforce
    have tr: "tr = tr1 @ tr2" "e = e2" using Cons(5) w None r pd by auto
    have ih: "tr2 \<noteq> []" "\<forall>s\<in>set tr2. \<exists>n\<le>length ps. \<forall>q\<in>F. s q = written (take n ps) (last tr1) q"
      "e2 = None \<longrightarrow> (\<forall>q\<in>F. last tr2 q = written ps (last tr1) q)"
      using Cons(1) [OF _ _ _ r] Cons(2-4) by auto
    have lst: "last tr1 q = (if q = p then Some d else fs q)" if "q \<in> F" for q
      using one tmp None that by (auto; metis last_in_set)
    have np: "map_of (take n ps) p = None" for n using Cons(2) pd by (force simp: map_of_eq_None_iff dest: in_set_takeD)
    have shift: "written (take n ps) (last tr1) q = written (take (Suc n) (pd # ps)) fs q" if "q \<in> F" for q n
      using lst [OF that] pd np by (cases "q = p") (simp_all add: written_def split: option.split)
    have "\<exists>n\<le>length (pd # ps). \<forall>q\<in>F. s q = written (take n (pd # ps)) fs q" if "s \<in> set tr2" for s
      using ih(2) that shift by (metis Suc_le_mono length_Cons)
    moreover have "written ps (last tr1) q = written (pd # ps) fs q" if "q \<in> F" for q
      using shift [OF that, of "length ps"] by simp
    ultimately show ?thesis using tr ih one first by auto
  qed
qed simp

lemma cert_paths_distinct:
  "certFile c \<noteq> keyFile c" "certFile c \<noteq> caFile c" "keyFile c \<noteq> caFile c"
  "cacheKeyFile c g \<noteq> cacheCertFile c h" "cacheCertFile c g = cacheCertFile c h \<longleftrightarrow> g = h" "cacheKeyFile c g = cacheKeyFile c h \<longleftrightarrow> g = h"
  "cacheKeyFile c g \<noteq> certFile c" "cacheKeyFile c g \<noteq> keyFile c" "cacheKeyFile c g \<noteq> caFile c"
  "cacheCertFile c g \<noteq> certFile c" "cacheCertFile c g \<noteq> keyFile c" "cacheCertFile c g \<noteq> caFile c"
proof -
  have "rev (cacheKeyFile c g) \<noteq> rev (cacheCertFile c h)" by (simp add: cacheKeyFile_def cacheCertFile_def)
  then show "cacheKeyFile c g \<noteq> cacheCertFile c h" by metis
qed (simp_all add: certFile_def keyFile_def caFile_def cacheKeyFile_def cacheCertFile_def cacheDir_def)

lemma in_certFiles [simp]:
  "certFile c \<in> certFiles c" "keyFile c \<in> certFiles c" "caFile c \<in> certFiles c" "cacheCertFile c g \<in> certFiles c" "cacheKeyFile c g \<in> certFiles c"
  by (auto simp: certFiles_def)

lemma needsIssue_cong:
  "s (certFile c) = t (certFile c) \<Longrightarrow> s (caFile c) = t (caFile c) \<Longrightarrow> needsIssue L c now s = needsIssue L c now t"
  by (simp add: needsIssue_def split: option.split)

lemma writeCertKey_states:
  assumes "tmp_doc c w" "writeCertKey L w c cert key fs = (e, tr)"
  shows "tr \<noteq> []"
    and "s \<in> set tr \<Longrightarrow> \<exists>n\<le>3. \<forall>q\<in>certFiles c. s q = written (take n [(keyFile c, key), (certFile c, cert), (caFile c, caDirURL L c)]) fs q"
    and "e = None \<Longrightarrow> \<forall>q\<in>certFiles c. last tr q = written [(keyFile c, key), (certFile c, cert), (caFile c, caDirURL L c)] fs q"
proof -
  let ?ps = "[(keyFile c, key), (certFile c, cert), (caFile c, caDirURL L c)]"
  have "tr \<noteq> [] \<and> (\<forall>s\<in>set tr. \<exists>n\<le>length ?ps. \<forall>q\<in>certFiles c. s q = written (take n ?ps) fs q) \<and>
      (e = None \<longrightarrow> (\<forall>q\<in>certFiles c. last tr q = written ?ps fs q))"
  proof (cases "wp_mkdir w")
    case True
    then have "e \<noteq> None" "tr = [fs]" using assms(2) by (auto simp: writeCertKey_def)
    then show ?thesis by (auto intro: exI [of _ 0])
  next
    case False
    then have "writeAll w ?ps fs = (e, tr)" using assms(2) by (simp add: writeCertKey_def)
    then show ?thesis using assms(1) by (intro writeAll_states) (auto simp: cert_paths_distinct cert_paths_distinct [symmetric] tmp_doc_def)
  qed
  then show "tr \<noteq> []" "s \<in> set tr \<Longrightarrow> \<exists>n\<le>3. \<forall>q\<in>certFiles c. s q = written (take n ?ps) fs q"
    "e = None \<Longrightarrow> \<forall>q\<in>certFiles c. last tr q = written ?ps fs q" by (auto simp: numeral_3_eq_3)
qed

lemma cacheCurrent_states:
  assumes "tmp_doc c w" "cacheCurrent L w c cert key fs = (e, tr)"
  defines "g \<equiv> caSlug L (caDirURL L c)"
  shows "tr \<noteq> []"
    and "s \<in> set tr \<Longrightarrow> \<exists>n\<le>2. \<forall>q\<in>certFiles c. s q = written (take n [(cacheKeyFile c g, key), (cacheCertFile c g, cert)]) fs q"
    and "e = None \<Longrightarrow> \<forall>q\<in>certFiles c. last tr q = written [(cacheKeyFile c g, key), (cacheCertFile c g, cert)] fs q"
proof -
  let ?ps = "[(cacheKeyFile c g, key), (cacheCertFile c g, cert)]"
  have "tr \<noteq> [] \<and> (\<forall>s\<in>set tr. \<exists>n\<le>length ?ps. \<forall>q\<in>certFiles c. s q = written (take n ?ps) fs q) \<and>
      (e = None \<longrightarrow> (\<forall>q\<in>certFiles c. last tr q = written ?ps fs q))"
  proof (cases "wp_mkdir w")
    case True
    then have "e \<noteq> None" "tr = [fs]" using assms(2) by (auto simp: cacheCurrent_def)
    then show ?thesis by (auto intro: exI [of _ 0])
  next
    case False
    then have "writeAll w ?ps fs = (e, tr)" using assms(2) by (simp add: cacheCurrent_def g_def Let_def)
    then show ?thesis using assms(1) by (intro writeAll_states) (auto simp: cert_paths_distinct tmp_doc_def)
  qed
  then show "tr \<noteq> []" "s \<in> set tr \<Longrightarrow> \<exists>n\<le>2. \<forall>q\<in>certFiles c. s q = written (take n ?ps) fs q"
    "e = None \<Longrightarrow> \<forall>q\<in>certFiles c. last tr q = written ?ps fs q" by (auto simp: numeral_2_eq_2)
qed

text \<open>Writing to the cache leaves the certificate in use alone.\<close>

lemma cacheCurrent_keeps:
  assumes "tmp_doc c w" "cacheCurrent L w c cert key fs = (e, tr)" "s \<in> set tr"
  shows "s (certFile c) = fs (certFile c)" "s (keyFile c) = fs (keyFile c)" "s (caFile c) = fs (caFile c)"
proof -
  let ?g = "caSlug L (caDirURL L c)"
  obtain n where n: "\<forall>q\<in>certFiles c. s q = written (take n [(cacheKeyFile c ?g, key), (cacheCertFile c ?g, cert)]) fs q"
    using cacheCurrent_states(2) [OF assms(1,2)] assms(3) by blast
  have "written (take n [(cacheKeyFile c ?g, key), (cacheCertFile c ?g, cert)]) fs q = fs q"
    if "q \<noteq> cacheKeyFile c ?g" "q \<noteq> cacheCertFile c ?g" for q
    using that by (cases n; cases "n - 1") (auto simp: written_def split: option.split)
  then show "s (certFile c) = fs (certFile c)" "s (keyFile c) = fs (keyFile c)" "s (caFile c) = fs (caFile c)"
    using n by (simp_all add: cert_paths_distinct [symmetric])
qed

section \<open>Consistency\<close>

text \<open>The certificate in use belongs to the key in use, or a new certificate is due.\<close>

definition cert_consistent :: "(string \<Rightarrow> string \<Rightarrow> bool) \<Rightarrow> acme_lib \<Rightarrow> acmeConfig \<Rightarrow> time \<Rightarrow> fs \<Rightarrow> bool" where
  "cert_consistent matches L c now fs \<longleftrightarrow> needsIssue L c now fs \<noteq> None \<or>
     (\<exists>cert key. fs (certFile c) = Some cert \<and> fs (keyFile c) = Some key \<and> matches cert key)"

lemma writeCertKey_consistent:
  assumes "tmp_doc c w" "writeCertKey L w c cert key fs = (e, tr)" "s \<in> set tr" "matches cert key" "needsIssue L c now fs \<noteq> None"
  shows "cert_consistent matches L c now s"
proof -
  obtain n where n: "n \<le> 3" "\<forall>q\<in>certFiles c. s q = written (take n [(keyFile c, key), (certFile c, cert), (caFile c, caDirURL L c)]) fs q"
    using writeCertKey_states(2) [OF assms(1,2,3)] by blast
  consider "n = 0" | "n = 1" | "n = 2" | "n = 3" using n(1) by linarith
  then show ?thesis
  proof cases
    case 1
    then have "needsIssue L c now s = needsIssue L c now fs" using n(2) by (intro needsIssue_cong) simp_all
    then show ?thesis using assms(5) by (simp add: cert_consistent_def)
  next
    case 2
    then have "needsIssue L c now s = needsIssue L c now fs" using n(2)
      by (intro needsIssue_cong) (simp_all add: cert_paths_distinct cert_paths_distinct [symmetric])
    then show ?thesis using assms(5) by (simp add: cert_consistent_def)
  qed (use n(2) assms(4) in \<open>simp_all add: cert_consistent_def cert_paths_distinct cert_paths_distinct [symmetric] numeral_2_eq_2 numeral_3_eq_3\<close>)
qed

text \<open>Promoting from the cache: every state is consistent, and if no certificate is due at its end, the pair is in place.\<close>

lemma promote_consistent:
  assumes "tmp_doc c w" "\<And>cert key. usableCached L c now fs = Some (cert, key) \<Longrightarrow> matches cert key" "needsIssue L c now fs \<noteq> None"
    "promoteFromCache L w c now fs = (ok, tr)" "s \<in> set tr"
  shows "cert_consistent matches L c now s"
proof (cases "usableCached L c now fs")
  case None
  then show ?thesis using assms(3-5) by (auto simp: promoteFromCache_def cert_consistent_def)
next
  case (Some p)
  obtain cert key where p: "p = (cert, key)" by fastforce
  obtain e tr' where w: "writeCertKey L w c cert key fs = (e, tr')" by fastforce
  then show ?thesis using writeCertKey_consistent [where matches = matches, OF assms(1) w _ _ assms(3)] assms(2,4,5) Some p
    by (simp add: promoteFromCache_def)
qed

lemma promote_accepted:
  assumes "tmp_doc c w" "needsIssue L c now fs \<noteq> None" "promoteFromCache L w c now fs = (ok, tr)" "needsIssue L c now (last tr) = None"
  shows "\<exists>cert key. usableCached L c now fs = Some (cert, key) \<and> last tr (keyFile c) = Some key \<and> last tr (certFile c) = Some cert \<and>
    last tr (caFile c) = Some (caDirURL L c)"
proof (cases "usableCached L c now fs")
  case None
  then show ?thesis using assms(2-4) by (auto simp: promoteFromCache_def)
next
  case (Some p)
  obtain cert key where p: "p = (cert, key)" by fastforce
  obtain e tr' where w: "writeCertKey L w c cert key fs = (e, tr')" by fastforce
  have tr: "tr' = tr" using assms(3) Some p w by (simp add: promoteFromCache_def)
  let ?ps = "[(keyFile c, key), (certFile c, cert), (caFile c, caDirURL L c)]"
  obtain n where n: "n \<le> 3" "\<forall>q\<in>certFiles c. last tr q = written (take n ?ps) fs q"
    using writeCertKey_states(1,2) [OF assms(1) w] tr by (metis last_in_set)
  have ca: "last tr (caFile c) = Some (caDirURL L c)" using assms(4) by (auto simp: needsIssue_def split: option.splits if_splits)
  have "n \<noteq> 0" "n \<noteq> 1"
  proof -
    have "needsIssue L c now (last tr) = needsIssue L c now fs" if "n = 0 \<or> n = 1"
      using that n(2) by (intro needsIssue_cong) (auto simp: cert_paths_distinct cert_paths_distinct [symmetric])
    then have "\<not> (n = 0 \<or> n = 1)" using assms(2,4) by metis
    then show "n \<noteq> 0" "n \<noteq> 1" by simp_all
  qed
  then have "n = 2 \<or> n = 3" using n(1) by linarith
  then have "last tr (keyFile c) = Some key" "last tr (certFile c) = Some cert" using n(2)
    by (auto simp: cert_paths_distinct cert_paths_distinct [symmetric] numeral_2_eq_2 numeral_3_eq_3)
  then show ?thesis using Some p ca by simp
qed

text \<open>Which write fails: the ones before it are done, the others not.\<close>

definition write_fails :: "write_faults \<Rightarrow> bool" where
  "write_fails f \<longleftrightarrow> wf_createTemp f \<or> wf_write f \<or> wf_chmod f \<or> wf_close f \<or> wf_rename f"

lemma acme_write_fails: "acme_writeFileAtomic f tmp p d fs = (e, tr) \<Longrightarrow> e = None \<longleftrightarrow> \<not> write_fails f"
  by (auto simp: acme_writeFileAtomic_def write_fails_def Let_def split: if_splits)

lemma writeAll_stops:
  assumes "distinct (map fst (ps @ pd # qs))" "\<forall>x\<in>set (ps @ [pd]). wp_tmp w (fst x) \<notin> F \<and> fst x \<in> F"
    "\<forall>x\<in>set ps. \<not> write_fails (wp_faults w (fst x))" "write_fails (wp_faults w (fst pd))"
  shows "fst (writeAll w (ps @ pd # qs) fs) \<noteq> None \<and> (\<forall>q\<in>F. last (snd (writeAll w (ps @ pd # qs) fs)) q = written ps fs q)"
  using assms
proof (induction ps arbitrary: fs)
  case Nil
  obtain e tr where w: "acme_writeFileAtomic (wp_faults w (fst pd)) (wp_tmp w (fst pd)) (fst pd) (snd pd) fs = (e, tr)" by fastforce
  have t: "wp_tmp w (fst pd) \<notin> F" "fst pd \<in> F" using Nil by auto
  then have ne: "wp_tmp w (fst pd) \<noteq> fst pd" by auto
  have e: "e \<noteq> None" using acme_write_fails [OF w] Nil(4) by simp
  note st = acme_write_states [OF ne w]
  then have "last tr \<in> set tr" by simp
  then have "last tr q = fs q" if "q \<in> F" for q
    using st e t that by (cases "q = fst pd") (simp, metis)
  then show ?case using w e by (cases pd) auto
next
  case (Cons x ps)
  obtain p d where x: "x = (p, d)" by fastforce
  obtain e tr where w: "acme_writeFileAtomic (wp_faults w p) (wp_tmp w p) p d fs = (e, tr)" by fastforce
  have t: "wp_tmp w p \<notin> F" "p \<in> F" using Cons(3) x by auto
  then have ne: "wp_tmp w p \<noteq> p" by auto
  have e: "e = None" using acme_write_fails [OF w] Cons(4) x by simp
  have lst: "last tr q = (if q = p then Some d else fs q)" if "q \<in> F" for q
    using acme_write_states [OF ne w] e t that by (auto; metis last_in_set)
  have ih: "fst (writeAll w (ps @ pd # qs) (last tr)) \<noteq> None"
    "\<forall>q\<in>F. last (snd (writeAll w (ps @ pd # qs) (last tr))) q = written ps (last tr) q"
    using Cons(1) [of "last tr"] Cons(2-5) by auto
  have np: "map_of ps p = None" using Cons(2) x by (force simp: map_of_eq_None_iff)
  have shift: "written ps (last tr) q = written (x # ps) fs q" if "q \<in> F" for q
    using lst [OF that] x np by (cases "q = p") (simp_all add: written_def split: option.split)
  obtain e' tr' where r: "writeAll w (ps @ pd # qs) (last tr) = (e', tr')" by fastforce
  have "tr' \<noteq> []" using r by (cases "ps @ pd # qs"; cases pd) (auto simp: acme_writeFileAtomic_def Let_def split: prod.splits if_splits option.splits)
  then show ?case using w e x r ih shift by simp
qed

section \<open>Runs without failing writes\<close>

definition plan_fine :: "write_plan \<Rightarrow> bool" where
  "plan_fine w \<longleftrightarrow> \<not> wp_mkdir w \<and> (\<forall>p. wp_faults w p = wf_fine)"

definition goodCert :: "acme_lib \<Rightarrow> acmeConfig \<Rightarrow> time \<Rightarrow> string \<Rightarrow> bool" where
  "goodCert L c now cert \<longleftrightarrow> (\<exists>block x. al_pem L cert = Some block \<and> al_parse L block = Some x \<and> xc_issuer x \<noteq> xc_subject x \<and>
     coversDomain x (cf_domain c) \<and> renewBefore c \<le> xc_notAfter x - now)"

lemma writeAll_fine: "plan_fine w \<Longrightarrow> fst (writeAll w ps fs) = None"
  by (induction w ps fs rule: writeAll.induct)
    (auto simp: plan_fine_def acme_writeFileAtomic_def wf_fine_def Let_def split: prod.splits)

lemma writeCertKey_fine: "plan_fine w \<Longrightarrow> fst (writeCertKey L w c cert key fs) = None"
  using writeAll_fine [of w] by (simp add: writeCertKey_def plan_fine_def del: writeAll.simps)

lemma writeCertKey_installs:
  assumes "tmp_doc c w" "writeCertKey L w c cert key fs = (None, tr)"
  shows "last tr (certFile c) = Some cert" "last tr (keyFile c) = Some key" "last tr (caFile c) = Some (caDirURL L c)"
  using writeCertKey_states(3) [OF assms refl] by (simp_all add: cert_paths_distinct cert_paths_distinct [symmetric])

lemma installed_good:
  assumes "fs (certFile c) = Some cert" "fs (caFile c) = Some (caDirURL L c)"
  shows "needsIssue L c now fs = None \<longleftrightarrow> goodCert L c now cert"
  using assms by (auto simp: needsIssue_def goodCert_def not_less split: option.split)

text \<open>What a run finds when it looks at the certificate.\<close>

definition acme_ready :: "acme_lib \<Rightarrow> acme_env \<Rightarrow> acmeConfig \<Rightarrow> bool" where
  "acme_ready L ev c \<longleftrightarrow> ae_loadCfg ev = Some c \<and> cf_enabled c \<and> lookupProvider (cf_provider c) \<noteq> None \<and>
     tmp_doc c (ae_promote ev) \<and> tmp_doc c (ae_issue ev) \<and> tmp_doc c (ae_cache ev) \<and>
     plan_fine (ae_promote ev) \<and> plan_fine (ae_issue ev)"

lemma reconcile_idle:
  assumes "ae_loadCfg ev = Some c" "cf_enabled c" "lookupProvider (cf_provider c) \<noteq> None" "needsIssue L c (ae_now ev) (mg_fs m) = None"
  shows "acme_reconcile L ev m = (checkInterval, m\<lparr>mg_cfg := c\<rparr>, [mg_fs m])"
  using assms by (simp add: acme_reconcile_def Let_def del: not_None_eq)

lemma reconcile_active:
  assumes "ae_loadCfg ev = Some c" "cf_enabled c" "lookupProvider (cf_provider c) \<noteq> None" "needsIssue L c (ae_now ev) (mg_fs m) \<noteq> None"
  shows "acme_reconcile L ev m = (case promoteFromCache L (ae_promote ev) c (ae_now ev) (mg_fs m) of
     (True, tr) \<Rightarrow> (case mg_reload ev (m\<lparr>mg_cfg := c, mg_fs := last tr\<rparr>) of (ok, m') \<Rightarrow> (if ok then checkInterval else retryInterval, m', tr))
   | (False, tr) \<Rightarrow> (case acme_issue L ev (m\<lparr>mg_cfg := c, mg_fs := last tr\<rparr>) of (wait, m', tr') \<Rightarrow> (wait, m', tr @ tr')))"
  using assms by (simp add: acme_reconcile_def Let_def del: not_None_eq)

lemma reconcile_writes:
  assumes ready: "acme_ready L ev c" and need: "needsIssue L c (ae_now ev) (mg_fs m) \<noteq> None"
    and obt: "ae_obtain ev c = Some (cert, key)" "goodCert L c (ae_now ev) cert"
    and cached: "\<And>cc ck. usableCached L c (ae_now ev) (mg_fs m) = Some (cc, ck) \<Longrightarrow> goodCert L c (ae_now ev) cc"
    and run: "acme_reconcile L ev m = (wait, m', tr)"
  shows "\<exists>cc. mg_fs m' (certFile c) = Some cc \<and> goodCert L c (ae_now ev) cc \<and> mg_fs m' (caFile c) = Some (caDirURL L c) \<and>
    mg_cfg m' = c \<and> mg_orders m' \<le> mg_orders m + 1 \<and>
    (if ae_reloadFails ev then wait = retryInterval \<and> mg_served m' = mg_served m
     else wait = checkInterval \<and> mg_served m' = (mg_fs m' (certFile c), mg_fs m' (keyFile c)))"
proof -
  note r = ready [unfolded acme_ready_def]
  let ?m = "m\<lparr>mg_cfg := c\<rparr>"
  show ?thesis
  proof (cases "usableCached L c (ae_now ev) (mg_fs m)")
    case (Some p)
    obtain cc ck where p: "p = (cc, ck)" by fastforce
    obtain tr1 where w: "writeCertKey L (ae_promote ev) c cc ck (mg_fs m) = (None, tr1)"
      using writeCertKey_fine [of "ae_promote ev"] r by (metis prod.collapse)
    have "acme_reconcile L ev m = (let (ok, m2) = mg_reload ev (?m\<lparr>mg_fs := last tr1\<rparr>) in (if ok then checkInterval else retryInterval, m2, tr1))"
      using r need Some p w by (simp add: reconcile_active promoteFromCache_def del: not_None_eq)
    then show ?thesis using run writeCertKey_installs [OF _ w] cached [OF Some [unfolded p]] r
      by (auto simp: mg_reload_def split: if_splits)
  next
    case None
    obtain tr1 where w: "writeCertKey L (ae_issue ev) c cert key (mg_fs m) = (None, tr1)"
      using writeCertKey_fine [of "ae_issue ev"] r by (metis prod.collapse)
    obtain e tr2 where k: "cacheCurrent L (ae_cache ev) c cert key (last tr1) = (e, tr2)" by fastforce
    have "last tr2 \<in> set tr2" using cacheCurrent_states(1) [OF _ k] r by simp
    note keep = cacheCurrent_keeps [OF _ k this]
    have "fst (snd (acme_reconcile L ev m)) = snd (mg_reload ev (?m\<lparr>mg_orders := mg_orders m + 1, mg_fs := last tr2\<rparr>)) \<and>
        fst (acme_reconcile L ev m) = (if ae_reloadFails ev then retryInterval else checkInterval)"
      using r need None w obt k by (simp add: reconcile_active promoteFromCache_def acme_issue_def Let_def mg_reload_def del: not_None_eq)
    then show ?thesis using run writeCertKey_installs [OF _ w] keep obt(2) r
      by (auto simp: mg_reload_def split: if_splits)
  qed
qed

text \<open>A run leaves the cache of every other directory alone.\<close>

lemma writes_elsewhere:
  assumes "\<forall>q\<in>F. s q = written (take n ps) fs q" "q \<in> F" "q \<notin> fst ` set ps"
  shows "s q = fs q"
proof -
  have "map_of (take n ps) q = None" using assms(3) by (auto simp: map_of_eq_None_iff dest!: in_set_takeD)
  then show ?thesis using assms(1,2) by (simp add: written_def)
qed

lemma writeCertKey_elsewhere:
  assumes "tmp_doc c w" "writeCertKey L w c cert key fs = (e, tr)" "q \<in> certFiles c" "q \<notin> {certFile c, keyFile c, caFile c}"
  shows "last tr q = fs q"
proof -
  have "last tr \<in> set tr" using writeCertKey_states(1) [OF assms(1,2)] by simp
  from writeCertKey_states(2) [OF assms(1,2) this] obtain n where
    "\<forall>q\<in>certFiles c. last tr q = written (take n [(keyFile c, key), (certFile c, cert), (caFile c, caDirURL L c)]) fs q" by blast
  then show ?thesis by (rule writes_elsewhere [OF _ assms(3)]) (use assms(4) in simp)
qed

lemma cacheCurrent_elsewhere:
  assumes "tmp_doc c w" "cacheCurrent L w c cert key fs = (e, tr)" "q \<in> certFiles c"
    and "q \<notin> {cacheKeyFile c (caSlug L (caDirURL L c)), cacheCertFile c (caSlug L (caDirURL L c))}"
  shows "last tr q = fs q"
proof -
  have "last tr \<in> set tr" using cacheCurrent_states(1) [OF assms(1,2)] by simp
  from cacheCurrent_states(2) [OF assms(1,2) this] obtain n where
    "\<forall>q\<in>certFiles c. last tr q = written (take n [(cacheKeyFile c (caSlug L (caDirURL L c)), key),
       (cacheCertFile c (caSlug L (caDirURL L c)), cert)]) fs q" by blast
  then show ?thesis by (rule writes_elsewhere [OF _ assms(3)]) (use assms(4) in simp)
qed

lemma reconcile_other_cache:
  assumes "ae_loadCfg ev = Some c" "tmp_doc c (ae_promote ev)" "tmp_doc c (ae_issue ev)" "tmp_doc c (ae_cache ev)"
    and "g \<noteq> caSlug L (caDirURL L c)" and q: "q \<in> {cacheCertFile c g, cacheKeyFile c g}"
  shows "mg_fs (fst (snd (acme_reconcile L ev m))) q = mg_fs m q"
proof -
  have qf: "q \<in> certFiles c" "q \<notin> {certFile c, keyFile c, caFile c}"
    "q \<notin> {cacheKeyFile c (caSlug L (caDirURL L c)), cacheCertFile c (caSlug L (caDirURL L c))}"
    using q assms(5) by (auto simp: cert_paths_distinct cert_paths_distinct [symmetric])
  have i: "mg_fs (fst (snd (acme_issue L ev m'))) q = mg_fs m' q" if "mg_cfg m' = c" for m'
    using writeCertKey_elsewhere [OF assms(3) _ qf(1,2)] cacheCurrent_elsewhere [OF assms(4) _ qf(1,3)] that
    by (auto simp: acme_issue_def Let_def mg_reload_def split: option.splits prod.splits)
  have i2: "mg_fs m3 q = mg_fs m q" if "acme_issue L ev (m\<lparr>mg_cfg := c, mg_fs := x\<rparr>) = (w, m3, tr)" "x q = mg_fs m q" for x w m3 tr
    using i [of "m\<lparr>mg_cfg := c, mg_fs := x\<rparr>"] that by simp
  have i1: "mg_fs m3 q = mg_fs m q" if "acme_issue L ev (m\<lparr>mg_cfg := c\<rparr>) = (w, m3, tr)" for w m3 tr
    using i [of "m\<lparr>mg_cfg := c\<rparr>"] that by simp
  show ?thesis using assms(1) writeCertKey_elsewhere [OF assms(2) _ qf(1,2)]
    by (auto simp: acme_reconcile_def Let_def promoteFromCache_def mg_reload_def split: option.splits prod.splits bool.splits dest: i1 i2)
qed

section \<open>Properties\<close>

text \<open>
  C26. One run suffices: with a supported provider, an issuer that delivers and files that can be
  written, after one run of the manager no new certificate is due, the engine has loaded the
  files now in place if they were replaced, at most one certificate was ordered, and every later
  run before the renewal window leaves everything as it is.
\<close>

theorem renewal_converges:
  assumes "acme_ready L ev c" "\<not> ae_reloadFails ev"
    and "ae_obtain ev c = Some (cert, key)" "goodCert L c (ae_now ev) cert"
    and "\<And>cc ck. usableCached L c (ae_now ev) (mg_fs m) = Some (cc, ck) \<Longrightarrow> goodCert L c (ae_now ev) cc"
    and "acme_reconcile L ev m = (wait, m', tr)"
  shows "wait = checkInterval \<and> needsIssue L c (ae_now ev) (mg_fs m') = None \<and> mg_orders m' \<le> mg_orders m + 1 \<and>
    (needsIssue L c (ae_now ev) (mg_fs m) \<noteq> None \<longrightarrow> mg_served m' = (mg_fs m' (certFile c), mg_fs m' (keyFile c))) \<and>
    (\<forall>ev2. ae_loadCfg ev2 = Some c \<and> needsIssue L c (ae_now ev2) (mg_fs m') = None \<longrightarrow> fst (snd (acme_reconcile L ev2 m')) = m')"
proof -
  have r: "ae_loadCfg ev = Some c" "cf_enabled c" "lookupProvider (cf_provider c) \<noteq> None" using assms(1) by (auto simp: acme_ready_def)
  have later: "fst (snd (acme_reconcile L ev2 m')) = m'"
    if "ae_loadCfg ev2 = Some c" "needsIssue L c (ae_now ev2) (mg_fs m') = None" "mg_cfg m' = c" for ev2
    using reconcile_idle [OF that(1) r(2,3) that(2)] that(3) by simp
  show ?thesis
  proof (cases "needsIssue L c (ae_now ev) (mg_fs m) = None")
    case True
    then have "wait = checkInterval" "m' = m\<lparr>mg_cfg := c\<rparr>" using reconcile_idle [OF r] assms(6) by auto
    then show ?thesis using True later by auto
  next
    case False
    obtain cc where cc: "mg_fs m' (certFile c) = Some cc" "goodCert L c (ae_now ev) cc" "mg_fs m' (caFile c) = Some (caDirURL L c)"
      "mg_cfg m' = c" "mg_orders m' \<le> mg_orders m + 1" "wait = checkInterval" "mg_served m' = (mg_fs m' (certFile c), mg_fs m' (keyFile c))"
      using reconcile_writes [OF assms(1) False assms(3,4) _ assms(6)] assms(2,5) by auto
    then show ?thesis using installed_good [OF cc(1,3)] later by simp
  qed
qed

text \<open>
  C27. A reload that fails after a certificate was installed is not tried again: the run asks to be
  called again soon, but the later runs find the certificate in place and do nothing, so the
  engine keeps the certificate it had loaded before.
\<close>

theorem failed_reload_not_retried:
  assumes "acme_ready L ev c" "ae_reloadFails ev" "needsIssue L c (ae_now ev) (mg_fs m) \<noteq> None"
    and "ae_obtain ev c = Some (cert, key)" "goodCert L c (ae_now ev) cert"
    and "\<And>cc ck. usableCached L c (ae_now ev) (mg_fs m) = Some (cc, ck) \<Longrightarrow> goodCert L c (ae_now ev) cc"
    and "acme_reconcile L ev m = (wait, m', tr)"
    and "\<And>e. e \<in> set later \<Longrightarrow> ae_loadCfg e = Some c \<and> needsIssue L c (ae_now e) (mg_fs m') = None"
  shows "wait = retryInterval \<and> needsIssue L c (ae_now ev) (mg_fs m') = None \<and> acme_run L later m' = m' \<and> mg_served m' = mg_served m"
proof -
  have r: "cf_enabled c" "lookupProvider (cf_provider c) \<noteq> None" using assms(1) by (auto simp: acme_ready_def)
  obtain cc where cc: "mg_fs m' (certFile c) = Some cc" "goodCert L c (ae_now ev) cc" "mg_fs m' (caFile c) = Some (caDirURL L c)"
    "mg_cfg m' = c" "wait = retryInterval" "mg_served m' = mg_served m"
    using reconcile_writes [OF assms(1,3,4,5) _ assms(7)] assms(2,6) by auto
  have "fst (snd (acme_reconcile L e m')) = m'" if "e \<in> set later" for e
    using reconcile_idle [OF _ r, of e L m'] assms(8) [OF that] cc(4) by simp
  then have "acme_run L later m' = m'" by (induction later) auto
  then show ?thesis using cc installed_good [OF cc(1,3)] by simp
qed

lemma acme_issue_consistent:
  assumes "tmp_doc (mg_cfg m) (ae_issue ev)" "tmp_doc (mg_cfg m) (ae_cache ev)"
    and "\<And>cert key. ae_obtain ev (mg_cfg m) = Some (cert, key) \<Longrightarrow> matches cert key"
    and need: "needsIssue L (mg_cfg m) now (mg_fs m) \<noteq> None" and s: "s \<in> set (snd (snd (acme_issue L ev m)))"
  shows "cert_consistent matches L (mg_cfg m) now s"
proof (cases "ae_obtain ev (mg_cfg m)")
  case None
  then show ?thesis using s need by (simp add: acme_issue_def Let_def cert_consistent_def)
next
  case (Some p)
  let ?c = "mg_cfg m"
  obtain cert key where p: "p = (cert, key)" by fastforce
  have mt: "matches cert key" using assms(3) Some p by simp
  obtain e tr1 where w: "writeCertKey L (ae_issue ev) ?c cert key (mg_fs m) = (e, tr1)" by fastforce
  obtain e2 tr2 where k: "cacheCurrent L (ae_cache ev) ?c cert key (last tr1) = (e2, tr2)" by fastforce
  have "s \<in> set tr1 \<or> e = None \<and> s \<in> set tr2" using s Some p w k
    by (auto simp: acme_issue_def Let_def split: option.splits prod.splits)
  then show ?thesis
  proof
    assume s: "e = None \<and> s \<in> set tr2"
    then have "last tr1 (certFile ?c) = Some cert" "last tr1 (keyFile ?c) = Some key" using writeCertKey_installs [OF assms(1)] w by auto
    then show ?thesis using cacheCurrent_keeps [OF assms(2) k] s mt by (auto simp: cert_consistent_def)
  qed (use writeCertKey_consistent [where matches = matches, OF assms(1) w _ mt need] in simp)
qed


text \<open>
  The exception is real. The cached pair is put in place, but writing the directory fails although
  it is on record from before; the certificate ordered then is installed only with its key. The pair
  in use does not match, and no later run replaces it before it is due, since neither the
  certificate nor the directory tells.
\<close>

theorem given_up_promotion_mismatch:
  assumes "ae_loadCfg ev = Some c" "cf_enabled c" "lookupProvider (cf_provider c) \<noteq> None" "tmp_doc c (ae_promote ev)" "tmp_doc c (ae_issue ev)"
    and due: "needsIssue L c (ae_now ev) (mg_fs m) \<noteq> None" and ca: "mg_fs m (caFile c) = Some (caDirURL L c)"
    and cached: "usableCached L c (ae_now ev) (mg_fs m) = Some (cc, ck)" "goodCert L c (ae_now ev) cc"
    and promote: "\<not> wp_mkdir (ae_promote ev)" "\<not> write_fails (wp_faults (ae_promote ev) (keyFile c))"
      "\<not> write_fails (wp_faults (ae_promote ev) (certFile c))" "write_fails (wp_faults (ae_promote ev) (caFile c))"
    and issue: "ae_obtain ev c = Some (cert, key)" "\<not> wp_mkdir (ae_issue ev)"
      "\<not> write_fails (wp_faults (ae_issue ev) (keyFile c))" "write_fails (wp_faults (ae_issue ev) (certFile c))"
    and run: "acme_reconcile L ev m = (wait, m', tr)"
  shows "mg_fs m' (certFile c) = Some cc \<and> mg_fs m' (keyFile c) = Some key \<and> needsIssue L c (ae_now ev) (mg_fs m') = None \<and>
    (ae_loadCfg ev2 = Some c \<and> ae_now ev2 = ae_now ev \<longrightarrow> mg_fs (fst (snd (acme_reconcile L ev2 m'))) = mg_fs m')"
proof -
  obtain e1 tr1 where w1: "writeCertKey L (ae_promote ev) c cc ck (mg_fs m) = (e1, tr1)" by fastforce
  obtain e2 tr2 where w2: "writeCertKey L (ae_issue ev) c cert key (last tr1) = (e2, tr2)" by fastforce
  have p: "e1 \<noteq> None" "last tr1 (certFile c) = Some cc" "last tr1 (keyFile c) = Some ck" "last tr1 (caFile c) = mg_fs m (caFile c)"
    using writeAll_stops [of "[(keyFile c, ck), (certFile c, cc)]" "(caFile c, caDirURL L c)" "[]" "ae_promote ev" "certFiles c" "mg_fs m"]
      promote assms(4) w1
    by (auto simp: writeCertKey_def tmp_doc_def cert_paths_distinct cert_paths_distinct [symmetric] simp del: writeAll.simps)
  have i: "e2 \<noteq> None" "last tr2 (certFile c) = last tr1 (certFile c)" "last tr2 (keyFile c) = Some key" "last tr2 (caFile c) = last tr1 (caFile c)"
    using writeAll_stops [of "[(keyFile c, key)]" "(certFile c, cert)" "[(caFile c, caDirURL L c)]" "ae_issue ev" "certFiles c" "last tr1"]
      issue assms(5) w2
    by (auto simp: writeCertKey_def tmp_doc_def cert_paths_distinct cert_paths_distinct [symmetric] simp del: writeAll.simps)
  have "promoteFromCache L (ae_promote ev) c (ae_now ev) (mg_fs m) = (False, tr1)" using cached(1) w1 p(1) by (simp add: promoteFromCache_def)
  then have m': "m' = m\<lparr>mg_cfg := c, mg_fs := last tr2, mg_orders := mg_orders m + 1\<rparr>"
    using run assms(1-3) due issue(1) w2 i(1) by (auto simp: reconcile_active acme_issue_def Let_def simp del: not_None_eq)
  have none: "needsIssue L c (ae_now ev) (mg_fs m') = None"
    using installed_good [of "last tr2" c cc L] cached(2) p i ca by (simp add: m')
  have idle: "mg_fs (fst (snd (acme_reconcile L ev2 m'))) = mg_fs m'" if "ae_loadCfg ev2 = Some c" "ae_now ev2 = ae_now ev"
    using reconcile_idle [OF that(1) assms(2,3)] none that(2) by simp
  show ?thesis using p i none idle by (simp add: m')
qed

text \<open>
  Switching the directory back costs no order: while the certificate cached for a directory is
  still good, a run under another directory leaves it in the cache, and the run after switching
  back puts exactly that certificate and key in place without ordering one.
\<close>

theorem switching_back_orders_nothing:
  assumes "usableCached L a (ae_now evA) (mg_fs m) = Some (cert, key)"
    and "ae_loadCfg evB = Some b" "cf_configDir b = cf_configDir a" "caSlug L (caDirURL L b) \<noteq> caSlug L (caDirURL L a)"
    and "tmp_doc b (ae_promote evB)" "tmp_doc b (ae_issue evB)" "tmp_doc b (ae_cache evB)"
    and "acme_ready L evA a" "\<not> ae_reloadFails evA"
    and "m1 = fst (snd (acme_reconcile L evB m))" "m2 = fst (snd (acme_reconcile L evA m1))"
  shows "mg_orders m2 = mg_orders m1 \<and>
    (needsIssue L a (ae_now evA) (mg_fs m1) \<noteq> None \<longrightarrow>
       mg_fs m2 (certFile a) = Some cert \<and> mg_fs m2 (keyFile a) = Some key \<and> mg_served m2 = (Some cert, Some key))"
proof -
  let ?g = "caSlug L (caDirURL L a)"
  note r = assms(8) [unfolded acme_ready_def]
  have paths: "cacheCertFile b = cacheCertFile a" "cacheKeyFile b = cacheKeyFile a"
    by (simp_all add: fun_eq_iff cacheCertFile_def cacheKeyFile_def cacheDir_def assms(3))
  have "mg_fs m1 (cacheCertFile a ?g) = mg_fs m (cacheCertFile a ?g)" "mg_fs m1 (cacheKeyFile a ?g) = mg_fs m (cacheKeyFile a ?g)"
    unfolding assms(10) using reconcile_other_cache [OF assms(2,5,6,7) assms(4) [symmetric], unfolded paths] by simp_all
  then have cached: "usableCached L a (ae_now evA) (mg_fs m1) = Some (cert, key)" using assms(1) by (auto simp: usableCached_def Let_def split: option.splits)
  show ?thesis
  proof (cases "needsIssue L a (ae_now evA) (mg_fs m1) = None")
    case True
    then show ?thesis using r assms(11) reconcile_idle [of evA a L m1] by (simp del: not_None_eq)
  next
    case False
    obtain tr where w: "writeCertKey L (ae_promote evA) a cert key (mg_fs m1) = (None, tr)"
      using writeCertKey_fine [of "ae_promote evA"] r by (metis prod.collapse)
    have "m2 = m1\<lparr>mg_cfg := a, mg_fs := last tr, mg_served := (last tr (certFile a), last tr (keyFile a))\<rparr>"
      using r False cached w assms(9,11) by (simp add: reconcile_active promoteFromCache_def mg_reload_def del: not_None_eq)
    then show ?thesis using writeCertKey_installs [OF _ w] r by simp
  qed
qed

section \<open>Examples\<close>

definition exCert :: x509 where
  "exCert = \<lparr>xc_issuer = ''R3'', xc_subject = ''dns'', xc_commonName = ''dns.home'', xc_dnsNames = [], xc_notAfter = 90 * 86400 * 1000000000\<rparr>"

definition exAcme :: acme_lib where
  "exAcme = \<lparr>al_production = ''P'', al_staging = ''S'', al_pem = Some, al_parse = (\<lambda>b. if b = ''cert'' then Some exCert else None),
     al_sha256 = (\<lambda>_. [])\<rparr>"

definition exAcmeConfig :: "bool \<Rightarrow> acmeConfig" where
  "exAcmeConfig production = \<lparr>cf_configDir = ''/config'', cf_enabled = True, cf_domain = ''dns.home'', cf_email = [],
     cf_provider = ''cloudflare'', cf_production = production, cf_caDirectoryURL = [], cf_renewBeforeDays = 30\<rparr>"

definition exPlan :: write_plan where
  "exPlan = \<lparr>wp_mkdir = False, wp_faults = (\<lambda>_. wf_fine), wp_tmp = (\<lambda>_. ''/tmp'')\<rparr>"

definition exAcmeEnv :: "bool \<Rightarrow> bool \<Rightarrow> acme_env" where
  "exAcmeEnv production reloadFails = \<lparr>ae_loadCfg = Some (exAcmeConfig production), ae_now = 0, ae_obtain = (\<lambda>_. Some (''cert'', ''key'')),
     ae_promote = exPlan, ae_issue = exPlan, ae_cache = exPlan, ae_reloadFails = reloadFails\<rparr>"

definition exManager :: "fs \<Rightarrow> manager" where
  "exManager fs = \<lparr>mg_cfg = exAcmeConfig False, mg_fs = fs, mg_served = (None, None), mg_orders = 0\<rparr>"

lemma exPlan_ok: "plan_fine exPlan" "tmp_doc (exAcmeConfig production) exPlan"
  by (auto simp: plan_fine_def exPlan_def tmp_doc_def certFiles_def certFile_def keyFile_def caFile_def cacheCertFile_def
      cacheKeyFile_def cacheDir_def exAcmeConfig_def)

lemma exProvider: "lookupProvider ''cloudflare'' \<noteq> None"
  by code_simp

lemma exAcme_ready: "acme_ready exAcme (exAcmeEnv production reloadFails) (exAcmeConfig production)"
  using exProvider by (simp add: acme_ready_def exAcmeEnv_def exPlan_ok exAcmeConfig_def) (simp add: exPlan_ok flip: exAcmeConfig_def)

lemma exCert_good: "goodCert exAcme (exAcmeConfig production) 0 ''cert''"
  by (simp add: goodCert_def exAcme_def exCert_def exAcmeConfig_def coversDomain_def equalFold_def renewBefore_def)

lemma exEmpty:
  "needsIssue L c now Map.empty = Some NoCertificate" "usableCached L c now Map.empty = None"
  by (simp_all add: needsIssue_def usableCached_def Let_def)

lemma exEnv_simps [simp]:
  "ae_loadCfg (exAcmeEnv p r) = Some (exAcmeConfig p)" "ae_now (exAcmeEnv p r) = 0" "ae_obtain (exAcmeEnv p r) c = Some (''cert'', ''key'')"
  "ae_reloadFails (exAcmeEnv p r) = r" "ae_promote (exAcmeEnv p r) = exPlan" "ae_issue (exAcmeEnv p r) = exPlan" "ae_cache (exAcmeEnv p r) = exPlan"
  "mg_fs (exManager fs) = fs" "mg_served (exManager fs) = (None, None)"
  by (simp_all add: exAcmeEnv_def exManager_def)

theorem renewal_converges_witness:
  "needsIssue exAcme (exAcmeConfig True) 0 (mg_fs (exManager Map.empty)) = Some NoCertificate \<and>
   (case acme_reconcile exAcme (exAcmeEnv True False) (exManager Map.empty) of (wait, m', tr) \<Rightarrow>
      wait = checkInterval \<and> needsIssue exAcme (exAcmeConfig True) 0 (mg_fs m') = None \<and> mg_orders m' \<le> mg_orders (exManager Map.empty) + 1)"
proof -
  obtain wait m' tr where r: "acme_reconcile exAcme (exAcmeEnv True False) (exManager Map.empty) = (wait, m', tr)"
    by (cases "acme_reconcile exAcme (exAcmeEnv True False) (exManager Map.empty)")
  show ?thesis using renewal_converges [OF exAcme_ready _ _ _ _ r, of "''cert''" "''key''"]
    by (simp add: r exEmpty exCert_good)
qed

theorem failed_reload_not_retried_witness:
  "let m' = fst (snd (acme_reconcile exAcme (exAcmeEnv True True) (exManager Map.empty))) in
   acme_run exAcme [exAcmeEnv True False, exAcmeEnv True False] m' = m' \<and> mg_served m' = (None, None)"
proof -
  obtain wait m' tr where r: "acme_reconcile exAcme (exAcmeEnv True True) (exManager Map.empty) = (wait, m', tr)"
    by (cases "acme_reconcile exAcme (exAcmeEnv True True) (exManager Map.empty)")
  obtain cc where cc: "mg_fs m' (certFile (exAcmeConfig True)) = Some cc" "goodCert exAcme (exAcmeConfig True) 0 cc"
    "mg_fs m' (caFile (exAcmeConfig True)) = Some (caDirURL exAcme (exAcmeConfig True))"
    using reconcile_writes [OF exAcme_ready _ _ _ _ r, of "''cert''" "''key''"] by (auto simp: exEmpty exCert_good)
  then have "needsIssue exAcme (exAcmeConfig True) 0 (mg_fs m') = None" using installed_good by simp
  then show ?thesis
    using failed_reload_not_retried [OF exAcme_ready _ _ _ _ _ r, of "''cert''" "''key''" "[exAcmeEnv True False, exAcmeEnv True False]"]
    by (simp add: r exEmpty exCert_good Let_def)
qed

definition exCached :: fs where
  "exCached = [cacheCertFile (exAcmeConfig True) ''production'' \<mapsto> ''cert'', cacheKeyFile (exAcmeConfig True) ''production'' \<mapsto> ''key'']"

lemma exCached_usable: "usableCached exAcme (exAcmeConfig True) 0 exCached = Some (''cert'', ''key'')"
  by (simp add: usableCached_def Let_def exCached_def cert_paths_distinct cert_paths_distinct [symmetric] caSlug_def caDirURL_def exAcme_def exCert_def
      exAcmeConfig_def coversDomain_def equalFold_def renewBefore_def)

text \<open>
  The cached pair cannot be put in place, since writing its certificate fails, and the one ordered then
  cannot either.
\<close>

definition exFailing :: "(string \<Rightarrow> bool) \<Rightarrow> write_plan" where
  "exFailing bad = exPlan\<lparr>wp_faults := (\<lambda>p. if bad p then wf_fine\<lparr>wf_rename := True\<rparr> else wf_fine)\<rparr>"

definition exCutShort :: acme_env where
  "exCutShort = (exAcmeEnv True False)\<lparr>ae_promote := exFailing (\<lambda>p. p = certFile (exAcmeConfig True)),
     ae_issue := exFailing (\<lambda>p. p = certFile (exAcmeConfig True)), ae_obtain := (\<lambda>_. Some (''cert2'', ''key2''))\<rparr>"

lemma exFailing_ok: "tmp_doc (exAcmeConfig production) (exFailing bad)"
  using exPlan_ok(2) [of production] by (simp add: tmp_doc_def exFailing_def)

lemma exCutShort_simps:
  "ae_loadCfg exCutShort = Some (exAcmeConfig True)" "ae_now exCutShort = 0" "ae_obtain exCutShort c = Some (''cert2'', ''key2'')"
  "ae_promote exCutShort = exFailing (\<lambda>p. p = certFile (exAcmeConfig True))" "ae_issue exCutShort = exFailing (\<lambda>p. p = certFile (exAcmeConfig True))"
  "ae_cache exCutShort = exPlan"
  by (simp_all add: exCutShort_def)

definition exPairs :: "string \<Rightarrow> string \<Rightarrow> bool" where
  "exPairs cert key \<longleftrightarrow> (cert, key) \<in> {(''cert'', ''key''), (''cert2'', ''key2'')}"


text \<open>The mismatch: the directory cannot be written, and then not the certificate.\<close>

definition exGivenUp :: acme_env where
  "exGivenUp = exCutShort\<lparr>ae_promote := exFailing (\<lambda>p. p = caFile (exAcmeConfig True))\<rparr>"

theorem given_up_promotion_mismatch_witness:
  "\<exists>m'. fst (snd (acme_reconcile exAcme exGivenUp (exManager (exCached(caFile (exAcmeConfig True) \<mapsto> ''P''))))) = m' \<and>
     mg_fs m' (certFile (exAcmeConfig True)) = Some ''cert'' \<and> mg_fs m' (keyFile (exAcmeConfig True)) = Some ''key2'' \<and>
     mg_fs (fst (snd (acme_reconcile exAcme (exAcmeEnv True False) m'))) = mg_fs m'"
proof -
  let ?c = "exAcmeConfig True" and ?fs = "exCached(caFile (exAcmeConfig True) \<mapsto> ''P'')"
  obtain wait m' tr where r: "acme_reconcile exAcme exGivenUp (exManager ?fs) = (wait, m', tr)"
    by (cases "acme_reconcile exAcme exGivenUp (exManager ?fs)")
  have f: "needsIssue exAcme ?c 0 ?fs \<noteq> None" "usableCached exAcme ?c 0 ?fs = Some (''cert'', ''key'')"
    "?fs (caFile ?c) = Some (caDirURL exAcme ?c)"
    using exCached_usable
    by (simp_all add: needsIssue_def usableCached_def Let_def exCached_def cert_paths_distinct cert_paths_distinct [symmetric])
      (simp_all add: caDirURL_def exAcme_def exAcmeConfig_def)
  have e: "cf_enabled ?c" "lookupProvider (cf_provider ?c) \<noteq> None" using exProvider by (simp_all add: exAcmeConfig_def)
  have g: "ae_loadCfg exGivenUp = Some ?c" "ae_now exGivenUp = 0" "ae_obtain exGivenUp x = Some (''cert2'', ''key2'')"
    "ae_promote exGivenUp = exFailing (\<lambda>p. p = caFile ?c)" "ae_issue exGivenUp = exFailing (\<lambda>p. p = certFile ?c)" for x
    by (simp_all add: exGivenUp_def exCutShort_simps)
  have fails: "write_fails (wp_faults (exFailing b) q) \<longleftrightarrow> b q" "\<not> wp_mkdir (exFailing b)" for b q
    by (simp_all add: exFailing_def write_fails_def wf_fine_def exPlan_def)
  note th = given_up_promotion_mismatch [of exGivenUp ?c exAcme "exManager ?fs" "''cert''" "''key''" "''cert2''" "''key2''" wait m' tr "exAcmeEnv True False"]
  show ?thesis using th r f e
    by (simp add: g fails exFailing_ok exCert_good cert_paths_distinct cert_paths_distinct [symmetric] del: not_None_eq)
qed

theorem switching_back_orders_nothing_witness:
  "let m1 = fst (snd (acme_reconcile exAcme (exAcmeEnv False False) (exManager exCached)));
       m2 = fst (snd (acme_reconcile exAcme (exAcmeEnv True False) m1)) in mg_orders m2 = mg_orders m1"
  unfolding Let_def
  by (rule switching_back_orders_nothing [where L = exAcme and a = "exAcmeConfig True" and b = "exAcmeConfig False" and evA = "exAcmeEnv True False"
        and evB = "exAcmeEnv False False" and m = "exManager exCached" and cert = "''cert''" and key = "''key''", THEN conjunct1])
    (simp_all add: exCached_usable exPlan_ok exAcme_ready, simp_all add: exAcmeConfig_def caSlug_def caDirURL_def exAcme_def)

section \<open>Further facts\<close>

text \<open>The names users may write are all registered.\<close>

lemma aliases_registered: "list_all (\<lambda>(a, c). canonical_provider a = c \<and> lookupProvider a \<noteq> None) acme_aliases"
  by code_simp

text \<open>A large number of days wraps around to a negative window, in which no certificate is ever renewed.\<close>

lemma renew_window_wraps: "renewBefore ((exAcmeConfig True)\<lparr>cf_renewBeforeDays := 106752\<rparr>) < 0"
  by (simp add: renewBefore_def exAcmeConfig_def)

text \<open>A certificate that ran out within the last day has no days remaining, not a negative number.\<close>

lemma days_remaining_expired: "daysRemaining (zeroStatus\<lparr>cs_present := True, cs_notAfter := 0\<rparr>) (3600 * 1000000000) = 0"
  by code_simp

text \<open>An account key that was written in part is never replaced.\<close>

lemma account_key_stuck:
  assumes "fs path = None" "\<not> ak_mkdir k" "ak_new k = Some (key, pem)" "\<not> ak_open k" "ak_write k" "al_pem L (ak_partial k) = None"
    and "loadOrCreateAccountKey L k path fs = (res, fs')"
  shows "res = Inl KeyWriteErr \<and> loadOrCreateAccountKey L k2 path fs' = (Inl KeyNotPEM, fs')"
  using assms by (auto simp: loadOrCreateAccountKey_def)

text \<open>A key file that was created but not written is taken for a complete pair at the next start.\<close>

lemma truncated_key_kept:
  assumes "ensureSelfSignedCert se dir fs = (Some (PemWriteErr (snd (certPaths dir))), tr)"
  shows "ensureSelfSignedCert se2 dir (last tr) = (None, [last tr]) \<and> last tr (snd (certPaths dir)) = Some (ss_partial se)"
  using assms by (auto simp: ensureSelfSignedCert_def certPaths_def writePEM_def split: if_splits option.splits)

text \<open>The placeholder is replaced: with it in place a certificate is due.\<close>

lemma placeholder_replaced:
  assumes "ensureSelfSignedCert se (cf_configDir c) fs = (None, tr)" "ss_new se = Some (cert, key)" "fs (keyFile c) = None"
    and "al_pem L cert = Some block" "al_parse L block = Some x" "xc_issuer x = xc_subject x"
  shows "needsIssue L c now (last tr) = Some SelfSignedPlaceholder"
  using assms by (auto simp: ensureSelfSignedCert_def certPaths_def writePEM_def needsIssue_def certFile_def keyFile_def split: if_splits)

end
