(* ===== verification/Mdns_Advertise.thy ===== *)
theory Mdns_Advertise
  imports Validate "HOL-Library.AList" "HOL-Library.Multiset"
begin

text \<open>
  The server announces its own DNS service: \<^verbatim>\<open>plugins/mdnsadvertise\<close> and its responder. The
  advertiser brings the registrations in line with the settings; each registration and each
  withdrawal is a goroutine of its own, so the model keeps the ones in flight, and a run is a
  sequence of reconciliations and of goroutines that finish, in any order. The responder of the
  \<^verbatim>\<open>dnssd\<close> package enters through what \<^verbatim>\<open>mdnsresponder/responder.go\<close> relies on: adding a service hands
  out a new handle, removing the handle withdraws the service, adding may fail. (A comment in
  \<^verbatim>\<open>services.go\<close> says that registrations are keyed by the instance name alone; the code withdraws by
  handle. The two differ only where one name is registered twice at a time, which happens only
  while a changed service waits for the withdrawal of its predecessor or when reconciliations for
  the same service overlap; then the model has both announced until the handle of one is removed.)

  Shown: the services announced are exactly the ones the settings ask for once everything in
  flight is finished, if no reconciliation starts while a registration is in flight; and what
  goes wrong if one does: services that are no longer wanted are announced.
\<close>

section \<open>The services wanted\<close>

definition trimPrefix :: "string \<Rightarrow> string \<Rightarrow> string" where
  "trimPrefix s p = (if hasPrefix s p then drop (length p) s else s)"

fun replaceAll :: "string \<Rightarrow> string \<Rightarrow> string \<Rightarrow> string" where
  "replaceAll old new [] = []"
| "replaceAll old new (c # s) =
     (if old \<noteq> [] \<and> hasPrefix (c # s) old then new @ replaceAll old new (drop (length old - 1) s)
      else c # replaceAll old new s)"

record serviceSpec =
  sp_name :: string
  sp_type :: string
  sp_port :: "16 word"
  sp_txt :: "(string \<times> string) list"

definition instanceNamePrefix :: string where "instanceNamePrefix = ''BrambleGate''"

definition instanceNameFor :: "string \<Rightarrow> string" where
  "instanceNameFor serviceType =
     (let label = trimSuffix serviceType ''.local'';
          label = trimPrefix label ''_'';
          label = replaceAll ''._'' ''-'' label in
      instanceNamePrefix @ ''-'' @ label)"

definition desiredServices :: "settings \<Rightarrow> serviceSpec list" where
  "desiredServices s =
     (if ln_enabled (ls_plain (st_listeners s))
      then let port = word_of_int (ln_port (ls_plain (st_listeners s))) in
        map (\<lambda>serviceType. \<lparr>sp_name = instanceNameFor serviceType, sp_type = serviceType, sp_port = port, sp_txt = []\<rparr>)
          [''_domain._udp.local'', ''_domain._tcp.local'']
      else []) @
     (if ln_enabled (ls_dot (st_listeners s))
      then let serviceType = ''_dot._tcp.local'';
               txt = [(''alpn'', ''dot'')];
               txt = (if acme_domain (st_acme s) \<noteq> [] then txt @ [(''domain'', acme_domain (st_acme s))] else txt) in
        [\<lparr>sp_name = instanceNameFor serviceType, sp_type = serviceType,
          sp_port = word_of_int (ln_port (ls_dot (st_listeners s))), sp_txt = txt\<rparr>]
      else [])"

definition txtFingerprint :: "(string \<times> string) list \<Rightarrow> string" where
  "txtFingerprint txt =
     concat (map (\<lambda>k. k @ ''='' @ (case map_of txt k of None \<Rightarrow> [] | Some v \<Rightarrow> v) @ '';'') (sort (map fst txt)))"

section \<open>The advertiser\<close>

record registeredService =
  rg_port :: "16 word"
  rg_txt :: string
  rg_handle :: nat

text \<open>
  \<open>ad_tracked\<close> is the map of the source; \<open>ad_reg\<close> and \<open>ad_unreg\<close> are the goroutines that wait
  for the responder (what a goroutine that calls the responder does after it returns, changing the
  map under the lock, is one step with the return); \<open>ad_live\<close> is what the responder announces, under its handles, and \<open>ad_next\<close>
  the next handle it gives out.
\<close>

record advertiser =
  ad_tracked :: "(string \<times> registeredService) list"
  ad_reg :: "(serviceSpec \<times> registeredService) list"
  ad_unreg :: "registeredService list"
  ad_live :: "(nat \<times> serviceSpec) list"
  ad_next :: nat

definition ad_new :: advertiser where
  "ad_new = \<lparr>ad_tracked = [], ad_reg = [], ad_unreg = [], ad_live = [], ad_next = 0\<rparr>"

definition unregisterLocked :: "string \<Rightarrow> advertiser \<Rightarrow> advertiser" where
  "unregisterLocked serviceType a =
     (case map_of (ad_tracked a) serviceType of
        None \<Rightarrow> a\<lparr>ad_tracked := AList.delete serviceType (ad_tracked a)\<rparr>
      | Some tracked \<Rightarrow> a\<lparr>ad_tracked := AList.delete serviceType (ad_tracked a), ad_unreg := ad_unreg a @ [tracked]\<rparr>)"

definition registerLocked :: "serviceSpec \<Rightarrow> registeredService \<Rightarrow> advertiser \<Rightarrow> advertiser" where
  "registerLocked spec want a = a\<lparr>ad_reg := ad_reg a @ [(spec, want)]\<rparr>"

definition wantFor :: "serviceSpec \<Rightarrow> registeredService" where
  "wantFor spec = \<lparr>rg_port = sp_port spec, rg_txt = txtFingerprint (sp_txt spec), rg_handle = 0\<rparr>"

definition reconcileSpec :: "serviceSpec \<Rightarrow> advertiser \<Rightarrow> advertiser" where
  "reconcileSpec spec a =
     (let want = wantFor spec in
      case map_of (ad_tracked a) (sp_type spec) of
        Some cur \<Rightarrow>
          if rg_port cur = rg_port want \<and> rg_txt cur = rg_txt want then a
          else registerLocked spec want (unregisterLocked (sp_type spec) a)
      | None \<Rightarrow> registerLocked spec want a)"

definition ad_reconcile :: "settings \<Rightarrow> advertiser \<Rightarrow> advertiser" where
  "ad_reconcile settings a =
     (let wanted = desiredServices settings;
          gone = filter (\<lambda>t. t \<notin> set (map sp_type wanted)) (map fst (ad_tracked a)) in
      fold reconcileSpec wanted (fold unregisterLocked gone a))"

text \<open>
  The goroutine of a registration: the responder adds the service or fails, and then the
  tracked map is changed under the lock. The goroutine of a withdrawal: the responder removes
  the handle; its error is only logged, and the handles given to it are the responder's own.
\<close>

definition drop_nth :: "nat \<Rightarrow> 'a list \<Rightarrow> 'a list" where
  "drop_nth i xs = take i xs @ drop (Suc i) xs"

definition finishRegister :: "nat \<Rightarrow> bool \<Rightarrow> advertiser \<Rightarrow> advertiser" where
  "finishRegister i ok a =
     (case ad_reg a ! i of (spec, want) \<Rightarrow>
        let a' = a\<lparr>ad_reg := drop_nth i (ad_reg a)\<rparr> in
        if \<not> ok then a'\<lparr>ad_tracked := AList.delete (sp_type spec) (ad_tracked a)\<rparr>
        else a'\<lparr>ad_live := (ad_next a, spec) # ad_live a, ad_next := Suc (ad_next a),
                ad_tracked := AList.update (sp_type spec) (want\<lparr>rg_handle := ad_next a\<rparr>) (ad_tracked a)\<rparr>)"

definition finishUnregister :: "nat \<Rightarrow> advertiser \<Rightarrow> advertiser" where
  "finishUnregister i a =
     a\<lparr>ad_unreg := drop_nth i (ad_unreg a), ad_live := AList.delete (rg_handle (ad_unreg a ! i)) (ad_live a)\<rparr>"

text \<open>\<^verbatim>\<open>Close\<close> ends the responder, which withdraws everything it announces.\<close>

definition ad_close :: "advertiser \<Rightarrow> advertiser" where
  "ad_close a = a\<lparr>ad_live := []\<rparr>"

section \<open>Runs\<close>

datatype adv_event = Reconcile settings | Registered nat bool | Unregistered nat

inductive adv_step :: "adv_event \<Rightarrow> advertiser \<Rightarrow> advertiser \<Rightarrow> bool" where
  reconciles: "adv_step (Reconcile s) a (ad_reconcile s a)"
| registers: "i < length (ad_reg a) \<Longrightarrow> adv_step (Registered i ok) a (finishRegister i ok a)"
| unregisters: "i < length (ad_unreg a) \<Longrightarrow> adv_step (Unregistered i) a (finishUnregister i a)"

inductive adv_run :: "adv_event list \<Rightarrow> advertiser \<Rightarrow> advertiser \<Rightarrow> bool" where
  run_nil: "adv_run [] a a"
| run_step: "adv_step e a b \<Longrightarrow> adv_run es b c \<Longrightarrow> adv_run (e # es) a c"

text \<open>
  A run in which no reconciliation starts while a registration is in flight, with the settings
  last reconciled and the service types whose registration has failed since.
\<close>

inductive orderly :: "settings \<Rightarrow> string set \<Rightarrow> advertiser \<Rightarrow> bool" where
  starts: "orderly s {} (ad_reconcile s ad_new)"
| again: "orderly s0 F a \<Longrightarrow> ad_reg a = [] \<Longrightarrow> orderly s {} (ad_reconcile s a)"
| registered: "orderly s F a \<Longrightarrow> i < length (ad_reg a) \<Longrightarrow> orderly s F (finishRegister i True a)"
| refused: "orderly s F a \<Longrightarrow> i < length (ad_reg a) \<Longrightarrow>
    orderly s (insert (sp_type (fst (ad_reg a ! i))) F) (finishRegister i False a)"
| withdrawn: "orderly s F a \<Longrightarrow> i < length (ad_unreg a) \<Longrightarrow> orderly s F (finishUnregister i a)"

inductive_cases adv_stepE: "adv_step e a b"

inductive_simps adv_step_simps:
  "adv_step (Reconcile s) a b" "adv_step (Registered i ok) a b" "adv_step (Unregistered i) a b"


section \<open>What the settings determine\<close>

lemma service_types:
  "map sp_type (desiredServices s) =
     (if ln_enabled (ls_plain (st_listeners s)) then [''_domain._udp.local'', ''_domain._tcp.local''] else []) @
     (if ln_enabled (ls_dot (st_listeners s)) then [''_dot._tcp.local''] else [])"
  by (simp add: desiredServices_def Let_def)

lemma desired_types_distinct: "distinct (map sp_type (desiredServices s))"
  by (simp add: service_types)

lemma desired_name: "sp \<in> set (desiredServices s) \<Longrightarrow> sp_name sp = instanceNameFor (sp_type sp)"
  by (auto simp: desiredServices_def Let_def split: if_splits)

lemma instance_names:
  "instanceNameFor ''_domain._udp.local'' = ''BrambleGate-domain-udp''"
  "instanceNameFor ''_domain._tcp.local'' = ''BrambleGate-domain-tcp''"
  "instanceNameFor ''_dot._tcp.local'' = ''BrambleGate-dot-tcp''"
  by code_simp+

text \<open>
  According to \<^verbatim>\<open>services.go\<close> the responder keys registrations by the instance name, so no two services
  may share one.
\<close>

lemma instance_names_distinct: "distinct (map sp_name (desiredServices s))"
  by (auto simp: desiredServices_def Let_def instance_names)

lemma fingerprints:
  "txtFingerprint [] = []" "txtFingerprint [(''alpn'', ''dot'')] = ''alpn=dot;''"
  "txtFingerprint [(''alpn'', ''dot''), (''domain'', d)] = ''alpn=dot;domain='' @ d @ '';''"
  by (simp_all add: txtFingerprint_def)

lemma desired_txt:
  "sp \<in> set (desiredServices s) \<Longrightarrow>
     sp_type sp \<in> {''_domain._udp.local'', ''_domain._tcp.local''} \<and> sp_txt sp = [] \<or>
     sp_type sp = ''_dot._tcp.local'' \<and>
       (sp_txt sp = [(''alpn'', ''dot'')] \<or> (\<exists>d. d \<noteq> [] \<and> sp_txt sp = [(''alpn'', ''dot''), (''domain'', d)]))"
  by (auto simp: desiredServices_def Let_def split: if_splits)

text \<open>
  The fingerprint tells the records of any two wanted services of a type apart, so a service is
  determined by its type, its port and the fingerprint.
\<close>

lemma fingerprint_decides:
  assumes "sp \<in> set (desiredServices s)" "sp' \<in> set (desiredServices s')" "sp_type sp = sp_type sp'"
    "sp_port sp = sp_port sp'" "txtFingerprint (sp_txt sp) = txtFingerprint (sp_txt sp')"
  shows "sp = sp'"
proof -
  have "sp_txt sp = sp_txt sp'"
    using desired_txt [OF assms(1)] desired_txt [OF assms(2)] assms(3, 5)
    by (auto simp: fingerprints)
  then show ?thesis using desired_name [OF assms(1)] desired_name [OF assms(2)] assms(3, 4) by simp
qed

text \<open>Validated settings announce the ports they listen on: the conversion loses nothing.\<close>

lemma validated_port_kept:
  assumes "validateListeners (st_listeners s) = None"
  shows "ln_enabled (ls_plain (st_listeners s)) \<Longrightarrow> uint (word_of_int (ln_port (ls_plain (st_listeners s))) :: 16 word) = ln_port (ls_plain (st_listeners s))"
    and "ln_enabled (ls_dot (st_listeners s)) \<Longrightarrow> uint (word_of_int (ln_port (ls_dot (st_listeners s))) :: 16 word) = ln_port (ls_dot (st_listeners s))"
  using assms by (auto simp: validateListeners_def named_listeners_def err_simps uint_word_of_int)

section \<open>One reconciliation\<close>

definition matches_spec :: "registeredService \<Rightarrow> serviceSpec \<Rightarrow> bool" where
  "matches_spec r sp = (rg_port r = sp_port sp \<and> rg_txt r = txtFingerprint (sp_txt sp))"

lemma matches_spec_simps [simp]:
  "matches_spec (wantFor sp) sp" "matches_spec (r\<lparr>rg_handle := h\<rparr>) sp = matches_spec r sp"
  by (simp_all add: matches_spec_def wantFor_def)

text \<open>The handles the advertiser can still withdraw: the tracked ones and the ones in flight.\<close>

definition held :: "advertiser \<Rightarrow> nat multiset" where
  "held a = mset (map (rg_handle \<circ> snd) (ad_tracked a)) + mset (map rg_handle (ad_unreg a))"

lemma delete_filter: "AList.delete k xs = filter (\<lambda>(k', _). k' \<noteq> k) xs"
  by (auto simp: AList.delete_eq case_prod_unfold intro!: filter_cong)

lemma delete_absent: "k \<notin> fst ` set xs \<Longrightarrow> AList.delete k xs = xs"
  by (force simp: delete_filter intro!: filter_True)

lemma mset_delete:
  assumes "distinct (map fst xs)" "(k, v) \<in> set xs"
  shows "image_mset f (mset xs) = add_mset (f (k, v)) (image_mset f (mset (AList.delete k xs)))"
  using assms
proof (induction xs)
  case (Cons x xs)
  show ?case
  proof (cases "x = (k, v)")
    case True
    then show ?thesis using Cons.prems delete_absent [of k xs] by auto
  next
    case False
    then have "(k, v) \<in> set xs" and "fst x \<noteq> k" using Cons.prems by (auto simp: rev_image_eqI)
    then show ?thesis using Cons by (cases x) simp
  qed
qed simp

lemma unregisterLocked_frame [simp]:
  "ad_reg (unregisterLocked t a) = ad_reg a" "ad_live (unregisterLocked t a) = ad_live a"
  "ad_next (unregisterLocked t a) = ad_next a"
  "ad_tracked (unregisterLocked t a) = AList.delete t (ad_tracked a)"
  by (simp_all add: unregisterLocked_def split: option.splits)

lemma held_unregister [simp]:
  "distinct (map fst (ad_tracked a)) \<Longrightarrow> held (unregisterLocked t a) = held a"
  by (auto simp: held_def unregisterLocked_def delete_absent map_of_eq_None_iff
      mset_delete [where f = "rg_handle \<circ> snd" and k = t] split: option.splits)

lemma registerLocked_frame [simp]:
  "ad_tracked (registerLocked sp w a) = ad_tracked a" "ad_live (registerLocked sp w a) = ad_live a"
  "ad_next (registerLocked sp w a) = ad_next a" "ad_reg (registerLocked sp w a) = ad_reg a @ [(sp, w)]"
  "held (registerLocked sp w a) = held a"
  by (simp_all add: held_def registerLocked_def)

lemma unregister_gone:
  assumes "distinct (map fst (ad_tracked a))"
  shows "ad_tracked (fold unregisterLocked ts a) = filter (\<lambda>(t, _). t \<notin> set ts) (ad_tracked a)"
    and "held (fold unregisterLocked ts a) = held a"
    and "ad_reg (fold unregisterLocked ts a) = ad_reg a" "ad_live (fold unregisterLocked ts a) = ad_live a"
    and "ad_next (fold unregisterLocked ts a) = ad_next a"
  using assms
  by (induction ts arbitrary: a)
     (auto simp: delete_filter distinct_map_filter case_prod_unfold intro: filter_cong)


definition already :: "advertiser \<Rightarrow> serviceSpec \<Rightarrow> bool" where
  "already a sp = (\<exists>r. (sp_type sp, r) \<in> set (ad_tracked a) \<and> matches_spec r sp)"

lemma reconcileSpec_alt:
  assumes "distinct (map fst (ad_tracked a))"
  shows "reconcileSpec sp a = (if already a sp then a else registerLocked sp (wantFor sp) (unregisterLocked (sp_type sp) a))"
proof (cases "map_of (ad_tracked a) (sp_type sp)")
  case None
  then have "\<not> already a sp" "AList.delete (sp_type sp) (ad_tracked a) = ad_tracked a"
    by (force simp: already_def map_of_eq_None_iff delete_absent)+
  then show ?thesis using None by (simp add: reconcileSpec_def unregisterLocked_def)
next
  case (Some cur)
  then have "already a sp \<longleftrightarrow> matches_spec cur sp"
    using assms unfolding already_def by (metis map_of_SomeD map_of_is_SomeI option.inject)
  then show ?thesis using Some by (simp add: reconcileSpec_def matches_spec_def wantFor_def Let_def)
qed

definition keeps :: "serviceSpec list \<Rightarrow> string \<times> registeredService \<Rightarrow> bool" where
  "keeps ws = (\<lambda>(t, r). \<forall>sp\<in>set ws. sp_type sp = t \<longrightarrow> matches_spec r sp)"

lemma reconcileSpec_step:
  assumes "distinct (map fst (ad_tracked a))"
  shows "ad_tracked (reconcileSpec sp a) = filter (keeps [sp]) (ad_tracked a)"
    and "ad_reg (reconcileSpec sp a) = ad_reg a @ (if already a sp then [] else [(sp, wantFor sp)])"
    and "held (reconcileSpec sp a) = held a" "ad_live (reconcileSpec sp a) = ad_live a" "ad_next (reconcileSpec sp a) = ad_next a"
proof -
  show "ad_tracked (reconcileSpec sp a) = filter (keeps [sp]) (ad_tracked a)"
  proof (cases "already a sp")
    case True
    then have "\<forall>x\<in>set (ad_tracked a). keeps [sp] x"
      using assms by (auto simp: already_def keeps_def dest: eq_key_imp_eq_value)
    then show ?thesis using True by (simp add: reconcileSpec_alt [OF assms] filter_True)
  next
    case False
    then have "filter (keeps [sp]) (ad_tracked a) = AList.delete (sp_type sp) (ad_tracked a)"
      by (auto simp: delete_filter already_def keeps_def intro!: filter_cong)
    then show ?thesis using False by (simp add: reconcileSpec_alt [OF assms])
  qed
qed (use assms in \<open>simp_all add: reconcileSpec_alt\<close>)

lemma already_filter:
  "sp_type sp \<noteq> sp_type sp' \<Longrightarrow> already (reconcileSpec sp a) sp' = already a sp'"
  by (auto simp: already_def reconcileSpec_def Let_def registerLocked_def unregisterLocked_def delete_filter split: option.splits)

lemma reconcile_wanted:
  assumes "distinct (map fst (ad_tracked a))" "distinct (map sp_type ws)"
  shows "ad_tracked (fold reconcileSpec ws a) = filter (keeps ws) (ad_tracked a) \<and>
    ad_reg (fold reconcileSpec ws a) = ad_reg a @ map (\<lambda>sp. (sp, wantFor sp)) (filter (\<lambda>sp. \<not> already a sp) ws) \<and>
    held (fold reconcileSpec ws a) = held a \<and> ad_live (fold reconcileSpec ws a) = ad_live a \<and>
    ad_next (fold reconcileSpec ws a) = ad_next a"
  using assms
proof (induction ws arbitrary: a)
  case (Cons sp ws)
  let ?b = "reconcileSpec sp a"
  have dist: "distinct (map fst (ad_tracked ?b))" using Cons.prems by (simp add: reconcileSpec_step distinct_map_filter)
  have rest: "filter (\<lambda>x. \<not> already ?b x) ws = filter (\<lambda>x. \<not> already a x) ws"
    using Cons.prems(2) by (intro filter_cong refl) (metis already_filter distinct.simps(2) image_eqI list.map(2) list.set_map)
  have keeps: "(\<lambda>x. keeps [sp] x \<and> keeps ws x) = keeps (sp # ws)" by (auto simp: keeps_def)
  show ?case using Cons.IH [OF dist] Cons.prems rest by (simp add: reconcileSpec_step keeps)
qed (simp add: keeps_def case_prod_unfold)

text \<open>What a reconciliation does, in one step.\<close>

lemma ad_reconcile_exact:
  assumes dist: "distinct (map fst (ad_tracked a))"
  shows "ad_tracked (ad_reconcile s a) = filter (\<lambda>(t, r). \<exists>sp\<in>set (desiredServices s). sp_type sp = t \<and> matches_spec r sp) (ad_tracked a)"
    and "ad_reg (ad_reconcile s a) = ad_reg a @ map (\<lambda>sp. (sp, wantFor sp)) (filter (\<lambda>sp. \<not> already a sp) (desiredServices s))"
    and "held (ad_reconcile s a) = held a" "ad_live (ad_reconcile s a) = ad_live a" "ad_next (ad_reconcile s a) = ad_next a"
proof -
  let ?ws = "desiredServices s"
  let ?gone = "filter (\<lambda>t. t \<notin> set (map sp_type ?ws)) (map fst (ad_tracked a))"
  let ?b = "fold unregisterLocked ?gone a"
  note ws = desired_types_distinct [of s]
  have trk: "ad_tracked ?b = filter (\<lambda>(t, _). t \<in> set (map sp_type ?ws)) (ad_tracked a)"
    unfolding unregister_gone(1) [OF dist] by (intro filter_cong) (auto simp: rev_image_eqI)
  have distb: "distinct (map fst (ad_tracked ?b))" unfolding trk by (rule distinct_map_filter [OF dist])
  have al: "filter (\<lambda>sp. \<not> already ?b sp) ?ws = filter (\<lambda>sp. \<not> already a sp) ?ws"
    unfolding already_def trk by (intro filter_cong) auto
  note defs = ad_reconcile_def Let_def
  have wanted: "ad_tracked (fold reconcileSpec ?ws ?b) = filter (keeps ?ws) (ad_tracked ?b)"
      "ad_reg (fold reconcileSpec ?ws ?b) = ad_reg ?b @ map (\<lambda>sp. (sp, wantFor sp)) (filter (\<lambda>sp. \<not> already ?b sp) ?ws)"
      "held (fold reconcileSpec ?ws ?b) = held ?b" "ad_live (fold reconcileSpec ?ws ?b) = ad_live ?b"
      "ad_next (fold reconcileSpec ?ws ?b) = ad_next ?b"
    using reconcile_wanted [OF distb ws] by blast+
  show "ad_tracked (ad_reconcile s a) = filter (\<lambda>(t, r). \<exists>sp\<in>set ?ws. sp_type sp = t \<and> matches_spec r sp) (ad_tracked a)"
    unfolding defs wanted(1) trk filter_filter
  proof (intro filter_cong refl)
    fix x :: "string \<times> registeredService"
    have one: "sp = sp'" if "sp \<in> set ?ws" "sp' \<in> set ?ws" "sp_type sp = sp_type sp'" for sp sp'
      using ws that by (simp add: distinct_map inj_on_def)
    obtain t r where x: "x = (t, r)" by (cases x)
    show "((case x of (t, _) \<Rightarrow> t \<in> set (map sp_type ?ws)) \<and> keeps ?ws x) =
        (case x of (t, r) \<Rightarrow> \<exists>sp\<in>set ?ws. sp_type sp = t \<and> matches_spec r sp)"
      unfolding x keeps_def prod.case set_map by (metis (no_types, lifting) one imageE imageI)
  qed
  show "ad_reg (ad_reconcile s a) = ad_reg a @ map (\<lambda>sp. (sp, wantFor sp)) (filter (\<lambda>sp. \<not> already a sp) ?ws)"
    unfolding defs wanted(2) al unregister_gone(3) [OF dist] ..
  show "held (ad_reconcile s a) = held a" "ad_live (ad_reconcile s a) = ad_live a" "ad_next (ad_reconcile s a) = ad_next a"
    unfolding defs wanted(3-5) unregister_gone(2,4,5) [OF dist] by (rule refl)+
qed


section \<open>Orderly runs\<close>

text \<open>
  The state between the steps of an orderly run: handles are accounted for, the services tracked
  are announced, a service is tracked, in flight or refused exactly if it is wanted.
\<close>

definition tracks :: "advertiser \<Rightarrow> string \<Rightarrow> registeredService \<Rightarrow> bool" where
  "tracks a t r = (\<exists>sp s. (rg_handle r, sp) \<in> set (ad_live a) \<and> sp_type sp = t \<and> matches_spec r sp \<and> sp \<in> set (desiredServices s))"

definition accounted :: "advertiser \<Rightarrow> bool" where
  "accounted a = (distinct (map fst (ad_tracked a)) \<and> distinct (map fst (ad_live a)) \<and>
     (\<forall>h\<in>fst ` set (ad_live a). h < ad_next a) \<and> mset (map fst (ad_live a)) = held a \<and>
     (\<forall>(t, r)\<in>set (ad_tracked a). tracks a t r))"

definition reg_types :: "advertiser \<Rightarrow> string list" where
  "reg_types a = map (sp_type \<circ> fst) (ad_reg a)"

definition on_course :: "settings \<Rightarrow> string set \<Rightarrow> advertiser \<Rightarrow> bool" where
  "on_course s F a = (distinct (reg_types a) \<and>
     (\<forall>(sp, w)\<in>set (ad_reg a). sp \<in> set (desiredServices s) \<and> matches_spec w sp \<and> sp_type sp \<notin> F \<and> sp_type sp \<notin> fst ` set (ad_tracked a)) \<and>
     (\<forall>(t, r)\<in>set (ad_tracked a). t \<notin> F \<and> (\<exists>sp\<in>set (desiredServices s). sp_type sp = t \<and> matches_spec r sp)) \<and>
     (\<forall>sp\<in>set (desiredServices s). sp_type sp \<in> fst ` set (ad_tracked a) \<union> set (reg_types a) \<union> F))"

lemma accounted_tracks: "accounted a \<Longrightarrow> (t, r) \<in> set (ad_tracked a) \<Longrightarrow> tracks a t r"
  unfolding accounted_def by fast

lemma accounted_new: "accounted ad_new"
  by (simp add: accounted_def ad_new_def held_def)

lemma accounted_reconcile: "accounted a \<Longrightarrow> accounted (ad_reconcile s a)"
  unfolding accounted_def by (auto simp: ad_reconcile_exact distinct_map_filter tracks_def)

lemma on_course_reconcile:
  assumes "accounted a" "ad_reg a = []"
  shows "on_course s {} (ad_reconcile s a)"
proof -
  have dist: "distinct (map fst (ad_tracked a))" using assms by (simp add: accounted_def)
  note ex = ad_reconcile_exact [OF dist, of s]
  have types: "reg_types (ad_reconcile s a) = map sp_type (filter (\<lambda>sp. \<not> already a sp) (desiredServices s))"
    by (simp add: reg_types_def ex assms(2))
  have one: "sp = sp'" if "sp \<in> set (desiredServices s)" "sp' \<in> set (desiredServices s)" "sp_type sp = sp_type sp'" for sp sp'
    using desired_types_distinct [of s] that by (simp add: distinct_map inj_on_def)
  have tr: "sp_type sp \<in> fst ` set (ad_tracked (ad_reconcile s a)) \<longleftrightarrow> already a sp" if "sp \<in> set (desiredServices s)" for sp
    unfolding ex(1) already_def using that one by (auto simp: image_iff)
  show ?thesis
    unfolding on_course_def
    using desired_types_distinct [of s] tr
    by (auto simp: types ex(2) assms(2) distinct_map_filter) (auto simp: ex(1))
qed

lemma drop_nth_mset: "i < length xs \<Longrightarrow> mset xs = add_mset (xs ! i) (mset (drop_nth i xs))"
  by (subst id_take_nth_drop) (simp_all add: drop_nth_def)

lemma drop_nth_map: "map f (drop_nth i xs) = drop_nth i (map f xs)"
  by (simp add: drop_nth_def take_map drop_map)

lemma drop_nth_subset: "set (drop_nth i xs) \<subseteq> set xs"
  by (auto simp: drop_nth_def dest: in_set_takeD in_set_dropD)

lemma drop_nth_distinct:
  "i < length xs \<Longrightarrow> distinct xs \<longleftrightarrow> distinct (drop_nth i xs) \<and> xs ! i \<notin> set (drop_nth i xs)"
  by (subst (1) id_take_nth_drop) (auto simp: drop_nth_def)

lemma drop_nth_set: "i < length xs \<Longrightarrow> set xs = insert (xs ! i) (set (drop_nth i xs))"
  using arg_cong [OF drop_nth_mset, of i xs set_mset] by simp


lemma update_absent: "k \<notin> fst ` set xs \<Longrightarrow> AList.update k v xs = xs @ [(k, v)]"
  by (induction xs) auto

text \<open>A registration in flight: what is known of it, and the others.\<close>

lemma in_flight:
  assumes "on_course s F a" "i < length (ad_reg a)" "ad_reg a ! i = (sp, w)"
  shows "sp \<in> set (desiredServices s)" "matches_spec w sp" "sp_type sp \<notin> F" "sp_type sp \<notin> fst ` set (ad_tracked a)"
    and "set (reg_types a) = insert (sp_type sp) (set (map (sp_type \<circ> fst) (drop_nth i (ad_reg a))))"
    and "distinct (map (sp_type \<circ> fst) (drop_nth i (ad_reg a)))"
    and "sp_type sp \<notin> set (map (sp_type \<circ> fst) (drop_nth i (ad_reg a)))"
proof -
  have "(sp, w) \<in> set (ad_reg a)" using assms(2,3) nth_mem by force
  then show "sp \<in> set (desiredServices s)" "matches_spec w sp" "sp_type sp \<notin> F" "sp_type sp \<notin> fst ` set (ad_tracked a)"
    using assms(1) unfolding on_course_def by fast+
  have i: "i < length (reg_types a)" "reg_types a ! i = sp_type sp" using assms(2,3) by (simp_all add: reg_types_def)
  show "set (reg_types a) = insert (sp_type sp) (set (map (sp_type \<circ> fst) (drop_nth i (ad_reg a))))"
    using drop_nth_set [OF i(1)] i(2) by (simp add: drop_nth_map reg_types_def)
  show "distinct (map (sp_type \<circ> fst) (drop_nth i (ad_reg a)))" "sp_type sp \<notin> set (map (sp_type \<circ> fst) (drop_nth i (ad_reg a)))"
    using drop_nth_distinct [OF i(1)] i(2) assms(1) by (simp_all add: on_course_def drop_nth_map reg_types_def)
qed

lemma finishRegister_ok:
  assumes "ad_reg a ! i = (sp, w)" "sp_type sp \<notin> fst ` set (ad_tracked a)"
  shows "finishRegister i True a = a\<lparr>ad_reg := drop_nth i (ad_reg a), ad_live := (ad_next a, sp) # ad_live a,
    ad_next := Suc (ad_next a), ad_tracked := ad_tracked a @ [(sp_type sp, w\<lparr>rg_handle := ad_next a\<rparr>)]\<rparr>"
  using assms by (simp add: finishRegister_def Let_def update_absent)

lemma finishRegister_failed:
  assumes "ad_reg a ! i = (sp, w)" "sp_type sp \<notin> fst ` set (ad_tracked a)"
  shows "finishRegister i False a = a\<lparr>ad_reg := drop_nth i (ad_reg a)\<rparr>"
  using assms by (simp add: finishRegister_def Let_def delete_absent)

lemma tracks_mono: "tracks a t r \<Longrightarrow> set (ad_live a) \<subseteq> set (ad_live b) \<Longrightarrow> tracks b t r"
  unfolding tracks_def by blast

lemma accounted_registered:
  assumes "accounted a" "ad_reg a ! i = (sp, w)" "sp \<in> set (desiredServices s)" "matches_spec w sp" "sp_type sp \<notin> fst ` set (ad_tracked a)"
  shows "accounted (finishRegister i True a)" "accounted (finishRegister i False a)"
proof -
  let ?b = "finishRegister i True a"
  have old: "tracks ?b t r" if "(t, r) \<in> set (ad_tracked a)" for t r
  proof (rule tracks_mono)
    show "tracks a t r" using that assms(1) by (simp add: accounted_tracks)
    show "set (ad_live a) \<subseteq> set (ad_live ?b)" by (simp add: finishRegister_ok [OF assms(2, 5)] subset_insertI)
  qed
  have new: "tracks ?b (sp_type sp) (w\<lparr>rg_handle := ad_next a\<rparr>)"
    using assms(3, 4) unfolding tracks_def by (auto simp: finishRegister_ok [OF assms(2, 5)])
  show "accounted ?b"
    unfolding accounted_def
  proof (intro conjI)
    show "\<forall>(t, r)\<in>set (ad_tracked ?b). tracks ?b t r"
      using old new by (auto simp: finishRegister_ok [OF assms(2, 5)])
  qed (use assms(1, 5) in \<open>auto simp: accounted_def held_def finishRegister_ok [OF assms(2, 5)] less_SucI\<close>)
  show "accounted (finishRegister i False a)"
    using assms(1) unfolding finishRegister_failed [OF assms(2, 5)] by (simp add: accounted_def held_def tracks_def)
qed

lemma on_course_registered:
  assumes "on_course s F a" "i < length (ad_reg a)" "ad_reg a ! i = (sp, w)"
  shows "on_course s F (finishRegister i True a)" "on_course s (insert (sp_type sp) F) (finishRegister i False a)"
proof -
  note fl = in_flight [OF assms]
  have sub: "x \<in> set (ad_reg a)" if "x \<in> set (drop_nth i (ad_reg a))" for x using that drop_nth_subset by fast
  have other: "sp_type x \<noteq> sp_type sp" if "(x, y) \<in> set (drop_nth i (ad_reg a))" for x y using that fl(7) by force
  have regs: "x \<in> set (desiredServices s) \<and> matches_spec y x \<and> sp_type x \<notin> F \<and> sp_type x \<notin> fst ` set (ad_tracked a)"
    if "(x, y) \<in> set (drop_nth i (ad_reg a))" for x y
    using sub [OF that] assms(1) unfolding on_course_def by fast
  have trk: "t \<notin> F \<and> (\<exists>sp\<in>set (desiredServices s). sp_type sp = t \<and> matches_spec r sp)" if "(t, r) \<in> set (ad_tracked a)" for t r
    using that assms(1) unfolding on_course_def by fast
  have all: "sp_type x \<in> fst ` set (ad_tracked a) \<union> set (reg_types a) \<union> F" if "x \<in> set (desiredServices s)" for x
    using that assms(1) unfolding on_course_def by fast
  show "on_course s F (finishRegister i True a)"
    unfolding on_course_def finishRegister_ok [OF assms(3) fl(4)]
    using fl(1-4,6) regs other trk all [unfolded fl(5)]
    by (intro conjI ballI) (auto simp: reg_types_def)
  show "on_course s (insert (sp_type sp) F) (finishRegister i False a)"
    unfolding on_course_def finishRegister_failed [OF assms(3) fl(4)]
    using fl(1-4,6) regs other trk all [unfolded fl(5)]
    by (intro conjI ballI) (auto simp: reg_types_def rev_image_eqI)
qed


lemma withdrawn_handle:
  assumes "accounted a" "i < length (ad_unreg a)"
  defines "h \<equiv> rg_handle (ad_unreg a ! i)"
  shows "h \<notin> (rg_handle \<circ> snd) ` set (ad_tracked a)"
    and "mset (map fst (AList.delete h (ad_live a))) = mset (map (rg_handle \<circ> snd) (ad_tracked a)) + mset (map rg_handle (drop_nth i (ad_unreg a)))"
proof -
  have dist: "distinct (map fst (ad_live a))" and acc: "mset (map fst (ad_live a)) = held a" using assms(1) by (simp_all add: accounted_def)
  have held: "held a = add_mset h (mset (map (rg_handle \<circ> snd) (ad_tracked a)) + mset (map rg_handle (drop_nth i (ad_unreg a))))"
    using arg_cong [OF drop_nth_mset [OF assms(2)], of "image_mset rg_handle"] by (simp add: held_def h_def)
  then have "h \<in># mset (map fst (ad_live a))" unfolding acc by simp
  then obtain sp where "(h, sp) \<in> set (ad_live a)" by auto
  from mset_delete [OF dist this, of fst]
  have "add_mset h (mset (map fst (AList.delete h (ad_live a)))) = held a" using acc by simp
  then show rest: "mset (map fst (AList.delete h (ad_live a))) = mset (map (rg_handle \<circ> snd) (ad_tracked a)) + mset (map rg_handle (drop_nth i (ad_unreg a)))"
    unfolding held by simp
  have "h \<notin># mset (map fst (AList.delete h (ad_live a)))" by (auto simp: delete_filter)
  then show "h \<notin> (rg_handle \<circ> snd) ` set (ad_tracked a)" unfolding rest by simp
qed

lemma accounted_withdrawn:
  assumes "accounted a" "i < length (ad_unreg a)"
  shows "accounted (finishUnregister i a)"
proof -
  note w = withdrawn_handle [OF assms]
  let ?b = "finishUnregister i a"
  have trk: "tracks ?b t r" if tr: "(t, r) \<in> set (ad_tracked a)" for t r
  proof -
    obtain sp s where "(rg_handle r, sp) \<in> set (ad_live a)" "sp_type sp = t" "matches_spec r sp" "sp \<in> set (desiredServices s)"
      using accounted_tracks [OF assms(1) tr] unfolding tracks_def by blast
    moreover have "rg_handle r \<noteq> rg_handle (ad_unreg a ! i)" using w(1) tr by force
    ultimately show ?thesis unfolding tracks_def by (auto simp: finishUnregister_def delete_filter)
  qed
  show ?thesis
    unfolding accounted_def
  proof (intro conjI)
    show "\<forall>(t, r)\<in>set (ad_tracked ?b). tracks ?b t r" using trk by (auto simp: finishUnregister_def)
    show "mset (map fst (ad_live ?b)) = held ?b" using w(2) by (simp add: finishUnregister_def held_def)
  qed (use assms(1) in \<open>auto simp: accounted_def finishUnregister_def delete_filter distinct_map_filter\<close>)
qed

lemma on_course_withdrawn: "on_course s F a \<Longrightarrow> on_course s F (finishUnregister i a)"
  by (simp add: on_course_def finishUnregister_def reg_types_def)

lemma orderly_state: "orderly s F a \<Longrightarrow> accounted a \<and> on_course s F a"
proof (induction rule: orderly.induct)
  case (starts s)
  then show ?case using accounted_new by (auto intro: accounted_reconcile on_course_reconcile simp: ad_new_def)
next
  case (again s0 F a s)
  then show ?case by (simp add: accounted_reconcile on_course_reconcile)
next
  case (registered s F a i)
  obtain sp w where i: "ad_reg a ! i = (sp, w)" by (cases "ad_reg a ! i")
  have "on_course s F a" "i < length (ad_reg a)" using registered by simp_all
  note fl = in_flight [OF this i]
  show ?case using registered i fl(1,2,4) accounted_registered on_course_registered by blast
next
  case (refused s F a i)
  obtain sp w where i: "ad_reg a ! i = (sp, w)" by (cases "ad_reg a ! i")
  have "on_course s F a" "i < length (ad_reg a)" using refused by simp_all
  note fl = in_flight [OF this i]
  show ?case using refused i fl(1,2,4) accounted_registered on_course_registered by (metis fst_conv)
next
  case (withdrawn s F a i)
  then show ?case by (simp add: accounted_withdrawn on_course_withdrawn)
qed

section \<open>Exactly the wanted services\<close>

text \<open>With no withdrawal in flight, every announced service is tracked, and wanted.\<close>

lemma announced_tracked:
  assumes acc: "accounted a" and crs: "on_course s F a" and "ad_unreg a = []" and hsp: "(h, sp) \<in> set (ad_live a)"
  obtains r where "(sp_type sp, r) \<in> set (ad_tracked a)" "rg_handle r = h" "sp \<in> set (desiredServices s)" "sp_type sp \<notin> F"
proof -
  have dl: "distinct (map fst (ad_live a))" and handles: "mset (map fst (ad_live a)) = mset (map (rg_handle \<circ> snd) (ad_tracked a))"
    using acc assms(3) by (simp_all add: accounted_def held_def)
  have "h \<in> set (map fst (ad_live a))" using hsp by force
  then have "h \<in> set (map (rg_handle \<circ> snd) (ad_tracked a))" using mset_eq_setD [OF handles] by blast
  then obtain t r where tr: "(t, r) \<in> set (ad_tracked a)" "rg_handle r = h" by auto
  obtain sp' s' where sp': "(h, sp') \<in> set (ad_live a)" "sp_type sp' = t" "matches_spec r sp'" "sp' \<in> set (desiredServices s')"
    using accounted_tracks [OF acc tr(1)] tr(2) unfolding tracks_def by blast
  obtain sp0 where sp0: "t \<notin> F" "sp0 \<in> set (desiredServices s)" "sp_type sp0 = t" "matches_spec r sp0"
    using crs tr(1) unfolding on_course_def by fast
  have "sp' = sp" using eq_key_imp_eq_value [OF dl sp'(1) hsp] .
  moreover have "sp' = sp0" using fingerprint_decides [OF sp'(4) sp0(2)] sp' sp0 by (simp add: matches_spec_def)
  ultimately show thesis using that tr sp0 by blast
qed

lemma tracked_announced:
  assumes "accounted a" "on_course s F a" "ad_reg a = []" "ad_unreg a = []" "sp \<in> set (desiredServices s)" "sp_type sp \<notin> F"
  shows "sp \<in> set (map snd (ad_live a))"
proof -
  have "sp_type sp \<in> fst ` set (ad_tracked a)" using assms(2,3,5,6) by (auto simp: on_course_def reg_types_def)
  then obtain r where tr: "(sp_type sp, r) \<in> set (ad_tracked a)" by auto
  obtain sp' where sp': "(rg_handle r, sp') \<in> set (ad_live a)" "sp_type sp' = sp_type sp"
    using accounted_tracks [OF assms(1) tr] unfolding tracks_def by blast
  then have "sp' \<in> set (desiredServices s)" using announced_tracked [OF assms(1,2,4)] by blast
  then have "sp' = sp" using assms(5) sp'(2) desired_types_distinct [of s] by (simp add: distinct_map inj_on_def)
  then show ?thesis using sp'(1) by force
qed

lemma announced_once:
  assumes "accounted a" "on_course s F a" "ad_unreg a = []"
  shows "distinct (map snd (ad_live a))"
proof -
  have dt: "distinct (map fst (ad_tracked a))" and dl: "distinct (ad_live a)"
    using assms(1) by (auto simp: accounted_def distinct_map)
  have "h = h'" if "(h, sp) \<in> set (ad_live a)" "(h', sp) \<in> set (ad_live a)" for h h' sp
    using announced_tracked [OF assms that(1)] announced_tracked [OF assms that(2)] eq_key_imp_eq_value [OF dt] by metis
  then have "inj_on snd (set (ad_live a))" by (force simp: inj_on_def)
  then show ?thesis using dl by (simp add: distinct_map)
qed

text \<open>
  C22. With no reconciliation begun while a registration was in flight, and nothing in flight any
  more, the responder announces exactly the services the settings last reconciled ask for, each
  once with its name, port and text, apart from those whose registration failed.
\<close>

theorem advertised_exact:
  assumes "orderly s F a" "ad_reg a = []" "ad_unreg a = []"
  shows "mset (map snd (ad_live a)) = mset (filter (\<lambda>sp. sp_type sp \<notin> F) (desiredServices s))"
proof -
  have acc: "accounted a" and crs: "on_course s F a" using orderly_state [OF assms(1)] by auto
  have "set (map snd (ad_live a)) = set (filter (\<lambda>sp. sp_type sp \<notin> F) (desiredServices s))"
  proof (intro equalityI subsetI)
    fix sp assume "sp \<in> set (map snd (ad_live a))"
    then obtain h where "(h, sp) \<in> set (ad_live a)" by auto
    then show "sp \<in> set (filter (\<lambda>sp. sp_type sp \<notin> F) (desiredServices s))"
      by (rule announced_tracked [OF acc crs assms(3)]) simp
  qed (use tracked_announced [OF acc crs assms(2,3)] in simp)
  moreover have "distinct (filter (\<lambda>sp. sp_type sp \<notin> F) (desiredServices s))"
    using desired_types_distinct [of s] by (simp add: distinct_map)
  ultimately show ?thesis using announced_once [OF acc crs assms(3)] by (simp only: set_eq_iff_mset_eq_distinct)
qed


text \<open>
  What is in flight ends: without a further reconciliation there are no more steps than
  goroutines, and as long as one is left there is a step.
\<close>

lemma drop_nth_length: "i < length xs \<Longrightarrow> Suc (length (drop_nth i xs)) = length xs"
  by (simp add: drop_nth_def)

definition in_flight_count :: "advertiser \<Rightarrow> nat" where
  "in_flight_count a = length (ad_reg a) + length (ad_unreg a)"

lemma step_uses_one:
  "adv_step e a b \<Longrightarrow> (\<And>s. e \<noteq> Reconcile s) \<Longrightarrow> Suc (in_flight_count b) = in_flight_count a"
  by (erule adv_stepE)
     (auto simp: in_flight_count_def finishRegister_def finishUnregister_def Let_def drop_nth_length split: prod.splits)

lemma finishing_ends:
  "adv_run es a b \<Longrightarrow> (\<And>s. Reconcile s \<notin> set es) \<Longrightarrow> length es + in_flight_count b = in_flight_count a"
proof (induction rule: adv_run.induct)
  case (run_step e a b es c)
  then have "Suc (in_flight_count b) = in_flight_count a" by (auto intro: step_uses_one)
  then show ?case using run_step by simp
qed simp

lemma finishing_progress:
  "in_flight_count a \<noteq> 0 \<Longrightarrow> \<exists>e b. adv_step e a b \<and> (\<forall>s. e \<noteq> Reconcile s)"
  by (cases "ad_reg a = []") (auto simp: in_flight_count_def intro: registers [of 0] unregisters [of 0])

section \<open>Reconciliations that overlap\<close>

text \<open>
  While only registrations finish and none is refused, what is announced or about to be stays the same.
\<close>

lemma registrations_announce:
  assumes "adv_run es a b" "\<And>s. Reconcile s \<notin> set es" "\<And>i. Registered i False \<notin> set es" "ad_unreg a = []"
  shows "mset (map snd (ad_live b)) + mset (map fst (ad_reg b)) = mset (map snd (ad_live a)) + mset (map fst (ad_reg a)) \<and> ad_unreg b = []"
  using assms
proof (induction rule: adv_run.induct)
  case (run_step e a b es c)
  from run_step.hyps(1) have "mset (map snd (ad_live b)) + mset (map fst (ad_reg b)) = mset (map snd (ad_live a)) + mset (map fst (ad_reg a)) \<and>
      ad_unreg b = []"
  proof (cases rule: adv_step.cases)
    case (registers i ok)
    then have ok: "ok" using run_step.prems(2) by (cases ok) auto
    have "mset (map fst (ad_reg a)) = add_mset (fst (ad_reg a ! i)) (mset (map fst (drop_nth i (ad_reg a))))"
      using drop_nth_mset [OF registers(3)] by (metis image_mset_add_mset mset_map)
    then show ?thesis using registers run_step.prems(3) ok by (simp add: finishRegister_def Let_def case_prod_unfold)
  qed (use run_step.prems in auto)
  then show ?case using run_step by simp
qed simp


text \<open>Plain DNS is switched off, and DNS over TLS on, before the first services are registered.\<close>

definition exDotOnly :: settings where
  "exDotOnly = defaultSettings\<lparr>st_listeners := (st_listeners defaultSettings)\<lparr>ls_plain := zero_listener, ls_dot := \<lparr>ln_enabled = True, ln_port = 853\<rparr>\<rparr>\<rparr>"

lemma exDotOnly_run:
  "\<exists>b. adv_run [Registered 0 True, Registered 0 True, Registered 0 True] (ad_reconcile exDotOnly (ad_reconcile defaultSettings ad_new)) b \<and> ad_reg b = []"
proof -
  let ?a = "ad_reconcile exDotOnly (ad_reconcile defaultSettings ad_new)"
  let ?f = "finishRegister 0 True"
  have "length (ad_reg ?a) = 3" "length (ad_reg (?f ?a)) = 2" "length (ad_reg (?f (?f ?a))) = 1" "length (ad_reg (?f (?f (?f ?a)))) = 0"
    by code_simp+
  then show ?thesis
    by (intro exI [of _ "?f (?f (?f ?a))"] conjI run_step [OF registers run_step [OF registers run_step [OF registers run_nil]]]) simp_all
qed


text \<open>The default settings, with the two registrations finished, and with one refused.\<close>

definition adv_example :: "bool \<Rightarrow> advertiser" where
  "adv_example ok = finishRegister 0 ok (finishRegister 0 True (ad_reconcile defaultSettings ad_new))"

lemma adv_example_eval:
  "length (ad_reg (ad_reconcile defaultSettings ad_new)) = 2"
  "map (sp_type \<circ> fst) (ad_reg (finishRegister 0 True (ad_reconcile defaultSettings ad_new))) = [''_domain._tcp.local'']"
  "ad_reg (adv_example True) = []" "ad_unreg (adv_example True) = []"
  "ad_reg (adv_example False) = []" "ad_unreg (adv_example False) = []"
  by code_simp+

theorem advertised_exact_witness:
  "mset (map snd (ad_live (adv_example True))) = mset (desiredServices defaultSettings) \<and>
   image_mset sp_name (mset (map snd (ad_live (adv_example False)))) = {#''BrambleGate-domain-udp''#}"
proof -
  let ?b = "finishRegister 0 True (ad_reconcile defaultSettings ad_new)"
  have b: "orderly defaultSettings {} ?b" by (intro registered starts) (simp add: adv_example_eval)
  have len: "0 < length (ad_reg ?b)" and ty: "sp_type (fst (ad_reg ?b ! 0)) = ''_domain._tcp.local''"
    using adv_example_eval(2) by (cases "ad_reg ?b"; simp)+
  have ok: "orderly defaultSettings {} (adv_example True)" unfolding adv_example_def by (rule registered [OF b len])
  have failed: "orderly defaultSettings {''_domain._tcp.local''} (adv_example False)"
    using refused [OF b len] unfolding adv_example_def ty .
  show ?thesis
    using advertised_exact [OF ok adv_example_eval(3,4)] arg_cong [OF advertised_exact [OF failed adv_example_eval(5,6)], of "image_mset sp_name"]
    by (simp add: desiredServices_def defaultSettings_def zero_listener_def instance_names)
qed

end
