(* ===== verification/Gui_Forms.thy ===== *)
theory Gui_Forms
  imports Validate
begin

text \<open>
  The forms of the dashboard: the fields a page is rendered with (\<^verbatim>\<open>internal/gui/ui/*_templ.go\<close>) and
  the functions that read a submitted form back (\<^verbatim>\<open>internal/gui/handlers_ui.go\<close>). A form is the
  list of names and values a browser submits: a checked box as \<^verbatim>\<open>on\<close>, an unchecked one not at all,
  the checked radio button, the selected or else the first option, every other input with its text.

  Shown: submitting the edit form of a record or a host as it was rendered keeps the record, its
  overrides up to their order, and the host. The settings page has its own theory.
\<close>

section \<open>Reading fields\<close>

type_synonym form = "(string \<times> string) list"

text \<open>\<^verbatim>\<open>r.FormValue\<close>: the first value under the name, or the empty string.\<close>

fun formValue :: "form \<Rightarrow> string \<Rightarrow> string" where
  "formValue [] n = []"
| "formValue ((m, v) # f) n = (if m = n then v else formValue f n)"

definition splitAndTrim :: "string \<Rightarrow> string list" where
  "splitAndTrim s = filter (\<lambda>p. p \<noteq> []) (map trimSpace (splitOn (CHR '','') s))"

text \<open>\<^verbatim>\<open>strconv.Atoi\<close> of a field, used if it satisfies a condition.\<close>

definition intField :: "form \<Rightarrow> string \<Rightarrow> (int \<Rightarrow> bool) \<Rightarrow> int \<Rightarrow> int" where
  "intField f name ok dst =
     (case atoi (formValue f name) of Some v \<Rightarrow> if ok v then v else dst | None \<Rightarrow> dst)"

section \<open>The forms of records and hosts\<close>

definition parseRecordForm :: "form \<Rightarrow> vlan list \<Rightarrow> dnsRecord" where
  "parseRecordForm f vlans =
     \<lparr>rec_name = trimSpace (formValue f ''name''),
      rec_type = toUpper (formValue f ''type''),
      rec_default = trimSpace (formValue f ''default''),
      rec_ttl = word_of_int (intField f ''ttl'' (\<lambda>ttl. ttl > 0) 0),
      rec_overrides = concat (map (\<lambda>v.
        let nx = formValue f (''override_nx_'' @ vlan_name v) \<noteq> [];
            val = trimSpace (formValue f (''override_value_'' @ vlan_name v));
            ttl = intField f (''override_ttl_'' @ vlan_name v) (\<lambda>_. True) 0 in
        if nx then [\<lparr>ov_vlan = vlan_name v, ov_value = [], ov_ttl = 0, ov_nxdomain = True\<rparr>]
        else if val \<noteq> [] \<or> ttl > 0 then
          [\<lparr>ov_vlan = vlan_name v, ov_value = val, ov_ttl = (if ttl > 0 then word_of_int ttl else 0), ov_nxdomain = False\<rparr>]
        else []) vlans),
      rec_match = None\<rparr>"

definition parseHostForm :: "form \<Rightarrow> host" where
  "parseHostForm f =
     \<lparr>host_ip = trimSpace (formValue f ''ip''), host_hostname = trimSpace (formValue f ''hostname''),
      host_aliases = filter (\<lambda>a. a \<noteq> []) (map trimSpace (splitOn (CHR '','') (formValue f ''aliases'')))\<rparr>"

definition findRecord :: "recordSet \<Rightarrow> string \<Rightarrow> recordType \<Rightarrow> dnsRecord option" where
  "findRecord rs n rtype =
     (let target = normalizedHostName n in
      find (\<lambda>r. rec_normalizedName r = target \<and> equalFold (rec_type r) rtype) rs)"

definition findHost :: "hostSet \<Rightarrow> string \<Rightarrow> host option" where
  "findHost hs n =
     (let target = normalizedHostName n in find (\<lambda>h. normalizedHostName (host_hostname h) = target) hs)"

text \<open>The controls of a page, as a browser submits them.\<close>

definition checkbox :: "string \<Rightarrow> bool \<Rightarrow> form" where
  "checkbox n b = (if b then [(n, ''on'')] else [])"

definition segOptions :: "string \<Rightarrow> string list \<Rightarrow> string \<Rightarrow> form" where
  "segOptions n options cur = (if cur \<in> set options then [(n, cur)] else [])"

definition selectOptions :: "string \<Rightarrow> string list \<Rightarrow> string \<Rightarrow> form" where
  "selectOptions n options cur = [(n, if cur \<in> set options then cur else hd options)]"

definition intText :: "int \<Rightarrow> string" where
  "intText i = (if i \<noteq> 0 then itoa i else [])"

definition findOverride :: "vlanOverride list \<Rightarrow> string \<Rightarrow> vlanOverride" where
  "findOverride os vlan =
     (case find (\<lambda>o'. ov_vlan o' = vlan) os of
        Some o' \<Rightarrow> o'
      | None \<Rightarrow> \<lparr>ov_vlan = vlan, ov_value = [], ov_ttl = 0, ov_nxdomain = False\<rparr>)"

definition overrideRow :: "vlan \<Rightarrow> vlanOverride \<Rightarrow> form" where
  "overrideRow v o' =
     checkbox (''override_nx_'' @ vlan_name v) (ov_nxdomain o') @
     [(''override_value_'' @ vlan_name v, ov_value o'), (''override_ttl_'' @ vlan_name v, intText (uint (ov_ttl o')))]"

definition recordForm :: "dnsRecord option \<Rightarrow> vlan list \<Rightarrow> form" where
  "recordForm editing vlans =
     (let (n, rtype, def, ttl, os) = (case editing of
        None \<Rightarrow> ([], ''A'', [], [], [])
      | Some r \<Rightarrow> (rec_name r, rec_type r, rec_default r, intText (uint (rec_ttl r)), rec_overrides r)) in
      [(''name'', n)] @ segOptions ''type'' [''A'', ''AAAA'', ''CNAME''] rtype @
      [(''default'', def), (''ttl'', ttl)] @
      concat (map (\<lambda>v. overrideRow v (findOverride os (vlan_name v))) vlans))"

definition hostForm :: "host option \<Rightarrow> form" where
  "hostForm editing = (case editing of
     None \<Rightarrow> [(''ip'', []), (''hostname'', []), (''aliases'', [])]
   | Some h \<Rightarrow> [(''ip'', host_ip h), (''hostname'', host_hostname h), (''aliases'', joinStr '', '' (host_aliases h))])"

text \<open>The form that edits a VLAN.\<close>

definition vlanForm :: "vlan \<Rightarrow> form" where
  "vlanForm v = [(''vlan_name'', vlan_name v), (''vlan_cidrs'', joinStr '', '' (vlan_cidrs v))]"

section \<open>Lists in a text field\<close>

definition list_item :: "string \<Rightarrow> bool" where
  "list_item x = (x \<noteq> [] \<and> trimSpace x = x \<and> CHR '','' \<notin> set x)"

lemma trimSpace_Nil [simp]: "trimSpace [] = []"
  by (simp add: trimSpace_def)

lemma trimSpace_space [simp]: "trimSpace (CHR '' '' # s) = trimSpace s"
  by (simp add: trimSpace_def is_space_def)

lemma splitAndTrim_items: "list_all list_item (splitAndTrim s)"
  using set_trimSpace splitOn_no_sep by (fastforce simp: splitAndTrim_def list_all_iff list_item_def)

lemma splitOn_item: "c \<notin> set w \<Longrightarrow> splitOn c w = [w]"
  by (induction w) auto

lemma splitOn_append: "c \<notin> set w \<Longrightarrow> splitOn c (w @ c # s) = w # splitOn c s"
  by (induction w) auto

lemma splitAndTrim_join: "list_all list_item xs \<Longrightarrow> splitAndTrim (joinStr '', '' xs) = xs"
proof (induction xs rule: induct_list012)
  case (3 x y xs)
  have "splitAndTrim (CHR '' '' # s) = splitAndTrim s" for s
    by (cases "splitOn (CHR '','') s") (auto simp: splitAndTrim_def)
  then show ?case using 3 by (simp add: splitAndTrim_def list_item_def splitOn_append)
qed (simp_all add: splitAndTrim_def list_item_def splitOn_item)

section \<open>Looking up and reading back\<close>

lemma formValue_checkbox [simp]: "formValue (checkbox m b @ f) n = (if b \<and> m = n then ''on'' else formValue f n)"
  by (simp add: checkbox_def)

lemma formValue_seg [simp]: "formValue (segOptions m os c @ f) n = (if c \<in> set os \<and> m = n then c else formValue f n)"
  by (simp add: segOptions_def)

lemma formValue_select [simp]:
  "formValue (selectOptions m os c @ f) n = (if m = n then (if c \<in> set os then c else hd os) else formValue f n)"
  "formValue (selectOptions m os c) n = (if m = n then (if c \<in> set os then c else hd os) else [])"
  by (simp_all add: selectOptions_def)

lemma digits_no_space: "list_all is_digit s \<Longrightarrow> trimSpace s = s"
  by (rule trimSpace_id) (auto simp: list_all_iff list_ex_iff is_digit_def is_space_def Let_def)

lemma itoa_nonneg_trim: "0 \<le> i \<Longrightarrow> trimSpace (itoa i) = itoa i" and itoa_not_Nil [simp]: "itoa i \<noteq> []"
  using itoa_nat_digits by (auto simp: itoa_def digits_no_space)

lemma uint32_bound: "uint (v :: uint32) < 2 ^ 32"
  using uint_lt2p [of v] by simp

lemma parseUint_uint32 [simp]: "parseUint 32 (itoa (uint (v :: uint32))) = Some (unat v)"
  using parseUint_itoa [OF _ uint32_bound [of v]] by (simp only: uint_ge_0 unat_eq_nat_uint)

lemma atoi_Nil [simp]: "atoi [] = None"
  by (simp add: atoi_def parse_digits_def)

lemma atoi_itoa_only: "atoi (itoa i) = Some j \<Longrightarrow> j = i"
proof -
  assume a: "atoi (itoa i) = Some j"
  obtain c r where cr: "itoa_nat (nat i) = c # r" and dc: "is_digit c"
    using itoa_nat_digits [of "nat i"] by (cases "itoa_nat (nat i)") auto
  show "j = i"
    using a cr parse_digits_itoa_nat [of "nat i"] digit_not_sign [OF dc]
    by (auto simp: atoi_def itoa_def Let_def split: if_splits)
qed

lemma atoi_range: "atoi s = Some i \<Longrightarrow> - (2 ^ 63) \<le> i \<and> i < 2 ^ 63"
  unfolding atoi_def Let_def by (auto simp only: prod.case_eq_if split: option.splits if_splits)

lemma intField_keep:
  "formValue f n = intText i \<Longrightarrow> intField f n ok i = i" "formValue f n = itoa i \<Longrightarrow> intField f n ok i = i"
  by (auto simp: intField_def intText_def dest: atoi_itoa_only split: option.splits)


lemma intText_uint32:
  "formValue f n = intText (uint (v :: uint32)) \<Longrightarrow> intField f n (\<lambda>_. True) 0 = uint v"
  "formValue f n = intText (uint (v :: uint32)) \<Longrightarrow> intField f n (\<lambda>ttl. ttl > 0) 0 = uint v"
proof -
  have "atoi (itoa (uint v)) = Some (uint v)"
  proof (rule atoi_itoa)
    show "- (2 ^ 63) \<le> uint v" by (rule order.trans [OF _ uint_ge_0]) simp
    show "uint v < 2 ^ 63" by (rule order.strict_trans2 [OF uint32_bound]) simp
  qed
  moreover have "uint v \<noteq> 0 \<Longrightarrow> 0 < uint v" using uint_ge_0 [of v] by linarith
  ultimately show "formValue f n = intText (uint v) \<Longrightarrow> intField f n (\<lambda>_. True) 0 = uint v"
    "formValue f n = intText (uint v) \<Longrightarrow> intField f n (\<lambda>ttl. ttl > 0) 0 = uint v"
    by (auto simp: intField_def intText_def)
qed

section \<open>Editing a record\<close>

lemma rows_fields:
  assumes "distinct (map vlan_name vlans)" "v \<in> set vlans"
  defines "rows \<equiv> \<lambda>g. concat (map (\<lambda>v. overrideRow v (g (vlan_name v))) vlans)"
  shows "formValue (rows g) (''override_nx_'' @ vlan_name v) \<noteq> [] \<longleftrightarrow> ov_nxdomain (g (vlan_name v))"
    and "formValue (rows g) (''override_value_'' @ vlan_name v) = ov_value (g (vlan_name v))"
    and "formValue (rows g) (''override_ttl_'' @ vlan_name v) = intText (uint (ov_ttl (g (vlan_name v))))"
proof -
  have absent: "formValue (concat (map (\<lambda>v. overrideRow v (g (vlan_name v))) vs)) (''override_nx_'' @ n) = []"
    if "n \<notin> vlan_name ` set vs" for vs n
    using that by (induction vs) (auto simp: overrideRow_def)
  show "formValue (rows g) (''override_nx_'' @ vlan_name v) \<noteq> [] \<longleftrightarrow> ov_nxdomain (g (vlan_name v))"
    using assms(1,2) unfolding rows_def by (induction vlans) (auto simp: overrideRow_def absent [unfolded overrideRow_def, simplified])
  show "formValue (rows g) (''override_value_'' @ vlan_name v) = ov_value (g (vlan_name v))"
    "formValue (rows g) (''override_ttl_'' @ vlan_name v) = intText (uint (ov_ttl (g (vlan_name v))))"
    using assms(1,2) unfolding rows_def by (induction vlans) (auto simp: overrideRow_def)
qed

definition edited :: "dnsRecord \<Rightarrow> vlan list \<Rightarrow> dnsRecord" where
  "edited r vlans = parseRecordForm (recordForm (Some r) vlans) vlans"

text \<open>What reading the row of a VLAN back gives.\<close>

definition row_back :: "vlanOverride \<Rightarrow> vlanOverride list" where
  "row_back o' =
     (if ov_nxdomain o' then [o'\<lparr>ov_value := [], ov_ttl := 0\<rparr>]
      else if trimSpace (ov_value o') \<noteq> [] \<or> ov_ttl o' \<noteq> 0 then [o'\<lparr>ov_value := trimSpace (ov_value o')\<rparr>] else [])"

lemma findOverride_vlan [simp]: "ov_vlan (findOverride os n) = n"
  by (auto simp: findOverride_def dest: find_SomeD split: option.splits)

lemma edited_exact:
  assumes "distinct (map vlan_name vlans)"
  shows "edited r vlans =
    \<lparr>rec_name = trimSpace (rec_name r), rec_type = (if rec_type r \<in> {''A'', ''AAAA'', ''CNAME''} then rec_type r else []),
     rec_default = trimSpace (rec_default r), rec_ttl = rec_ttl r,
     rec_overrides = concat (map (\<lambda>v. row_back (findOverride (rec_overrides r) (vlan_name v))) vlans), rec_match = None\<rparr>"
proof -
  let ?g = "findOverride (rec_overrides r)"
  let ?rows = "concat (map (\<lambda>v. overrideRow v (?g (vlan_name v))) vlans)"
  let ?f = "recordForm (Some r) vlans"
  have rows: "formValue ?f (''override_nx_'' @ n) = formValue ?rows (''override_nx_'' @ n)"
      "formValue ?f (''override_value_'' @ n) = formValue ?rows (''override_value_'' @ n)"
      "formValue ?f (''override_ttl_'' @ n) = formValue ?rows (''override_ttl_'' @ n)" for n
    by (simp_all add: recordForm_def)
  have "(let nx = formValue ?f (''override_nx_'' @ vlan_name v) \<noteq> [];
            val = trimSpace (formValue ?f (''override_value_'' @ vlan_name v));
            ttl = intField ?f (''override_ttl_'' @ vlan_name v) (\<lambda>_. True) 0 in
        if nx then [\<lparr>ov_vlan = vlan_name v, ov_value = [], ov_ttl = 0, ov_nxdomain = True\<rparr>]
        else if val \<noteq> [] \<or> ttl > 0 then
          [\<lparr>ov_vlan = vlan_name v, ov_value = val, ov_ttl = (if ttl > 0 then word_of_int ttl else 0), ov_nxdomain = False\<rparr>]
        else []) = row_back (?g (vlan_name v))" if "v \<in> set vlans" for v
  proof -
    let ?o = "?g (vlan_name v)"
    have ttl: "intField ?f (''override_ttl_'' @ vlan_name v) (\<lambda>_. True) 0 = uint (ov_ttl ?o)"
      by (rule intText_uint32) (simp only: rows rows_fields(3) [OF assms that, of ?g])
    have pos: "uint (ov_ttl ?o) > 0 \<longleftrightarrow> ov_ttl ?o \<noteq> 0" by (metis uint_0_iff uint_ge_0 order_le_less less_irrefl)
    show ?thesis
      unfolding Let_def rows(1,2) rows_fields(1,2) [OF assms that, of ?g] ttl pos
      by (auto simp: row_back_def intro!: vlanOverride.equality)
  qed
  then have ovs: "rec_overrides (edited r vlans) = concat (map (\<lambda>v. row_back (?g (vlan_name v))) vlans)"
    unfolding edited_def parseRecordForm_def dnsRecord.simps by (intro arg_cong [where f = concat] map_cong) auto
  have ttl: "intField ?f ''ttl'' (\<lambda>ttl. ttl > 0) 0 = uint (rec_ttl r)"
    by (rule intText_uint32) (simp add: recordForm_def)
  have none: "formValue ?rows ''type'' = []" by (induction vlans) (auto simp: overrideRow_def)
  have "rec_name (edited r vlans) = trimSpace (rec_name r)" "rec_default (edited r vlans) = trimSpace (rec_default r)"
      "rec_type (edited r vlans) = (if rec_type r \<in> {''A'', ''AAAA'', ''CNAME''} then rec_type r else [])"
      "rec_ttl (edited r vlans) = rec_ttl r" "rec_match (edited r vlans) = None"
    by (auto simp: edited_def parseRecordForm_def ttl) (auto simp: recordForm_def none toUpper_def char_upper_def)
  then show ?thesis using ovs by (intro dnsRecord.equality) simp_all
qed

text \<open>
  A record that passed validation has at most one override per VLAN, and none that suppresses the
  name and gives a value, or that says nothing.
\<close>

lemma valid_overrides:
  assumes "validateOverridesFrom r ns os seen = None"
  shows "distinct (map ov_vlan os) \<and> set (map ov_vlan os) \<subseteq> set ns - set seen \<and>
    (\<forall>o'\<in>set os. (ov_nxdomain o' \<longrightarrow> ov_value o' = [] \<and> ov_ttl o' = 0) \<and>
       (\<not> ov_nxdomain o' \<longrightarrow> ov_value o' \<noteq> [] \<or> ov_ttl o' \<noteq> 0))"
  using assms
proof (induction os arbitrary: seen)
  case (Cons a os)
  then have a: "ov_vlan a \<in> set ns" "ov_vlan a \<notin> set seen" "overrideCheck r a = None"
      "validateOverridesFrom r ns os (ov_vlan a # seen) = None"
    by (simp_all add: err_simps split: if_splits)
  then show ?case using Cons.IH [OF a(4)] by (auto simp: overrideCheck_def err_simps)
qed simp

lemma mset_by_key:
  "distinct vs \<Longrightarrow> mset (concat (map (\<lambda>v. filter (\<lambda>x. f x = v) xs) vs)) = mset (filter (\<lambda>x. f x \<in> set vs) xs)"
proof (induction vs)
  case (Cons v vs)
  have "filter_mset (\<lambda>x. f x = v) (mset xs) + filter_mset (\<lambda>x. f x \<in> set vs) (mset xs) =
      filter_mset (\<lambda>x. f x = v \<or> f x \<in> set vs) (mset xs)"
    using Cons.prems by (induction xs) auto
  then show ?case using Cons by simp
qed simp

lemma filter_key_unique:
  "distinct (map f xs) \<Longrightarrow> filter (\<lambda>x. f x = k) xs = (case find (\<lambda>x. f x = k) xs of None \<Rightarrow> [] | Some x \<Rightarrow> [x])"
  by (induction xs) (auto simp: filter_empty_conv rev_image_eqI split: option.split dest!: find_SomeD)

text \<open>
  A record as a form holds it: its texts without the white space around them, and without the overrides
  that then say nothing. A record without such white space is its own.
\<close>

definition as_form :: "dnsRecord \<Rightarrow> dnsRecord" where
  "as_form r = r\<lparr>rec_name := trimSpace (rec_name r), rec_default := trimSpace (rec_default r),
     rec_overrides := concat (map row_back (rec_overrides r))\<rparr>"

definition record_trimmed :: "dnsRecord \<Rightarrow> bool" where
  "record_trimmed r \<longleftrightarrow> trimSpace (rec_name r) = rec_name r \<and> trimSpace (rec_default r) = rec_default r \<and>
     (\<forall>o'\<in>set (rec_overrides r). trimSpace (ov_value o') = ov_value o')"

lemma mset_concat_map: "mset xs = mset ys \<Longrightarrow> mset (concat (map f xs)) = mset (concat (map f ys))"
  by (simp add: mset_concat flip: sum_mset_sum_list)

lemma row_back_vlans:
  "distinct (map ov_vlan os) \<Longrightarrow> distinct (map ov_vlan (concat (map row_back os)))"
proof (induction os)
  case (Cons a os)
  have v: "ov_vlan x = ov_vlan y" if "x \<in> set (row_back y)" for x y using that by (auto simp: row_back_def split: if_splits)
  have "\<forall>x\<in>set (concat (map row_back os)). ov_vlan x \<in> ov_vlan ` set os" using v by fastforce
  moreover have "distinct (map ov_vlan (row_back a))" by (simp add: row_back_def)
  ultimately show ?case using Cons v [of _ a] by (fastforce simp del: set_concat)
qed simp

text \<open>
  Submitting the edit form of a valid record as it was rendered keeps its name, type, value and
  TTL, and its overrides exactly, at most in the order of the VLANs, all without white space around
  them.
\<close>

lemma record_form_back:
  assumes "validateStaticRecord r (map vlan_name vlans) = None" "distinct (map vlan_name vlans)"
  shows "\<exists>os. edited r vlans = (as_form r)\<lparr>rec_overrides := os\<rparr> \<and> mset os = mset (rec_overrides (as_form r))"
proof -
  have valid: "rec_type r \<in> {''A'', ''AAAA'', ''CNAME''}" "rec_match r = None" "validateOverrides r (map vlan_name vlans) = None"
    using assms(1) by (auto simp: validateStaticRecord_def err_simps)
  note vo = valid_overrides [OF valid(3) [unfolded validateOverrides_def]]
  let ?named = "\<lambda>n. filter (\<lambda>o'. ov_vlan o' = n) (rec_overrides r)"
  have row: "row_back (findOverride (rec_overrides r) n) = concat (map row_back (?named n))" for n
    using filter_key_unique [of ov_vlan "rec_overrides r" n] vo
    by (cases "find (\<lambda>o'. ov_vlan o' = n) (rec_overrides r)") (simp_all add: findOverride_def row_back_def)
  let ?os = "concat (map (\<lambda>v. row_back (findOverride (rec_overrides r) (vlan_name v))) vlans)"
  have "?os = concat (map row_back (concat (map ?named (map vlan_name vlans))))"
    unfolding row by (induction vlans) simp_all
  also have "mset \<dots> = mset (concat (map row_back (filter (\<lambda>o'. ov_vlan o' \<in> set (map vlan_name vlans)) (rec_overrides r))))"
    by (rule mset_concat_map) (rule mset_by_key [OF assms(2)])
  also have "\<dots> = mset (rec_overrides (as_form r))" unfolding as_form_def using vo by (subst filter_True) auto
  finally have "mset ?os = mset (rec_overrides (as_form r))" .
  moreover have "edited r vlans = (as_form r)\<lparr>rec_overrides := ?os\<rparr>"
    unfolding edited_exact [OF assms(2)] as_form_def
    by (rule dnsRecord.equality) (use valid(1,2) in simp_all)
  ultimately show ?thesis by blast
qed

lemma as_form_trimmed:
  assumes "validateStaticRecord r vn = None" "record_trimmed r"
  shows "as_form r = r"
proof -
  have "validateOverrides r vn = None" using assms(1) by (simp add: validateStaticRecord_def err_simps)
  note vo = valid_overrides [OF this [unfolded validateOverrides_def]]
  have "map row_back (rec_overrides r) = map (\<lambda>o'. [o']) (rec_overrides r)"
    using vo assms(2) by (auto simp: row_back_def record_trimmed_def)
  then have "concat (map row_back (rec_overrides r)) = map id (rec_overrides r)"
    using concat_map_singleton [of id "rec_overrides r"] by (simp only: id_apply)
  then show ?thesis using assms(2) by (simp add: as_form_def record_trimmed_def)
qed

text \<open>Hosts and VLANs come back as they were, if their lists hold plain items.\<close>

lemma host_form_roundtrip:
  assumes "trimSpace (host_ip h) = host_ip h" "trimSpace (host_hostname h) = host_hostname h" "list_all list_item (host_aliases h)"
  shows "parseHostForm (hostForm (Some h)) = h"
  using assms splitAndTrim_join [OF assms(3)] by (simp add: parseHostForm_def hostForm_def splitAndTrim_def)

end
