(* ===== verification/Settings_Page.thy ===== *)
theory Settings_Page
  imports Gui_Forms
begin

text \<open>
  The settings page: the fields it is rendered with (\<^verbatim>\<open>internal/gui/ui/settings_templ.go\<close>) and
  \<^verbatim>\<open>parseSettingsForm\<close>, which reads them back into the settings (\<^verbatim>\<open>internal/gui/handlers_ui.go\<close>).
  Shown: what submitting the page as it was rendered does to each field, that it changes nothing in
  settings that are in its normal form, and that at most two submissions reach it.
\<close>

section \<open>Reading the form\<close>

definition parseUint32 :: "form \<Rightarrow> string \<Rightarrow> uint32 \<Rightarrow> uint32" where
  "parseUint32 f name dst =
     (let v = trimSpace (formValue f name) in
      if v = [] then 0
      else (case parseUint 32 v of Some n \<Rightarrow> of_nat n | None \<Rightarrow> dst))"

definition parseUintPtr :: "form \<Rightarrow> string \<Rightarrow> uint32 option \<Rightarrow> uint32 option" where
  "parseUintPtr f name dst =
     (let v = trimSpace (formValue f name) in
      if v = [] then None
      else (case parseUint 32 v of Some n \<Rightarrow> Some (of_nat n) | None \<Rightarrow> dst))"

definition parseListener :: "form \<Rightarrow> string \<Rightarrow> 'a listener_scheme \<Rightarrow> 'a listener_scheme" where
  "parseListener f pre l =
     (let l = l\<lparr>ln_enabled := formValue f (pre @ ''_enabled'') \<noteq> []\<rparr> in
      if \<not> ln_enabled l then l\<lparr>ln_port := 0\<rparr>
      else (case atoi (formValue f (pre @ ''_port'')) of
              Some port \<Rightarrow> if port > 0 then l\<lparr>ln_port := port\<rparr> else l
            | None \<Rightarrow> l))"

definition parseSettingsForm :: "form \<Rightarrow> settings \<Rightarrow> settings" where
  "parseSettingsForm f s =
     (let checked = (\<lambda>n. formValue f n \<noteq> []);
          text = (\<lambda>n. trimSpace (formValue f n));
          acmeEnabled = checked ''acme_enabled'';
          mode = formValue f ''mdns_service_types_mode'';
          refresh = formValue f ''client_names_refresh_hostnames'' in
      s\<lparr>st_upstream := (st_upstream s)\<lparr>
          up_address := text ''upstream_address'',
          up_protocol := formValue f ''upstream_protocol'',
          up_ecs := checked ''upstream_ecs_enabled'',
          up_maxFails := parseUintPtr f ''upstream_max_fails'' (up_maxFails (st_upstream s)),
          up_healthCheckSeconds := parseUint32 f ''upstream_health_check_seconds'' (up_healthCheckSeconds (st_upstream s)),
          up_expireSeconds := parseUint32 f ''upstream_expire_seconds'' (up_expireSeconds (st_upstream s)),
          up_maxConcurrent := parseUint32 f ''upstream_max_concurrent'' (up_maxConcurrent (st_upstream s)),
          up_preferUDP := checked ''upstream_prefer_udp''\<rparr>,
        st_cache := \<lparr>serveStaleDisabled = checked ''cache_serve_stale_disabled'', prefetchDisabled = checked ''cache_prefetch_disabled''\<rparr>,
        st_log := \<lparr>log_disabled = checked ''log_disabled'', log_classes = splitAndTrim (formValue f ''log_classes'')\<rparr>,
        st_errors := \<lparr>consolidateDisabled = checked ''errors_consolidate_disabled''\<rparr>,
        st_bufsizeDisabled := checked ''bufsize_disabled'',
        st_observability := \<lparr>obs_health = checked ''observability_health'', obs_ready = checked ''observability_ready'',
          obs_prometheus = checked ''observability_prometheus''\<rparr>,
        st_queryLog := (st_queryLog s)\<lparr>queryLog_enabled := checked ''querylog_enabled'',
          capacity := intField f ''querylog_capacity'' (\<lambda>v. v > 0) 0\<rparr>,
        st_listeners := \<lparr>
          ls_plain = parseListener f ''plain'' (ls_plain (st_listeners s)),
          ls_dot = parseListener f ''dot'' (ls_dot (st_listeners s)),
          ls_doh = parseListener f ''doh'' (ls_doh (st_listeners s)),
          ls_doq = (parseListener f ''doq'' (ls_doq (st_listeners s)))\<lparr>
            ln_maxStreams := intField f ''doq_max_streams'' (\<lambda>v. v \<ge> 0) (ln_maxStreams (ls_doq (st_listeners s))),
            ln_workerPoolSize := intField f ''doq_worker_pool_size'' (\<lambda>v. v \<ge> 0) (ln_workerPoolSize (ls_doq (st_listeners s)))\<rparr>,
          ls_doh3 = (parseListener f ''doh3'' (ls_doh3 (st_listeners s)))\<lparr>
            ln_maxStreams := intField f ''doh3_max_streams'' (\<lambda>v. v \<ge> 0) (ln_maxStreams (ls_doh3 (st_listeners s)))\<rparr>\<rparr>,
        st_acme := (st_acme s)\<lparr>
          acme_enabled := acmeEnabled,
          acme_domain := text ''acme_domain'',
          acme_email := text ''acme_email'',
          acme_dnsProvider := text ''acme_dns_provider'',
          acme_production := checked ''acme_production'',
          acme_renewBeforeDays := intField f ''acme_renew_before_days'' (\<lambda>days. days > 0) (acme_renewBeforeDays (st_acme s)),
          acme_selfSignedFallback := \<not> acmeEnabled \<and> checked ''acme_self_signed_fallback''\<rparr>,
        st_mdns := (st_mdns s)\<lparr>
          mdns_enabled := checked ''mdns_enabled'',
          mdns_interfaces := splitAndTrim (formValue f ''mdns_interfaces''),
          mdns_serviceTypes :=
            (if mode = ''none'' then []
             else if mode = ''default'' then [''default'']
             else if mode = ''all'' then [''all'']
             else splitAndTrim (formValue f ''mdns_service_types'')),
          mdns_suffix := text ''mdns_suffix'',
          mdns_advertise := \<lparr>adv_enabled = checked ''mdns_advertise_enabled''\<rparr>\<rparr>,
        st_clientNames := \<lparr>
          clientNames_enabled = checked ''client_names_enabled'',
          ptrUpstream = text ''client_names_ptr_upstream'',
          refreshHostnames = (if refresh \<in> {''ipv4_only'', ''all'', ''none''} then refresh else [])\<rparr>\<rparr>)"

definition uint32Str :: "uint32 \<Rightarrow> string" where
  "uint32Str v = (if v = 0 then [] else itoa (uint v))"

definition uintPtrStr :: "uint32 option \<Rightarrow> string" where
  "uintPtrStr v = (case v of None \<Rightarrow> [] | Some n \<Rightarrow> itoa (uint n))"

definition capacityValue :: "int \<Rightarrow> string" where
  "capacityValue v = (if v = 0 then [] else itoa v)"

definition mdnsServiceTypesMode :: "string list \<Rightarrow> string" where
  "mdnsServiceTypesMode types =
     (if length types = 0 then ''none''
      else if length types = 1 \<and> equalFold (types ! 0) ''default'' then ''default''
      else if length types = 1 \<and> equalFold (types ! 0) ''all'' then ''all''
      else ''custom'')"

definition mdnsServiceTypesCustomValue :: "string list \<Rightarrow> string" where
  "mdnsServiceTypesCustomValue types =
     (if mdnsServiceTypesMode types \<noteq> ''custom'' then [] else joinStr '', '' types)"

definition normalizeRefreshMode :: "string \<Rightarrow> string" where
  "normalizeRefreshMode cur = (if cur = [] then ''ipv4_only'' else cur)"

text \<open>
  The controls of the page in their order, each with what it submits: nothing for an unchecked box
  or a group of radio buttons without a checked one.
\<close>

type_synonym control = "string \<times> string option"

definition boxField :: "string \<Rightarrow> bool \<Rightarrow> control" where
  "boxField n b = (n, if b then Some ''on'' else None)"

definition radioField :: "string \<Rightarrow> string list \<Rightarrow> string \<Rightarrow> control" where
  "radioField n options cur = (n, if cur \<in> set options then Some cur else None)"

definition selectField :: "string \<Rightarrow> string list \<Rightarrow> string \<Rightarrow> control" where
  "selectField n options cur = (n, Some (if cur \<in> set options then cur else hd options))"

definition listenerFields :: "string \<Rightarrow> 'a listener_scheme \<Rightarrow> control list" where
  "listenerFields pre l = [boxField (pre @ ''_enabled'') (ln_enabled l), (pre @ ''_port'', Some (intText (ln_port l)))]"

definition doqListenerFields :: "quicListener \<Rightarrow> control list" where
  "doqListenerFields l = listenerFields ''doq'' l @
     [(''doq_max_streams'', Some (intText (ln_maxStreams l))), (''doq_worker_pool_size'', Some (intText (ln_workerPoolSize l)))]"

definition doh3ListenerFields :: "quicListener \<Rightarrow> control list" where
  "doh3ListenerFields l = listenerFields ''doh3'' l @ [(''doh3_max_streams'', Some (intText (ln_maxStreams l)))]"

definition settingsFields :: "settings \<Rightarrow> control list" where
  "settingsFields s =
     [(''upstream_address'', Some (up_address (st_upstream s))),
       radioField ''upstream_protocol'' [''plain'', ''dot'', ''doh''] (up_protocol (st_upstream s)),
       boxField ''upstream_ecs_enabled'' (up_ecs (st_upstream s)),
       (''upstream_max_fails'', Some (uintPtrStr (up_maxFails (st_upstream s)))),
       (''upstream_health_check_seconds'', Some (uint32Str (up_healthCheckSeconds (st_upstream s)))),
       (''upstream_expire_seconds'', Some (uint32Str (up_expireSeconds (st_upstream s)))),
       (''upstream_max_concurrent'', Some (uint32Str (up_maxConcurrent (st_upstream s)))),
       boxField ''upstream_prefer_udp'' (up_preferUDP (st_upstream s))] @
     listenerFields ''plain'' (ls_plain (st_listeners s)) @
     listenerFields ''doh'' (ls_doh (st_listeners s)) @
     doh3ListenerFields (ls_doh3 (st_listeners s)) @
     listenerFields ''dot'' (ls_dot (st_listeners s)) @
     doqListenerFields (ls_doq (st_listeners s)) @
     [boxField ''cache_serve_stale_disabled'' (serveStaleDisabled (st_cache s)),
       boxField ''cache_prefetch_disabled'' (prefetchDisabled (st_cache s)),
       boxField ''log_disabled'' (log_disabled (st_log s)),
       (''log_classes'', Some (joinStr '', '' (log_classes (st_log s)))),
       boxField ''bufsize_disabled'' (st_bufsizeDisabled s),
       boxField ''errors_consolidate_disabled'' (consolidateDisabled (st_errors s)),
       boxField ''observability_health'' (obs_health (st_observability s)),
       boxField ''observability_ready'' (obs_ready (st_observability s)),
       boxField ''observability_prometheus'' (obs_prometheus (st_observability s)),
       boxField ''querylog_enabled'' (queryLog_enabled (st_queryLog s)),
       (''querylog_capacity'', Some (capacityValue (capacity (st_queryLog s)))),
       boxField ''acme_enabled'' (acme_enabled (st_acme s)),
       boxField ''acme_self_signed_fallback'' (acme_selfSignedFallback (st_acme s)),
       (''acme_domain'', Some (acme_domain (st_acme s))),
       (''acme_email'', Some (acme_email (st_acme s))),
       (''acme_dns_provider'', Some (acme_dnsProvider (st_acme s))),
       boxField ''acme_production'' (acme_production (st_acme s)),
       (''acme_renew_before_days'', Some (itoa (acme_renewBeforeDays (st_acme s)))),
       boxField ''mdns_enabled'' (mdns_enabled (st_mdns s)),
       (''mdns_interfaces'', Some (joinStr '', '' (mdns_interfaces (st_mdns s)))),
       selectField ''mdns_service_types_mode'' [''none'', ''default'', ''all'', ''custom''] (mdnsServiceTypesMode (mdns_serviceTypes (st_mdns s))),
       (''mdns_service_types'', Some (mdnsServiceTypesCustomValue (mdns_serviceTypes (st_mdns s)))),
       (''mdns_suffix'', Some (mdns_suffix (st_mdns s))),
       boxField ''mdns_advertise_enabled'' (adv_enabled (mdns_advertise (st_mdns s))),
       boxField ''client_names_enabled'' (clientNames_enabled (st_clientNames s)),
       (''client_names_ptr_upstream'', Some (ptrUpstream (st_clientNames s))),
       selectField ''client_names_refresh_hostnames'' [''ipv4_only'', ''all'', ''none''] (normalizeRefreshMode (refreshHostnames (st_clientNames s)))]"

definition settingsForm :: "settings \<Rightarrow> form" where
  "settingsForm s = concat (map (\<lambda>(n, v). case v of None \<Rightarrow> [] | Some x \<Rightarrow> [(n, x)]) (settingsFields s))"

text \<open>The page submitted as it was rendered.\<close>

definition resave :: "settings \<Rightarrow> settings" where
  "resave s = parseSettingsForm (settingsForm s) s"

section \<open>The fields of the settings page\<close>

lemmas page_defs = settingsFields_def listenerFields_def doqListenerFields_def doh3ListenerFields_def boxField_def
  radioField_def selectField_def

lemma form_at:
  assumes "distinct (map fst fs)" "k < length fs" "fs ! k = (n, v)"
  shows "formValue (concat (map (\<lambda>(n, v). case v of None \<Rightarrow> [] | Some x \<Rightarrow> [(n, x)]) fs)) n = (case v of None \<Rightarrow> [] | Some x \<Rightarrow> x)"
proof -
  have absent: "m \<notin> fst ` set gs \<Longrightarrow> formValue (concat (map (\<lambda>(n, v). case v of None \<Rightarrow> [] | Some x \<Rightarrow> [(n, x)]) gs)) m = []" for gs m
    by (induction gs) (auto split: option.splits)
  have "(n, v) \<in> set fs" using assms(2,3) nth_mem by force
  then show ?thesis using assms(1) by (induction fs) (auto simp: absent rev_image_eqI split: option.splits)
qed

lemma settingsFields_names:
  "length (settingsFields s) = 48" "distinct (map fst (settingsFields s))"
proof -
  show "length (settingsFields s) = 48" by (simp add: page_defs)
  have "map fst (settingsFields s) = map fst (settingsFields defaultSettings)" by (simp add: page_defs)
  moreover have "distinct (map fst (settingsFields defaultSettings))" by code_simp
  ultimately show "distinct (map fst (settingsFields s))" by simp
qed

lemma settings_at:
  "k < 48 \<Longrightarrow> formValue (settingsForm s) (fst (settingsFields s ! k)) = (case snd (settingsFields s ! k) of None \<Rightarrow> [] | Some x \<Rightarrow> x)"
  unfolding settingsForm_def by (rule form_at [OF settingsFields_names(2)]) (simp_all add: settingsFields_names(1))

lemma settingsForm_texts:
  "formValue (settingsForm s) ''upstream_address'' = up_address (st_upstream s)"
  "formValue (settingsForm s) ''upstream_protocol'' = (if up_protocol (st_upstream s) \<in> {''plain'', ''dot'', ''doh''} then up_protocol (st_upstream s) else [])"
  "formValue (settingsForm s) ''upstream_max_fails'' = uintPtrStr (up_maxFails (st_upstream s))"
  "formValue (settingsForm s) ''upstream_health_check_seconds'' = uint32Str (up_healthCheckSeconds (st_upstream s))"
  "formValue (settingsForm s) ''upstream_expire_seconds'' = uint32Str (up_expireSeconds (st_upstream s))"
  "formValue (settingsForm s) ''upstream_max_concurrent'' = uint32Str (up_maxConcurrent (st_upstream s))"
  "formValue (settingsForm s) ''plain_port'' = intText (ln_port (ls_plain (st_listeners s)))"
  "formValue (settingsForm s) ''doh_port'' = intText (ln_port (ls_doh (st_listeners s)))"
  "formValue (settingsForm s) ''doh3_port'' = intText (ln_port (ls_doh3 (st_listeners s)))"
  "formValue (settingsForm s) ''doh3_max_streams'' = intText (ln_maxStreams (ls_doh3 (st_listeners s)))"
  "formValue (settingsForm s) ''dot_port'' = intText (ln_port (ls_dot (st_listeners s)))"
  "formValue (settingsForm s) ''doq_port'' = intText (ln_port (ls_doq (st_listeners s)))"
  "formValue (settingsForm s) ''doq_max_streams'' = intText (ln_maxStreams (ls_doq (st_listeners s)))"
  "formValue (settingsForm s) ''doq_worker_pool_size'' = intText (ln_workerPoolSize (ls_doq (st_listeners s)))"
  "formValue (settingsForm s) ''log_classes'' = joinStr '', '' (log_classes (st_log s))"
  "formValue (settingsForm s) ''querylog_capacity'' = capacityValue (capacity (st_queryLog s))"
  "formValue (settingsForm s) ''acme_domain'' = acme_domain (st_acme s)"
  "formValue (settingsForm s) ''acme_email'' = acme_email (st_acme s)"
  "formValue (settingsForm s) ''acme_dns_provider'' = acme_dnsProvider (st_acme s)"
  "formValue (settingsForm s) ''acme_renew_before_days'' = itoa (acme_renewBeforeDays (st_acme s))"
  "formValue (settingsForm s) ''mdns_interfaces'' = joinStr '', '' (mdns_interfaces (st_mdns s))"
  "formValue (settingsForm s) ''mdns_service_types_mode'' = mdnsServiceTypesMode (mdns_serviceTypes (st_mdns s))"
  "formValue (settingsForm s) ''mdns_service_types'' = mdnsServiceTypesCustomValue (mdns_serviceTypes (st_mdns s))"
  "formValue (settingsForm s) ''mdns_suffix'' = mdns_suffix (st_mdns s)"
  "formValue (settingsForm s) ''client_names_ptr_upstream'' = ptrUpstream (st_clientNames s)"
  "formValue (settingsForm s) ''client_names_refresh_hostnames'' = (if normalizeRefreshMode (refreshHostnames (st_clientNames s)) \<in> {''ipv4_only'', ''all'', ''none''} then normalizeRefreshMode (refreshHostnames (st_clientNames s)) else ''ipv4_only'')"
  subgoal using settings_at [of 0 s] by (simp add: page_defs)
  subgoal using settings_at [of 1 s] by (simp add: page_defs)
  subgoal using settings_at [of 3 s] by (simp add: page_defs)
  subgoal using settings_at [of 4 s] by (simp add: page_defs)
  subgoal using settings_at [of 5 s] by (simp add: page_defs)
  subgoal using settings_at [of 6 s] by (simp add: page_defs)
  subgoal using settings_at [of 9 s] by (simp add: page_defs)
  subgoal using settings_at [of 11 s] by (simp add: page_defs)
  subgoal using settings_at [of 13 s] by (simp add: page_defs)
  subgoal using settings_at [of 14 s] by (simp add: page_defs)
  subgoal using settings_at [of 16 s] by (simp add: page_defs)
  subgoal using settings_at [of 18 s] by (simp add: page_defs)
  subgoal using settings_at [of 19 s] by (simp add: page_defs)
  subgoal using settings_at [of 20 s] by (simp add: page_defs)
  subgoal using settings_at [of 24 s] by (simp add: page_defs)
  subgoal using settings_at [of 31 s] by (simp add: page_defs)
  subgoal using settings_at [of 34 s] by (simp add: page_defs)
  subgoal using settings_at [of 35 s] by (simp add: page_defs)
  subgoal using settings_at [of 36 s] by (simp add: page_defs)
  subgoal using settings_at [of 38 s] by (simp add: page_defs)
  subgoal using settings_at [of 40 s] by (simp add: page_defs)
  subgoal using settings_at [of 41 s] by (simp add: page_defs mdnsServiceTypesMode_def)
  subgoal using settings_at [of 42 s] by (simp add: page_defs)
  subgoal using settings_at [of 43 s] by (simp add: page_defs)
  subgoal using settings_at [of 46 s] by (simp add: page_defs)
  subgoal using settings_at [of 47 s] by (simp add: page_defs mdnsServiceTypesMode_def)
  done

lemma settingsForm_boxes:
  "formValue (settingsForm s) ''upstream_ecs_enabled'' \<noteq> [] \<longleftrightarrow> up_ecs (st_upstream s)"
  "formValue (settingsForm s) ''upstream_prefer_udp'' \<noteq> [] \<longleftrightarrow> up_preferUDP (st_upstream s)"
  "formValue (settingsForm s) ''plain_enabled'' \<noteq> [] \<longleftrightarrow> ln_enabled (ls_plain (st_listeners s))"
  "formValue (settingsForm s) ''doh_enabled'' \<noteq> [] \<longleftrightarrow> ln_enabled (ls_doh (st_listeners s))"
  "formValue (settingsForm s) ''doh3_enabled'' \<noteq> [] \<longleftrightarrow> ln_enabled (ls_doh3 (st_listeners s))"
  "formValue (settingsForm s) ''dot_enabled'' \<noteq> [] \<longleftrightarrow> ln_enabled (ls_dot (st_listeners s))"
  "formValue (settingsForm s) ''doq_enabled'' \<noteq> [] \<longleftrightarrow> ln_enabled (ls_doq (st_listeners s))"
  "formValue (settingsForm s) ''cache_serve_stale_disabled'' \<noteq> [] \<longleftrightarrow> serveStaleDisabled (st_cache s)"
  "formValue (settingsForm s) ''cache_prefetch_disabled'' \<noteq> [] \<longleftrightarrow> prefetchDisabled (st_cache s)"
  "formValue (settingsForm s) ''log_disabled'' \<noteq> [] \<longleftrightarrow> log_disabled (st_log s)"
  "formValue (settingsForm s) ''bufsize_disabled'' \<noteq> [] \<longleftrightarrow> st_bufsizeDisabled s"
  "formValue (settingsForm s) ''errors_consolidate_disabled'' \<noteq> [] \<longleftrightarrow> consolidateDisabled (st_errors s)"
  "formValue (settingsForm s) ''observability_health'' \<noteq> [] \<longleftrightarrow> obs_health (st_observability s)"
  "formValue (settingsForm s) ''observability_ready'' \<noteq> [] \<longleftrightarrow> obs_ready (st_observability s)"
  "formValue (settingsForm s) ''observability_prometheus'' \<noteq> [] \<longleftrightarrow> obs_prometheus (st_observability s)"
  "formValue (settingsForm s) ''querylog_enabled'' \<noteq> [] \<longleftrightarrow> queryLog_enabled (st_queryLog s)"
  "formValue (settingsForm s) ''acme_enabled'' \<noteq> [] \<longleftrightarrow> acme_enabled (st_acme s)"
  "formValue (settingsForm s) ''acme_self_signed_fallback'' \<noteq> [] \<longleftrightarrow> acme_selfSignedFallback (st_acme s)"
  "formValue (settingsForm s) ''acme_production'' \<noteq> [] \<longleftrightarrow> acme_production (st_acme s)"
  "formValue (settingsForm s) ''mdns_enabled'' \<noteq> [] \<longleftrightarrow> mdns_enabled (st_mdns s)"
  "formValue (settingsForm s) ''mdns_advertise_enabled'' \<noteq> [] \<longleftrightarrow> adv_enabled (mdns_advertise (st_mdns s))"
  "formValue (settingsForm s) ''client_names_enabled'' \<noteq> [] \<longleftrightarrow> clientNames_enabled (st_clientNames s)"
  subgoal using settings_at [of 2 s] by (simp add: page_defs)
  subgoal using settings_at [of 7 s] by (simp add: page_defs)
  subgoal using settings_at [of 8 s] by (simp add: page_defs)
  subgoal using settings_at [of 10 s] by (simp add: page_defs)
  subgoal using settings_at [of 12 s] by (simp add: page_defs)
  subgoal using settings_at [of 15 s] by (simp add: page_defs)
  subgoal using settings_at [of 17 s] by (simp add: page_defs)
  subgoal using settings_at [of 21 s] by (simp add: page_defs)
  subgoal using settings_at [of 22 s] by (simp add: page_defs)
  subgoal using settings_at [of 23 s] by (simp add: page_defs)
  subgoal using settings_at [of 25 s] by (simp add: page_defs)
  subgoal using settings_at [of 26 s] by (simp add: page_defs)
  subgoal using settings_at [of 27 s] by (simp add: page_defs)
  subgoal using settings_at [of 28 s] by (simp add: page_defs)
  subgoal using settings_at [of 29 s] by (simp add: page_defs)
  subgoal using settings_at [of 30 s] by (simp add: page_defs)
  subgoal using settings_at [of 32 s] by (simp add: page_defs)
  subgoal using settings_at [of 33 s] by (simp add: page_defs)
  subgoal using settings_at [of 37 s] by (simp add: page_defs)
  subgoal using settings_at [of 39 s] by (simp add: page_defs)
  subgoal using settings_at [of 44 s] by (simp add: page_defs)
  subgoal using settings_at [of 45 s] by (simp add: page_defs)
  done

section \<open>Submitting the page unchanged\<close>

lemma parseUint32_back: "formValue f n = uint32Str v \<Longrightarrow> parseUint32 f n d = v"
  by (simp add: parseUint32_def uint32Str_def Let_def itoa_nonneg_trim)

lemma parseUintPtr_back: "formValue f n = uintPtrStr v \<Longrightarrow> parseUintPtr f n d = v"
  by (simp add: parseUintPtr_def uintPtrStr_def Let_def itoa_nonneg_trim split: option.splits)

lemma parseListener_back:
  assumes "formValue f (pre @ ''_enabled'') \<noteq> [] \<longleftrightarrow> ln_enabled l" "formValue f (pre @ ''_port'') = intText (ln_port l)"
  shows "parseListener f pre l = (if ln_enabled l then l else l\<lparr>ln_port := 0\<rparr>)"
proof -
  have "l\<lparr>ln_enabled := ln_enabled l\<rparr> = l" "l\<lparr>ln_port := ln_port l\<rparr> = l" by simp_all
  then show ?thesis
    using assms by (auto simp: parseListener_def Let_def intText_def dest: atoi_itoa_only split: option.splits if_splits)
qed

definition norm_capacity :: "int \<Rightarrow> int" where
  "norm_capacity i = (if 0 < i \<and> i < 2 ^ 63 then i else 0)"

lemma capacity_back: "formValue f n = capacityValue i \<Longrightarrow> intField f n (\<lambda>v. v > 0) 0 = norm_capacity i"
  using atoi_itoa [of i] atoi_range [of "itoa i"]
  by (cases "atoi (itoa i)") (auto simp: intField_def capacityValue_def norm_capacity_def dest: atoi_itoa_only)

definition norm_listener :: "'a listener_scheme \<Rightarrow> 'a listener_scheme" where
  "norm_listener l = (if ln_enabled l then l else l\<lparr>ln_port := 0\<rparr>)"

definition norm_list :: "string list \<Rightarrow> string list" where
  "norm_list xs = splitAndTrim (joinStr '', '' xs)"

definition norm_types :: "string list \<Rightarrow> string list" where
  "norm_types types =
     (if mdnsServiceTypesMode types \<in> {''default'', ''all''} then [mdnsServiceTypesMode types]
      else if types = [] then [] else norm_list types)"

definition norm_refresh :: "string \<Rightarrow> string" where
  "norm_refresh m = (if m \<in> {''all'', ''none''} then m else ''ipv4_only'')"

lemma page_listeners:
  "parseListener (settingsForm s) ''plain'' (ls_plain (st_listeners s)) = norm_listener (ls_plain (st_listeners s))"
  "parseListener (settingsForm s) ''dot'' (ls_dot (st_listeners s)) = norm_listener (ls_dot (st_listeners s))"
  "parseListener (settingsForm s) ''doh'' (ls_doh (st_listeners s)) = norm_listener (ls_doh (st_listeners s))"
  "parseListener (settingsForm s) ''doq'' (ls_doq (st_listeners s)) = norm_listener (ls_doq (st_listeners s))"
  "parseListener (settingsForm s) ''doh3'' (ls_doh3 (st_listeners s)) = norm_listener (ls_doh3 (st_listeners s))"
  by (subst parseListener_back; simp add: settingsForm_texts settingsForm_boxes norm_listener_def)+

lemma page_quic:
  "(norm_listener (l :: quicListener))\<lparr>ln_workerPoolSize := ln_workerPoolSize l\<rparr> = norm_listener l"
  "(norm_listener (l :: quicListener))\<lparr>ln_maxStreams := ln_maxStreams l\<rparr> = norm_listener l"
  by (simp_all add: norm_listener_def)

lemmas page_numbers =
  parseUintPtr_back [OF settingsForm_texts(3)] parseUint32_back [OF settingsForm_texts(4)]
  parseUint32_back [OF settingsForm_texts(5)] parseUint32_back [OF settingsForm_texts(6)]
  intField_keep(1) [OF settingsForm_texts(10)] intField_keep(1) [OF settingsForm_texts(13)]
  intField_keep(1) [OF settingsForm_texts(14)] intField_keep(2) [OF settingsForm_texts(20)]
  capacity_back [OF settingsForm_texts(16)]

lemma page_types:
  "(if mdnsServiceTypesMode ts = ''none'' then [] else if mdnsServiceTypesMode ts = ''default'' then [''default'']
    else if mdnsServiceTypesMode ts = ''all'' then [''all''] else splitAndTrim (mdnsServiceTypesCustomValue ts)) = norm_types ts"
  by (auto simp: norm_types_def norm_list_def mdnsServiceTypesCustomValue_def mdnsServiceTypesMode_def)

lemma page_refresh:
  "(if (if normalizeRefreshMode m \<in> {''ipv4_only'', ''all'', ''none''} then normalizeRefreshMode m else ''ipv4_only'') \<in> {''ipv4_only'', ''all'', ''none''}
    then (if normalizeRefreshMode m \<in> {''ipv4_only'', ''all'', ''none''} then normalizeRefreshMode m else ''ipv4_only'') else []) = norm_refresh m"
  by (auto simp: normalizeRefreshMode_def norm_refresh_def)

text \<open>What submitting the page as it was rendered does to each field.\<close>

lemma resave_exact:
  "resave s = s\<lparr>
     st_upstream := (st_upstream s)\<lparr>up_address := trimSpace (up_address (st_upstream s)),
       up_protocol := if up_protocol (st_upstream s) \<in> {''plain'', ''dot'', ''doh''} then up_protocol (st_upstream s) else []\<rparr>,
     st_log := (st_log s)\<lparr>log_classes := norm_list (log_classes (st_log s))\<rparr>,
     st_queryLog := (st_queryLog s)\<lparr>capacity := norm_capacity (capacity (st_queryLog s))\<rparr>,
     st_listeners := \<lparr>ls_plain = norm_listener (ls_plain (st_listeners s)), ls_dot = norm_listener (ls_dot (st_listeners s)),
       ls_doh = norm_listener (ls_doh (st_listeners s)), ls_doq = norm_listener (ls_doq (st_listeners s)),
       ls_doh3 = norm_listener (ls_doh3 (st_listeners s))\<rparr>,
     st_acme := (st_acme s)\<lparr>acme_domain := trimSpace (acme_domain (st_acme s)), acme_email := trimSpace (acme_email (st_acme s)),
       acme_dnsProvider := trimSpace (acme_dnsProvider (st_acme s)),
       acme_selfSignedFallback := \<not> acme_enabled (st_acme s) \<and> acme_selfSignedFallback (st_acme s)\<rparr>,
     st_mdns := (st_mdns s)\<lparr>mdns_interfaces := norm_list (mdns_interfaces (st_mdns s)),
       mdns_serviceTypes := norm_types (mdns_serviceTypes (st_mdns s)), mdns_suffix := trimSpace (mdns_suffix (st_mdns s))\<rparr>,
     st_clientNames := (st_clientNames s)\<lparr>ptrUpstream := trimSpace (ptrUpstream (st_clientNames s)),
       refreshHostnames := norm_refresh (refreshHostnames (st_clientNames s))\<rparr>\<rparr>"
  unfolding resave_def parseSettingsForm_def Let_def settingsForm_texts settingsForm_boxes page_listeners page_quic page_numbers
    page_types page_refresh norm_list_def [symmetric]
  by (rule settings.equality) (simp_all add: page_quic)

text \<open>
  The settings the page keeps as they are: no space around a text, lists of plain items, a port only
  for an enabled listener, and one source of certificates.
\<close>

definition page_clean :: "settings \<Rightarrow> bool" where
  "page_clean s \<longleftrightarrow>
     (\<forall>x\<in>{up_address (st_upstream s), acme_domain (st_acme s), acme_email (st_acme s), acme_dnsProvider (st_acme s),
        mdns_suffix (st_mdns s), ptrUpstream (st_clientNames s)}. trimSpace x = x) \<and>
     up_protocol (st_upstream s) \<in> {[], ''plain'', ''dot'', ''doh''} \<and>
     list_all list_item (log_classes (st_log s)) \<and> list_all list_item (mdns_interfaces (st_mdns s)) \<and>
     (let ts = mdns_serviceTypes (st_mdns s) in
      if mdnsServiceTypesMode ts \<in> {''default'', ''all''} then ts = [mdnsServiceTypesMode ts] else list_all list_item ts) \<and>
     norm_capacity (capacity (st_queryLog s)) = capacity (st_queryLog s) \<and>
     (let ls = st_listeners s in norm_listener (ls_plain ls) = ls_plain ls \<and> norm_listener (ls_dot ls) = ls_dot ls \<and>
       norm_listener (ls_doh ls) = ls_doh ls \<and> norm_listener (ls_doq ls) = ls_doq ls \<and> norm_listener (ls_doh3 ls) = ls_doh3 ls) \<and>
     \<not> (acme_enabled (st_acme s) \<and> acme_selfSignedFallback (st_acme s)) \<and>
     refreshHostnames (st_clientNames s) \<in> {''ipv4_only'', ''all'', ''none''}"

lemma page_cleanD:
  assumes "page_clean s"
  shows "trimSpace (up_address (st_upstream s)) = up_address (st_upstream s)" "trimSpace (acme_domain (st_acme s)) = acme_domain (st_acme s)"
    "trimSpace (acme_email (st_acme s)) = acme_email (st_acme s)" "trimSpace (acme_dnsProvider (st_acme s)) = acme_dnsProvider (st_acme s)"
    "trimSpace (mdns_suffix (st_mdns s)) = mdns_suffix (st_mdns s)" "trimSpace (ptrUpstream (st_clientNames s)) = ptrUpstream (st_clientNames s)"
    "(if up_protocol (st_upstream s) \<in> {''plain'', ''dot'', ''doh''} then up_protocol (st_upstream s) else []) = up_protocol (st_upstream s)"
    "norm_list (log_classes (st_log s)) = log_classes (st_log s)" "norm_list (mdns_interfaces (st_mdns s)) = mdns_interfaces (st_mdns s)"
    "norm_types (mdns_serviceTypes (st_mdns s)) = mdns_serviceTypes (st_mdns s)"
    "norm_capacity (capacity (st_queryLog s)) = capacity (st_queryLog s)"
    "norm_listener (ls_plain (st_listeners s)) = ls_plain (st_listeners s)" "norm_listener (ls_dot (st_listeners s)) = ls_dot (st_listeners s)"
    "norm_listener (ls_doh (st_listeners s)) = ls_doh (st_listeners s)" "norm_listener (ls_doq (st_listeners s)) = ls_doq (st_listeners s)"
    "norm_listener (ls_doh3 (st_listeners s)) = ls_doh3 (st_listeners s)"
    "(\<not> acme_enabled (st_acme s) \<and> acme_selfSignedFallback (st_acme s)) = acme_selfSignedFallback (st_acme s)"
    "norm_refresh (refreshHostnames (st_clientNames s)) = refreshHostnames (st_clientNames s)"
proof -
  note c = assms [unfolded page_clean_def Let_def]
  show "trimSpace (up_address (st_upstream s)) = up_address (st_upstream s)" "trimSpace (acme_domain (st_acme s)) = acme_domain (st_acme s)"
    "trimSpace (acme_email (st_acme s)) = acme_email (st_acme s)" "trimSpace (acme_dnsProvider (st_acme s)) = acme_dnsProvider (st_acme s)"
    "trimSpace (mdns_suffix (st_mdns s)) = mdns_suffix (st_mdns s)" "trimSpace (ptrUpstream (st_clientNames s)) = ptrUpstream (st_clientNames s)"
    using conjunct1 [OF c] by simp_all
  show "(if up_protocol (st_upstream s) \<in> {''plain'', ''dot'', ''doh''} then up_protocol (st_upstream s) else []) = up_protocol (st_upstream s)"
    using conjunct1 [OF conjunct2 [OF c]] by auto
  have items: "list_all list_item (log_classes (st_log s))" "list_all list_item (mdns_interfaces (st_mdns s))"
      "if mdnsServiceTypesMode (mdns_serviceTypes (st_mdns s)) \<in> {''default'', ''all''}
       then mdns_serviceTypes (st_mdns s) = [mdnsServiceTypesMode (mdns_serviceTypes (st_mdns s))]
       else list_all list_item (mdns_serviceTypes (st_mdns s))"
    by (insert c, elim conjE, assumption)+
  show "norm_list (log_classes (st_log s)) = log_classes (st_log s)" "norm_list (mdns_interfaces (st_mdns s)) = mdns_interfaces (st_mdns s)"
    using items(1,2) by (simp_all add: norm_list_def splitAndTrim_join)
  show "norm_types (mdns_serviceTypes (st_mdns s)) = mdns_serviceTypes (st_mdns s)"
    using items(3) unfolding norm_types_def norm_list_def by (simp split: if_splits add: splitAndTrim_join)
  show "norm_capacity (capacity (st_queryLog s)) = capacity (st_queryLog s)"
    "norm_listener (ls_plain (st_listeners s)) = ls_plain (st_listeners s)" "norm_listener (ls_dot (st_listeners s)) = ls_dot (st_listeners s)"
    "norm_listener (ls_doh (st_listeners s)) = ls_doh (st_listeners s)" "norm_listener (ls_doq (st_listeners s)) = ls_doq (st_listeners s)"
    "norm_listener (ls_doh3 (st_listeners s)) = ls_doh3 (st_listeners s)"
    by (insert c, elim conjE, assumption)+
  show "(\<not> acme_enabled (st_acme s) \<and> acme_selfSignedFallback (st_acme s)) = acme_selfSignedFallback (st_acme s)"
    using c by (elim conjE) argo
  show "norm_refresh (refreshHostnames (st_clientNames s)) = refreshHostnames (st_clientNames s)"
    using c by (elim conjE) (auto simp only: norm_refresh_def insert_iff empty_iff if_True simp_thms if_False split: if_split)
qed

lemma resave_clean: "page_clean s \<Longrightarrow> resave s = s"
  unfolding resave_exact by (simp only: page_cleanD) simp

lemma norm_idem:
  "norm_capacity (norm_capacity i) = norm_capacity i" "norm_listener (norm_listener l) = norm_listener l"
  "list_all list_item (norm_list xs)"
  by (auto simp: norm_capacity_def norm_listener_def norm_list_def splitAndTrim_items)

text \<open>
  A list with one item that is a sentinel in another spelling needs a second submission: the first
  makes it a list of that item, the second its plain form.
\<close>

lemma norm_types_twice:
  "if mdnsServiceTypesMode (norm_types (norm_types ts)) \<in> {''default'', ''all''}
   then norm_types (norm_types ts) = [mdnsServiceTypesMode (norm_types (norm_types ts))]
   else list_all list_item (norm_types (norm_types ts))"
proof -
  have sent: "mdnsServiceTypesMode [''default''] = ''default''" "mdnsServiceTypesMode [''all''] = ''all''"
    "norm_types [''default''] = [''default'']" "norm_types [''all''] = [''all'']"
    by code_simp+
  show ?thesis
  proof (cases "mdnsServiceTypesMode (norm_types ts) \<in> {''default'', ''all''}")
    case True
    then show ?thesis using sent by (auto simp: norm_types_def [of "norm_types ts"])
  next
    case False
    then have ts: "list_all list_item (norm_types ts)" using sent(1,2) by (auto simp: norm_types_def norm_idem)
    then have "norm_types (norm_types ts) = norm_types ts"
      using False by (simp add: norm_types_def [of "norm_types ts"] norm_list_def splitAndTrim_join)
    then show ?thesis using False ts by simp
  qed
qed

lemma page_clean_resave: "page_clean (resave (resave s))"
  using norm_types_twice [of "mdns_serviceTypes (st_mdns s)"] unfolding resave_exact page_clean_def Let_def
  by (simp add: norm_idem norm_refresh_def)

text \<open>
  C33. Submitting the settings page as it was rendered keeps settings that are in the page's normal
  form exactly, those fields included that the page does not show, and from any settings at most two
  submissions reach the normal form.
\<close>

theorem settings_page_stable:
  "(page_clean s \<longrightarrow> resave s = s) \<and> resave (resave (resave s)) = resave (resave s)"
  using resave_clean page_clean_resave by blast

theorem settings_page_stable_witness:
  "let s = defaultSettings\<lparr>st_clientNames := (st_clientNames defaultSettings)\<lparr>refreshHostnames := ''all''\<rparr>\<rparr> in
   page_clean s \<and> resave s = s"
proof -
  let ?s = "defaultSettings\<lparr>st_clientNames := (st_clientNames defaultSettings)\<lparr>refreshHostnames := ''all''\<rparr>\<rparr>"
  have "page_clean ?s" by code_simp
  then show ?thesis using settings_page_stable [of ?s] by (simp add: Let_def)
qed

text \<open>
  An empty tuning field keeps the value it showed before, unlike the fields of the upstream, where an
  empty field clears it: to clear it one has to type 0.
\<close>

lemma blank_tuning_kept:
  "formValue f ''doq_max_streams'' = [] \<Longrightarrow>
     ln_maxStreams (ls_doq (st_listeners (parseSettingsForm f s))) = ln_maxStreams (ls_doq (st_listeners s))"
  "formValue f ''upstream_max_concurrent'' = [] \<Longrightarrow> up_maxConcurrent (st_upstream (parseSettingsForm f s)) = 0"
  by (simp_all add: parseSettingsForm_def Let_def intField_def parseUint32_def)

text \<open>Submitting the page writes out the default mode of refreshing client names.\<close>

lemma unset_refresh_saved:
  "refreshHostnames (st_clientNames s) = [] \<Longrightarrow> refreshHostnames (st_clientNames (resave s)) = ''ipv4_only''"
  by (simp add: resave_exact norm_refresh_def)

end
