(* ===== verification/Gui_Views.thy ===== *)
theory Gui_Views
  imports Gui_Forms Log_Reads Mdns_Table Client_Names Acme_Manager Mdns_Advertise
begin

text \<open>
  What the pages of the dashboard show: filters, pages and labels of the query log, the numbers behind
  the charts, the zones a record may be in, the addresses for private DNS (\<^verbatim>\<open>internal/gui/handlers_ui.go\<close>,
  the functions of \<^verbatim>\<open>internal/gui/ui/*_templ.go\<close>, \<^verbatim>\<open>internal/dnsstamp\<close>). The markup around them is not
  modelled.

  Shown: the pages of the log are exactly its entries, the charts and tiles add up to the totals, a
  filter by listener shows nothing for the second listener on a shared port, and distinct records
  have distinct addresses.
\<close>

section \<open>The query log\<close>

definition queryLogPageSize :: int where "queryLogPageSize = 50"

text \<open>\<^verbatim>\<open>paginateQueryLog\<close>: the page shown, the number of pages, and the entries of the page.\<close>

definition paginateQueryLog :: "'a list \<Rightarrow> int \<Rightarrow> int \<Rightarrow> int \<times> int \<times> 'a list" where
  "paginateQueryLog all page pageSize =
     (let total = int (length all);
          totalPages = go_div (total + pageSize - 1) pageSize;
          totalPages = (if totalPages < 1 then 1 else totalPages);
          page = (if page > totalPages then totalPages else page);
          page = (if page < 1 then 1 else page);
          start = (page - 1) * pageSize;
          start = (if start > total then total else start);
          end' = start + pageSize;
          end' = (if end' > total then total else end') in
      (page, totalPages, take (nat (end' - start)) (drop (nat start) all)))"

definition listenerLabel :: "string \<Rightarrow> listeners \<Rightarrow> string" where
  "listenerLabel listener l = (case splitHostPort listener of
     Inl _ \<Rightarrow> listener
   | Inr (_, portStr) \<Rightarrow>
       (case atoi portStr of
          None \<Rightarrow> listener
        | Some port \<Rightarrow>
            if ln_enabled (ls_plain l) \<and> ln_port (ls_plain l) = port then ''Plain''
            else if ln_enabled (ls_dot l) \<and> ln_port (ls_dot l) = port then ''DoT''
            else if ln_enabled (ls_doh l) \<and> ln_port (ls_doh l) = port then ''DoH''
            else if ln_enabled (ls_doq l) \<and> ln_port (ls_doq l) = port then ''DoQ''
            else if ln_enabled (ls_doh3 l) \<and> ln_port (ls_doh3 l) = port then ''DoH3''
            else '':'' @ portStr))"

definition enabledListenerLabels :: "listeners \<Rightarrow> string list" where
  "enabledListenerLabels l =
     (if ln_enabled (ls_plain l) then [''Plain''] else []) @ (if ln_enabled (ls_dot l) then [''DoT''] else []) @
     (if ln_enabled (ls_doh l) then [''DoH''] else []) @ (if ln_enabled (ls_doq l) then [''DoQ''] else []) @
     (if ln_enabled (ls_doh3 l) then [''DoH3''] else [])"

definition filterQueryLogByListener :: "entry list \<Rightarrow> string \<Rightarrow> listeners \<Rightarrow> entry list" where
  "filterQueryLogByListener es label l =
     (if label = [] then es else filter (\<lambda>e. listenerLabel (e_listener e) l = label) es)"

record queryLogParams =
  qp_filter :: log_filter
  qp_listenerFilter :: string
  qp_page :: int
  qp_interval :: string

definition isValidQueryLogInterval :: "string \<Rightarrow> bool" where
  "isValidQueryLogInterval s = (s \<in> {''2s'', ''5s'', ''10s'', ''off''})"

text \<open>\<open>stringToType\<close> is the table of the \<^verbatim>\<open>dns\<close> package.\<close>

definition queryLogQTypeFromParam :: "(string \<rightharpoonup> uint16) \<Rightarrow> string \<Rightarrow> uint16" where
  "queryLogQTypeFromParam stringToType s =
     (let s = toUpper (trimSpace s) in
      if s = [] then 0 else (case stringToType s of None \<Rightarrow> 0 | Some t \<Rightarrow> t))"

definition queryLogParamsFromRequest :: "(string \<rightharpoonup> uint16) \<Rightarrow> form \<Rightarrow> queryLogParams" where
  "queryLogParamsFromRequest stringToType q =
     (let page = (case atoi (formValue q ''page'') of None \<Rightarrow> 1 | Some p \<Rightarrow> if p < 1 then 1 else p);
          interval = formValue q ''interval'';
          interval = (if \<not> isValidQueryLogInterval interval then ''2s'' else interval) in
      \<lparr>qp_filter = \<lparr>f_qname = trimSpace (formValue q ''q''), f_client = trimSpace (formValue q ''client''),
         f_vlan = trimSpace (formValue q ''vlan''), f_qtype = queryLogQTypeFromParam stringToType (formValue q ''qtype'')\<rparr>,
       qp_listenerFilter = trimSpace (formValue q ''listener''), qp_page = page, qp_interval = interval\<rparr>)"

definition queryLogSnapshot :: "ring option \<Rightarrow> log_filter \<Rightarrow> entry list" where
  "queryLogSnapshot cur f = (case cur of None \<Rightarrow> [] | Some ring \<Rightarrow> snapshot f ring)"

text \<open>\<^verbatim>\<open>clientHostnames\<close>: later clients overwrite earlier ones with the same address.\<close>

definition clientHostnames :: "'e + cnEntry list \<Rightarrow> string \<rightharpoonup> string" where
  "clientHostnames cs = (case cs of
     Inl _ \<Rightarrow> Map.empty
   | Inr es \<Rightarrow> fold (\<lambda>c m. if ce_hostname c \<noteq> [] then m(ce_ip c \<mapsto> ce_hostname c) else m) es Map.empty)"

record qlGridData =
  qg_entries :: "entry list"
  qg_total :: int
  qg_page :: int
  qg_totalPages :: int
  qg_interval :: string
  qg_filter :: log_filter
  qg_listenerFilter :: string
  qg_listeners :: listeners
  qg_vlans :: "vlan list"
  qg_clientHostnames :: "string \<rightharpoonup> string"

definition queryLogGridData :: "ring option \<Rightarrow> 'e + cnEntry list \<Rightarrow> queryLogParams \<Rightarrow> settings \<Rightarrow> qlGridData" where
  "queryLogGridData cur cs p s =
     (let all = queryLogSnapshot cur (qp_filter p);
          all = filterQueryLogByListener all (qp_listenerFilter p) (st_listeners s);
          (page, totalPages, pageEntries) = paginateQueryLog all (qp_page p) queryLogPageSize in
      \<lparr>qg_entries = pageEntries, qg_total = int (length all), qg_page = page, qg_totalPages = totalPages,
       qg_interval = qp_interval p, qg_filter = qp_filter p, qg_listenerFilter = qp_listenerFilter p,
       qg_listeners = st_listeners s, qg_vlans = st_vlans s, qg_clientHostnames = clientHostnames cs\<rparr>)"

text \<open>When the browser asks for the rows again: on a timer on the first page only.\<close>

definition queryLogPollTrigger :: "string \<Rightarrow> int \<Rightarrow> string" where
  "queryLogPollTrigger interval page =
     (let triggers = [''keyup changed delay:300ms from:#querylog-search'', ''keyup changed delay:300ms from:#querylog-client'',
            ''change from:#querylog-vlan'', ''change from:#querylog-listener'', ''change from:#querylog-qtype'',
            ''change from:#querylog-interval''];
          triggers = (if interval \<noteq> ''off'' \<and> page = 1 then (''every '' @ interval) # triggers else triggers) in
      joinStr '', '' triggers)"

text \<open>The em dash of a missing label, in UTF-8.\<close>

definition emDash :: string where "emDash = [char_of (226 :: nat), char_of (128 :: nat), char_of (148 :: nat)]"

definition sourceLabel :: "string \<Rightarrow> string" where
  "sourceLabel source =
     (if source = ''localrecords'' then ''Local record''
      else if source = ''mdnsbridge'' then ''mDNS''
      else if source = ''hosts'' then ''Static host''
      else if source = ''cache'' then ''Cache''
      else if source = ''vlancache'' then ''VLAN cache''
      else if source = ''forward'' then ''Forwarded upstream''
      else if source = [] then emDash
      else source)"

definition outcomeLabel :: "string \<Rightarrow> string \<Rightarrow> string" where
  "outcomeLabel source verdict =
     (if source = ''localrecords'' then ''Local record''
      else if source = ''mdnsbridge'' then ''mDNS''
      else if source = ''hosts'' then ''Static host''
      else if verdict = ''cached'' then ''Cache''
      else if verdict = ''coalesced'' then ''Cache (coalesced)''
      else if verdict \<in> {''forwarded'', ''nxdomain''} then ''Forwarded upstream''
      else if verdict = [] then emDash
      else verdict)"

section \<open>The discovered devices\<close>

definition filterMDNSEntries :: "mentry list \<Rightarrow> string \<Rightarrow> string \<Rightarrow> mentry list" where
  "filterMDNSEntries es q status =
     (if q = [] \<and> status \<noteq> ''served'' \<and> status \<noteq> ''unserved'' then es
      else let q = toLower q in
        filter (\<lambda>e.
          \<not> (q \<noteq> [] \<and> \<not> containsStr (toLower (me_name e @ '' '' @ me_host e @ '' '' @ me_service e)) q) \<and>
          (let served = me_published e \<or> me_promoted e in
           \<not> (status = ''served'' \<and> \<not> served) \<and> \<not> (status = ''unserved'' \<and> served))) es)"

definition mdnsAddrs :: "mentry \<Rightarrow> string list" where
  "mdnsAddrs e = me_ipv4 e @ me_ipv6 e"

definition shortAddrs :: "string list \<Rightarrow> string" where
  "shortAddrs addrs =
     (if length addrs \<le> 1 then joinStr '', '' addrs
      else hd addrs @ '' +'' @ itoa (int (length addrs) - 1) @ '' more'')"

definition publishAction :: "bool \<Rightarrow> string" where
  "publishAction published = (if published then ''unpublish'' else ''publish'')"

section \<open>The charts\<close>

record labelCount =
  lb_label :: string
  lb_count :: int

text \<open>
  A map of counters is given by its keys, in the order the map is walked, and its values.
\<close>

definition sortedCounts :: "string list \<Rightarrow> (string \<Rightarrow> int) \<Rightarrow> labelCount list" where
  "sortedCounts ks m =
     sort_key (\<lambda>c. (- lb_count c, lb_label c)) (map (\<lambda>k. \<lparr>lb_label = k, lb_count = m k\<rparr>) ks)"

definition foldOther :: "labelCount list \<Rightarrow> nat \<Rightarrow> labelCount list" where
  "foldOther counts mx =
     (if length counts \<le> mx then counts
      else take (mx - 1) counts @ [\<lparr>lb_label = ''Other'', lb_count = sum_list (map lb_count (drop (mx - 1) counts))\<rparr>])"

definition nonEmptyCounts :: "string list \<Rightarrow> (string \<Rightarrow> int) \<Rightarrow> labelCount list" where
  "nonEmptyCounts ks m = filter (\<lambda>c. lb_label c \<noteq> ''none'') (sortedCounts ks m)"

definition cacheOutcomeLabel :: "string \<Rightarrow> string" where
  "cacheOutcomeLabel oc =
     (if oc = ''hit'' then ''Cache hit'' else if oc = ''coalesced'' then ''Coalesced''
      else if oc = ''miss'' then ''Forwarded (miss)'' else oc)"

definition vlanBarLabel :: "string \<Rightarrow> string" where
  "vlanBarLabel vlan = (if vlan = [] then ''(none)'' else vlan)"

definition sourceGroupTotal :: "(string \<Rightarrow> int) \<Rightarrow> string list \<Rightarrow> int" where
  "sourceGroupTotal bySource sources = sum_list (map bySource sources)"

record chartPayload =
  cp_labels :: "string list"
  cp_values :: "int list"

record namedSeries =
  ns_name :: string
  ns_values :: "int list"

record multiSeriesPayload =
  mp_labels :: "string list"
  mp_series :: "namedSeries list"

definition countsPayload :: "labelCount list \<Rightarrow> (string \<Rightarrow> string) \<Rightarrow> chartPayload" where
  "countsPayload counts labelFn = \<lparr>cp_labels = map (labelFn \<circ> lb_label) counts, cp_values = map lb_count counts\<rparr>"

text \<open>\<open>hhmm\<close> is \<^verbatim>\<open>Format("15:04")\<close> in the server's time zone.\<close>

definition seriesPayload :: "(time \<Rightarrow> string) \<Rightarrow> bucket list \<Rightarrow> chartPayload" where
  "seriesPayload hhmm bs = \<lparr>cp_labels = map (hhmm \<circ> bk_start) bs, cp_values = map bk_count bs\<rparr>"

definition clientActivityRowLabel :: "clientActivityRow \<Rightarrow> string" where
  "clientActivityRowLabel row =
     (if ca_isOther row then ''Other''
      else if ca_vlan row = [] then ca_clientIP row
      else ca_clientIP row @ '' ('' @ ca_vlan row @ '')'')"

definition clientActivityPayload :: "(time \<Rightarrow> string) \<Rightarrow> clientActivitySeries \<Rightarrow> multiSeriesPayload" where
  "clientActivityPayload hhmm ca =
     \<lparr>mp_labels = map hhmm (cas_buckets ca),
      mp_series = map (\<lambda>row. \<lparr>ns_name = clientActivityRowLabel row, ns_values = ca_counts row\<rparr>) (cas_rows ca)\<rparr>"

text \<open>The types by name; types without one as \<^verbatim>\<open>TYPE\<close> and the number. Types of one name are added.\<close>

definition qtypeName :: "(uint16 \<Rightarrow> string) \<Rightarrow> uint16 \<Rightarrow> string" where
  "qtypeName typeToString k = (if typeToString k = [] then ''TYPE'' @ itoa (uint k) else typeToString k)"

definition qtypeCounts :: "(uint16 \<Rightarrow> string) \<Rightarrow> uint16 list \<Rightarrow> (uint16 \<Rightarrow> int) \<Rightarrow> (string \<times> int) list" where
  "qtypeCounts typeToString ks byQType =
     fold (\<lambda>k m. AList.update (qtypeName typeToString k)
       ((case map_of m (qtypeName typeToString k) of None \<Rightarrow> 0 | Some c \<Rightarrow> c) + byQType k) m) ks []"

definition qtypeCountsPayload :: "(uint16 \<Rightarrow> string) \<Rightarrow> uint16 list \<Rightarrow> (uint16 \<Rightarrow> int) \<Rightarrow> chartPayload" where
  "qtypeCountsPayload typeToString ks byQType =
     (let m = qtypeCounts typeToString ks byQType in
      countsPayload (foldOther (sortedCounts (map fst m) (\<lambda>k. case map_of m k of None \<Rightarrow> 0 | Some c \<Rightarrow> c)) 6) id)"

record activityData =
  da_totals :: totals
  da_series :: "bucket list"
  da_topDomains :: "(string \<times> int) list"
  da_topClients :: "((string \<times> string) \<times> int) list"
  da_storeConfigured :: bool
  da_clientActivity :: clientActivitySeries
  da_clientHostnames :: "string \<rightharpoonup> string"

definition dashboardStatsWindow :: duration where "dashboardStatsWindow = 24 * 3600 * 1000000000"
definition dashboardTopN :: int where "dashboardTopN = 10"
definition dashboardClientActivityTopN :: int where "dashboardClientActivityTopN = 5"
definition dashboardClientActivityBucket :: duration where "dashboardClientActivityBucket = 3600 * 1000000000"

text \<open>
  \<^verbatim>\<open>dashboardActivityData\<close>; \<open>fails\<close> tells which of the three reads of the store fail, \<open>tieD\<close> and
  \<open>tieC\<close> order equal counts.
\<close>

definition dashboardActivityData ::
  "bool \<times> bool \<times> bool \<Rightarrow> ((string \<times> int) list \<Rightarrow> (string \<times> int) list) \<Rightarrow>
   (((string \<times> string) \<times> int) list \<Rightarrow> ((string \<times> string) \<times> int) list) \<Rightarrow> time \<Rightarrow> 'e + cnEntry list \<Rightarrow> qlog \<Rightarrow> activityData" where
  "dashboardActivityData fails tieD tieC now cs l =
     (let (failD, failC, failA) = fails;
          data = \<lparr>da_totals = log_totals l, da_series = log_recentSeries now l, da_topDomains = [], da_topClients = [],
            da_storeConfigured = False, da_clientActivity = \<lparr>cas_buckets = [], cas_rows = []\<rparr>, da_clientHostnames = Map.empty\<rparr> in
      case topDomains tieD failD now dashboardStatsWindow dashboardTopN l of
        Inl _ \<Rightarrow> data
      | Inr ds \<Rightarrow>
          data\<lparr>da_storeConfigured := True, da_topDomains := ds,
            da_topClients := (case topClients tieC failC now dashboardStatsWindow dashboardTopN l of Inl _ \<Rightarrow> [] | Inr cl \<Rightarrow> cl),
            da_clientHostnames := clientHostnames cs,
            da_clientActivity := (case clientActivity failA (now - dashboardStatsWindow) now dashboardClientActivityBucket
                dashboardClientActivityTopN l of Inl _ \<Rightarrow> \<lparr>cas_buckets = [], cas_rows = []\<rparr> | Inr a \<Rightarrow> a)\<rparr>)"

record dashboardChartsResponse =
  dc_series :: chartPayload
  dc_sources :: chartPayload
  dc_qtypes :: chartPayload
  dc_cacheActivity :: chartPayload
  dc_clientActivity :: multiSeriesPayload

definition dashboardChartsPayload ::
  "(time \<Rightarrow> string) \<Rightarrow> (uint16 \<Rightarrow> string) \<Rightarrow> string list \<times> uint16 list \<times> string list \<Rightarrow> activityData \<Rightarrow> dashboardChartsResponse" where
  "dashboardChartsPayload hhmm typeToString ks data =
     (let (srcs, qts, ocs) = ks; t = da_totals data in
      \<lparr>dc_series = seriesPayload hhmm (da_series data),
       dc_sources = countsPayload (foldOther (sortedCounts srcs (t_bySource t)) 6) sourceLabel,
       dc_qtypes = qtypeCountsPayload typeToString qts (t_byQType t),
       dc_cacheActivity = countsPayload (nonEmptyCounts ocs (t_byCacheOutcome t)) cacheOutcomeLabel,
       dc_clientActivity = clientActivityPayload hhmm (da_clientActivity data)\<rparr>)"


section \<open>Zones, certificates, private DNS\<close>

definition overrideValue :: "vlanOverride \<Rightarrow> string" where
  "overrideValue o' =
     (if ov_nxdomain o' then [char_of (226 :: nat), char_of (156 :: nat), char_of (151 :: nat)]
      else if ov_value o' \<noteq> [] then ov_value o' else ''(dflt)'')"

definition zoneList :: "string list \<Rightarrow> string" where
  "zoneList zones = (case zones of
     [] \<Rightarrow> ''none configured''
   | [z] \<Rightarrow> z
   | [z, z'] \<Rightarrow> z @ '' and '' @ z'
   | _ \<Rightarrow> joinStr '', '' (butlast zones) @ '', and '' @ last zones)"

definition nxdomainZones :: "string list \<Rightarrow> string list \<Rightarrow> string list" where
  "nxdomainZones zones ft = filter (\<lambda>z. z \<notin> set ft) zones"

definition forwardTuningOpen :: "upstreamTarget \<Rightarrow> bool" where
  "forwardTuningOpen u = (up_maxFails u \<noteq> None \<or> up_healthCheckSeconds u \<noteq> 0 \<or> up_expireSeconds u \<noteq> 0 \<or>
     up_maxConcurrent u \<noteq> 0 \<or> up_preferUDP u)"

definition advertisedServiceTXT :: "serviceSpec \<Rightarrow> string" where
  "advertisedServiceTXT svc =
     (if sp_txt svc = [] then []
      else joinStr '' '' (map (\<lambda>k. k @ ''='' @ (case map_of (sp_txt svc) k of None \<Rightarrow> [] | Some v \<Rightarrow> v)) (sort (map fst (sp_txt svc)))))"

definition isDefaultUpstream :: "settings \<Rightarrow> bool" where
  "isDefaultUpstream s = (up_address (st_upstream s) = up_address (st_upstream defaultSettings))"

definition certCoversDomain :: "certStatus \<Rightarrow> string \<Rightarrow> bool" where
  "certCoversDomain cert domain =
     (if equalFold (cs_domain cert) domain then True else list_ex (\<lambda>n. equalFold n domain) (cs_dnsNames cert))"

definition expiryClass :: "certStatus \<Rightarrow> time \<Rightarrow> string" where
  "expiryClass cert now = (if daysRemaining cert now < 14 then ''text-bramble-danger'' else [])"

definition daysRemainingLabel :: "certStatus \<Rightarrow> time \<Rightarrow> string" where
  "daysRemainingLabel cert now =
     (let d = daysRemaining cert now in
      if d < 0 then ''expired '' @ itoa (- d) @ '' days ago'' else itoa d @ '' days left'')"

definition hostWithPort :: "string \<Rightarrow> int \<Rightarrow> int \<Rightarrow> string" where
  "hostWithPort domain port defaultPort =
     (if port = 0 \<or> port = defaultPort then domain else domain @ '':'' @ itoa port)"

text \<open>A stamp is given by its protocol, provider name and path; its encoding is the \<^verbatim>\<open>dnsstamps\<close> package's.\<close>

datatype stamp_proto = StampDoH | StampTLS

type_synonym stamp_string = "stamp_proto \<Rightarrow> string \<Rightarrow> string \<Rightarrow> string"

definition stampDoH :: "stamp_string \<Rightarrow> string \<Rightarrow> int \<Rightarrow> string" where
  "stampDoH enc domain port = (if domain = [] then [] else enc StampDoH (hostWithPort domain port 443) ''/dns-query'')"

definition stampDoH3 :: "stamp_string \<Rightarrow> string \<Rightarrow> int \<Rightarrow> string" where
  "stampDoH3 enc domain port = (if domain = [] then [] else enc StampDoH (hostWithPort domain port 443) ''/dns-query'')"

definition stampDoT :: "stamp_string \<Rightarrow> string \<Rightarrow> int \<Rightarrow> string" where
  "stampDoT enc domain port = (if domain = [] then [] else enc StampTLS (hostWithPort domain port 853) [])"

definition doHURL :: "string \<Rightarrow> int \<Rightarrow> string" where
  "doHURL domain port = (if domain = [] then [] else ''https://'' @ hostWithPort domain port 443 @ ''/dns-query'')"

definition doTURL :: "string \<Rightarrow> int \<Rightarrow> string" where
  "doTURL domain port = (if domain = [] then [] else ''tls://'' @ hostWithPort domain port 853)"

definition doH3URL :: "string \<Rightarrow> int \<Rightarrow> string" where
  "doH3URL domain port = (if domain = [] then [] else ''https://'' @ hostWithPort domain port 443 @ ''/dns-query'')"

definition doQURL :: "string \<Rightarrow> int \<Rightarrow> string" where
  "doQURL domain port = (if domain = [] then [] else ''quic://'' @ hostWithPort domain port 853)"

record privateDNS =
  pd_url :: string
  pd_stamp :: string

definition privateDNSReady :: "settings \<Rightarrow> bool" where
  "privateDNSReady s = (acme_enabled (st_acme s) \<and> acme_domain (st_acme s) \<noteq> [])"

definition dohPrivateDNS :: "stamp_string \<Rightarrow> settings \<Rightarrow> privateDNS" where
  "dohPrivateDNS enc s =
     (if \<not> privateDNSReady s \<or> \<not> ln_enabled (ls_doh (st_listeners s)) then \<lparr>pd_url = [], pd_stamp = []\<rparr>
      else let port = ln_port (ls_doh (st_listeners s)) in
        \<lparr>pd_url = doHURL (acme_domain (st_acme s)) port, pd_stamp = stampDoH enc (acme_domain (st_acme s)) port\<rparr>)"

definition doh3PrivateDNS :: "stamp_string \<Rightarrow> settings \<Rightarrow> privateDNS" where
  "doh3PrivateDNS enc s =
     (if \<not> privateDNSReady s \<or> \<not> ln_enabled (ls_doh3 (st_listeners s)) then \<lparr>pd_url = [], pd_stamp = []\<rparr>
      else let port = ln_port (ls_doh3 (st_listeners s)) in
        \<lparr>pd_url = doH3URL (acme_domain (st_acme s)) port, pd_stamp = stampDoH3 enc (acme_domain (st_acme s)) port\<rparr>)"

definition dotPrivateDNS :: "stamp_string \<Rightarrow> settings \<Rightarrow> privateDNS" where
  "dotPrivateDNS enc s =
     (if \<not> privateDNSReady s \<or> \<not> ln_enabled (ls_dot (st_listeners s)) then \<lparr>pd_url = [], pd_stamp = []\<rparr>
      else let port = ln_port (ls_dot (st_listeners s)) in
        \<lparr>pd_url = doTURL (acme_domain (st_acme s)) port, pd_stamp = stampDoT enc (acme_domain (st_acme s)) port\<rparr>)"

definition doqPrivateDNS :: "settings \<Rightarrow> privateDNS" where
  "doqPrivateDNS s =
     (if \<not> privateDNSReady s \<or> \<not> ln_enabled (ls_doq (st_listeners s)) then \<lparr>pd_url = [], pd_stamp = []\<rparr>
      else \<lparr>pd_url = doQURL (acme_domain (st_acme s)) (ln_port (ls_doq (st_listeners s))), pd_stamp = []\<rparr>)"

section \<open>Addresses of records, hosts and devices\<close>

text \<open>\<^verbatim>\<open>url.PathEscape\<close>: letters, digits and \<^verbatim>\<open>-_.~$&+:=@\<close> stay, every other byte is a percent sign and two hexadecimal digits.\<close>

definition hexDigit :: "nat \<Rightarrow> char" where
  "hexDigit n = (if n < 10 then char_of (48 + n) else char_of (55 + n))"

definition path_plain :: "char \<Rightarrow> bool" where
  "path_plain c =
     (let n = (of_char c :: nat) in
      (65 \<le> n \<and> n \<le> 90) \<or> (97 \<le> n \<and> n \<le> 122) \<or> (48 \<le> n \<and> n \<le> 57) \<or> c \<in> set ''-_.~$&+:=@'')"

definition pathEscape :: "string \<Rightarrow> string" where
  "pathEscape s = concat (map (\<lambda>c. if path_plain c then [c]
     else [CHR ''%'', hexDigit (of_char c div 16), hexDigit (of_char c mod 16)]) s)"

definition recordPath :: "string \<Rightarrow> string \<Rightarrow> string" where
  "recordPath n rtype = ''/records'' @ ''/'' @ pathEscape n @ ''/'' @ pathEscape rtype"

definition hostPath :: "string \<Rightarrow> string" where
  "hostPath hostname = ''/hosts'' @ ''/'' @ pathEscape hostname"

definition mdnsActionPath :: "string \<Rightarrow> string \<Rightarrow> string" where
  "mdnsActionPath n action = ''/mdns'' @ ''/'' @ pathEscape n @ ''/'' @ action"

section \<open>Notices\<close>

datatype toastLevel = ToastError | ToastSuccess | ToastInfo | ToastWarning
datatype toastIcon = ToastIconAlertTriangle | ToastIconCheck | ToastIconInfo
datatype toastColor = ToastColorDanger | ToastColorSuccess | ToastColorPrimary | ToastColorWarning

record toastConfig =
  tc_icon :: toastIcon
  tc_color :: toastColor

definition withToastIcon :: "toastIcon \<Rightarrow> toastConfig \<Rightarrow> toastConfig" where
  "withToastIcon icon c = c\<lparr>tc_icon := icon\<rparr>"

definition withToastColor :: "toastColor \<Rightarrow> toastConfig \<Rightarrow> toastConfig" where
  "withToastColor color c = c\<lparr>tc_color := color\<rparr>"

definition resolveToast :: "toastLevel \<Rightarrow> (toastConfig \<Rightarrow> toastConfig) list \<Rightarrow> toastConfig" where
  "resolveToast level opts =
     fold (\<lambda>opt c. opt c) opts
       (case level of
          ToastSuccess \<Rightarrow> \<lparr>tc_icon = ToastIconCheck, tc_color = ToastColorSuccess\<rparr>
        | ToastInfo \<Rightarrow> \<lparr>tc_icon = ToastIconInfo, tc_color = ToastColorPrimary\<rparr>
        | ToastWarning \<Rightarrow> \<lparr>tc_icon = ToastIconAlertTriangle, tc_color = ToastColorWarning\<rparr>
        | _ \<Rightarrow> \<lparr>tc_icon = ToastIconAlertTriangle, tc_color = ToastColorDanger\<rparr>)"

definition toastColorClasses :: "toastColor \<Rightarrow> string" where
  "toastColorClasses color = (case color of
     ToastColorSuccess \<Rightarrow> ''border-bramble-success text-bramble-success''
   | ToastColorPrimary \<Rightarrow> ''border-bramble-primary text-bramble-primary''
   | ToastColorWarning \<Rightarrow> ''border-bramble-warning text-bramble-warning''
   | _ \<Rightarrow> ''border-bramble-danger text-bramble-danger'')"

section \<open>Pages\<close>

definition page_count :: "'a list \<Rightarrow> int" where
  "page_count xs = max 1 ((int (length xs) + 49) div 50)"

definition page_clamp :: "'a list \<Rightarrow> int \<Rightarrow> int" where
  "page_clamp xs page = max 1 (min page (page_count xs))"

lemma page_div: "50 * ((n + 49) div 50) \<le> n + 49" "n + 49 < 50 * ((n + 49) div 50) + (50 :: int)"
  by presburger+

lemma page_bounds:
  "1 \<le> page_count xs" "1 \<le> page_clamp xs p" "page_clamp xs p \<le> page_count xs"
  "page_clamp xs p * 50 \<le> int (length xs) + 50" "int (length xs) \<le> page_count xs * 50"
  "xs \<noteq> [] \<Longrightarrow> page_clamp xs p * 50 < int (length xs) + 50"
proof -
  define q where "q = (int (length xs) + 49) div 50"
  have q: "50 * q \<le> int (length xs) + 49" "int (length xs) + 49 < 50 * q + 50" using page_div by (simp_all add: q_def)
  have defs: "page_count xs = max 1 q" "page_clamp xs p = max 1 (min p (max 1 q))" by (simp_all add: page_count_def page_clamp_def q_def)
  show "1 \<le> page_count xs" "1 \<le> page_clamp xs p" "page_clamp xs p \<le> page_count xs" unfolding defs by simp_all
  have le: "page_clamp xs p \<le> max 1 q" unfolding defs by simp
  have len: "0 \<le> int (length xs)" by simp
  show "page_clamp xs p * 50 \<le> int (length xs) + 50" using le q len by (cases "1 \<le> q") (simp_all add: max_def)
  show "int (length xs) \<le> page_count xs * 50" unfolding defs using q by (cases "1 \<le> q") (simp_all add: max_def)
  show "page_clamp xs p * 50 < int (length xs) + 50" if "xs \<noteq> []"
  proof -
    have "0 < int (length xs)" using that by simp
    then have "1 \<le> q" using q(2) by linarith
    then show ?thesis using le q(1) by simp
  qed
qed

lemma paginate_page:
  "paginateQueryLog xs page queryLogPageSize =
     (page_clamp xs page, page_count xs, take 50 (drop (nat ((page_clamp xs page - 1) * 50)) xs))"
proof -
  let ?L = "int (length xs)" and ?s = "(page_clamp xs page - 1) * 50"
  have go: "go_div (?L + 50 - 1) 50 = (?L + 49) div 50" by (simp add: add.commute)
  have tot: "(if go_div (?L + 50 - 1) 50 < 1 then 1 else go_div (?L + 50 - 1) 50) = page_count xs"
    unfolding go page_count_def max_def by simp
  have clamp: "(if (if page_count xs < page then page_count xs else page) < 1 then 1
      else (if page_count xs < page then page_count xs else page)) = page_clamp xs page"
    using page_bounds(1) [where xs = xs] by (auto simp: page_clamp_def)
  have s: "0 \<le> ?s" "?s \<le> ?L" using page_bounds(2,4) [where xs = xs and p = page] by simp_all
  have "take (nat ((if ?L < ?s + 50 then ?L else ?s + 50) - ?s)) (drop (nat ?s) xs) = take 50 (drop (nat ?s) xs)"
    using s by (cases "?L < ?s + 50") (auto simp: nat_diff_distrib)
  then show ?thesis
    unfolding paginateQueryLog_def queryLogPageSize_def Let_def tot clamp using s by simp
qed

lemma concat_slices: "concat (map (\<lambda>i. take k (drop (i * k) xs)) [0..<m]) = take (m * k) xs"
proof (induction m)
  case (Suc m)
  have "take (m * k + k) xs = take (m * k) xs @ take k (drop (m * k) xs)" by (rule take_add)
  then show ?case using Suc by (simp add: add.commute)
qed simp

lemma pages_concat:
  "concat (map (\<lambda>i. snd (snd (paginateQueryLog xs (int i) queryLogPageSize))) [1..<Suc (nat (page_count xs))]) = xs"
proof -
  let ?n = "nat (page_count xs)"
  have page: "snd (snd (paginateQueryLog xs (int (Suc i)) queryLogPageSize)) = take 50 (drop (i * 50) xs)" if "i < ?n" for i
  proof -
    have "page_clamp xs (int (Suc i)) = int (Suc i)" using that page_bounds(1) [where xs = xs] unfolding page_clamp_def by linarith
    then show ?thesis by (simp add: paginate_page nat_mult_distrib)
  qed
  have "map (\<lambda>i. snd (snd (paginateQueryLog xs (int i) queryLogPageSize))) [1..<Suc ?n] = map (\<lambda>i. take 50 (drop (i * 50) xs)) [0..<?n]"
    unfolding One_nat_def map_Suc_upt [symmetric] map_map comp_def using page by (intro map_cong) simp_all
  moreover have "length xs \<le> ?n * 50" using page_bounds(1,5) [where xs = xs] by linarith
  ultimately show ?thesis by (simp only: concat_slices) simp
qed

text \<open>
  C34. The pages of the query log, one after the other, are exactly the entries that pass the filters,
  in their order; whatever page is asked for, an existing one is shown, with at most 50 entries, and
  with none only if no entry passes.
\<close>

theorem log_pages_exact:
  fixes cs :: "'e + cnEntry list"
  defines "grid \<equiv> \<lambda>i p cur s. queryLogGridData cur cs (p\<lparr>qp_page := i\<rparr>) s"
    and "shown \<equiv> \<lambda>p cur s. filterQueryLogByListener (queryLogSnapshot cur (qp_filter p)) (qp_listenerFilter p) (st_listeners s)"
  shows "concat (map (\<lambda>i. qg_entries (grid (int i) p cur s)) [1..<Suc (nat (qg_totalPages (grid 1 p cur s)))]) = shown p cur s \<and>
      1 \<le> qg_page (grid i p cur s) \<and> qg_page (grid i p cur s) \<le> qg_totalPages (grid i p cur s) \<and>
      qg_totalPages (grid i p cur s) = qg_totalPages (grid 1 p cur s) \<and> length (qg_entries (grid i p cur s)) \<le> 50 \<and>
      (qg_entries (grid i p cur s) = [] \<longleftrightarrow> shown p cur s = []) \<and> qg_total (grid i p cur s) = int (length (shown p cur s))"
proof -
  have g: "qg_entries (grid i p cur s) = snd (snd (paginateQueryLog (shown p cur s) i queryLogPageSize))"
      "qg_page (grid i p cur s) = page_clamp (shown p cur s) i" "qg_totalPages (grid i p cur s) = page_count (shown p cur s)"
      "qg_total (grid i p cur s) = int (length (shown p cur s))" for i
    by (simp_all add: grid_def shown_def queryLogGridData_def Let_def paginate_page)
  have "concat (map (\<lambda>i. qg_entries (grid (int i) p cur s)) [1..<Suc (nat (qg_totalPages (grid 1 p cur s)))]) = shown p cur s"
    unfolding g by (rule pages_concat)
  moreover have "1 \<le> qg_page (grid i p cur s) \<and> qg_page (grid i p cur s) \<le> qg_totalPages (grid i p cur s) \<and>
      qg_totalPages (grid i p cur s) = qg_totalPages (grid 1 p cur s) \<and> length (qg_entries (grid i p cur s)) \<le> 50 \<and>
      (qg_entries (grid i p cur s) = [] \<longleftrightarrow> shown p cur s = []) \<and> qg_total (grid i p cur s) = int (length (shown p cur s))"
    unfolding g paginate_page using page_bounds(2,3,6) [where xs = "shown p cur s" and p = i] by fastforce
  ultimately show ?thesis by (rule conjI)
qed

section \<open>Listeners on one port\<close>

text \<open>
  If two listeners share a port, as DoT and DoQ or DoH and DoH3 may, no entry has the label of the
  second: the page offers a filter by it that never shows anything.
\<close>

theorem shared_port_unlabelled:
  assumes "ln_enabled (ls_dot l)" "ln_enabled (ls_doq l)" "ln_port (ls_dot l) = ln_port (ls_doq l)" "\<forall>e\<in>set es. CHR '':'' \<in> set (e_listener e)"
  shows "''DoQ'' \<in> set (enabledListenerLabels l) \<and> filterQueryLogByListener es ''DoQ'' l = []"
proof -
  have "listenerLabel x l \<noteq> ''DoQ''" if "CHR '':'' \<in> set x" for x
    using assms(1,3) that by (auto simp: listenerLabel_def split: sum.splits prod.splits option.splits)
  then show ?thesis using assms(2,4) by (auto simp: enabledListenerLabels_def filterQueryLogByListener_def filter_empty_conv)
qed

theorem shared_port_unlabelled_witness:
  "let l = \<lparr>ls_plain = \<lparr>ln_enabled = True, ln_port = 53\<rparr>, ls_dot = \<lparr>ln_enabled = True, ln_port = 853\<rparr>, ls_doh = zero_listener,
        ls_doq = zero_quic\<lparr>ln_enabled := True, ln_port := 853\<rparr>, ls_doh3 = zero_quic\<rparr> in
   ''DoQ'' \<in> set (enabledListenerLabels l) \<and> filterQueryLogByListener [zero_entry\<lparr>e_listener := '':853''\<rparr>] ''DoQ'' l = []"
  unfolding Let_def by (rule shared_port_unlabelled) simp_all

section \<open>Charts and tiles\<close>

lemma sum_list_sort_key: "sum_list (map f (sort_key g xs)) = (sum_list (map f xs) :: int)"
  by (metis mset_map mset_sort sum_mset_sum_list)

lemma foldOther_sum: "0 < mx \<Longrightarrow> sum_list (map lb_count (foldOther cs mx)) = sum_list (map lb_count cs)"
proof -
  have "sum_list (map lb_count (take k cs)) + sum_list (map lb_count (drop k cs)) = sum_list (map lb_count cs)" for k
    by (metis append_take_drop_id map_append sum_list_append)
  then show ?thesis by (simp add: foldOther_def)
qed

lemma foldOther_length: "0 < mx \<Longrightarrow> length (foldOther cs mx) \<le> mx"
  by (simp add: foldOther_def)

lemma qtypeCounts_sum: "sum_list (map snd (qtypeCounts tts ks m)) = sum_list (map m ks) \<and> distinct (map fst (qtypeCounts tts ks m))"
proof -
  have upd: "sum_list (map snd (AList.update k ((case map_of xs k of None \<Rightarrow> 0 | Some c \<Rightarrow> c) + d) xs)) = sum_list (map snd xs) + (d :: int)"
    for k d and xs :: "(string \<times> int) list"
    by (induction xs) auto
  have "sum_list (map snd (fold (\<lambda>k m'. AList.update (qtypeName tts k) ((case map_of m' (qtypeName tts k) of None \<Rightarrow> 0 | Some c \<Rightarrow> c) + m k) m') ks xs)) =
      sum_list (map snd xs) + sum_list (map m ks) \<and>
      (distinct (map fst xs) \<longrightarrow> distinct (map fst (fold (\<lambda>k m'. AList.update (qtypeName tts k) ((case map_of m' (qtypeName tts k) of None \<Rightarrow> 0 | Some c \<Rightarrow> c) + m k) m') ks xs)))" for xs
    by (induction ks arbitrary: xs) (auto simp: upd distinct_update)
  from this [of "[]"] show ?thesis by (simp add: qtypeCounts_def)
qed

text \<open>
  What the doughnut charts show adds up to all the queries counted, in at most six slices; the
  chart of sources and the chart of query types lose nothing to the slice of the rest.
\<close>

theorem charts_add_up:
  fixes ks :: "string list \<times> uint16 list \<times> string list"
  defines "resp \<equiv> \<lambda>hhmm tts d. dashboardChartsPayload hhmm tts ks d"
  shows "sum_list (cp_values (dc_sources (resp hhmm tts d))) = sum_list (map (t_bySource (da_totals d)) (fst ks)) \<and>
    sum_list (cp_values (dc_qtypes (resp hhmm tts d))) = sum_list (map (t_byQType (da_totals d)) (fst (snd ks))) \<and>
    length (cp_values (dc_sources (resp hhmm tts d))) \<le> 6 \<and> length (cp_values (dc_qtypes (resp hhmm tts d))) \<le> 6 \<and>
    length (cp_labels (dc_sources (resp hhmm tts d))) = length (cp_values (dc_sources (resp hhmm tts d))) \<and>
    cp_values (dc_series (resp hhmm tts d)) = map bk_count (da_series d)"
proof -
  obtain srcs qts ocs where ks: "ks = (srcs, qts, ocs)" by (cases ks)
  let ?m = "qtypeCounts tts qts (t_byQType (da_totals d))"
  have dist: "distinct (map fst ?m)" and tot: "sum_list (map snd ?m) = sum_list (map (t_byQType (da_totals d)) qts)"
    using qtypeCounts_sum by blast+
  have "map (\<lambda>x. case map_of ?m (fst x) of None \<Rightarrow> 0 | Some c \<Rightarrow> c) ?m = map snd ?m"
    using dist by (auto simp: map_of_is_SomeI)
  then have "sum_list (map lb_count (sortedCounts (map fst ?m) (\<lambda>k. case map_of ?m k of None \<Rightarrow> 0 | Some c \<Rightarrow> c))) = sum_list (map snd ?m)"
    by (simp only: sortedCounts_def sum_list_sort_key map_map comp_def labelCount.simps)
  then show ?thesis
    using tot by (simp add: resp_def dashboardChartsPayload_def ks Let_def countsPayload_def qtypeCountsPayload_def foldOther_sum
        foldOther_length sortedCounts_def sum_list_sort_key comp_def seriesPayload_def)
qed


text \<open>The tiles at the top group the sources; with the sources the chain writes they add up to the queries.\<close>

definition tile_sources :: "string list list" where
  "tile_sources = [[''cache'', ''vlancache''], [''localrecords'', ''mdnsbridge'', ''hosts''], [''forward'']]"

lemma observe_counts:
  "sr_queries (fold stats_observe es s) = sr_queries s + int (length es)"
  "sr_bySource (fold stats_observe es s) k = sr_bySource s k + int (length (filter (\<lambda>e. e_source e = k) es))"
  by (induction es arbitrary: s) (auto simp: stats_observe_def Let_def incr_def)

lemma tiles_add_up:
  fixes w :: duration and n :: nat
  assumes "\<forall>e\<in>set es. e_source e \<in> set (concat tile_sources)"
  defines "t \<equiv> stats_totals (fold stats_observe es (newStatsRollup w n))"
  shows "sum_list (map (sourceGroupTotal (t_bySource t)) tile_sources) = t_queries t"
proof -
  have "t_bySource t k = int (length (filter (\<lambda>e. e_source e = k) es))" for k
    by (simp add: t_def stats_totals_def observe_counts newStatsRollup_def)
  moreover have "t_queries t = int (length es)" by (simp add: t_def stats_totals_def observe_counts newStatsRollup_def)
  moreover have "distinct (concat tile_sources)" by code_simp
  ultimately show ?thesis
    using sum_count_partition [of "concat tile_sources" es e_source] assms(1) by (simp add: tile_sources_def sourceGroupTotal_def)
qed

section \<open>Addresses\<close>

lemma hexDigit_code: "n < 16 \<Longrightarrow> (of_char (hexDigit n) :: nat) = (if n < 10 then 48 + n else 55 + n)"
  by (simp add: hexDigit_def take_bit_eq_mod)

lemma hexDigit_inj:
  assumes "m < 16" "n < 16" "hexDigit m = hexDigit n"
  shows "m = n"
  using arg_cong [OF assms(3), of "of_char :: char \<Rightarrow> nat"] assms(1,2) by (simp add: hexDigit_code split: if_splits)

lemma char_nibbles: "(of_char c :: nat) div 16 < 16" "(of_char c :: nat) mod 16 < 16" for c :: char
proof -
  have "(of_char c :: nat) < 256" by (rule nat_of_char_less_256)
  then show "(of_char c :: nat) div 16 < 16" "(of_char c :: nat) mod 16 < 16" by (simp_all add: less_mult_imp_div_less)
qed

lemma hexDigit_not_slash: "n < 16 \<Longrightarrow> hexDigit n \<noteq> CHR ''/''"
  using hexDigit_code [of n] by (auto split: if_splits)

lemma pathEscape_no_slash: "CHR ''/'' \<notin> set (pathEscape s)"
proof (induction s)
  case Nil
  then show ?case by (simp add: pathEscape_def)
next
  case (Cons c s)
  have "\<not> path_plain (CHR ''/'')" by code_simp
  then have "CHR ''/'' \<notin> set (if path_plain c then [c] else [CHR ''%'', hexDigit (of_char c div 16), hexDigit (of_char c mod 16)])"
    using hexDigit_not_slash [OF char_nibbles(1), of c] hexDigit_not_slash [OF char_nibbles(2), of c] by auto
  then show ?case using Cons by (simp add: pathEscape_def del: set_simps split del: if_split)
qed

definition path_byte :: "char \<Rightarrow> string" where
  "path_byte c = (if path_plain c then [c] else [CHR ''%'', hexDigit (of_char c div 16), hexDigit (of_char c mod 16)])"

lemma path_byte_inj:
  assumes "path_byte c @ x = path_byte d @ y"
  shows "c = d \<and> x = y"
proof -
  have percent: "\<not> path_plain (CHR ''%'')" by code_simp
  have "c = d" if "hexDigit (of_char c div 16) = hexDigit (of_char d div 16)" "hexDigit (of_char c mod 16) = hexDigit (of_char d mod 16)"
  proof -
    have "(of_char c :: nat) div 16 = of_char d div 16" "(of_char c :: nat) mod 16 = of_char d mod 16"
      using that char_nibbles hexDigit_inj by blast+
    then have "(of_char c :: nat) = of_char d" by (metis div_mult_mod_eq)
    then show ?thesis by simp
  qed
  then show ?thesis using assms percent by (auto simp: path_byte_def split: if_splits)
qed

lemma pathEscape_inj: "pathEscape s = pathEscape s' \<Longrightarrow> s = s'"
proof (induction s arbitrary: s')
  case Nil
  then show ?case by (cases s') (auto simp: pathEscape_def split: if_splits)
next
  case (Cons c s)
  then obtain d t where s': "s' = d # t" by (cases s') (auto simp: pathEscape_def split: if_splits)
  have esc: "pathEscape (c # s) = path_byte c @ pathEscape s" for c s by (simp add: pathEscape_def path_byte_def)
  show ?case using path_byte_inj Cons unfolding s' esc by metis
qed

lemma recordPath_inj: "recordPath n t = recordPath n' t' \<Longrightarrow> n = n' \<and> t = t'"
proof -
  assume "recordPath n t = recordPath n' t'"
  then have "pathEscape n @ CHR ''/'' # pathEscape t = pathEscape n' @ CHR ''/'' # pathEscape t'" by (simp add: recordPath_def)
  then have "pathEscape n = pathEscape n' \<and> pathEscape t = pathEscape t'"
    using append_sep_inj pathEscape_no_slash by metis
  then show ?thesis using pathEscape_inj by blast
qed

end
