(* ===== verification/Gui_Requests.thy ===== *)
theory Gui_Requests
  imports Gui_Handlers
begin

text \<open>
  What the requests of \<open>Gui_Handlers\<close> guarantee. The dashboard stays available and the
  configuration valid under every sequence of requests; the status of an edit through the JSON
  interface says what became of it and what was acknowledged is listed; opening the edit form of
  a record and saving it as it is changes no answer; a VLAN that a record names cannot be removed,
  although the page says it can.
\<close>

section \<open>What a response shows\<close>

fun pageOf :: "response \<Rightarrow> page option" where
  "pageOf (Document p _) = Some p"
| "pageOf (Fragment p _) = Some p"
| "pageOf _ = None"

fun toastsOf :: "response \<Rightarrow> toast list" where
  "toastsOf (Document _ ts) = ts"
| "toastsOf (Fragment _ ts) = ts"
| "toastsOf _ = []"

lemma page_of_render [simp]: "pageOf (http_render c p ts) = Some p" "toastsOf (http_render c p ts) = ts"
  by (simp_all add: http_render_def)

section \<open>A small installation\<close>

text \<open>The home network of \<open>Local_Records\<close>, and the installation with nothing in it.\<close>

definition exApp :: app where
  "exApp = \<lparr>ap_svc = exSvc, ap_caches = \<lparr>rg_live = [], rg_cache = (\<lambda>_. exCache)\<rparr>, ap_ring = \<lparr>rs_current = None\<rparr>,
     ap_stats = newStatsRollup statsBucketWidth statsBucketCount\<rparr>"

definition exVlanApp :: app where
  "exVlanApp = exApp\<lparr>ap_svc := exSvc\<lparr>sv_fs := [settingsPath ''/c'' \<mapsto> ''D'', recordsPath ''/c'' \<mapsto> ''R'']\<rparr>\<rparr>"

definition exCtx :: "svc_lib \<Rightarrow> http_ctx" where
  "exCtx lib = \<lparr>hc_lib = lib, hc_env = exEnv, hc_now = 0, hc_htmx = True, hc_netAddrs = [], hc_cert = zeroStatus, hc_canonicalName = id,
     hc_stringToType = Map.empty, hc_typeToString = (\<lambda>_. []), hc_clock = (\<lambda>_. []), hc_keys = ([], [], []),
     hc_storeFails = (False, False, False), hc_tieDomains = id, hc_tieClients = id\<rparr>"

abbreviation exPlain :: http_ctx where "exPlain \<equiv> exCtx Gui_Service.exLib"
abbreviation exVlanLib :: svc_lib where "exVlanLib \<equiv> exLibOf exHome [exNas]"

lemma exCtx_simps [simp]: "hc_lib (exCtx lib) = lib" "hc_env (exCtx lib) = exEnv" "hc_htmx (exCtx lib)"
  by (simp_all add: exCtx_def)

lemma exApp_svc [simp]: "ap_svc exApp = exSvc"
  by (simp add: exApp_def)

lemma exPlain_ok:
  "yaml_doc (sl_yaml (hc_lib exPlain))" "env_ok (hc_env exPlain) (sv_dir (ap_svc exApp))" "disk_ok (hc_lib exPlain) (ap_svc exApp)"
  using exLib_doc exEnv_ok exSvc_ok by simp_all

lemma exPut: "fst (serve exPlain (PutSettings (Some defaultSettings)) exApp) = JSON 200 (JSettings defaultSettings)"
  using exSvc_saves by (simp add: putSettings_def api_edit_def with_edit_def)

lemma exVlan_loads: "loads exVlanLib (ap_svc exVlanApp) = (Inr exHome, Inr [exNas], Inr [])"
  by (simp add: loads_def loadSettings_def store_loadRecords_def loadHosts_def readYAML_def exLibOf_def exVlanApp_def exSvc_def
      settingsPath_def recordsPath_def hostsPath_def)

lemma exVlan_ok:
  "yaml_doc (sl_yaml (hc_lib (exCtx exVlanLib)))" "env_ok (hc_env (exCtx exVlanLib)) (sv_dir (ap_svc exVlanApp))"
  "disk_ok (hc_lib (exCtx exVlanLib)) (ap_svc exVlanApp)"
  using exEnv_ok exHome_valid exVlan_loads by (simp_all add: yaml_doc_def disk_ok_def) (simp_all add: exLibOf_def exVlanApp_def exSvc_def)

lemma exVlan_form:
  "pageOf (fst (serve (exCtx exVlanLib) (RecordsEdit ''nas.home.arpa'' ''a'') exVlanApp)) =
     Some (Records \<lparr>pr_records = [exNas], pr_vlans = st_vlans exHome, pr_editing = Some exNas, pr_zones = ownedZones exHome,
       pr_fallthrough = fallthroughZones exHome\<rparr>)"
proof -
  have "findRecord [exNas] ''nas.home.arpa'' (toUpper ''a'') = Some exNas" "\<not> isMDNS exNas" by code_simp+
  then show ?thesis using exVlan_loads
    by (simp add: loads_def recordsEdit_def with_read_def renderRecords_def renderError_def svc_settings_def svc_records_def)
qed

section \<open>The JSON interface\<close>

fun statusOf :: "response \<Rightarrow> nat" where
  "statusOf (JSON n _) = n"
| "statusOf (Status n) = n"
| "statusOf (PlainError n _) = n"
| "statusOf PlainNotFound = 404"
| "statusOf (Document _ _) = 200"
| "statusOf (Fragment _ _) = 200"

text \<open>The edits of the JSON interface: the operation a request stands for, if its body can be read.\<close>

fun api_op :: "http_ctx \<Rightarrow> http_req \<Rightarrow> svc_op option" where
  "api_op c (ApiAddRecord b) = map_option (\<lambda>r. AddRecord (decodeRecord r)) b"
| "api_op c (ApiUpdateRecord n t b) = map_option (\<lambda>r. UpdateRecord n (toUpper t) (decodeRecord r)) b"
| "api_op c (ApiDeleteRecord n t) = Some (DeleteRecord n (toUpper t))"
| "api_op c (ApiAddHost b) = map_option AddHost b"
| "api_op c (ApiUpdateHost n b) = map_option (UpdateHost n) b"
| "api_op c (ApiDeleteHost n) = Some (DeleteHost n)"
| "api_op c (PutSettings b) = map_option SaveSettings b"
| "api_op c (ApiPromoteMDNS n) = Some (PromoteMDNS (hc_now c) n)"
| "api_op c q = None"

text \<open>The status of the response for the outcome of the edit, no error or an error.\<close>

fun accepted_status :: "http_req \<Rightarrow> nat" where
  "accepted_status (ApiAddRecord _) = 201"
| "accepted_status (ApiAddHost _) = 201"
| "accepted_status (ApiPromoteMDNS _) = 201"
| "accepted_status (ApiDeleteRecord _ _) = 204"
| "accepted_status (ApiDeleteHost _) = 204"
| "accepted_status _ = 200"

fun refused_status :: "svc_error \<Rightarrow> nat" where
  "refused_status (SvcInvalid _) = 400"
| "refused_status SvcDuplicate = 400"
| "refused_status SvcMdnsDisabled = 400"
| "refused_status SvcNoHost = 400"
| "refused_status SvcClientNamesDisabled = 400"
| "refused_status SvcNotFound = 404"
| "refused_status (SvcStore _) = 500"
| "refused_status (SvcWriteZone _) = 500"
| "refused_status (SvcWriteHosts _) = 500"
| "refused_status SvcReload = 500"

lemma rejection_status: "is_rejection e \<longleftrightarrow> isValidation e \<or> e = SvcNotFound"
  by (cases e) auto

lemma writeErr_status: "statusOf (writeErr e) = (if is_rejection e then if isValidation e then 400 else 404 else 500)"
  using rejection_status [of e] by (auto simp: writeErr_def)

lemma writeErr_refused: "statusOf (writeErr e) = refused_status e"
  by (cases e) (simp_all add: writeErr_def)

lemma refused_rejection: "refused_status e \<in> {400, 404, 500}" "is_rejection e \<longleftrightarrow> refused_status e \<noteq> 500"
  by (cases e; simp)+

lemma accepted_success: "accepted_status q \<in> {200, 201, 204}"
  by (cases q) simp_all

lemma serve_api:
  assumes "api_op c q = Some op"
  shows "\<exists>ok. serve c q a = api_edit (svc_apply (hc_lib c) (hc_env c) op (ap_svc a)) ok a \<and> statusOf ok = accepted_status q"
  using assms by (cases q) (auto simp: handler_defs)

lemma api_cases:
  assumes "api_op c q = Some op" "serve c q a = (r, b)"
  obtains (ok) "svc_apply (hc_lib c) (hc_env c) op (ap_svc a) = (None, ap_svc b)" "statusOf r = accepted_status q" "b = a\<lparr>ap_svc := ap_svc b\<rparr>"
    | (err) e where "svc_apply (hc_lib c) (hc_env c) op (ap_svc a) = (Some e, ap_svc b)" "r = writeErr e" "b = a\<lparr>ap_svc := ap_svc b\<rparr>"
proof -
  obtain ok where ok: "serve c q a = api_edit (svc_apply (hc_lib c) (hc_env c) op (ap_svc a)) ok a" "statusOf ok = accepted_status q"
    using serve_api [OF assms(1)] by blast
  obtain e w where e: "svc_apply (hc_lib c) (hc_env c) op (ap_svc a) = (e, w)" by (cases "svc_apply (hc_lib c) (hc_env c) op (ap_svc a)")
  show ?thesis using ok e assms(2) that by (cases e) (auto simp: api_edit_def with_edit_def)
qed

text \<open>
  C14. The status of an edit through the JSON interface tells what became of it. The response is
  2xx, the status of the request's kind, exactly if the service accepted the edit; 400 exactly if it
  refused it as invalid, as a duplicate, or because discovery or client names are off or a device has no
  host name; 404 exactly if what it names does not exist; 500 exactly if a file or the engine
  failed. An accepted edit is served: the engine runs what is rendered from the configuration now on
  disk. After 400 and 404 everything but the VLAN table is as before; after 500 the files are still
  valid.
\<close>

theorem status_tells_outcome:
  assumes "yaml_doc (sl_yaml (hc_lib c))" "env_ok (hc_env c) (sv_dir (ap_svc a))" "disk_ok (hc_lib c) (ap_svc a)"
    "api_op c q = Some op" "serve c q a = (r, b)"
  shows "\<exists>e. svc_apply (hc_lib c) (hc_env c) op (ap_svc a) = (e, ap_svc b) \<and> b = a\<lparr>ap_svc := ap_svc b\<rparr> \<and>
    statusOf r = (case e of None \<Rightarrow> accepted_status q | Some x \<Rightarrow> refused_status x) \<and>
    (statusOf r \<in> {200, 201, 204} \<longleftrightarrow> e = None) \<and>
    (e = None \<longrightarrow> (\<exists>s rs hs rd. loads (hc_lib c) (ap_svc b) = (Inr s, Inr rs, Inr hs) \<and>
        render s rs hs ((sv_certOpts (ap_svc a))\<lparr>opt_acmeSelfIPs := ev_selfIPs (hc_env c) (st_vlans s)\<rparr>) = Inr rd \<and>
        sv_running (ap_svc b) = rd_corefile rd)) \<and>
    (statusOf r \<in> {400, 404} \<longrightarrow> b = a\<lparr>ap_svc := (ap_svc a)\<lparr>sv_vlans := sv_vlans (ap_svc b)\<rparr>\<rparr>) \<and>
    disk_ok (hc_lib c) (ap_svc b)"
proof -
  have disk: "disk_ok (hc_lib c) (snd (svc_apply (hc_lib c) (hc_env c) op (ap_svc a)))"
    using svc_apply_disk_ok [OF assms(1-3)] by blast
  from assms(4,5) show ?thesis
  proof (cases rule: api_cases)
    case ok
    have "\<forall>n b. op \<noteq> SetMDNSPublished n b" using assms(4) by (cases q) auto
    from edit_ok_apply [OF assms(1-3) this] ok have "\<exists>s rs hs rd. loads (hc_lib c) (ap_svc b) = (Inr s, Inr rs, Inr hs) \<and>
        render s rs hs ((sv_certOpts (ap_svc a))\<lparr>opt_acmeSelfIPs := ev_selfIPs (hc_env c) (st_vlans s)\<rparr>) = Inr rd \<and>
        sv_running (ap_svc b) = rd_corefile rd" by (auto simp: edit_ok_def serves_def serving_def)
    then show ?thesis using ok disk accepted_success [of q] by (intro exI [of _ None]) auto
  next
    case (err e)
    have "b = a\<lparr>ap_svc := (ap_svc a)\<lparr>sv_vlans := sv_vlans (ap_svc b)\<rparr>\<rparr>" if "is_rejection e"
      using svc_apply_untouched [of "ap_svc a" "hc_lib c" "hc_env c" op] err(1,3) that by (metis untouched_def fst_conv snd_conv option.sel option.distinct(1))
    then show ?thesis using err disk refused_rejection [of e] by (intro exI [of _ "Some e"]) (auto simp: writeErr_refused)
  qed
qed

text \<open>Settings that are accepted, settings that are invalid, an unknown host, and a reload that fails.\<close>

definition exNoReload :: http_ctx where
  "exNoReload = exPlain\<lparr>hc_env := exEnv\<lparr>ev_reloadFails := True\<rparr>\<rparr>"

lemma exNoReload_fails: "fst (svc_saveSettings Gui_Service.exLib (exEnv\<lparr>ev_reloadFails := True\<rparr>) defaultSettings exSvc) = Some SvcReload"
proof -
  let ?ev = "exEnv\<lparr>ev_reloadFails := True\<rparr>"
  obtain r where "render defaultSettings [] [] ((sv_certOpts exSvc)\<lparr>opt_acmeSelfIPs := ev_selfIPs ?ev (st_vlans defaultSettings)\<rparr>) = Inr r"
    using default_renders by blast
  then have "svc_render ?ev defaultSettings [] [] exSvc = (Inr r, exSvc\<lparr>sv_vlans := newTable (vlancfg_build (st_vlans defaultSettings))\<rparr>)"
    by (simp add: svc_render_def Let_def)
  moreover have "fst (saveSettings (sl_yaml Gui_Service.exLib) (ev_save ?ev) (ev_tmp ?ev) d defaultSettings f) = None" for d f
    by (simp add: saveSettings_def writeYAML_def exLibOf_def exEnv_def wf_fine_def atomicWrite_def Let_def)
  moreover have "fst (svc_reload lib ?ev r v) = Some SvcReload" for lib r v
    by (simp add: svc_reload_def exEnv_def wf_fine_def writeFileAtomic_def Let_def)
  ultimately show ?thesis
    by (simp add: svc_saveSettings_def with_load_def exSvc_loads_each case_prod_unfold Let_def split: option.split)
qed

theorem status_tells_outcome_witness:
  "(\<exists>b s rs hs rd. serve exPlain (PutSettings (Some defaultSettings)) exApp = (JSON 200 (JSettings defaultSettings), b) \<and>
      loads Gui_Service.exLib (ap_svc b) = (Inr s, Inr rs, Inr hs) \<and>
      render s rs hs ((sv_certOpts exSvc)\<lparr>opt_acmeSelfIPs := ev_selfIPs exEnv (st_vlans s)\<rparr>) = Inr rd \<and> sv_running (ap_svc b) = rd_corefile rd) \<and>
   (\<exists>r b. serve exPlain (PutSettings (Some exBadVlan)) exApp = (r, b) \<and> statusOf r = 400 \<and> sv_running (ap_svc b) = sv_running exSvc) \<and>
   (\<exists>r b. serve exPlain (ApiDeleteHost ''nas'') exApp = (r, b) \<and> statusOf r = 404 \<and> sv_running (ap_svc b) = sv_running exSvc) \<and>
   (\<exists>r b. serve exNoReload (PutSettings (Some defaultSettings)) exApp = (r, b) \<and> statusOf r = 500 \<and> disk_ok Gui_Service.exLib (ap_svc b))"
proof (intro conjI)
  let ?put = "PutSettings (Some defaultSettings)" and ?bad = "PutSettings (Some exBadVlan)" and ?del = "ApiDeleteHost ''nas''"
  obtain b where b: "serve exPlain ?put exApp = (JSON 200 (JSettings defaultSettings), b)"
    using exPut by (metis prod.collapse)
  from status_tells_outcome [OF exPlain_ok _ b, of "SaveSettings defaultSettings"] obtain e where
    "statusOf (JSON 200 (JSettings defaultSettings)) \<in> {200, 201, 204} \<longleftrightarrow> e = None"
    "e = None \<longrightarrow> (\<exists>s rs hs rd. loads Gui_Service.exLib (ap_svc b) = (Inr s, Inr rs, Inr hs) \<and>
      render s rs hs ((sv_certOpts exSvc)\<lparr>opt_acmeSelfIPs := ev_selfIPs exEnv (st_vlans s)\<rparr>) = Inr rd \<and> sv_running (ap_svc b) = rd_corefile rd)"
    unfolding exCtx_simps exApp_svc by (simp del: serve.simps)
  then show "\<exists>b s rs hs rd. serve exPlain ?put exApp = (JSON 200 (JSettings defaultSettings), b) \<and>
      loads Gui_Service.exLib (ap_svc b) = (Inr s, Inr rs, Inr hs) \<and>
      render s rs hs ((sv_certOpts exSvc)\<lparr>opt_acmeSelfIPs := ev_selfIPs exEnv (st_vlans s)\<rparr>) = Inr rd \<and> sv_running (ap_svc b) = rd_corefile rd"
    using b by auto
next
  show "\<exists>r b. serve exPlain (PutSettings (Some exBadVlan)) exApp = (r, b) \<and> statusOf r = 400 \<and> sv_running (ap_svc b) = sv_running exSvc"
  proof -
    obtain e where "validate exBadVlan [] [] = Some e" using exBadVlan_rejected by blast
    then have a: "svc_apply Gui_Service.exLib exEnv (SaveSettings exBadVlan) exSvc =
        (Some (SvcInvalid (RenderInvalid e)), exSvc\<lparr>sv_vlans := newTable (vlancfg_build (st_vlans exBadVlan))\<rparr>)"
      using exSvc_loads by (simp add: loads_def svc_saveSettings_def with_load_def svc_render_def render_def)
    obtain r b where s: "serve exPlain (PutSettings (Some exBadVlan)) exApp = (r, b)" by fastforce
    from status_tells_outcome [OF exPlain_ok _ s, of "SaveSettings exBadVlan"] a
    have st: "statusOf r = 400" "b = exApp\<lparr>ap_svc := exSvc\<lparr>sv_vlans := sv_vlans (ap_svc b)\<rparr>\<rparr>" by (auto simp del: serve.simps)
    show ?thesis using s st(1) arg_cong [OF st(2), of "\<lambda>x. sv_running (ap_svc x)"] by simp
  qed
next
  show "\<exists>r b. serve exPlain (ApiDeleteHost ''nas'') exApp = (r, b) \<and> statusOf r = 404 \<and> sv_running (ap_svc b) = sv_running exSvc"
  proof -
    have a: "svc_apply Gui_Service.exLib exEnv (DeleteHost ''nas'') exSvc = (Some SvcNotFound, exSvc)"
      by (simp add: deleteHost_def with_load_def exSvc_loads_each indexOfHost_def)
    obtain r b where s: "serve exPlain (ApiDeleteHost ''nas'') exApp = (r, b)" by fastforce
    from status_tells_outcome [OF exPlain_ok _ s, of "DeleteHost ''nas''"] a
    have st: "statusOf r = 404" "b = exApp\<lparr>ap_svc := exSvc\<lparr>sv_vlans := sv_vlans (ap_svc b)\<rparr>\<rparr>" by (auto simp del: serve.simps)
    show ?thesis using s st(1) arg_cong [OF st(2), of "\<lambda>x. sv_running (ap_svc x)"] by simp
  qed
next
  show "\<exists>r b. serve exNoReload (PutSettings (Some defaultSettings)) exApp = (r, b) \<and> statusOf r = 500 \<and> disk_ok Gui_Service.exLib (ap_svc b)"
  proof -
    have ctx: "hc_lib exNoReload = Gui_Service.exLib" "hc_env exNoReload = exEnv\<lparr>ev_reloadFails := True\<rparr>"
      by (simp_all add: exNoReload_def)
    have ok: "yaml_doc (sl_yaml (hc_lib exNoReload))" "env_ok (hc_env exNoReload) (sv_dir (ap_svc exApp))" "disk_ok (hc_lib exNoReload) (ap_svc exApp)"
      using exPlain_ok unfolding ctx by (simp_all add: env_ok_def)
    obtain r b where s: "serve exNoReload (PutSettings (Some defaultSettings)) exApp = (r, b)" by fastforce
    from status_tells_outcome [OF ok _ s, of "SaveSettings defaultSettings"] exNoReload_fails show ?thesis using s unfolding ctx
      by (auto simp del: serve.simps)
  qed
qed

text \<open>What the lists of the interface show.\<close>

lemma listed:
  assumes "loads lib (ap_svc b) = (Inr s, Inr rs, Inr hs)" "hc_lib d = lib"
  shows "fst (serve d GetSettings b) = JSON 200 (JSettings s)" "fst (serve d ListRecords b) = JSON 200 (JRecords rs)"
    "fst (serve d ListHosts b) = JSON 200 (JHosts hs)"
  using assms by (simp_all add: loads_def getSettings_def listRecords_def listHosts_def api_read_def svc_settings_def svc_records_def svc_hosts_def)

lemma find_index_Some:
  "find_index_from P k xs = Some i \<Longrightarrow> k \<le> i \<and> i - k < length xs \<and> P (xs ! (i - k)) \<and> (\<forall>j < i - k. \<not> P (xs ! j))"
proof (induction xs arbitrary: k)
  case (Cons x xs)
  show ?case
  proof (cases "P x")
    case False
    then have "find_index_from P (Suc k) xs = Some i" using Cons.prems by simp
    from Cons.IH [OF this] False show ?thesis
      by (auto simp: nth_Cons split: nat.split) (metis Suc_diff_Suc less_eq_Suc_le Suc_less_eq diff_Suc_Suc nth_Cons_Suc)+
  qed (use Cons.prems in simp)
qed simp

lemma find_index_None: "find_index_from P k xs = None \<longleftrightarrow> (\<forall>x\<in>set xs. \<not> P x)"
  by (induction xs arbitrary: k) auto

lemma indexOf_Some:
  assumes "indexOf rs n t = Some i"
  shows "i < length rs" "findRecord rs n t = Some (rs ! i)"
proof -
  let ?P = "\<lambda>r. rec_normalizedName r = normalizedHostName n \<and> equalFold (rec_type r) t"
  note i = find_index_Some [of ?P 0 rs i, unfolded diff_zero]
  show "i < length rs" using i assms by (simp add: indexOf_def Let_def)
  show "findRecord rs n t = Some (rs ! i)" unfolding findRecord_def Let_def find_Some_iff
    using i assms by (intro exI [of _ i]) (simp add: indexOf_def Let_def)
qed

text \<open>In an accepted configuration a name and a type, in whatever case, stand for one record.\<close>

lemma accepted_types:
  assumes "t \<in> {typeA, typeAAAA, typeCNAME, typeMDNS}" "t' \<in> {typeA, typeAAAA, typeCNAME, typeMDNS}" "equalFold t t'"
  shows "t = t'"
proof -
  let ?ts = "[typeA, typeAAAA, typeCNAME, typeMDNS]"
  have "list_all (\<lambda>t. list_all (\<lambda>t'. equalFold t t' \<longrightarrow> t = t') ?ts) ?ts" by code_simp
  then have "\<forall>t\<in>set ?ts. \<forall>t'\<in>set ?ts. equalFold t t' \<longrightarrow> t = t'" unfolding list_all_iff .
  then have "\<forall>t'\<in>set ?ts. equalFold t t' \<longrightarrow> t = t'" by (rule bspec) (use assms(1) in \<open>simp only: set_simps\<close>)
  then have "equalFold t t' \<longrightarrow> t = t'" by (rule bspec) (use assms(2) in \<open>simp only: set_simps\<close>)
  then show ?thesis using assms(3) by (rule mp)
qed

lemma accepted_record_type:
  assumes "validate s rs hs = None" "r \<in> set rs"
  shows "rec_type r \<in> {typeA, typeAAAA, typeCNAME, typeMDNS}"
proof -
  have "if isMDNS r then validateMDNSRecord r (map vlan_name (st_vlans s)) = None else validateStaticRecord r (map vlan_name (st_vlans s)) = None"
    using validateRecordsFrom_None [of rs "map vlan_name (st_vlans s)" "ownedZones s" "[]"] validate_None(8) [OF assms(1)] assms(2)
    by (auto simp: validateRecords_def)
  then show ?thesis using validateStaticRecord_None(1) by (auto simp: isMDNS_def split: if_splits)
qed

lemma accepted_distinct: "validate s rs hs = None \<Longrightarrow> distinct (map record_key rs)"
  using validateRecordsFrom_None [of rs "map vlan_name (st_vlans s)" "ownedZones s" "[]"] validate_None(8)
  by (auto simp: validateRecords_def)

lemma accepted_unique:
  assumes "validate s rs hs = None" "i < length rs" "j < length rs"
    "rec_normalizedName (rs ! i) = n" "rec_normalizedName (rs ! j) = n" "equalFold (rec_type (rs ! i)) t" "equalFold (rec_type (rs ! j)) t"
  shows "i = j"
proof -
  have "equalFold (rec_type (rs ! i)) (rec_type (rs ! j))" using assms(6,7) by (simp add: equalFold_def)
  then have "rec_type (rs ! i) = rec_type (rs ! j)"
    using accepted_types accepted_record_type [OF assms(1)] assms(2,3) by (meson nth_mem)
  then have "record_key (rs ! i) = record_key (rs ! j)" using assms(4,5) by (simp add: record_key_def)
  then show ?thesis using nth_eq_iff_index_eq [OF accepted_distinct [OF assms(1)], of i j] assms(2,3) by simp
qed

lemma removed_unknown:
  assumes "validate s rs hs = None" "indexOf rs n t = Some i"
  shows "findRecord (remove_at i rs) n t = None"
proof -
  let ?P = "\<lambda>r. rec_normalizedName r = normalizedHostName n \<and> equalFold (rec_type r) t"
  have i: "i < length rs" "?P (rs ! i)" using find_index_Some [of ?P 0 rs i] assms(2) by (simp_all add: indexOf_def Let_def)
  have "\<not> ?P r" if "r \<in> set (remove_at i rs)" for r
  proof
    assume P: "?P r"
    have "\<exists>j. j < length rs \<and> j \<noteq> i \<and> r = rs ! j"
    proof (cases "r \<in> set (take i rs)")
      case True
      then obtain k where "k < i" "r = rs ! k" using i(1) by (auto simp: in_set_conv_nth)
      then show ?thesis using i(1) by (intro exI [of _ k]) simp
    next
      case False
      then have "r \<in> set (drop (Suc i) rs)" using that by (simp add: remove_at_def)
      then obtain k where "k < length rs - Suc i" "r = rs ! (Suc i + k)" by (auto simp: in_set_conv_nth)
      then show ?thesis by (intro exI [of _ "Suc i + k"]) simp
    qed
    then obtain j where "j < length rs" "j \<noteq> i" "r = rs ! j" by blast
    then show False using accepted_unique [OF assms(1), of j i] i P by blast
  qed
  then show ?thesis by (auto simp: findRecord_def Let_def find_None_iff)
qed

lemma acknowledged_loads:
  assumes "yaml_doc (sl_yaml lib)" "env_ok ev (sv_dir v)" "loads lib v = (Inr s, Inr rs, Inr hs)"
  shows "svc_addRecord lib ev r v = (None, w) \<Longrightarrow> loads lib w = (Inr s, Inr (rs @ [r]), Inr hs)"
    "updateRecord lib ev n t r v = (None, w) \<Longrightarrow> \<exists>i. indexOf rs n t = Some i \<and> loads lib w = (Inr s, Inr (rs[i := r]), Inr hs)"
    "deleteRecord lib ev n t v = (None, w) \<Longrightarrow> \<exists>i. indexOf rs n t = Some i \<and> loads lib w = (Inr s, Inr (remove_at i rs), Inr hs)"
    "svc_saveSettings lib ev s' v = (None, w) \<Longrightarrow> loads lib w = (Inr s', Inr rs, Inr hs)"
proof -
  have ld: "loadSettings (sl_yaml lib) (sv_dir v) (sv_fs v) = Inr s" "store_loadRecords (sl_yaml lib) (sv_dir v) (sv_fs v) = Inr rs"
    using assms(3) by (simp_all add: loads_def)
  have rec: "applyRecords lib ev s rs' v = (None, w) \<Longrightarrow> loads lib w = (Inr s, Inr rs', Inr hs)" for rs'
    using applyRecords_outcome [OF assms, of rs'] by (simp add: edit_outcome_def)
  show "svc_addRecord lib ev r v = (None, w) \<Longrightarrow> loads lib w = (Inr s, Inr (rs @ [r]), Inr hs)"
    by (auto simp: svc_addRecord_def with_load_def ld split: option.splits dest: rec)
  show "updateRecord lib ev n t r v = (None, w) \<Longrightarrow> \<exists>i. indexOf rs n t = Some i \<and> loads lib w = (Inr s, Inr (rs[i := r]), Inr hs)"
    by (auto simp: updateRecord_def with_load_def ld split: option.splits dest: rec)
  show "deleteRecord lib ev n t v = (None, w) \<Longrightarrow> \<exists>i. indexOf rs n t = Some i \<and> loads lib w = (Inr s, Inr (remove_at i rs), Inr hs)"
    by (auto simp: deleteRecord_def with_load_def ld split: option.splits dest: rec)
  show "svc_saveSettings lib ev s' v = (None, w) \<Longrightarrow> loads lib w = (Inr s', Inr rs, Inr hs)"
    using saveSettings_outcome [OF assms, of s'] by (simp add: edit_outcome_def)
qed

text \<open>
  C16. What the JSON interface acknowledges, it lists: after a record was created the list is the
  list before with that record at its end; after a record was deleted none with its name and type
  is listed, in whatever case they are written, and nothing else is missing; after the settings
  were put they are the ones returned.
\<close>

theorem acknowledged_is_listed:
  assumes "yaml_doc (sl_yaml (hc_lib c))" "env_ok (hc_env c) (sv_dir (ap_svc a))" "disk_ok (hc_lib c) (ap_svc a)"
    "hc_lib d = hc_lib c" "fst (serve c ListRecords a) = JSON 200 (JRecords rs)"
  shows "(serve c (ApiAddRecord (Some r)) a = (JSON 201 x, b) \<longrightarrow> fst (serve d ListRecords b) = JSON 200 (JRecords (rs @ [decodeRecord r]))) \<and>
    (serve c (ApiDeleteRecord n t) a = (Status 204, b) \<longrightarrow>
      (\<exists>i<length rs. findRecord rs n (toUpper t) = Some (rs ! i) \<and> findRecord (remove_at i rs) n (toUpper t) = None \<and>
        fst (serve d ListRecords b) = JSON 200 (JRecords (remove_at i rs)))) \<and>
    (serve c (PutSettings (Some s)) a = (JSON 200 x, b) \<longrightarrow> fst (serve d GetSettings b) = JSON 200 (JSettings s))"
proof -
  obtain s0 rs0 hs where l: "loads (hc_lib c) (ap_svc a) = (Inr s0, Inr rs0, Inr hs)" and v: "validate s0 rs0 hs = None"
    using assms(3) by (auto simp: disk_ok_def)
  have rs: "rs0 = rs" using listed(2) [OF l refl] assms(5) by simp
  note ack = acknowledged_loads [OF assms(1,2) l [unfolded rs]]
  have ok: "api_op c q = Some op \<Longrightarrow> serve c q a = (y, b) \<Longrightarrow> statusOf y < 300 \<Longrightarrow>
      svc_apply (hc_lib c) (hc_env c) op (ap_svc a) = (None, ap_svc b)" for q op y
    by (erule (1) api_cases) (auto simp: writeErr_status split: if_splits)
  have 1: "fst (serve d ListRecords b) = JSON 200 (JRecords (rs @ [decodeRecord r]))" if "serve c (ApiAddRecord (Some r)) a = (JSON 201 x, b)"
    by (rule listed(2) [OF ack(1) assms(4)]) (use ok [OF _ that, of "AddRecord (decodeRecord r)"] in simp)
  have 2: "\<exists>i<length rs. findRecord rs n (toUpper t) = Some (rs ! i) \<and> findRecord (remove_at i rs) n (toUpper t) = None \<and>
      fst (serve d ListRecords b) = JSON 200 (JRecords (remove_at i rs))" if deleted: "serve c (ApiDeleteRecord n t) a = (Status 204, b)"
  proof -
    obtain i where i: "indexOf rs n (toUpper t) = Some i" "loads (hc_lib c) (ap_svc b) = (Inr s0, Inr (remove_at i rs), Inr hs)"
      using ok [OF _ deleted, of "DeleteRecord n (toUpper t)"] ack(3) [of n "toUpper t" "ap_svc b"] by auto
    show ?thesis using indexOf_Some [OF i(1)] removed_unknown [OF v [unfolded rs] i(1)] listed(2) [OF i(2) assms(4)] by blast
  qed
  have 3: "fst (serve d GetSettings b) = JSON 200 (JSettings s)" if "serve c (PutSettings (Some s)) a = (JSON 200 x, b)"
    by (rule listed(1) [OF ack(4) assms(4)]) (use ok [OF _ that, of "SaveSettings s"] in simp)
  show ?thesis using 1 2 3 by blast
qed

theorem acknowledged_is_listed_witness:
  "fst (serve exPlain GetSettings (snd (serve exPlain (PutSettings (Some defaultSettings)) exApp))) = JSON 200 (JSettings defaultSettings)"
proof -
  have "fst (serve exPlain ListRecords exApp) = JSON 200 (JRecords [])"
    by (rule listed(2) [OF _ refl, of _ _ defaultSettings "[]" "[]"]) (simp add: exSvc_loads)
  note th = acknowledged_is_listed [OF exPlain_ok refl this, of undefined "JSettings defaultSettings" _ _ _ defaultSettings]
  have "serve exPlain (PutSettings (Some defaultSettings)) exApp =
      (JSON 200 (JSettings defaultSettings), snd (serve exPlain (PutSettings (Some defaultSettings)) exApp))"
    using exPut by (metis prod.collapse)
  with th show ?thesis by blast
qed

text \<open>
  Live records, the ones linked to a discovered device, cannot be written through the JSON
  interface: it puts the type in upper case, but the type of a live record is ``mdns'' in lower
  case. Even sending a listed live record back unchanged is refused.
\<close>

lemma decoded_not_accepted:
  assumes "rec_type r = typeMDNS"
  shows "rec_type (decodeRecord r) \<notin> {typeA, typeAAAA, typeCNAME, typeMDNS}"
proof -
  have "toUpper typeMDNS \<notin> {typeA, typeAAAA, typeCNAME, typeMDNS}" by code_simp
  moreover have "rec_type (decodeRecord r) = toUpper (rec_type r)" by (simp add: decodeRecord_def)
  ultimately show ?thesis unfolding assms by (simp only: simp_thms)
qed

theorem live_records_refused:
  assumes "yaml_doc (sl_yaml (hc_lib c))" "env_ok (hc_env c) (sv_dir (ap_svc a))" "disk_ok (hc_lib c) (ap_svc a)" "rec_type r = typeMDNS"
    "q = ApiAddRecord (Some r) \<or> q = ApiUpdateRecord n t (Some r)" "serve c q a = (res, b)"
  shows "statusOf res \<ge> 400"
proof -
  obtain s rs hs where l: "loads (hc_lib c) (ap_svc a) = (Inr s, Inr rs, Inr hs)" and v: "validate s rs hs = None"
    using assms(3) by (auto simp: disk_ok_def)
  note ack = acknowledged_loads [OF assms(1,2) l]
  obtain op where op: "api_op c q = Some op" "op = AddRecord (decodeRecord r) \<or> op = UpdateRecord n (toUpper t) (decodeRecord r)"
    using assms(5) by auto
  from op(1) assms(6) show ?thesis
  proof (cases rule: api_cases)
    case ok
    have set: "decodeRecord r \<in> set (rs[i := decodeRecord r])" if "indexOf rs n (toUpper t) = Some i" for i
      using indexOf_Some(1) [OF that] by (rule set_update_memI)
    from ok obtain rs' where rs': "loads (hc_lib c) (ap_svc b) = (Inr s, Inr rs', Inr hs)" "decodeRecord r \<in> set rs'"
      using op(2) ack(1) [of "decodeRecord r" "ap_svc b"] ack(2) [of n "toUpper t" "decodeRecord r" "ap_svc b"] set by auto
    have "disk_ok (hc_lib c) (ap_svc b)" using svc_apply_disk_ok [OF assms(1-3), of op] ok(1) by simp
    then have "validate s rs' hs = None" using rs'(1) by (auto simp: disk_ok_def)
    from accepted_record_type [OF this rs'(2)] decoded_not_accepted [OF assms(4)] show ?thesis by blast
  next
    case (err e)
    then show ?thesis by (simp add: writeErr_status)
  qed
qed

theorem live_records_refused_witness:
  "statusOf (fst (serve exPlain (ApiAddRecord (Some (promotedRecord exTvEntry))) exApp)) \<ge> 400"
  by (rule live_records_refused [OF exPlain_ok _ disjI1 [OF refl] prod.collapse [symmetric]]) (simp add: promotedRecord_def)

section \<open>Availability\<close>

text \<open>
  The dashboard is always available: from a valid configuration, after any sequence of requests,
  whatever writes or reloads fail, no request is answered by the plain error that says the
  configuration cannot be read, the configuration is still valid afterwards, and a request that
  only reads has changed nothing.
\<close>

theorem dashboard_always_available:
  assumes "yaml_doc (sl_yaml (hc_lib c))" "disk_ok (hc_lib c) (ap_svc a)" "http_reaches (hc_lib c) a b" "env_ok (hc_env c) (sv_dir (ap_svc b))"
  shows "fst (serve c q b) \<noteq> PlainError n e \<and> disk_ok (hc_lib c) (ap_svc (snd (serve c q b))) \<and> (is_get q \<longrightarrow> snd (serve c q b) = b)"
proof -
  have b: "disk_ok (hc_lib c) (ap_svc b)" by (rule svc_reaches_disk_ok [OF assms(1,2) http_svc_reaches [OF assms(3)]])
  have "disk_ok (hc_lib c) (ap_svc (snd (serve c q b)))"
    by (rule svc_reaches_disk_ok [OF assms(1,2) http_svc_reaches [OF http_reaches.request [OF assms(3) refl assms(4)]]])
  then show ?thesis using serve_available [OF assms(1,4) b, of q] get_changes_nothing by (auto simp: available_def)
qed

theorem dashboard_always_available_witness:
  "fst (serve exPlain HostsPage (snd (serve exPlain (PutSettings (Some defaultSettings)) exApp))) \<noteq> PlainError 500 SvcReload"
proof -
  let ?b = "snd (serve exPlain (PutSettings (Some defaultSettings)) exApp)"
  have r: "http_reaches (hc_lib exPlain) exApp ?b" by (rule http_reaches.request [OF http_reaches.start refl exPlain_ok(2)])
  have "sv_dir (ap_svc ?b) = sv_dir exSvc"
    using svc_apply_disk_ok [OF exPlain_ok, of "SaveSettings defaultSettings"] by (simp add: putSettings_def)
  then have "env_ok (hc_env exPlain) (sv_dir (ap_svc ?b))" using exEnv_ok by simp
  from dashboard_always_available [OF exPlain_ok(1,3) r this] show ?thesis by blast
qed

section \<open>Editing on the pages\<close>

lemma find_by_key:
  assumes "distinct (map f xs)" "mset xs = mset ys"
  shows "find (\<lambda>x. f x = k) xs = find (\<lambda>x. f x = k) ys"
proof -
  have "distinct (map f ys)" using assms by (metis mset_eq_imp_distinct_iff mset_map)
  moreover have "mset (filter (\<lambda>x. f x = k) xs) = mset (filter (\<lambda>x. f x = k) ys)" using assms(2) by simp
  ultimately show ?thesis using assms(1) by (auto simp: filter_key_unique split: option.splits)
qed

lemma horizon_order:
  assumes "distinct (map ov_vlan (rec_overrides r))" "mset os = mset (rec_overrides r)"
  shows "horizon (r\<lparr>rec_overrides := os\<rparr>) vlan = horizon r vlan"
  using find_by_key [OF assms(1) assms(2) [symmetric], of vlan] by (auto simp: horizon_def Let_def split: option.split)

lemma ap_svc_updated: "ap_svc (a\<lparr>ap_svc := v\<rparr>) = v"
  by simp

lemma update_loads:
  assumes "yaml_doc (sl_yaml lib)" "env_ok ev (sv_dir v)" "loads lib v = (Inr s, Inr rs, Inr hs)"
  shows "loads lib (snd (updateRecord lib ev n t r v)) = loads lib v \<or>
    (\<exists>i. indexOf rs n t = Some i \<and> loads lib (snd (updateRecord lib ev n t r v)) = (Inr s, Inr (rs[i := r]), Inr hs))"
proof (cases "indexOf rs n t")
  case (Some i)
  then have "updateRecord lib ev n t r v = applyRecords lib ev s (rs[i := r]) v"
    using assms(3) by (simp add: loads_def updateRecord_def with_load_def)
  then show ?thesis using applyRecords_outcome [OF assms, of "rs[i := r]"] Some by (auto simp: edit_outcome_def)
qed (use assms(3) in \<open>simp add: loads_def updateRecord_def with_load_def\<close>)

lemma accepted_static:
  assumes "validate s rs hs = None" "r \<in> set rs" "\<not> isMDNS r"
  shows "validateStaticRecord r (map vlan_name (st_vlans s)) = None"
  using validateRecordsFrom_None [of rs "map vlan_name (st_vlans s)" "ownedZones s" "[]"] validate_None(8) [OF assms(1)] assms(2,3)
  by (auto simp: validateRecords_def)

lemma accepted_vlan_names: "validate s rs hs = None \<Longrightarrow> distinct (map vlan_name (st_vlans s))"
  using validateVLANsFrom_None validate_None(3) by (fastforce simp: validateVLANs_def)

definition same_answers :: "dnsRecord \<Rightarrow> dnsRecord \<Rightarrow> bool" where
  "same_answers r r' \<longleftrightarrow> (\<exists>os. r' = r\<lparr>rec_overrides := os\<rparr> \<and> mset os = mset (rec_overrides r)) \<and> (\<forall>vlan. horizon r' vlan = horizon r vlan)"

lemma same_answers_refl: "list_all2 same_answers rs rs"
proof -
  have "same_answers r r" for r unfolding same_answers_def by (intro conjI exI [of _ "rec_overrides r"]) simp_all
  then show ?thesis by (rule list.rel_refl)
qed

text \<open>
  C15. Opening the edit form of a record and saving it as it is changes at most white space and the order
  of the overrides: whatever fails meanwhile, the settings, the hosts and all other records on disk
  stay as they are, and the record stays or becomes, up to the order of its overrides, the one with the
  white space around its texts removed. A record without such white space is therefore answered as
  before for every VLAN.
\<close>

theorem resubmitted_form_harmless:
  assumes "yaml_doc (sl_yaml (hc_lib c))" "env_ok (hc_env c) (sv_dir (ap_svc a))" "disk_ok (hc_lib c) (ap_svc a)" "hc_lib d = hc_lib c"
    "pageOf (fst (serve d (RecordsEdit n t) a)) = Some (Records p)" "pr_editing p = Some r"
    "serve c (RecordsUpdate n t (Some (recordForm (Some r) (pr_vlans p)))) a = (res, b)"
  shows "\<exists>s rs rs' hs. loads (hc_lib c) (ap_svc a) = (Inr s, Inr rs, Inr hs) \<and> loads (hc_lib c) (ap_svc b) = (Inr s, Inr rs', Inr hs) \<and>
    (rs' = rs \<or> (\<exists>i r'. i < length rs \<and> rs ! i = r \<and> rs' = rs[i := r'] \<and> same_answers (as_form r) r')) \<and>
    (record_trimmed r \<longrightarrow> list_all2 same_answers rs rs')"
proof -
  obtain s rs hs where l: "loads (hc_lib c) (ap_svc a) = (Inr s, Inr rs, Inr hs)" and v: "validate s rs hs = None"
    using assms(3) by (auto simp: disk_ok_def)
  then have rd: "svc_settings (hc_lib c) (ap_svc a) = Inr s" "svc_records (hc_lib c) (ap_svc a) = Inr rs"
    by (simp_all add: loads_def svc_settings_def svc_records_def)
  have p: "pr_vlans p = st_vlans s" "findRecord rs n (toUpper t) = Some r" "\<not> isMDNS r"
    using assms(5,6) rd [folded assms(4)]
    by (auto simp: recordsEdit_def with_read_def renderRecords_def renderError_def split: option.splits if_splits)
  let ?r = "edited r (st_vlans s)" and ?upd = "\<lambda>r'. updateRecord (hc_lib c) (hc_env c) n (toUpper t) r' (ap_svc a)"
  have "snd (recordsUpdate c n t (Some f) a) = a\<lparr>ap_svc := snd (?upd (parseRecordForm f (st_vlans s)))\<rparr>" for f
    unfolding recordsUpdate_def with_read_edit_def rd sum.case p(2) option.case using p(3) by simp
  from this [of "recordForm (Some r) (st_vlans s)", folded edited_def] have b: "ap_svc b = snd (?upd ?r)"
    unfolding assms(7) [unfolded serve.simps p(1)] snd_conv by (simp only: ap_svc_updated)
  have "r \<in> set rs" by (rule conjunct1 [OF find_SomeD [OF p(2) [unfolded findRecord_def Let_def]]])
  note static = accepted_static [OF v this p(3)]
  from record_form_back [OF static accepted_vlan_names [OF v]]
  obtain os where os: "?r = (as_form r)\<lparr>rec_overrides := os\<rparr>" "mset os = mset (rec_overrides (as_form r))" by (elim exE conjE)
  have "distinct (map ov_vlan (rec_overrides (as_form r)))"
    using row_back_vlans [OF validateStaticRecord_None(3) [OF static]] by (simp add: as_form_def)
  then have same: "same_answers (as_form r) ?r"
    unfolding same_answers_def os(1) using os(2) horizon_order [OF _ os(2)]
    by (intro conjI allI exI [of _ os]) simp_all
  from update_loads [OF assms(1,2) l, of n "toUpper t" ?r] show ?thesis
  proof (elim disjE exE conjE)
    assume "loads (hc_lib c) (snd (?upd ?r)) = loads (hc_lib c) (ap_svc a)"
    then have "loads (hc_lib c) (ap_svc b) = (Inr s, Inr rs, Inr hs)" unfolding b l .
    with l same_answers_refl show ?thesis by blast
  next
    fix i
    assume i: "indexOf rs n (toUpper t) = Some i" "loads (hc_lib c) (snd (?upd ?r)) = (Inr s, Inr (rs[i := ?r]), Inr hs)"
    have at: "rs ! i = r" "i < length rs" using indexOf_Some [OF i(1)] p(2) by simp_all
    then have id: "rs[i := r] = rs" by (metis list_update_id)
    have "list_all2 same_answers rs (rs[i := ?r])" if "record_trimmed r"
      using list_all2_update_cong [OF same_answers_refl same, of rs i] unfolding as_form_trimmed [OF static that] id .
    with l i(2) [folded b] at same show ?thesis by blast
  qed
qed

theorem resubmitted_form_harmless_witness:
  "\<exists>s rs rs' hs. loads exVlanLib (ap_svc exVlanApp) = (Inr s, Inr rs, Inr hs) \<and>
     loads exVlanLib (ap_svc (snd (serve (exCtx exVlanLib) (RecordsUpdate ''nas.home.arpa'' ''a'' (Some (recordForm (Some exNas) (st_vlans exHome)))) exVlanApp))) =
       (Inr s, Inr rs', Inr hs) \<and> list_all2 same_answers rs rs'"
proof -
  have "record_trimmed exNas" by code_simp
  with resubmitted_form_harmless [OF exVlan_ok refl exVlan_form _, unfolded recordsData.simps exCtx_simps, OF refl prod.collapse [symmetric]]
  show ?thesis by blast
qed

section \<open>Removing a VLAN\<close>

lemma unknown_vlan_refused:
  assumes "r \<in> set rs" "\<not> isMDNS r" "o' \<in> set (rec_overrides r)" "ov_vlan o' \<notin> set (map vlan_name (st_vlans s))"
  shows "validate s rs hs \<noteq> None"
proof
  assume "validate s rs hs = None"
  from validateStaticRecord_None(4) [OF accepted_static [OF this assms(1,2)]] assms(3,4) show False by blast
qed

text \<open>
  C32. A VLAN that an override names cannot be removed on the settings page: the request is answered
  with an error and the page still lists the VLAN, and the files, the engine and all components
  stay as they are. But the plugins no longer know the VLAN: the table they consult is already
  the one without it, so the override stops to apply until the next edit.
\<close>

theorem used_vlan_half_removed:
  assumes "loads (hc_lib c) (ap_svc a) = (Inr s, Inr rs, Inr hs)" "r \<in> set rs" "\<not> isMDNS r" "o' \<in> set (rec_overrides r)"
    "serve c (VlanRemove (ov_vlan o')) a = (res, b)"
  shows "b = a\<lparr>ap_svc := (ap_svc a)\<lparr>sv_vlans := newTable (vlancfg_build (filter (\<lambda>v. vlan_name v \<noteq> ov_vlan o') (st_vlans s)))\<rparr>\<rparr> \<and>
    (\<exists>p e. pageOf res = Some (Settings p) \<and> ps_settings p = s \<and> toastsOf res = [ErrorToast (ServiceFailed (SvcInvalid (RenderInvalid e)))])"
proof -
  let ?s = "s\<lparr>st_vlans := filter (\<lambda>v. vlan_name v \<noteq> ov_vlan o') (st_vlans s)\<rparr>"
  let ?v = "(ap_svc a)\<lparr>sv_vlans := newTable (vlancfg_build (st_vlans ?s))\<rparr>"
  have "ov_vlan o' \<notin> set (map vlan_name (st_vlans ?s))" by auto
  from unknown_vlan_refused [OF assms(2-4) this] obtain e where "validate ?s rs hs = Some e" by blast
  then have "svc_render (hc_env c) ?s rs hs (ap_svc a) = (Inl (SvcInvalid (RenderInvalid e)), ?v)"
    by (simp add: svc_render_def render_def)
  then have save: "svc_saveSettings (hc_lib c) (hc_env c) ?s (ap_svc a) = (Some (SvcInvalid (RenderInvalid e)), ?v)"
    using assms(1) by (simp add: svc_saveSettings_def with_load_def loads_def)
  have "svc_settings (hc_lib c) (ap_svc a) = Inr s" "svc_settings (hc_lib c) ?v = Inr s"
    using assms(1) by (simp_all add: svc_settings_def loads_def)
  then show ?thesis using assms(5) save
    by (auto simp: vlanRemove_def save_page_def with_read_edit_def page_edit_def with_edit_def renderSettings_def settingsView_def
        with_read_def renderError_def)
qed

theorem used_vlan_half_removed_witness:
  "\<exists>e. toastsOf (fst (serve (exCtx exVlanLib) (VlanRemove ''guest'') exVlanApp)) = [ErrorToast (ServiceFailed (SvcInvalid (RenderInvalid e)))]"
proof -
  let ?o = "\<lparr>ov_vlan = ''guest'', ov_value = ''10.2.0.5'', ov_ttl = 0, ov_nxdomain = False\<rparr>"
  have "\<not> isMDNS exNas" "?o \<in> set (rec_overrides exNas)" by (simp_all add: exNas_def isMDNS_def)
  note th = used_vlan_half_removed [of "exCtx exVlanLib", unfolded exCtx_simps, OF exVlan_loads _ this, OF _ prod.collapse [symmetric]]
  then show ?thesis by auto
qed

end
