(* ===== verification/Startup.thy ===== *)
theory Startup
  imports Gui_Requests Acme_Manager Query_Log
begin

text \<open>
  The process: the command line and its defaults, starting up from the files on disk, the reload the
  certificate manager uses, and shutting down (\<^verbatim>\<open>internal/cli/cli.go\<close>), the engine's swap of
  configurations (\<^verbatim>\<open>internal/engine/engine.go\<close>) and the version shown (\<^verbatim>\<open>internal/version\<close>).

  The process state is the dashboard's with the host names of the query log. What startup meets
  outside the program is in \<open>boot_env\<close>: which writes fail, the placeholder certificate, and what
  starting the engine makes of the plugin registry, \<open>None\<close> if it fails.

  Shown: a process that has started holds a valid configuration and serves it, and this stays so
  under requests and certificate reloads in any interleaving, so no assumption about the files is
  needed; a fresh installation starts; a certificate reload that overlaps an edit undoes it in
  the engine, and it never looks for the addresses of the interfaces again.
\<close>

section \<open>Command line\<close>

record os_env =
  os_getenv :: "string \<Rightarrow> string"
  os_dockerenv :: bool
  os_cgroup :: "string option"
  os_userConfigDir :: "string option"

definition inContainer :: "os_env \<Rightarrow> bool" where
  "inContainer e = (if os_dockerenv e then True else
     (case os_cgroup e of
        None \<Rightarrow> False
      | Some d \<Rightarrow> containsStr d ''docker'' \<or> containsStr d ''containerd'' \<or> containsStr d ''kubepods''))"

definition defaultConfigDir :: "os_env \<Rightarrow> string" where
  "defaultConfigDir e =
     (if os_getenv e ''BRAMBLEGATE_CONFIG_DIR'' \<noteq> [] then os_getenv e ''BRAMBLEGATE_CONFIG_DIR''
      else if inContainer e then ''/config''
      else case os_userConfigDir e of Some dir \<Rightarrow> dir @ ''/bramblegate'' | None \<Rightarrow> ''./bramblegate-config'')"

definition defaultGUIAddr :: "os_env \<Rightarrow> string" where
  "defaultGUIAddr e = (let a = os_getenv e ''BRAMBLEGATE_GUI_ADDR'' in if a \<noteq> [] then a else '':8080'')"

definition defaultLogLevel :: "os_env \<Rightarrow> string" where
  "defaultLogLevel e = (let l = os_getenv e ''BRAMBLEGATE_LOG_LEVEL'' in if l \<noteq> [] then l else ''info'')"

definition defaultLogFormat :: "os_env \<Rightarrow> string" where
  "defaultLogFormat e = (let f = os_getenv e ''BRAMBLEGATE_LOG_FORMAT'' in if f \<noteq> [] then f else ''json'')"

datatype log_level = LevelDebug | LevelInfo | LevelWarn | LevelError
datatype log_handler = JSONHandler log_level | TextHandler log_level
datatype logger_error = InvalidLevel string | InvalidFormat string

definition parseLogLevel :: "string \<Rightarrow> logger_error + log_level" where
  "parseLogLevel s =
     (let l = toLower s in
      if l = ''debug'' then Inr LevelDebug
      else if l = [] \<or> l = ''info'' then Inr LevelInfo
      else if l = ''warn'' \<or> l = ''warning'' then Inr LevelWarn
      else if l = ''error'' then Inr LevelError
      else Inl (InvalidLevel s))"

definition newLogger :: "string \<Rightarrow> string \<Rightarrow> logger_error + log_handler" where
  "newLogger levelStr format = (case parseLogLevel levelStr of
     Inl e \<Rightarrow> Inl e
   | Inr level \<Rightarrow>
       (let f = toLower format in
        if f = [] \<or> f = ''json'' then Inr (JSONHandler level)
        else if f = ''text'' then Inr (TextHandler level)
        else Inl (InvalidFormat format)))"

section \<open>The engine\<close>

text \<open>
  The text of the running instance, if one runs. \<open>starts\<close> and \<open>restarts\<close> tell whether the server
  accepts a Corefile, \<open>stopFails\<close> whether stopping fails. On Windows a reload stops the old
  instance first.
\<close>

type_synonym engine = "string option"

definition engine_new :: "(string \<Rightarrow> bool) \<Rightarrow> string \<Rightarrow> engine option" where
  "engine_new starts corefile = (if starts corefile then Some (Some corefile) else None)"

definition reloadStopStart :: "bool \<Rightarrow> (string \<Rightarrow> bool) \<Rightarrow> string \<Rightarrow> engine \<Rightarrow> bool \<times> engine" where
  "reloadStopStart stopFails starts corefile e =
     (if stopFails then (False, e) else if starts corefile then (True, Some corefile) else (False, None))"

definition engine_reload :: "bool \<Rightarrow> bool \<Rightarrow> (string \<Rightarrow> bool) \<Rightarrow> (string \<Rightarrow> bool) \<Rightarrow> string \<Rightarrow> engine \<Rightarrow> bool \<times> engine" where
  "engine_reload windows stopFails starts restarts corefile e =
     (if windows then reloadStopStart stopFails starts corefile e
      else if restarts corefile then (True, Some corefile) else (False, e))"

section \<open>Starting up\<close>

definition flattenHostNames :: "hostSet \<Rightarrow> string list" where
  "flattenHostNames hs = concat (map host_names hs)"

record process =
  pc_app :: app
  pc_hostNames :: "string set option"

abbreviation pc_svc :: "process \<Rightarrow> svc" where
  "pc_svc p \<equiv> ap_svc (pc_app p)"

definition on_svc :: "(svc \<Rightarrow> svc) \<Rightarrow> process \<Rightarrow> process" where
  "on_svc f p = p\<lparr>pc_app := (pc_app p)\<lparr>ap_svc := f (ap_svc (pc_app p))\<rparr>\<rparr>"

record boot_env =
  bt_env :: env
  bt_selfsigned :: selfsigned_env
  bt_start :: "string \<Rightarrow> plugin_registry \<Rightarrow> plugin_registry option"

datatype boot_error =
    SeedFailed store_error
  | LoadFailed store_error
  | CertificateFailed selfsigned_error
  | LogStoreFailed reconcile_error
  | RenderFailed render_error
  | ZoneDataFailed write_error
  | HostsDataFailed write_error
  | EngineFailed
  | RegistryInvalid "registry_error list"

text \<open>\<^verbatim>\<open>NewService\<close>, and what is set in the process before it.\<close>

definition newService :: "fs \<Rightarrow> string \<Rightarrow> plugin_registry \<Rightarrow> svc" where
  "newService fs dir reg = \<lparr>sv_fs = fs, sv_dir = dir,
     sv_certOpts = \<lparr>opt_configDir = dir, opt_certFile = [], opt_keyFile = [],
       opt_acmeSelfIPs = \<lparr>si_perVLAN = [], si_primary = \<lparr>va_v4 = [], va_v6 = []\<rparr>\<rparr>\<rparr>,
     sv_vlans = zeroTable, sv_running = [], sv_mdns = None, sv_injected = False, sv_listener = None, sv_mdnsCfg = ([], []),
     sv_advertiser = None, sv_store = \<lparr>ss_current = None\<rparr>, sv_clientNames = None, sv_cnObserver = False, sv_registry = reg\<rparr>"

definition seedSettings :: "svc_lib \<Rightarrow> env \<Rightarrow> string \<Rightarrow> fs \<Rightarrow> store_error option \<times> fs" where
  "seedSettings lib ev dir fs =
     (if settingsExist dir fs then (None, fs)
      else case saveSettings (sl_yaml lib) (ev_save ev) (ev_tmp ev) dir defaultSettings fs of (e, tr) \<Rightarrow> (e, last tr))"

text \<open>The certificate files the listeners will use, and the placeholder where one is wanted.\<close>

definition prepareCertificate :: "boot_env \<Rightarrow> settings \<Rightarrow> string \<Rightarrow> fs \<Rightarrow> selfsigned_error option \<times> fs" where
  "prepareCertificate be s dir fs =
     (if acme_enabled (st_acme s) \<or> acme_selfSignedFallback (st_acme s)
      then case ensureSelfSignedCert (bt_selfsigned be) dir fs of (e, tr) \<Rightarrow> (e, last tr)
      else (None, fs))"

definition bootOptions :: "env \<Rightarrow> settings \<Rightarrow> string \<Rightarrow> options" where
  "bootOptions ev s dir = \<lparr>opt_configDir = dir, opt_certFile = fst (certPaths dir), opt_keyFile = snd (certPaths dir),
     opt_acmeSelfIPs = ev_selfIPs ev (st_vlans s)\<rparr>"

text \<open>Writing what the plugins read, and starting the engine.\<close>

definition startEngine :: "svc_lib \<Rightarrow> boot_env \<Rightarrow> rendered \<Rightarrow> svc \<Rightarrow> boot_error option \<times> svc" where
  "startEngine lib be r v =
     (let ev = bt_env be in
      case writeFileAtomic (ev_zone ev) (ev_tmp ev) (zoneDataPath (sv_dir v)) (sl_zoneJSON lib (rd_zoneData r)) (sv_fs v) of
        (Some e, tr) \<Rightarrow> (Some (ZoneDataFailed e), v\<lparr>sv_fs := last tr\<rparr>)
      | (None, tr) \<Rightarrow>
          (case writeFileAtomic (ev_hosts ev) (ev_tmp ev) (hostsDataPath (sv_dir v)) (rd_hostsData r) (last tr) of
             (Some e, tr2) \<Rightarrow> (Some (HostsDataFailed e), v\<lparr>sv_fs := last tr2\<rparr>)
           | (None, tr2) \<Rightarrow>
               let fs' = last (snd (writeFileAtomic (ev_corefile ev) (ev_tmp ev) (runtimeCorefilePath (sv_dir v)) (rd_corefile r) (last tr2))) in
               case bt_start be (rd_corefile r) (sv_registry v) of
                 None \<Rightarrow> (Some EngineFailed, v\<lparr>sv_fs := fs'\<rparr>)
               | Some reg \<Rightarrow>
                   let v' = svc_setLoaded ''hosts'' True [] (v\<lparr>sv_fs := fs', sv_running := rd_corefile r, sv_registry := reg\<rparr>) in
                   (if pr_validate (sv_registry v') \<noteq> [] then Some (RegistryInvalid (pr_validate (sv_registry v'))) else None, v')))"

definition startComponents :: "svc_lib \<Rightarrow> env \<Rightarrow> settings \<Rightarrow> recordSet \<Rightarrow> hostSet \<Rightarrow> svc \<Rightarrow> svc" where
  "startComponents lib ev s rs hs v =
     (let v = (if mdns_enabled (st_mdns s) then startMDNS (Some (mt_new (mdnscfg_build s rs) 0)) (st_mdns s) v else v);
          v = (if adv_enabled (mdns_advertise (st_mdns s)) then startAdvertise ev s v else v) in
      if clientNames_enabled (st_clientNames s) then startClientNames lib ev s hs v else v)"

text \<open>\<^verbatim>\<open>run\<close> up to the point where the process serves: the error that ends it, or none; first from the loaded files on.\<close>

definition bootLoaded :: "svc_lib \<Rightarrow> boot_env \<Rightarrow> settings \<Rightarrow> recordSet \<Rightarrow> hostSet \<Rightarrow> svc \<Rightarrow> boot_error option \<times> svc" where
  "bootLoaded lib be s rs hs v =
     (let ev = bt_env be; v = v\<lparr>sv_vlans := newTable (vlancfg_build (st_vlans s))\<rparr> in
      case prepareCertificate be s (sv_dir v) (sv_fs v) of
        (Some e, fs) \<Rightarrow> (Some (CertificateFailed e), v\<lparr>sv_fs := fs\<rparr>)
      | (None, fs) \<Rightarrow>
          (let opts = bootOptions ev s (sv_dir v);
               v = v\<lparr>sv_fs := fs, sv_certOpts := opts, sv_injected := mdns_enabled (st_mdns s)\<rparr> in
           case reconcileStore (ev_finish ev) (ev_closeFails ev) (ev_open ev) (queryLogStoreConfig (st_queryLog s) (sv_dir v)) (sv_store v) of
             (Some e, st) \<Rightarrow> (Some (LogStoreFailed e), v\<lparr>sv_store := st\<rparr>)
           | (None, st) \<Rightarrow>
               (case render s rs hs opts of
                  Inl e \<Rightarrow> (Some (RenderFailed e), v\<lparr>sv_store := st\<rparr>)
                | Inr r \<Rightarrow>
                    (case startEngine lib be r (v\<lparr>sv_store := st\<rparr>) of
                       (Some e, v') \<Rightarrow> (Some e, v')
                     | (None, v') \<Rightarrow> (None, startComponents lib ev s rs hs v')))))"

definition boot :: "svc_lib \<Rightarrow> boot_env \<Rightarrow> process \<Rightarrow> boot_error option \<times> process" where
  "boot lib be p =
     (case seedSettings lib (bt_env be) (sv_dir (pc_svc p)) (sv_fs (pc_svc p)) of
        (Some e, fs) \<Rightarrow> (Some (SeedFailed e), on_svc (\<lambda>v. v\<lparr>sv_fs := fs\<rparr>) p)
      | (None, fs) \<Rightarrow>
          (let p = on_svc (\<lambda>v. v\<lparr>sv_fs := fs\<rparr>) p; dir = sv_dir (pc_svc p) in
           case loadSettings (sl_yaml lib) dir fs of Inl e \<Rightarrow> (Some (LoadFailed e), p) | Inr s \<Rightarrow>
          (case store_loadRecords (sl_yaml lib) dir fs of Inl e \<Rightarrow> (Some (LoadFailed e), p) | Inr rs \<Rightarrow>
          (case loadHosts (sl_yaml lib) dir fs of Inl e \<Rightarrow> (Some (LoadFailed e), p) | Inr hs \<Rightarrow>
          (case bootLoaded lib be s rs hs (pc_svc p) of
             (e, v) \<Rightarrow> (e, (on_svc (\<lambda>_. v) p)\<lparr>pc_hostNames := setHostNames (flattenHostNames hs)\<rparr>))))))"

text \<open>\<^verbatim>\<open>Run\<close>: the exit code, for flags that were parsed or not; \<open>started\<close> is the result of \<^verbatim>\<open>run\<close>.\<close>

definition exitCode :: "(string \<times> string) option \<Rightarrow> boot_error option \<Rightarrow> int" where
  "exitCode flags started = (case flags of
     None \<Rightarrow> 2
   | Some (logLevel, logFormat) \<Rightarrow> (case newLogger logLevel logFormat of
       Inl _ \<Rightarrow> 2
     | Inr _ \<Rightarrow> if started \<noteq> None then 1 else 0))"

section \<open>Reloading for a new certificate, and shutting down\<close>

datatype reloadFn_error = ReloadLoad store_error | ReloadStore reconcile_error | ReloadRender render_error | ReloadServe svc_error

text \<open>
  \<^verbatim>\<open>reloadFn\<close> in its two parts: reading and rendering the configuration, and applying it. It takes no
  lock, so an edit of the service may come between them. \<open>opts\<close> are the options of startup.
\<close>

definition reloadRead :: "svc_lib \<Rightarrow> env \<Rightarrow> options \<Rightarrow> process \<Rightarrow> (reloadFn_error + rendered) \<times> process" where
  "reloadRead lib ev opts p =
     (let v = pc_svc p in
      case loadSettings (sl_yaml lib) (sv_dir v) (sv_fs v) of Inl e \<Rightarrow> (Inl (ReloadLoad e), p) | Inr s \<Rightarrow>
     (case store_loadRecords (sl_yaml lib) (sv_dir v) (sv_fs v) of Inl e \<Rightarrow> (Inl (ReloadLoad e), p) | Inr rs \<Rightarrow>
     (case loadHosts (sl_yaml lib) (sv_dir v) (sv_fs v) of Inl e \<Rightarrow> (Inl (ReloadLoad e), p) | Inr hs \<Rightarrow>
     (case reconcileStore (ev_finish ev) (ev_closeFails ev) (ev_open ev) (queryLogStoreConfig (st_queryLog s) (opt_configDir opts)) (sv_store v) of
       (re, st) \<Rightarrow>
         (let p = (on_svc (\<lambda>v. v\<lparr>sv_vlans := newTable (vlancfg_build (st_vlans s)), sv_store := st\<rparr>) p)
                \<lparr>pc_hostNames := setHostNames (flattenHostNames hs)\<rparr> in
          case re of
            Some e \<Rightarrow> (Inl (ReloadStore e), p)
          | None \<Rightarrow> (case render s rs hs opts of Inl e \<Rightarrow> (Inl (ReloadRender e), p) | Inr r \<Rightarrow> (Inr r, p)))))))"

definition reloadApply :: "svc_lib \<Rightarrow> env \<Rightarrow> rendered \<Rightarrow> process \<Rightarrow> reloadFn_error option \<times> process" where
  "reloadApply lib ev r p = (case svc_reload lib ev r (pc_svc p) of (e, v) \<Rightarrow> (map_option ReloadServe e, on_svc (\<lambda>_. v) p))"

definition reloadFn :: "svc_lib \<Rightarrow> env \<Rightarrow> options \<Rightarrow> process \<Rightarrow> reloadFn_error option \<times> process" where
  "reloadFn lib ev opts p = (case reloadRead lib ev opts p of (Inl e, p') \<Rightarrow> (Some e, p') | (Inr r, p') \<Rightarrow> reloadApply lib ev r p')"

text \<open>After the shutdown signal; stopping the engine may fail, and then the log store is left open.\<close>

definition shutdown :: "bool \<Rightarrow> bool \<Rightarrow> process \<Rightarrow> bool \<times> process" where
  "shutdown engineFails closeFails p =
     (let p = on_svc (\<lambda>v. stopClientNames (stopAdvertise v)) p in
      if engineFails then (False, p)
      else (True, on_svc (\<lambda>v. v\<lparr>sv_running := [], sv_store := snd (closeStore closeFails (sv_store v))\<rparr>) p))"

section \<open>The version shown\<close>

record build_info =
  bi_version :: string
  bi_gitCommit :: string
  bi_date :: string

definition repoURL :: string where "repoURL = ''https://github.com/mallardduck/BrambleGate''"
definition shortSHALen :: nat where "shortSHALen = 7"

definition shortSHA :: "string \<Rightarrow> string" where
  "shortSHA sha = (if length sha \<le> shortSHALen then sha else take shortSHALen sha)"

definition shortCommit :: "build_info \<Rightarrow> string" where
  "shortCommit b = shortSHA (bi_gitCommit b)"

definition version_String :: "build_info \<Rightarrow> string" where
  "version_String b =
     (let v = (if hasPrefix (bi_version b) ''dev-'' then ''dev-'' @ shortSHA (drop 4 (bi_version b)) else bi_version b) in
      v @ '' ('' @ shortCommit b @ '', '' @ bi_date b @ '')'')"

definition commitURL :: "build_info \<Rightarrow> string" where
  "commitURL b = (if bi_gitCommit b = [] \<or> bi_gitCommit b = ''HEAD'' then repoURL else repoURL @ ''/commit/'' @ bi_gitCommit b)"

definition releaseURL :: "build_info \<Rightarrow> string" where
  "releaseURL b =
     (if bi_gitCommit b = [] \<or> bi_gitCommit b = ''HEAD'' then repoURL
      else if hasPrefix (bi_version b) ''dev-'' then commitURL b
      else repoURL @ ''/releases/tag/'' @ bi_version b)"

section \<open>What a start leaves\<close>

lemma env_ok_reload [simp]: "env_ok (ev\<lparr>ev_reloadFails := b\<rparr>) d = env_ok ev d"
  by (simp add: env_ok_def)

text \<open>Starting the engine writes what a reload writes.\<close>

lemma startEngine_reload:
  assumes "startEngine lib be r v = (e, w)"
  shows "\<exists>reg. w = (snd (svc_reload lib ((bt_env be)\<lparr>ev_reloadFails := e = Some EngineFailed\<rparr>) r v))\<lparr>sv_registry := reg\<rparr> \<and>
    (e = None \<longrightarrow> fst (svc_reload lib ((bt_env be)\<lparr>ev_reloadFails := False\<rparr>) r v) = None)"
proof -
  let ?ev = "bt_env be"
  obtain ez trz where z: "writeFileAtomic (ev_zone ?ev) (ev_tmp ?ev) (zoneDataPath (sv_dir v)) (sl_zoneJSON lib (rd_zoneData r)) (sv_fs v) = (ez, trz)"
    by fastforce
  obtain eh trh where h: "writeFileAtomic (ev_hosts ?ev) (ev_tmp ?ev) (hostsDataPath (sv_dir v)) (rd_hostsData r) (last trz) = (eh, trh)"
    by fastforce
  note defs = startEngine_def svc_reload_def svc_setLoaded_def Let_def
  show ?thesis
  proof (cases ez)
    case (Some x)
    then show ?thesis using assms z by (intro exI [of _ "sv_registry v"]) (auto simp: defs)
  next
    case zone: None
    show ?thesis
    proof (cases eh)
      case (Some x)
      then show ?thesis using assms z h zone by (intro exI [of _ "sv_registry v"]) (auto simp: defs)
    next
      case None
      show ?thesis
      proof (cases "bt_start be (rd_corefile r) (sv_registry v)")
        case fails: None
        then show ?thesis using assms z h zone None by (intro exI [of _ "sv_registry v"]) (auto simp: defs)
      next
        case (Some reg)
        then show ?thesis using assms z h zone None by (intro exI [of _ "sv_registry w"]) (auto simp: defs split: if_splits)
      qed
    qed
  qed
qed

lemma loads_registry [simp]: "loads lib (v\<lparr>sv_registry := g\<rparr>) = loads lib v"
  by (simp add: loads_def)

lemma serving_registry [simp]: "serving lib r (v\<lparr>sv_registry := g\<rparr>) = serving lib r v"
  by (simp add: serving_def)

lemma startEngine_outcome:
  assumes "startEngine lib be r v = (e, w)" "env_ok (bt_env be) (sv_dir v)"
  shows "loads lib w = loads lib v" "sv_dir w = sv_dir v" "e = None \<Longrightarrow> serving lib r w"
    "sv_mdns w = sv_mdns v" "sv_injected w = sv_injected v" "sv_listener w = sv_listener v" "sv_mdnsCfg w = sv_mdnsCfg v"
    "sv_clientNames w = sv_clientNames v" "sv_cnObserver w = sv_cnObserver v" "sv_advertiser w = sv_advertiser v"
    "sv_store w = sv_store v" "sv_vlans w = sv_vlans v"
  using startEngine_reload [OF assms(1)] assms(2)
  by (auto simp: reload_keeps reload_serving svc_reload_components)

lemma startEngine_keeps:
  "startEngine lib be r v = (e, w) \<Longrightarrow> env_ok (bt_env be) (sv_dir v) \<Longrightarrow> loads lib w = loads lib v \<and> sv_dir w = sv_dir v"
  using startEngine_outcome(1,2) by blast

lemma components_loads:
  "loads lib (startComponents lib' ev s rs hs v) = loads lib v" "sv_dir (startComponents lib' ev s rs hs v) = sv_dir v"
  "serving lib r (startComponents lib' ev s rs hs v) = serving lib r v"
  by (simp_all add: startComponents_def startMDNS_def startAdvertise_def startClientNames_def svc_setLoaded_def loads_def serving_def Let_def)

lemma ensure_frame:
  assumes "ensureSelfSignedCert se dir fs = (e, tr)" "q \<noteq> fst (certPaths dir)" "q \<noteq> snd (certPaths dir)"
  shows "last tr q = fs q"
  using assms by (auto simp: ensureSelfSignedCert_def certPaths_def writePEM_def split: if_splits option.splits)

lemma prepare_loads:
  assumes "prepareCertificate be s (sv_dir v) (sv_fs v) = (e, fs)"
  shows "loads lib (v\<lparr>sv_fs := fs\<rparr>) = loads lib v"
proof (rule loads_cong)
  fix q
  assume "q \<in> config_paths (sv_dir v)"
  then have "q \<noteq> fst (certPaths (sv_dir v))" "q \<noteq> snd (certPaths (sv_dir v))"
    by (auto simp: config_paths_def certPaths_def settingsPath_def recordsPath_def hostsPath_def)
  then show "sv_fs (v\<lparr>sv_fs := fs\<rparr>) q = sv_fs v q"
    using assms ensure_frame [of "bt_selfsigned be" "sv_dir v" "sv_fs v"]
    by (auto simp: prepareCertificate_def split: if_splits prod.splits)
qed simp

text \<open>Neither the rest of a start nor its failure touches the user's files.\<close>

lemma bootLoaded_loads:
  assumes "bootLoaded lib be s rs hs v = (e, w)" "env_ok (bt_env be) (sv_dir v)"
  shows "loads lib w = loads lib v \<and> sv_dir w = sv_dir v"
proof -
  let ?v = "v\<lparr>sv_vlans := newTable (vlancfg_build (st_vlans s))\<rparr>"
  obtain ce fs where c: "prepareCertificate be s (sv_dir ?v) (sv_fs ?v) = (ce, fs)" by (cases "prepareCertificate be s (sv_dir ?v) (sv_fs ?v)")
  note l = prepare_loads [OF c, of lib]
  have other: "loads lib (u\<lparr>sv_certOpts := x\<rparr>) = loads lib u" "loads lib (u\<lparr>sv_injected := y\<rparr>) = loads lib u" "loads lib (u\<lparr>sv_store := z\<rparr>) = loads lib u"
    for u x y z by (simp_all add: loads_def)
  show ?thesis using assms c l
    by (auto simp: bootLoaded_def Let_def other components_loads dest!: startEngine_keeps split: option.splits prod.splits sum.splits)
qed

text \<open>The state before anything has been started.\<close>

definition unstarted :: "svc \<Rightarrow> bool" where
  "unstarted v \<longleftrightarrow> (\<exists>fs dir reg. v = newService fs dir reg)"

text \<open>Everything that runs in the process is as the configuration on disk asks.\<close>

definition as_configured :: "svc_lib \<Rightarrow> env \<Rightarrow> settings \<Rightarrow> recordSet \<Rightarrow> hostSet \<Rightarrow> svc \<Rightarrow> bool" where
  "as_configured lib ev s rs hs w \<longleftrightarrow> sv_vlans w = newTable (vlancfg_build (st_vlans s)) \<and>
     discovery_runs s (mdnscfg_build s rs) w \<and> client_names_run lib ev s hs w \<and>
     sv_advertiser w = (if adv_enabled (mdns_advertise (st_mdns s)) \<and> \<not> ev_advertiserFails ev then Some s else None) \<and>
     store_follows s w"

lemma startComponents_configured:
  assumes "sv_mdns v = None" "sv_injected v = mdns_enabled (st_mdns s)" "sv_listener v = None" "sv_clientNames v = None" "\<not> sv_cnObserver v"
    "sv_advertiser v = None"
    and w: "w = startComponents lib ev s rs hs v"
  shows "discovery_runs s (mdnscfg_build s rs) w" "client_names_run lib ev s hs w" "wired w"
    "sv_advertiser w = (if adv_enabled (mdns_advertise (st_mdns s)) \<and> \<not> ev_advertiserFails ev then Some s else None)"
    "sv_vlans w = sv_vlans v" "sv_store w = sv_store v" "sv_dir w = sv_dir v"
  using assms by (auto simp: discovery_runs_def client_names_run_def wired_def startComponents_def startMDNS_def startAdvertise_def
      startClientNames_def svc_setLoaded_def mt_new_def ct_new_def Let_def)

lemma bootLoaded_started:
  assumes "bootLoaded lib be s rs hs v = (None, w)" "env_ok (bt_env be) (sv_dir v)"
    "sv_mdns v = None" "sv_listener v = None" "sv_clientNames v = None" "\<not> sv_cnObserver v" "sv_advertiser v = None"
  shows "\<exists>r. render s rs hs (bootOptions (bt_env be) s (sv_dir v)) = Inr r \<and> serving lib r w \<and>
    as_configured lib (bt_env be) s rs hs w \<and> wired w"
proof -
  let ?ev = "bt_env be"
  let ?opts = "bootOptions ?ev s (sv_dir v)"
  obtain r u w' where r: "render s rs hs ?opts = Inr r" "startEngine lib be r u = (None, w')" "w = startComponents lib ?ev s rs hs w'"
    and u: "sv_dir u = sv_dir v" "sv_mdns u = None" "sv_injected u = mdns_enabled (st_mdns s)" "sv_listener u = None" "sv_clientNames u = None" "\<not> sv_cnObserver u"
      "sv_advertiser u = None" "sv_vlans u = newTable (vlancfg_build (st_vlans s))"
      "reconcileStore (ev_finish ?ev) (ev_closeFails ?ev) (ev_open ?ev) (queryLogStoreConfig (st_queryLog s) (sv_dir v)) (sv_store v) = (None, sv_store u)"
    using assms(1,3-) by (auto simp: bootLoaded_def Let_def split: option.splits prod.splits sum.splits)
  note o = startEngine_outcome [OF r(2) assms(2) [folded u(1)]]
  note c = startComponents_configured [of w' s w lib ?ev rs hs, unfolded o, OF u(2-7) r(3)]
  have "store_follows s w" using reconcile_follows [OF u(9) [folded u(1)]] store_follows_cong [of w u s] c(6,7) by simp
  then have "as_configured lib ?ev s rs hs w" unfolding as_configured_def using c u(8) by simp
  moreover have "serving lib r w" using o(3) by (simp add: r(3) components_loads)
  ultimately show ?thesis using r(1) c(3) by blast
qed

lemma on_svc_simps [simp]: "pc_svc (on_svc f p) = f (pc_svc p)" "pc_svc (p\<lparr>pc_hostNames := h\<rparr>) = pc_svc p"
  by (simp_all add: on_svc_def)

text \<open>A start either seeds the settings or keeps what the files hold, and only with valid files succeeds.\<close>

lemma boot_cases:
  assumes "boot lib be p = (None, q)" "env_ok (bt_env be) (sv_dir (pc_svc p))" "unstarted (pc_svc p)"
  obtains s rs hs r where "loads lib (pc_svc q) = (Inr s, Inr rs, Inr hs)" "sv_dir (pc_svc q) = sv_dir (pc_svc p)"
    "render s rs hs (bootOptions (bt_env be) s (sv_dir (pc_svc p))) = Inr r" "serving lib r (pc_svc q)"
    "as_configured lib (bt_env be) s rs hs (pc_svc q)" "wired (pc_svc q)" "pc_hostNames q = setHostNames (flattenHostNames hs)"
proof -
  obtain fs where fs: "seedSettings lib (bt_env be) (sv_dir (pc_svc p)) (sv_fs (pc_svc p)) = (None, fs)"
    using assms(1) by (auto simp: boot_def split: prod.splits option.splits)
  let ?v = "(pc_svc p)\<lparr>sv_fs := fs\<rparr>"
  obtain s rs hs v where b: "loads lib ?v = (Inr s, Inr rs, Inr hs)" "bootLoaded lib be s rs hs ?v = (None, v)"
    "pc_svc q = v" "pc_hostNames q = setHostNames (flattenHostNames hs)"
    using assms(1) fs by (auto simp: boot_def loads_def Let_def split: sum.splits prod.splits)
  have u: "sv_mdns ?v = None" "sv_listener ?v = None" "sv_clientNames ?v = None" "\<not> sv_cnObserver ?v" "sv_advertiser ?v = None"
    using assms(3) by (auto simp: unstarted_def newService_def)
  have "env_ok (bt_env be) (sv_dir ?v)" using assms(2) by simp
  note start = bootLoaded_started [OF b(2) this u] and keeps = bootLoaded_loads [OF b(2) this]
  from start obtain r where "render s rs hs (bootOptions (bt_env be) s (sv_dir (pc_svc p))) = Inr r" "serving lib r v"
    "as_configured lib (bt_env be) s rs hs v" "wired v" by auto
  then show ?thesis using that [of s rs hs r] keeps b by simp
qed

text \<open>A start from existing settings keeps the files.\<close>

lemma boot_kept:
  assumes "boot lib be p = (None, q)" "env_ok (bt_env be) (sv_dir (pc_svc p))" "loadSettings (sl_yaml lib) (sv_dir (pc_svc p)) (sv_fs (pc_svc p)) = Inr s"
  shows "loads lib (pc_svc q) = loads lib (pc_svc p)"
proof -
  have ex: "settingsExist (sv_dir (pc_svc p)) (sv_fs (pc_svc p))"
    using assms(3) by (auto simp: loadSettings_def settingsExist_def readYAML_def split: option.splits)
  let ?v = "(pc_svc p)\<lparr>sv_fs := sv_fs (pc_svc p)\<rparr>"
  obtain s rs hs where "bootLoaded lib be s rs hs ?v = (None, pc_svc q)"
    using assms(1) ex by (auto simp: boot_def seedSettings_def Let_def split: sum.splits prod.splits)
  from bootLoaded_loads [OF this] show ?thesis using assms(2) by simp
qed

lemma render_validates: "render s rs hs opts = Inr r \<Longrightarrow> validate s rs hs = None"
  by (auto simp: render_def split: option.splits)

lemma boot_disk_ok:
  assumes "boot lib be p = (None, q)" "env_ok (bt_env be) (sv_dir (pc_svc p))" "unstarted (pc_svc p)"
  shows "disk_ok lib (pc_svc q)"
  using boot_cases [OF assms] render_validates unfolding disk_ok_def by metis

section \<open>The running process\<close>

text \<open>
  Requests and reloads for certificates, the latter in their two parts with anything in between: what
  is applied may have been rendered at any time before.
\<close>

inductive process_runs :: "svc_lib \<Rightarrow> process \<Rightarrow> process \<Rightarrow> bool" for lib p where
  start: "process_runs lib p p"
| request: "process_runs lib p q \<Longrightarrow> hc_lib c = lib \<Longrightarrow> env_ok (hc_env c) (sv_dir (pc_svc q)) \<Longrightarrow>
    process_runs lib p (q\<lparr>pc_app := snd (serve c rq (pc_app q))\<rparr>)"
| read: "process_runs lib p q \<Longrightarrow> process_runs lib p (snd (reloadRead lib ev opts q))"
| apply_reload: "process_runs lib p q \<Longrightarrow> env_ok ev (sv_dir (pc_svc q)) \<Longrightarrow> process_runs lib p (snd (reloadApply lib ev r q))"

lemma reloadRead_svc:
  "\<exists>t st. pc_svc (snd (reloadRead lib ev opts q)) = (pc_svc q)\<lparr>sv_vlans := t, sv_store := st\<rparr>"
proof -
  have same: "\<exists>t st. v = v\<lparr>sv_vlans := t, sv_store := st\<rparr>" for v :: svc
    by (intro exI [of _ "sv_vlans v"] exI [of _ "sv_store v"]) simp
  show ?thesis
    by (auto simp: reloadRead_def Let_def same split: sum.split prod.split option.split)
qed

lemma reloadRead_loads: "loads lib (pc_svc (snd (reloadRead lib' ev opts q))) = loads lib (pc_svc q)"
  "sv_dir (pc_svc (snd (reloadRead lib' ev opts q))) = sv_dir (pc_svc q)"
  using reloadRead_svc [of lib' ev opts q] by (auto simp: loads_def)

lemma reloadApply_svc: "pc_svc (snd (reloadApply lib ev r q)) = snd (svc_reload lib ev r (pc_svc q))"
  by (simp add: reloadApply_def split: prod.split)

lemma process_disk_ok:
  assumes "process_runs lib p q" "yaml_doc (sl_yaml lib)" "disk_ok lib (pc_svc p)"
  shows "disk_ok lib (pc_svc q) \<and> sv_dir (pc_svc q) = sv_dir (pc_svc p)"
  using assms(1)
proof (induction rule: process_runs.induct)
  case start
  then show ?case using assms(3) by simp
next
  case (request q c rq)
  have "disk_ok lib (snd (svc_apply lib (hc_env c) op (pc_svc q))) \<and> sv_dir (snd (svc_apply lib (hc_env c) op (pc_svc q))) = sv_dir (pc_svc q)" for op
    using svc_apply_disk_ok [OF assms(2) request.hyps(3)] request.IH by blast
  then show ?case using serve_one_edit [of c "pc_app q" rq] request.IH request.hyps(2) by (auto simp: one_edit_def)
next
  case (read q ev opts)
  then show ?case by (simp add: disk_ok_def reloadRead_loads)
next
  case (apply_reload q ev r)
  then show ?case by (simp add: disk_ok_def reloadApply_svc reload_keeps)
qed

section \<open>Properties\<close>

text \<open>
  C12. A process that has started serves the files it found: they hold a valid configuration, the engine
  runs what is rendered from it, the plugins read the data rendered with it, and the components run as
  the configuration asks: the VLAN table, discovery, client names, the advertisement of the server
  (unless it fails to start) and the store of the query log, each with its configuration and off where it
  is not enabled.
\<close>

theorem started_serves_files:
  assumes "boot lib be p = (None, q)" "env_ok (bt_env be) (sv_dir (pc_svc p))" "unstarted (pc_svc p)"
  shows "\<exists>s rs hs r. loads lib (pc_svc q) = (Inr s, Inr rs, Inr hs) \<and>
    render s rs hs (bootOptions (bt_env be) s (sv_dir (pc_svc p))) = Inr r \<and> sv_running (pc_svc q) = rd_corefile r \<and>
    sv_fs (pc_svc q) (zoneDataPath (sv_dir (pc_svc q))) = Some (sl_zoneJSON lib (rd_zoneData r)) \<and>
    sv_fs (pc_svc q) (hostsDataPath (sv_dir (pc_svc q))) = Some (rd_hostsData r) \<and>
    as_configured lib (bt_env be) s rs hs (pc_svc q) \<and> pc_hostNames q = setHostNames (flattenHostNames hs)"
  using boot_cases [OF assms] unfolding serving_def by metis

text \<open>
  C5. Once the process has started, and however requests and reloads for new certificates interleave and
  whatever of them fails, the files hold a valid configuration and every request is answered by
  something else than the error that they cannot be read. Nothing is assumed of the files found.
\<close>

theorem process_stays_available:
  assumes "yaml_doc (sl_yaml (hc_lib c))" "unstarted (pc_svc p0)" "env_ok (bt_env be) (sv_dir (pc_svc p0))"
    "boot (hc_lib c) be p0 = (None, p)" "process_runs (hc_lib c) p q" "env_ok (hc_env c) (sv_dir (pc_svc q))"
  shows "(\<exists>s rs hs. loads (hc_lib c) (pc_svc q) = (Inr s, Inr rs, Inr hs) \<and> validate s rs hs = None) \<and>
    fst (serve c rq (pc_app q)) \<noteq> PlainError n e"
proof -
  have "disk_ok (hc_lib c) (pc_svc q)"
    using process_disk_ok [OF assms(5,1) boot_disk_ok [OF assms(4,3,2)]] by blast
  with serve_available [OF assms(1,6) this, of rq] show ?thesis by (auto simp: disk_ok_def available_def)
qed

text \<open>The first start: an empty configuration directory, and no call that fails.\<close>

definition nothing_fails :: "boot_env \<Rightarrow> bool" where
  "nothing_fails be \<longleftrightarrow> ev_save (bt_env be) = wf_fine \<and> ev_zone (bt_env be) = wf_fine \<and> ev_hosts (bt_env be) = wf_fine"

definition engine_accepts :: "boot_env \<Rightarrow> plugin_registry \<Rightarrow> bool" where
  "engine_accepts be reg \<longleftrightarrow> (\<forall>cf. \<exists>reg'. bt_start be cf reg = Some reg' \<and> pr_validate (setLoaded ''hosts'' True [] reg') = [])"

lemma startEngine_fine:
  assumes "nothing_fails be" "engine_accepts be (sv_registry v)"
  shows "fst (startEngine lib be r v) = None"
proof -
  obtain reg' where "bt_start be (rd_corefile r) (sv_registry v) = Some reg'" "pr_validate (setLoaded ''hosts'' True [] reg') = []"
    using assms(2) by (auto simp: engine_accepts_def)
  then show ?thesis using assms(1)
    by (simp add: startEngine_def nothing_fails_def wf_fine_def writeFileAtomic_def svc_setLoaded_def Let_def)
qed

lemma bootLoaded_fine:
  assumes "prepareCertificate be s (sv_dir v) (sv_fs v) = (None, fs)"
    "reconcileStore (ev_finish (bt_env be)) (ev_closeFails (bt_env be)) (ev_open (bt_env be)) (queryLogStoreConfig (st_queryLog s) (sv_dir v)) (sv_store v) = (None, st)"
    "render s rs hs (bootOptions (bt_env be) s (sv_dir v)) = Inr r" "nothing_fails be" "engine_accepts be (sv_registry v)"
  shows "fst (bootLoaded lib be s rs hs v) = None"
proof -
  let ?u = "v\<lparr>sv_vlans := newTable (vlancfg_build (st_vlans s)), sv_fs := fs, sv_certOpts := bootOptions (bt_env be) s (sv_dir v),
    sv_injected := mdns_enabled (st_mdns s), sv_store := st\<rparr>"
  obtain e w where w: "startEngine lib be r ?u = (e, w)" by fastforce
  have "fst (startEngine lib be r ?u) = None" by (rule startEngine_fine [OF assms(4)]) (use assms(5) in simp)
  then have "e = None" by (simp add: w)
  with w show ?thesis using assms(1-3) by (simp add: bootLoaded_def Let_def)
qed

lemma seed_default:
  assumes "yaml_doc (sl_yaml lib)" "y_settings (sl_yaml lib) defaultSettings \<noteq> None" "ev_save ev = wf_fine"
    "ev_tmp ev \<notin> config_paths dir" "\<forall>q\<in>config_paths dir. fs q = None"
  obtains fs' where "seedSettings lib ev dir fs = (None, fs')" "loadSettings (sl_yaml lib) dir fs' = Inr defaultSettings"
    "store_loadRecords (sl_yaml lib) dir fs' = Inr []" "loadHosts (sl_yaml lib) dir fs' = Inr []"
proof -
  have missing: "fs (settingsPath dir) = None" "fs (recordsPath dir) = None" "fs (hostsPath dir) = None"
    using assms(5) by (simp_all add: config_paths_def)
  obtain e tr where sv: "saveSettings (sl_yaml lib) (ev_save ev) (ev_tmp ev) dir defaultSettings fs = (e, tr)" by fastforce
  have e: "e = None" using sv assms(2,3) by (auto simp: saveSettings_def writeYAML_def wf_fine_def atomicWrite_def Let_def split: option.splits)
  have "store_loadRecords (sl_yaml lib) dir fs = Inr []" "loadHosts (sl_yaml lib) dir fs = Inr []"
    using missing by (simp_all add: store_loadRecords_def loadHosts_def)
  then show ?thesis using that [of "last tr"] saved_settings_load [OF assms(1) _ sv [unfolded e]] assms(4) sv e missing(1)
    by (simp add: seedSettings_def settingsExist_def config_paths_def)
qed

lemma fresh_boot:
  assumes "yaml_doc (sl_yaml lib)" "y_settings (sl_yaml lib) defaultSettings \<noteq> None" "unstarted (pc_svc p)"
    "env_ok (bt_env be) (sv_dir (pc_svc p))" "\<forall>q\<in>config_paths (sv_dir (pc_svc p)). sv_fs (pc_svc p) q = None"
    "nothing_fails be" "engine_accepts be (sv_registry (pc_svc p))"
  shows "\<exists>q. boot lib be p = (None, q) \<and> loads lib (pc_svc q) = (Inr defaultSettings, Inr [], Inr [])"
proof -
  let ?dir = "sv_dir (pc_svc p)" and ?s = defaultSettings
  have "ev_save (bt_env be) = wf_fine" "ev_tmp (bt_env be) \<notin> config_paths ?dir" using assms(4,6) by (auto simp: nothing_fails_def env_ok_def)
  from seed_default [OF assms(1,2) this assms(5)] obtain fs
    where fs: "seedSettings lib (bt_env be) ?dir (sv_fs (pc_svc p)) = (None, fs)" "loadSettings (sl_yaml lib) ?dir fs = Inr ?s"
      "store_loadRecords (sl_yaml lib) ?dir fs = Inr []" "loadHosts (sl_yaml lib) ?dir fs = Inr []" by blast
  obtain r where r: "render ?s [] [] (bootOptions (bt_env be) ?s ?dir) = Inr r" using default_renders by blast
  have off: "\<not> acme_enabled (st_acme ?s)" "\<not> acme_selfSignedFallback (st_acme ?s)" "\<not> queryLog_enabled (st_queryLog ?s)"
    by (simp_all add: defaultSettings_def zero_acme_def)
  have store: "ss_current (sv_store (pc_svc p)) = None" using assms(3) by (auto simp: unstarted_def newService_def)
  have ok: "fst (bootLoaded lib be ?s [] [] ((pc_svc p)\<lparr>sv_fs := fs\<rparr>)) = None"
    by (rule bootLoaded_fine [where fs = fs and st = "sv_store (pc_svc p)" and r = r])
      (use off store r assms(6,7) in \<open>simp_all add: prepareCertificate_def queryLogStoreConfig_def reconcileStore_def\<close>)
  then obtain v where v: "bootLoaded lib be ?s [] [] ((pc_svc p)\<lparr>sv_fs := fs\<rparr>) = (None, v)" by (metis prod.collapse)
  then obtain q where q: "boot lib be p = (None, q)" "pc_svc q = v" using fs by (auto simp: boot_def Let_def)
  from bootLoaded_loads [OF v] assms(4) have "loads lib v = loads lib ((pc_svc p)\<lparr>sv_fs := fs\<rparr>)" by simp
  then show ?thesis using fs q by (simp add: loads_def)
qed

text \<open>
  C11. A fresh installation comes up: with an empty configuration directory, if no write fails and the
  engine accepts the Corefile, the start succeeds, the default settings are on disk, and the engine
  serves them.
\<close>

theorem fresh_install_starts:
  assumes "yaml_doc (sl_yaml lib)" "y_settings (sl_yaml lib) defaultSettings \<noteq> None" "unstarted (pc_svc p)"
    "env_ok (bt_env be) (sv_dir (pc_svc p))" "\<forall>q\<in>config_paths (sv_dir (pc_svc p)). sv_fs (pc_svc p) q = None"
    "nothing_fails be" "engine_accepts be (sv_registry (pc_svc p))"
  shows "\<exists>q r. boot lib be p = (None, q) \<and> loads lib (pc_svc q) = (Inr defaultSettings, Inr [], Inr []) \<and>
    render defaultSettings [] [] (bootOptions (bt_env be) defaultSettings (sv_dir (pc_svc p))) = Inr r \<and> serving lib r (pc_svc q)"
proof -
  obtain q where q: "boot lib be p = (None, q)" "loads lib (pc_svc q) = (Inr defaultSettings, Inr [], Inr [])"
    using fresh_boot [OF assms] by blast
  from q(1) assms(4,3) show ?thesis by (rule boot_cases) (use q in auto)
qed

text \<open>
  C13. A reload for a new certificate undoes an edit that comes between its two parts: the edit is
  reported as served and stays on disk, but when both are through the engine runs, and the
  plugins read, what was rendered before it.
\<close>

theorem certificate_reload_undoes_edit:
  assumes "yaml_doc (sl_yaml lib)" "disk_ok lib (pc_svc p)" "env_ok ev (sv_dir (pc_svc p))" "env_ok ev' (sv_dir (pc_svc p))"
    "reloadRead lib ev opts p = (Inr r, p1)" "svc_apply lib ev' op (pc_svc p1) = (None, v)"
    "reloadApply lib ev r (on_svc (\<lambda>_. v) p1) = (None, q)"
  shows "loads lib (pc_svc q) = loads lib v \<and>
    (\<exists>s rs hs. loads lib (pc_svc p) = (Inr s, Inr rs, Inr hs) \<and> render s rs hs opts = Inr r \<and> sv_running (pc_svc q) = rd_corefile r \<and>
      sv_fs (pc_svc q) (zoneDataPath (sv_dir (pc_svc q))) = Some (sl_zoneJSON lib (rd_zoneData r)))"
proof -
  obtain s rs hs where l: "loads lib (pc_svc p) = (Inr s, Inr rs, Inr hs)" using assms(2) by (auto simp: disk_ok_def)
  then have r: "render s rs hs opts = Inr r"
    using assms(5) by (auto simp: reloadRead_def loads_def Let_def split: prod.splits option.splits sum.splits)
  have p1: "loads lib (pc_svc p1) = loads lib (pc_svc p)" "sv_dir (pc_svc p1) = sv_dir (pc_svc p)"
    using reloadRead_loads(1) [of lib lib ev opts p] reloadRead_loads(2) [of lib ev opts p] assms(5) by simp_all
  then have "disk_ok lib (pc_svc p1)" using assms(2) by (simp add: disk_ok_def)
  from svc_apply_disk_ok [OF assms(1) assms(4) [folded p1(2)] this, of op] have "sv_dir v = sv_dir (pc_svc p)"
    using assms(6) p1(2) by simp
  then have ev: "env_ok ev (sv_dir v)" using assms(3) by simp
  have q: "pc_svc q = snd (svc_reload lib ev r v)" "fst (svc_reload lib ev r v) = None"
    using assms(7) by (auto simp: reloadApply_def split: prod.splits)
  from reload_serving [OF ev q(2)] have "serving lib r (pc_svc q)" by (simp add: q(1))
  then show ?thesis using reload_keeps(1) [OF ev, of lib r] q(1) l r by (auto simp: serving_def)
qed

text \<open>
  The addresses of the interfaces are those of the start: a reload for a certificate, unlike one
  by the service, never detects them again.
\<close>

lemma reload_keeps_addresses:
  "reloadFn lib (ev\<lparr>ev_selfIPs := f\<rparr>) opts p = reloadFn lib ev opts p"
proof -
  let ?ev = "ev\<lparr>ev_selfIPs := f\<rparr>"
  have fields: "ev_finish ?ev = ev_finish ev" "ev_closeFails ?ev = ev_closeFails ev" "ev_open ?ev = ev_open ev" "ev_zone ?ev = ev_zone ev"
    "ev_hosts ?ev = ev_hosts ev" "ev_corefile ?ev = ev_corefile ev" "ev_tmp ?ev = ev_tmp ev" "ev_reloadFails ?ev = ev_reloadFails ev"
    by simp_all
  show ?thesis unfolding reloadFn_def reloadRead_def reloadApply_def svc_reload_def fields ..
qed

text \<open>Stopping: everything is stopped if the engine stops; otherwise the store of the query log stays open.\<close>

lemma shutdown_stops:
  "fst (shutdown False closeFails p) \<and> sv_store (pc_svc (snd (shutdown False closeFails p))) = snd (closeStore closeFails (sv_store (pc_svc p))) \<and>
   sv_clientNames (pc_svc (snd (shutdown e closeFails p))) = None \<and> sv_advertiser (pc_svc (snd (shutdown e closeFails p))) = None"
  by (simp add: shutdown_def stopClientNames_def stopAdvertise_def svc_setLoaded_def Let_def split: option.split)

lemma shutdown_leaves_store:
  "shutdown True closeFails p = (False, q) \<Longrightarrow> sv_store (pc_svc q) = sv_store (pc_svc p)"
  by (auto simp: shutdown_def stopClientNames_def stopAdvertise_def svc_setLoaded_def Let_def split: option.splits)

text \<open>Where a reload does not stop the engine first, one that fails leaves the old configuration running; on Windows nothing runs.\<close>

lemma failed_reload_keeps_serving:
  "engine_reload False stopFails starts restarts cf e = (False, e') \<Longrightarrow> e' = e"
  by (auto simp: engine_reload_def split: if_splits)

lemma windows_reload_leaves_nothing:
  "\<not> starts cf \<Longrightarrow> engine_reload True False starts restarts cf e = (False, None)"
  by (simp add: engine_reload_def reloadStopStart_def)

section \<open>Witnesses\<close>

definition exBoot :: boot_env where
  "exBoot = \<lparr>bt_env = exEnv, bt_selfsigned = \<lparr>ss_mkdir = False, ss_new = None, ss_open = (\<lambda>_. False), ss_write = (\<lambda>_. False), ss_partial = []\<rparr>,
     bt_start = (\<lambda>_. Some)\<rparr>"

definition exProcess :: process where
  "exProcess = \<lparr>pc_app = exApp\<lparr>ap_svc := newService Map.empty ''/c'' new_registry\<rparr>, pc_hostNames = None\<rparr>"

lemma exProcess_ok: "unstarted (pc_svc exProcess)" "env_ok (bt_env exBoot) (sv_dir (pc_svc exProcess))"
  "\<forall>q\<in>config_paths (sv_dir (pc_svc exProcess)). sv_fs (pc_svc exProcess) q = None" "nothing_fails exBoot"
  "engine_accepts exBoot (sv_registry (pc_svc exProcess))" "y_settings (sl_yaml Gui_Service.exLib) defaultSettings \<noteq> None"
proof -
  show "env_ok (bt_env exBoot) (sv_dir (pc_svc exProcess))" using exEnv_ok by (simp add: exBoot_def exProcess_def newService_def exSvc_def)
qed (auto simp: unstarted_def exProcess_def newService_def nothing_fails_def engine_accepts_def exBoot_def exEnv_def
      pr_validate_def setLoaded_def new_registry_def exLibOf_def)

theorem fresh_install_starts_witness:
  "\<exists>q r. boot Gui_Service.exLib exBoot exProcess = (None, q) \<and> loads Gui_Service.exLib (pc_svc q) = (Inr defaultSettings, Inr [], Inr []) \<and>
     serving Gui_Service.exLib r (pc_svc q)"
  using fresh_install_starts [OF exLib_doc exProcess_ok(6,1,2,3,4,5)] by blast

lemma exBoot_boots: "\<exists>q. boot Gui_Service.exLib exBoot exProcess = (None, q)"
  using fresh_boot [OF exLib_doc exProcess_ok(6,1,2,3,4,5)] by blast

text \<open>A start from a settings file that turns everything on.\<close>

definition exProcessOn :: process where
  "exProcessOn = \<lparr>pc_app = exApp\<lparr>ap_svc := newService [settingsPath ''/c'' \<mapsto> ''D''] ''/c'' new_registry\<rparr>, pc_hostNames = None\<rparr>"

lemma exProcessOn_boots: "\<exists>q. boot (exLibOf exAllOn []) exBoot exProcessOn = (None, q)"
proof -
  let ?lib = "exLibOf exAllOn []" and ?v = "pc_svc exProcessOn"
  have l: "loadSettings (sl_yaml ?lib) (sv_dir ?v) (sv_fs ?v) = Inr exAllOn" "store_loadRecords (sl_yaml ?lib) (sv_dir ?v) (sv_fs ?v) = Inr []"
    "loadHosts (sl_yaml ?lib) (sv_dir ?v) (sv_fs ?v) = Inr []" "settingsExist (sv_dir ?v) (sv_fs ?v)"
    by (simp_all add: loadSettings_def store_loadRecords_def loadHosts_def readYAML_def settingsExist_def exLibOf_def exProcessOn_def newService_def)
  obtain r where r: "render exAllOn [] [] (bootOptions (bt_env exBoot) exAllOn (sv_dir ?v)) = Inr r" using exAllOn_renders by blast
  have fine: "nothing_fails exBoot" "engine_accepts exBoot (sv_registry ?v)"
    using exProcess_ok(4,5) by (simp_all add: exProcess_def exProcessOn_def newService_def)
  have off: "\<not> acme_enabled (st_acme exAllOn)" "\<not> acme_selfSignedFallback (st_acme exAllOn)"
    by (simp_all add: exAllOn_def defaultSettings_def zero_acme_def)
  let ?cfg = "queryLogStoreConfig (st_queryLog exAllOn) (sv_dir ?v)"
  obtain st where st: "reconcileStore (ev_finish exEnv) (ev_closeFails exEnv) (ev_open exEnv) ?cfg (sv_store ?v) = (None, st)"
    by (simp add: exProcessOn_def newService_def exEnv_def reconcileStore_def openStore_def queryLogStoreConfig_def exAllOn_simps
        queryLogDBPath_def)
  have "fst (bootLoaded ?lib exBoot exAllOn [] [] ?v) = None"
    by (rule bootLoaded_fine [where fs = "sv_fs ?v" and st = st, OF _ _ r fine]) (use off st in \<open>simp_all add: prepareCertificate_def exBoot_def\<close>)
  moreover have "on_svc (\<lambda>v. v\<lparr>sv_fs := sv_fs v\<rparr>) exProcessOn = exProcessOn" by (simp add: on_svc_def)
  ultimately show ?thesis using l
    by (simp add: boot_def seedSettings_def Let_def case_prod_unfold prod_eq_iff)
qed

theorem started_serves_files_witness:
  "\<exists>q r st. boot (exLibOf exAllOn []) exBoot exProcessOn = (None, q) \<and> render exAllOn [] [] (bootOptions exEnv exAllOn ''/c'') = Inr r \<and>
     sv_running (pc_svc q) = rd_corefile r \<and> sv_listener (pc_svc q) = Some ([''_http._tcp''], []) \<and> sv_injected (pc_svc q) \<and>
     sv_advertiser (pc_svc q) = Some exAllOn \<and> sv_cnObserver (pc_svc q) \<and>
     currentStore (sv_store (pc_svc q)) = Some st \<and> st_retentionDays st = 30 \<and> st_maxRows st = 200000"
proof -
  let ?lib = "exLibOf exAllOn []"
  obtain q where q: "boot ?lib exBoot exProcessOn = (None, q)" using exProcessOn_boots by blast
  have un: "unstarted (pc_svc exProcessOn)" by (auto simp: unstarted_def exProcessOn_def)
  have d: "sv_dir (pc_svc exProcessOn) = ''/c''" "bt_env exBoot = exEnv" by (simp_all add: exProcessOn_def newService_def exBoot_def)
  have env: "env_ok (bt_env exBoot) (sv_dir (pc_svc exProcessOn))" using exProcess_ok(2) d by (simp add: exProcess_def newService_def)
  have loaded: "loads ?lib (pc_svc exProcessOn) = (Inr exAllOn, Inr [], Inr [])"
    by (simp add: loads_def loadSettings_def store_loadRecords_def loadHosts_def readYAML_def exLibOf_def exProcessOn_def newService_def)
  from started_serves_files [OF q env un] obtain s rs hs r where
    f: "loads ?lib (pc_svc q) = (Inr s, Inr rs, Inr hs)" "render s rs hs (bootOptions exEnv s ''/c'') = Inr r"
      "sv_running (pc_svc q) = rd_corefile r" "as_configured ?lib exEnv s rs hs (pc_svc q)"
    unfolding d by (elim exE conjE) (rule that; assumption)
  have "loads ?lib (pc_svc q) = loads ?lib (pc_svc exProcessOn)"
    using boot_kept [OF q env] loaded by (simp add: loads_def)
  then have "s = exAllOn" "rs = []" "hs = []" using f(1) loaded by simp_all
  then show ?thesis using q f(2-)
    by (auto simp: as_configured_def discovery_runs_def client_names_run_def store_follows_def exAllOn_simps exEnv_def split: option.splits)
qed

theorem process_stays_available_witness:
  "\<exists>p. boot Gui_Service.exLib exBoot exProcess = (None, p) \<and>
     fst (serve exPlain SettingsPage (pc_app (snd (reloadRead Gui_Service.exLib exEnv exOptions p)))) \<noteq> PlainError 500 SvcReload"
proof -
  obtain p where p: "boot (hc_lib exPlain) exBoot exProcess = (None, p)" using exBoot_boots by auto
  let ?q = "snd (reloadRead (hc_lib exPlain) exEnv exOptions p)"
  have "sv_dir (pc_svc ?q) = sv_dir (pc_svc exProcess)" using boot_cases [OF p exProcess_ok(2,1)] by (metis reloadRead_loads(2))
  then have "env_ok (hc_env exPlain) (sv_dir (pc_svc ?q))" using exProcess_ok(2) by (simp add: exBoot_def)
  from process_stays_available [OF exPlain_ok(1) exProcess_ok(1,2) p process_runs.read [OF process_runs.start] this, of SettingsPage 500 SvcReload]
  show ?thesis using p unfolding exCtx_simps by blast
qed

text \<open>A record is added between the two parts of a reload; the zone data tells whether there are records.\<close>

definition exRaceLib :: svc_lib where
  "exRaceLib = (exLibOf exHome [exNas])\<lparr>sl_zoneJSON := (\<lambda>z. if zd_records z = [] then ''none'' else ''some'')\<rparr>"

definition exRace :: process where
  "exRace = \<lparr>pc_app = exApp, pc_hostNames = None\<rparr>"

lemma exRace_loads: "loads exRaceLib (pc_svc exRace) = (Inr exHome, Inr [], Inr [])"
  by (simp add: loads_def loadSettings_def store_loadRecords_def loadHosts_def readYAML_def exRaceLib_def exLibOf_def exRace_def exApp_def exSvc_def)

lemma exHome_plain: "validate exHome [] [] = None"
  by (simp add: validate_def exHome_settings exHome_vlans validateRecords_def)

lemma exHome_renders:
  "\<exists>r. render exHome [] [] opts = Inr r \<and> zd_records (rd_zoneData r) = []" "\<exists>r. render exHome [exNas] [] opts = Inr r"
proof -
  have "normalizedACMEDomain exHome = []" by code_simp
  then have "acmeSelfRecords exHome [] ips = []" for ips by (simp add: acmeSelfRecords_def)
  then show "\<exists>r. render exHome [] [] opts = Inr r \<and> zd_records (rd_zoneData r) = []"
    by (simp add: render_def exHome_plain exHome_settings staticRecords_def)
  show "\<exists>r. render exHome [exNas] [] opts = Inr r"
    by (simp add: render_def exHome_valid exHome_settings)
qed

theorem certificate_reload_undoes_edit_witness:
  "\<exists>r p1 v q. reloadRead exRaceLib exEnv exOptions exRace = (Inr r, p1) \<and> svc_addRecord exRaceLib exEnv exNas (pc_svc p1) = (None, v) \<and>
     reloadApply exRaceLib exEnv r (on_svc (\<lambda>_. v) p1) = (None, q) \<and> loads exRaceLib (pc_svc q) = (Inr exHome, Inr [exNas], Inr []) \<and>
     sv_fs (pc_svc q) (zoneDataPath (sv_dir (pc_svc q))) = Some ''none''"
proof -
  obtain r where r: "render exHome [] [] exOptions = Inr r" "zd_records (rd_zoneData r) = []" using exHome_renders(1) by blast
  have doc: "yaml_doc (sl_yaml exRaceLib)" by (simp add: exRaceLib_def yaml_doc_def exLibOf_def)
  have disk: "disk_ok exRaceLib (pc_svc exRace)" using exRace_loads exHome_plain by (auto simp: disk_ok_def)
  have env: "env_ok exEnv (sv_dir (pc_svc exRace))" using exEnv_ok by (simp add: exRace_def)
  have off: "\<not> queryLog_enabled (st_queryLog exHome)" by (simp add: exHome_def defaultSettings_def)
  have "ss_current (sv_store (pc_svc exRace)) = None" by (simp add: exRace_def exSvc_def)
  then obtain p1 where p1: "reloadRead exRaceLib exEnv exOptions exRace = (Inr r, p1)"
    using exRace_loads r(1) off by (simp add: reloadRead_def loads_def queryLogStoreConfig_def reconcileStore_def Let_def)
  have l1: "loads exRaceLib (pc_svc p1) = (Inr exHome, Inr [], Inr [])" "sv_dir (pc_svc p1) = sv_dir (pc_svc exRace)"
    using reloadRead_loads(1) [of exRaceLib exRaceLib exEnv exOptions exRace] reloadRead_loads(2) [of exRaceLib exEnv exOptions exRace] p1 exRace_loads by simp_all
  obtain rd where "render exHome [exNas] [] ((sv_certOpts (pc_svc p1))\<lparr>opt_acmeSelfIPs := ev_selfIPs exEnv (st_vlans exHome)\<rparr>) = Inr rd"
    using exHome_renders(2) by blast
  then have "svc_render exEnv exHome [exNas] [] (pc_svc p1) = (Inr rd, (pc_svc p1)\<lparr>sv_vlans := newTable (vlancfg_build (st_vlans exHome))\<rparr>)"
    by (simp add: svc_render_def Let_def)
  moreover have "fst (saveRecords (sl_yaml exRaceLib) (ev_save exEnv) (ev_tmp exEnv) d [exNas] f) = None" for d f
    by (simp add: saveRecords_def writeYAML_def exRaceLib_def exLibOf_def exEnv_def wf_fine_def atomicWrite_def Let_def)
  ultimately have "fst (svc_addRecord exRaceLib exEnv exNas (pc_svc p1)) = None" using l1(1)
    by (simp add: loads_def svc_addRecord_def applyRecords_def with_load_def indexOf_def Let_def exReload case_prod_unfold split: option.split)
  then obtain v where v: "svc_addRecord exRaceLib exEnv exNas (pc_svc p1) = (None, v)" by (metis prod.collapse)
  have "fst (reloadApply exRaceLib exEnv r (on_svc (\<lambda>_. v) p1)) = None" by (simp add: reloadApply_def exReload case_prod_unfold)
  then obtain q where q: "reloadApply exRaceLib exEnv r (on_svc (\<lambda>_. v) p1) = (None, q)" by (metis prod.collapse)
  have "loads exRaceLib v = (Inr exHome, Inr [exNas], Inr [])"
    using acknowledged_loads(1) [OF doc env [folded l1(2)] l1(1) v] by simp
  with certificate_reload_undoes_edit [OF doc disk env env p1 _ q, of "AddRecord exNas"] v p1 q r(2) show ?thesis
    by (auto simp: exRaceLib_def)
qed

end
