(* ===== verification/Plugin_Setup.thy ===== *)
theory Plugin_Setup
  imports Go_Float Config_Store Net_Detect Plugin_Chain Vlan_Cache
begin

text \<open>
  How the plugins read the Corefile that configgen writes: the functions \<^verbatim>\<open>setup\<close> and \<^verbatim>\<open>parse\<close>
  of \<^verbatim>\<open>plugins/vlancache/setup.go\<close>, \<^verbatim>\<open>plugins/querylog/setup.go\<close>,
  \<^verbatim>\<open>plugins/localrecords/setup.go\<close> and \<^verbatim>\<open>plugins/mdnsbridge/setup.go\<close>, with
  \<^verbatim>\<open>time.ParseDuration\<close>.

  The reader of the Corefile's tokens (\<^verbatim>\<open>caddy.Controller\<close>) is third-party code: an argument, the
  record \<open>dispenser\<close> of the calls the plugins make. \<open>stanza_doc\<close> states what its documentation
  promises when it stands before a stanza. The last sections show that what configgen writes is
  read back as the settings it was written from.
\<close>

section \<open>Durations\<close>

text \<open>\<^verbatim>\<open>leadingInt\<close>: \<open>None\<close> for a number above \<open>2 ^ 63\<close>.\<close>

fun leadingInt :: "nat \<Rightarrow> string \<Rightarrow> (nat \<times> string) option" where
  "leadingInt x [] = Some (x, [])"
| "leadingInt x (c # s) =
     (if \<not> is_digit c then Some (x, c # s)
      else if x > 2 ^ 63 div 10 then None
      else let y = x * 10 + digit_val c in if y > 2 ^ 63 then None else leadingInt y s)"

text \<open>\<^verbatim>\<open>leadingFraction\<close>: digits that no longer fit are skipped; the scale is a \<^verbatim>\<open>float64\<close>.\<close>

fun leadingFraction :: "nat \<Rightarrow> rat \<Rightarrow> bool \<Rightarrow> string \<Rightarrow> nat \<times> rat \<times> string" where
  "leadingFraction x scale overflow [] = (x, scale, [])"
| "leadingFraction x scale overflow (c # s) =
     (if \<not> is_digit c then (x, scale, c # s)
      else if overflow then leadingFraction x scale True s
      else if x > (2 ^ 63 - 1) div 10 then leadingFraction x scale True s
      else let y = x * 10 + digit_val c in
        if y > 2 ^ 63 then leadingFraction x scale True s
        else leadingFraction y (f64 (scale * 10)) False s)"

definition unitOf :: "string \<Rightarrow> nat option" where
  "unitOf u =
     (if u = ''ns'' then Some 1
      else if u = ''us'' \<or> u = [CHR 0xC2, CHR 0xB5, CHR ''s''] \<or> u = [CHR 0xCE, CHR 0xBC, CHR ''s''] then Some 1000
      else if u = ''ms'' then Some 1000000
      else if u = ''s'' then Some 1000000000
      else if u = ''m'' then Some 60000000000
      else if u = ''h'' then Some 3600000000000
      else None)"

definition unitChar :: "char \<Rightarrow> bool" where
  "unitChar c \<longleftrightarrow> c \<noteq> CHR ''.'' \<and> \<not> is_digit c"

text \<open>One number with its unit, at the head of the text; the value and what is left.\<close>

definition durationPart :: "string \<Rightarrow> (nat \<times> string) option" where
  "durationPart s =
     (if \<not> (hd s = CHR ''.'' \<or> is_digit (hd s)) then None
      else case leadingInt 0 s of None \<Rightarrow> None
      | Some (v, s1) \<Rightarrow>
        (let pre = (length s1 \<noteq> length s);
             (f, scale, s2, post) = (if s1 \<noteq> [] \<and> hd s1 = CHR ''.'' then
                 (case leadingFraction 0 1 False (tl s1) of (f, scale, s2) \<Rightarrow> (f, scale, s2, length s2 \<noteq> length (tl s1)))
               else (0, 1, s1, False))
         in if \<not> pre \<and> \<not> post then None
            else let u = takeWhile unitChar s2; rest = dropWhile unitChar s2 in
              if u = [] then None
              else case unitOf u of None \<Rightarrow> None
              | Some unit \<Rightarrow>
                if v > 2 ^ 63 div unit then None
                else let v1 = v * unit;
                         v2 = (if f > 0 then v1 + nat (trunc (f64 (f64 (of_nat f) * f64 (of_nat unit / scale)))) else v1)
                     in if f > 0 \<and> v2 > 2 ^ 63 then None else Some (v2, rest)))"

text \<open>
  The loop over the parts, with its sum in a \<^verbatim>\<open>uint64\<close>; every part is at least a digit or a unit long, so
  the length of the text is enough fuel.
\<close>

fun durationParts :: "nat \<Rightarrow> nat \<Rightarrow> string \<Rightarrow> nat option" where
  "durationParts fuel d [] = Some d"
| "durationParts 0 d (c # s) = None"
| "durationParts (Suc fuel) d (c # s) = (case durationPart (c # s) of
     None \<Rightarrow> None
   | Some (v, rest) \<Rightarrow> let d' = (d + v) mod 2 ^ 64 in if d' > 2 ^ 63 then None else durationParts fuel d' rest)"

definition parseDuration :: "string \<Rightarrow> duration option" where
  "parseDuration s0 =
     (let neg = (s0 \<noteq> [] \<and> hd s0 = CHR ''-'');
          s = (if s0 \<noteq> [] \<and> (hd s0 = CHR ''-'' \<or> hd s0 = CHR ''+'') then tl s0 else s0)
      in if s = ''0'' then Some 0
         else if s = [] then None
         else case durationParts (length s) 0 s of None \<Rightarrow> None
           | Some d \<Rightarrow> if neg then Some (- int d) else if d > 2 ^ 63 - 1 then None else Some (int d))"

section \<open>Reading a stanza\<close>

text \<open>
  The calls of \<^verbatim>\<open>caddy.Controller\<close>: \<open>Next\<close> moves to the next token, \<open>NextArg\<close> does if it is on the same
  line, \<open>RemainingArgs\<close> takes the rest of the line, \<open>NextBlock\<close> opens the block that follows or moves to
  the next token in it, \<open>Val\<close> is the token reached.
\<close>

record 'd dispenser =
  dp_next :: "'d \<Rightarrow> bool \<times> 'd"
  dp_nextArg :: "'d \<Rightarrow> bool \<times> 'd"
  dp_remaining :: "'d \<Rightarrow> string list \<times> 'd"
  dp_nextBlock :: "'d \<Rightarrow> bool \<times> 'd"
  dp_val :: "'d \<Rightarrow> string"

datatype setup_error = ArgErr | MultipleStanzas | UnknownProperty string | InvalidCapacity string
  | BadDuration string | ServfailRange | StaleRange | MissingZonedata | ReadZone string
  | ParseZone string | ZoneDataError lr_error | NoTable

text \<open>The loops \<^verbatim>\<open>for c.NextBlock()\<close> and \<^verbatim>\<open>for c.Next()\<close>; \<open>None\<close> is a loop that never ends.\<close>

partial_function (option) blockLoop ::
    "'d dispenser \<Rightarrow> ('d \<Rightarrow> 'c \<Rightarrow> setup_error + 'c \<times> 'd) \<Rightarrow> 'd \<Rightarrow> 'c \<Rightarrow> (setup_error + 'c \<times> 'd) option" where
  "blockLoop dp prop d c = (case dp_nextBlock dp d of (found, d1) \<Rightarrow>
     if \<not> found then Some (Inr (c, d1))
     else case prop d1 c of Inl e \<Rightarrow> Some (Inl e) | Inr (c', d2) \<Rightarrow> blockLoop dp prop d2 c')"

partial_function (option) stanzaLoop ::
    "'d dispenser \<Rightarrow> ('d \<Rightarrow> 'c \<Rightarrow> (setup_error + 'c \<times> 'd) option) \<Rightarrow> 'd \<Rightarrow> 'c \<Rightarrow> (setup_error + 'c) option" where
  "stanzaLoop dp stanza d c = (case dp_next dp d of (found, d1) \<Rightarrow>
     if \<not> found then Some (Inr c)
     else Option.bind (stanza d1 c) (\<lambda>r. case r of Inl e \<Rightarrow> Some (Inl e) | Inr (c', d2) \<Rightarrow> stanzaLoop dp stanza d2 c'))"

text \<open>\<^verbatim>\<open>if !c.NextArg()\<close> followed by the use of \<^verbatim>\<open>c.Val()\<close>.\<close>

definition withArg :: "'d dispenser \<Rightarrow> 'd \<Rightarrow> (string \<Rightarrow> setup_error + 'c) \<Rightarrow> setup_error + 'c \<times> 'd" where
  "withArg dp d f = (case dp_nextArg dp d of (found, d1) \<Rightarrow>
     if \<not> found then Inl ArgErr
     else case f (dp_val dp d1) of Inl e \<Rightarrow> Inl e | Inr c \<Rightarrow> Inr (c, d1))"

section \<open>The process around the plugins\<close>

datatype zone_file = Unreadable | Malformed | Zone wireZone

text \<open>What the plugins read at setup, and what they change.\<close>

record setup_env =
  se_vlans :: vm_state
  se_zoneFile :: "string \<Rightarrow> zone_file"
  se_canon :: "string \<Rightarrow> string"
  se_errText :: "setup_error \<Rightarrow> string"
  se_minimalTTL :: duration
  se_table :: "mtable option"

record plugin_world =
  pw_plugins :: plugin_registry
  pw_caches :: registry
  pw_ring :: ring_state
  pw_ringMarked :: bool

definition pw_failed :: "setup_env \<Rightarrow> string \<Rightarrow> setup_error \<Rightarrow> plugin_world \<Rightarrow> plugin_world" where
  "pw_failed env name e w =
     w\<lparr>pw_plugins := setLoaded name False (''failed to start: '' @ se_errText env e) (pw_plugins w)\<rparr>"

definition pw_loaded :: "string \<Rightarrow> plugin_world \<Rightarrow> plugin_world" where
  "pw_loaded name w = w\<lparr>pw_plugins := setLoaded name True [] (pw_plugins w)\<rparr>"

section \<open>The cache\<close>

definition defaultCap :: int where "defaultCap = 10000"

definition maxFailTTL :: duration where "maxFailTTL = 300000000000"

text \<open>The configuration while the stanza is read: whether one was seen, the capacity, the handler.\<close>

definition vc_property :: "'d dispenser \<Rightarrow> 'd \<Rightarrow> bool \<times> int \<times> vlanCache \<Rightarrow> setup_error + (bool \<times> int \<times> vlanCache) \<times> 'd" where
  "vc_property dp d c = (case c of (seen, cap, vc) \<Rightarrow>
     let p = toLower (dp_val dp d) in
     if p = ''capacity'' then withArg dp d (\<lambda>a. case atoi a of
         None \<Rightarrow> Inl (InvalidCapacity a)
       | Some n \<Rightarrow> if n \<le> 0 then Inl (InvalidCapacity a) else Inr (seen, n, vc))
     else if p = ''servfail'' then withArg dp d (\<lambda>a. case parseDuration a of
         None \<Rightarrow> Inl (BadDuration a)
       | Some t \<Rightarrow> if t < 0 \<or> t > maxFailTTL then Inl ServfailRange else Inr (seen, cap, vc\<lparr>vc_failTTL := t\<rparr>))
     else if p = ''prefetch'' then (case dp_nextArg dp d of (found, d1) \<Rightarrow>
       if found then Inl ArgErr else Inr ((seen, cap, vc\<lparr>vc_prefetch := True\<rparr>), d1))
     else if p = ''serve_stale'' then withArg dp d (\<lambda>a. case parseDuration a of
         None \<Rightarrow> Inl (BadDuration a)
       | Some t \<Rightarrow> if t \<le> 0 then Inl StaleRange else Inr (seen, cap, vc\<lparr>vc_staleTTL := t\<rparr>))
     else Inl (UnknownProperty (dp_val dp d)))"

definition vc_stanza ::
    "'d dispenser \<Rightarrow> 'd \<Rightarrow> bool \<times> int \<times> vlanCache \<Rightarrow> (setup_error + (bool \<times> int \<times> vlanCache) \<times> 'd) option" where
  "vc_stanza dp d c = (case c of (seen, cap, vc) \<Rightarrow>
     if seen then Some (Inl MultipleStanzas) else blockLoop dp (vc_property dp) d (True, cap, vc))"

text \<open>
  \<^verbatim>\<open>parse\<close>: the handler, and the capacity its store is made with, beyond which the cache package evicts
  entries of its choice.
\<close>

definition vc_parse :: "'d dispenser \<Rightarrow> setup_env \<Rightarrow> 'd \<Rightarrow> (setup_error + int \<times> vlanCache) option" where
  "vc_parse dp env d =
     (let vc = \<lparr>vc_vlans = current (se_vlans env), vc_store = newStore, vc_failTTL = se_minimalTTL env,
           vc_prefetch = False, vc_staleTTL = 0\<rparr>
      in map_option (map_sum id snd) (stanzaLoop dp (vc_stanza dp) d (False, defaultCap, vc)))"

text \<open>\<open>i\<close> is the identity of the new handler.\<close>

definition vc_setup ::
    "'d dispenser \<Rightarrow> setup_env \<Rightarrow> nat \<Rightarrow> 'd \<Rightarrow> plugin_world \<Rightarrow> ((setup_error + vlanCache) \<times> plugin_world) option" where
  "vc_setup dp env i d w = map_option (\<lambda>r. case r of
       Inl e \<Rightarrow> (Inl e, pw_failed env ''vlancache'' e w)
     | Inr (cap, vc) \<Rightarrow> (Inr vc, pw_loaded ''vlancache''
         (w\<lparr>pw_caches := vc_register i ((pw_caches w)\<lparr>rg_cache := (rg_cache (pw_caches w))(i := vc)\<rparr>)\<rparr>)))
     (vc_parse dp env d)"

section \<open>The query log\<close>

definition ql_property :: "'d dispenser \<Rightarrow> 'd \<Rightarrow> int \<Rightarrow> setup_error + int \<times> 'd" where
  "ql_property dp d cap =
     (if toLower (dp_val dp d) = ''capacity'' then withArg dp d (\<lambda>a. case atoi a of
         None \<Rightarrow> Inl (InvalidCapacity a)
       | Some n \<Rightarrow> if n \<le> 0 then Inl (InvalidCapacity a) else Inr n)
      else Inl (UnknownProperty (dp_val dp d)))"

definition ql_stanza :: "'d dispenser \<Rightarrow> 'd \<Rightarrow> int \<Rightarrow> (setup_error + int \<times> 'd) option" where
  "ql_stanza dp d cap = (case dp_remaining dp d of (args, d1) \<Rightarrow>
     if length args \<noteq> 0 then Some (Inl ArgErr) else blockLoop dp (ql_property dp) d1 cap)"

text \<open>The handler with the ring it writes to; its store is the one of the process in \<open>Log_Reads\<close>.\<close>

definition ql_setup ::
    "'d dispenser \<Rightarrow> setup_env \<Rightarrow> 'd \<Rightarrow> plugin_world \<Rightarrow> ((setup_error + queryLogPlugin \<times> ring option) \<times> plugin_world) option" where
  "ql_setup dp env d w = map_option (\<lambda>r. case r of
       Inl e \<Rightarrow> (Inl e, pw_failed env ''querylog'' e w)
     | Inr cap \<Rightarrow>
         (let (marked, rs) = setupRing (nat cap) (pw_ringMarked w) (pw_ring w);
              q = \<lparr>ql_vlans = current (se_vlans env), ql_threshold = 0\<rparr>
          in (Inr (q, currentRing rs), pw_loaded ''querylog'' (w\<lparr>pw_ring := rs, pw_ringMarked := marked\<rparr>))))
     (stanzaLoop dp (ql_stanza dp) d (int defaultCapacity))"

section \<open>The local records\<close>

text \<open>While the stanza is read: whether one was seen, the path, the handler.\<close>

definition lr_property ::
    "'d dispenser \<Rightarrow> setup_env \<Rightarrow> 'd \<Rightarrow> string \<times> localRecords \<Rightarrow> setup_error + (string \<times> localRecords) \<times> 'd" where
  "lr_property dp env d c = (case c of (path, lr) \<Rightarrow>
     let p = toLower (dp_val dp d) in
     if p = ''zonedata'' then withArg dp d (\<lambda>a. Inr (a, lr))
     else if p = ''fallthrough'' then (case dp_remaining dp d of (args, d1) \<Rightarrow>
       if length args = 0 then Inl ArgErr
       else Inr ((path, lr\<lparr>lr_fallthroughZones := lr_fallthroughZones lr @ map (se_canon env) args\<rparr>), d1))
     else Inl (UnknownProperty (dp_val dp d)))"

definition lr_loadFile :: "setup_env \<Rightarrow> string \<Rightarrow> localRecords \<Rightarrow> setup_error + localRecords" where
  "lr_loadFile env path lr = (case se_zoneFile env path of
     Unreadable \<Rightarrow> Inl (ReadZone path)
   | Malformed \<Rightarrow> Inl (ParseZone path)
   | Zone z \<Rightarrow> (case loadZoneData (se_canon env) z lr of Inl e \<Rightarrow> Inl (ZoneDataError e) | Inr lr' \<Rightarrow> Inr lr'))"

definition lr_stanza ::
    "'d dispenser \<Rightarrow> setup_env \<Rightarrow> 'd \<Rightarrow> bool \<times> localRecords \<Rightarrow> (setup_error + (bool \<times> localRecords) \<times> 'd) option" where
  "lr_stanza dp env d c = (case c of (seen, lr) \<Rightarrow>
     if seen then Some (Inl MultipleStanzas)
     else case dp_remaining dp d of (args, d1) \<Rightarrow>
       (let zones = (if length args = 0 then [''home.arpa''] else args);
            lr1 = lr\<lparr>lr_zones := map (se_canon env) zones\<rparr>
        in Option.bind (blockLoop dp (lr_property dp env) d1 ([], lr1)) (\<lambda>r. case r of
             Inl e \<Rightarrow> Some (Inl e)
           | Inr ((path, lr2), d2) \<Rightarrow>
               if path = [] then Some (Inl MissingZonedata)
               else (case lr_loadFile env path lr2 of
                 Inl e \<Rightarrow> Some (Inl e) | Inr lr3 \<Rightarrow> Some (Inr ((True, lr3), d2))))))"

definition lr_parse :: "'d dispenser \<Rightarrow> setup_env \<Rightarrow> 'd \<Rightarrow> (setup_error + localRecords) option" where
  "lr_parse dp env d =
     (let lr = \<lparr>lr_zones = [], lr_fallthroughZones = [], lr_defaultTTL = lrDefaultTTL,
           lr_vlans = current (se_vlans env), lr_records = (\<lambda>_. [])\<rparr>
      in map_option (map_sum id snd) (stanzaLoop dp (lr_stanza dp env) d (False, lr)))"

definition lr_setup ::
    "'d dispenser \<Rightarrow> setup_env \<Rightarrow> 'd \<Rightarrow> plugin_world \<Rightarrow> ((setup_error + localRecords) \<times> plugin_world) option" where
  "lr_setup dp env d w = map_option (\<lambda>r. case r of
       Inl e \<Rightarrow> (Inl e, pw_failed env ''localrecords'' e w)
     | Inr lr \<Rightarrow> (Inr lr, pw_loaded ''localrecords'' w)) (lr_parse dp env d)"

section \<open>The bridge\<close>

definition mb_stanza :: "'d dispenser \<Rightarrow> 'd \<Rightarrow> unit \<Rightarrow> (setup_error + unit \<times> 'd) option" where
  "mb_stanza dp d c = (case dp_remaining dp d of (args, d1) \<Rightarrow>
     if length args \<noteq> 0 then Some (Inl ArgErr)
     else blockLoop dp (\<lambda>d2 _. Inl (UnknownProperty (dp_val dp d2))) d1 c)"

definition mb_setup ::
    "'d dispenser \<Rightarrow> setup_env \<Rightarrow> 'd \<Rightarrow> plugin_world \<Rightarrow> ((setup_error + mtable) \<times> plugin_world) option" where
  "mb_setup dp env d w = map_option (\<lambda>r. case r of
       Inl e \<Rightarrow> (Inl e, pw_failed env ''mdnsbridge'' e w)
     | Inr _ \<Rightarrow> (case se_table env of
         None \<Rightarrow> (Inl NoTable, pw_failed env ''mdnsbridge'' NoTable w)
       | Some t \<Rightarrow> (Inr t, pw_loaded ''mdnsbridge'' w)))
     (stanzaLoop dp (mb_stanza dp) d ())"

section \<open>What the dispenser promises\<close>

text \<open>
  \<open>reads dp P as ls d\<close>: in the state \<open>d\<close> the words \<open>as\<close> are left on the line of a block and the
  lines \<open>ls\<close> follow it, up to the end of the block, where \<open>P\<close> holds.
\<close>

function reads :: "'d dispenser \<Rightarrow> ('d \<Rightarrow> bool) \<Rightarrow> string list \<Rightarrow> string list list \<Rightarrow> 'd \<Rightarrow> bool" where
  "reads dp P (a # as) ls d \<longleftrightarrow>
     (case dp_nextArg dp d of (b, d1) \<Rightarrow> b \<and> dp_val dp d1 = a \<and> reads dp P as ls d1) \<and>
     (case dp_nextBlock dp d of (b, d1) \<Rightarrow> b \<and> dp_val dp d1 = a \<and> reads dp P as ls d1) \<and>
     (case dp_remaining dp d of (ws, d1) \<Rightarrow> ws = a # as \<and> reads dp P [] ls d1)"
| "reads dp P [] [] d \<longleftrightarrow> dp_nextArg dp d = (False, d) \<and> dp_remaining dp d = ([], d) \<and>
     (case dp_nextBlock dp d of (b, d1) \<Rightarrow> \<not> b \<and> P d1)"
| "reads dp P [] ([] # ls) d \<longleftrightarrow> False"
| "reads dp P [] ((w # ws) # ls) d \<longleftrightarrow> dp_nextArg dp d = (False, d) \<and> dp_remaining dp d = ([], d) \<and>
     (case dp_nextBlock dp d of (b, d1) \<Rightarrow> b \<and> dp_val dp d1 = w \<and> reads dp P ws ls d1)"
  by pat_completeness auto
termination by (relation "measures [\<lambda>(dp, P, as, ls, d). length ls, \<lambda>(dp, P, as, ls, d). length as]") auto

text \<open>Before the block of a stanza.\<close>

definition opens :: "'d dispenser \<Rightarrow> ('d \<Rightarrow> bool) \<Rightarrow> string list list \<Rightarrow> 'd \<Rightarrow> bool" where
  "opens dp P ls d \<longleftrightarrow> (case dp_nextBlock dp d of (b, d1) \<Rightarrow>
     case ls of [] \<Rightarrow> \<not> b \<and> P d1
     | [] # _ \<Rightarrow> False
     | (w # ws) # ls' \<Rightarrow> b \<and> dp_val dp d1 = w \<and> reads dp P ws ls' d1)"

text \<open>
  Before a stanza: its name, the words of its first line, the lines of its block; nothing follows.
  \<^verbatim>\<open>RemainingArgs\<close> stops at the brace.
\<close>

definition stanza_doc :: "'d dispenser \<Rightarrow> string list \<times> string list list \<Rightarrow> 'd \<Rightarrow> bool" where
  "stanza_doc dp st d \<longleftrightarrow> (case st of ([], _) \<Rightarrow> False
     | (name # args, ls) \<Rightarrow>
       (case dp_next dp d of (b, d1) \<Rightarrow> b \<and> dp_val dp d1 = name \<and>
          (let P = (\<lambda>d'. \<not> fst (dp_next dp d')) in
           (case dp_remaining dp d1 of (ws, d2) \<Rightarrow> ws = args \<and> opens dp P ls d2) \<and>
           (if args = [] then opens dp P ls d1 else True))))"

text \<open>The stanza in lines of the Corefile, by its words: those of the first line, and of each line of the block.\<close>

definition stanza_of :: "string list \<Rightarrow> string list \<times> string list list" where
  "stanza_of ls = (case map Net_Detect.fields ls of
     [] \<Rightarrow> ([], [])
   | h # rest \<Rightarrow> if h \<noteq> [] \<and> last h = ''{'' then (butlast h, butlast rest) else (h, rest))"

section \<open>Lemmas: words and lines\<close>

definition plain_word :: "string \<Rightarrow> bool" where
  "plain_word w \<longleftrightarrow> w \<noteq> [] \<and> list_all (\<lambda>c. \<not> is_space c) w \<and> w \<noteq> ''{''"

lemma fieldsFrom_space: "is_space c \<Longrightarrow> fieldsFrom w (s @ c # t) = fieldsFrom w s @ fieldsFrom [] t"
  by (induction w s rule: fieldsFrom.induct) simp_all

lemma fieldsFrom_word: "list_all (\<lambda>c. \<not> is_space c) a \<Longrightarrow> fieldsFrom w (a @ s) = fieldsFrom (w @ a) s"
  by (induction a arbitrary: w) simp_all

lemma space_eval [simp]: "is_space CHR '' ''" "is_space CHR 0x09"
  by (simp_all add: is_space_def)

lemma fields_space: "Net_Detect.fields (s @ CHR '' '' # t) = Net_Detect.fields s @ Net_Detect.fields t"
  by (simp add: Net_Detect.fields_def fieldsFrom_space)

lemma fields_tab: "Net_Detect.fields (CHR 0x09 # s) = Net_Detect.fields s"
  by (simp add: Net_Detect.fields_def)

lemma fields_word: "plain_word w \<Longrightarrow> Net_Detect.fields w = [w]"
  using fieldsFrom_word [of w "[]" "[]"] by (simp add: Net_Detect.fields_def plain_word_def)

lemma fields_joinStr: "list_all plain_word ws \<Longrightarrow> Net_Detect.fields (joinStr '' '' ws) = ws"
proof (induction ws)
  case (Cons w ws)
  then show ?case by (cases ws) (simp_all add: fields_word fields_space)
qed (simp add: Net_Detect.fields_def)

lemma brace_word: "Net_Detect.fields ''{'' = [''{'']"
  by (simp add: Net_Detect.fields_def is_space_def)

lemma stanza_of_sub:
  "stanza_of ((h @ '' {'') # map (\<lambda>l. CHR 0x09 # l) ls @ [''}'']) = (Net_Detect.fields h, map Net_Detect.fields ls)"
  using fields_space [of h "''{''"] by (simp add: stanza_of_def brace_word o_def fields_tab)

lemma stanza_of_line: "list_all plain_word ws \<Longrightarrow> Net_Detect.fields l = ws \<Longrightarrow> stanza_of [l] = (ws, [])"
  by (auto simp: stanza_of_def list_all_iff plain_word_def)

section \<open>Lemmas: the loops\<close>

lemma reads_opens: "reads dp P [] ls d \<Longrightarrow> opens dp P ls d"
  by (cases ls rule: list.exhaust [case_product list.exhaust]; cases "hd ls") (auto simp: opens_def)

lemma reads_noArg: "reads dp P [] ls d \<Longrightarrow> dp_nextArg dp d = (False, d)"
  by (cases ls rule: list.exhaust; cases "hd ls") auto

lemma reads_remaining: "reads dp P (a # as) ls d \<Longrightarrow> \<exists>d1. dp_remaining dp d = (a # as, d1) \<and> opens dp P ls d1"
  by (auto simp: reads_opens split: prod.splits)

lemma blockLoop_end: "opens dp P [] d \<Longrightarrow> \<exists>d'. blockLoop dp prop d c = Some (Inr (c, d')) \<and> P d'"
  by (subst blockLoop.simps) (auto simp: opens_def split: prod.splits)

lemma blockLoop_line:
  assumes "opens dp P ((w # as) # ls) d"
    and "\<And>d1. dp_val dp d1 = w \<Longrightarrow> reads dp P as ls d1 \<Longrightarrow> \<exists>d2. prop d1 c = Inr (c', d2) \<and> opens dp P ls d2"
    and "\<And>d2. opens dp P ls d2 \<Longrightarrow> \<exists>d'. blockLoop dp prop d2 c' = Some (Inr (r, d')) \<and> P d'"
  shows "\<exists>d'. blockLoop dp prop d c = Some (Inr (r, d')) \<and> P d'"
proof -
  obtain d1 where d1: "dp_nextBlock dp d = (True, d1)" "dp_val dp d1 = w" "reads dp P as ls d1"
    using assms(1) by (auto simp: opens_def split: prod.splits)
  then obtain d2 where "prop d1 c = Inr (c', d2)" "opens dp P ls d2" using assms(2) by blast
  with d1(1) assms(3) [of d2] show ?thesis by (subst blockLoop.simps) simp
qed

lemma blockLoop_error:
  assumes "opens dp P ((w # as) # ls) d"
    and "\<And>d1. dp_val dp d1 = w \<Longrightarrow> reads dp P as ls d1 \<Longrightarrow> prop d1 c = Inl e"
  shows "blockLoop dp prop d c = Some (Inl e)"
  using assms by (subst blockLoop.simps) (auto simp: opens_def split: prod.splits)

lemma withArg_reads:
  "reads dp P [a] ls d \<Longrightarrow> f a = Inr c \<Longrightarrow> \<exists>d2. withArg dp d f = Inr (c, d2) \<and> opens dp P ls d2"
  by (auto simp: withArg_def reads_opens split: prod.splits)

declare reads.simps [simp del]

lemma stanza_docE:
  assumes "stanza_doc dp (name # args, ls) d"
  obtains d1 d2 P where "dp_next dp d = (True, d1)" "dp_val dp d1 = name" "dp_remaining dp d1 = (args, d2)"
    "opens dp P ls d2" "args = [] \<longrightarrow> opens dp P ls d1" "P = (\<lambda>d'. \<not> fst (dp_next dp d'))"
  using assms by (auto simp: stanza_doc_def Let_def split: prod.splits if_splits)

lemma stanzaLoop_one:
  assumes "stanza_doc dp (name # args, ls) d"
    and "\<And>d1 d2 P. dp_remaining dp d1 = (args, d2) \<Longrightarrow> opens dp P ls d2 \<Longrightarrow> (args = [] \<Longrightarrow> opens dp P ls d1) \<Longrightarrow>
      \<exists>d'. stanza d1 c = Some (Inr (c', d')) \<and> P d'"
  shows "stanzaLoop dp stanza d c = Some (Inr c')"
proof -
  from assms(1) obtain d1 d2 P where d: "dp_next dp d = (True, d1)" "dp_remaining dp d1 = (args, d2)"
    "opens dp P ls d2" "args = [] \<longrightarrow> opens dp P ls d1" and P: "P = (\<lambda>d'. \<not> fst (dp_next dp d'))"
    by (rule stanza_docE)
  obtain d' where "stanza d1 c = Some (Inr (c', d'))" "\<not> fst (dp_next dp d')"
    using assms(2) [OF d(2,3)] d(4) P by auto
  then have "stanzaLoop dp stanza d' c' = Some (Inr c')"
    by (subst stanzaLoop.simps) (auto split: prod.splits)
  with d(1) \<open>stanza d1 c = _\<close> show ?thesis by (subst stanzaLoop.simps) simp
qed

lemma stanzaLoop_error:
  assumes "stanza_doc dp (name # args, ls) d"
    and "\<And>d1 d2 P. dp_remaining dp d1 = (args, d2) \<Longrightarrow> opens dp P ls d2 \<Longrightarrow> (args = [] \<Longrightarrow> opens dp P ls d1) \<Longrightarrow>
      stanza d1 c = Some (Inl e)"
  shows "stanzaLoop dp stanza d c = Some (Inl e)"
proof -
  from assms(1) obtain d1 d2 P where d: "dp_next dp d = (True, d1)" "dp_remaining dp d1 = (args, d2)"
    "opens dp P ls d2" "args = [] \<longrightarrow> opens dp P ls d1"
    by (rule stanza_docE)
  then have "stanza d1 c = Some (Inl e)" using assms(2) by blast
  with d(1) show ?thesis by (subst stanzaLoop.simps) simp
qed

lemma digit_eval: "is_digit CHR ''1''" "\<not> is_digit CHR ''h''" "digit_val CHR ''1'' = 1" "unitChar CHR ''h''"
  by (simp_all add: is_digit_def digit_val_def unitChar_def)

lemma durationPart_hour: "durationPart ''1h'' = Some (3600000000000, [])"
  by (simp add: durationPart_def digit_eval unitOf_def)

lemma parseDuration_hour: "parseDuration ''1h'' = Some 3600000000000"
proof -
  have "length ''1h'' = Suc (Suc 0)" by simp
  then have "durationParts (length ''1h'') 0 ''1h'' = Some 3600000000000"
    by (simp only: durationParts.simps durationPart_hour option.case prod.case) simp
  then show ?thesis unfolding parseDuration_def Let_def by (simp del: list.size)
qed

section \<open>The cache reads its settings back\<close>

lemma word_eval: "plain_word ''vlancache''" "plain_word ''prefetch''" "plain_word ''serve_stale''" "plain_word ''1h''"
  "plain_word ''querylog''" "plain_word ''capacity''" "plain_word ''localrecords''" "plain_word ''zonedata''"
  "plain_word ''fallthrough''" "plain_word ''home.arpa''" "plain_word ''resolver.arpa''"
  by (simp_all add: plain_word_def is_space_def)

lemma lower_eval: "toLower ''prefetch'' = ''prefetch''" "toLower ''serve_stale'' = ''serve_stale''"
  "toLower ''capacity'' = ''capacity''" "toLower ''zonedata'' = ''zonedata''" "toLower ''fallthrough'' = ''fallthrough''"
  by (simp_all add: toLower_def char_lower_def)

lemma line_words:
  assumes "plain_word h" "plain_word a"
  shows "Net_Detect.fields (h @ CHR '' '' # a) = [h, a]"
  using assms by (simp add: fields_space fields_word)

lemma cache_stanza: "stanza_of (blk_lines (writeCache s (newBlock a))) =
    ([''vlancache''], (if prefetchDisabled (st_cache s) then [] else [[''prefetch'']]) @
      (if serveStaleDisabled (st_cache s) then [] else [[''serve_stale'', ''1h'']]))"
proof -
  have f: "Net_Detect.fields ''serve_stale 1h'' = [''serve_stale'', ''1h'']"
    using line_words [OF word_eval(3,4)] by simp
  show ?thesis
  proof (cases "serveStaleDisabled (st_cache s) \<and> prefetchDisabled (st_cache s)")
    case True
    then show ?thesis
      by (simp add: writeCache_def stanza_of_line [of "[''vlancache'']"] word_eval fields_word)
  next
    case False
    have sub: "blk_lines (writeCache s (newBlock a)) = (''vlancache'' @ '' {'') #
        map (\<lambda>l. CHR 0x09 # l) ((if prefetchDisabled (st_cache s) then [] else [''prefetch'']) @
          (if serveStaleDisabled (st_cache s) then [] else [''serve_stale 1h''])) @ [''}'']"
      using False by (simp add: writeCache_def Let_def)
    show ?thesis unfolding sub stanza_of_sub by (simp add: f fields_word word_eval)
  qed
qed

lemma property_prefetch:
  assumes "dp_val dp d1 = ''prefetch''" "reads dp P [] ls d1"
  shows "\<exists>d2. vc_property dp d1 (seen, cap, vc) = Inr ((seen, cap, vc\<lparr>vc_prefetch := True\<rparr>), d2) \<and> opens dp P ls d2"
proof -
  show ?thesis
    using reads_noArg [OF assms(2)] reads_opens [OF assms(2)] by (simp add: vc_property_def assms(1) lower_eval)
qed

lemma property_stale:
  assumes "dp_val dp d1 = ''serve_stale''" "reads dp P [''1h''] ls d1"
  shows "\<exists>d2. vc_property dp d1 (seen, cap, vc) = Inr ((seen, cap, vc\<lparr>vc_staleTTL := 3600000000000\<rparr>), d2) \<and> opens dp P ls d2"
  using withArg_reads [OF assms(2), of "\<lambda>a. case parseDuration a of
         None \<Rightarrow> Inl (BadDuration a)
       | Some t \<Rightarrow> if t \<le> 0 then Inl StaleRange else Inr (seen, cap, vc\<lparr>vc_staleTTL := t\<rparr>)"]
  by (simp add: vc_property_def assms(1) lower_eval parseDuration_hour)

definition configuredCache :: "setup_env \<Rightarrow> settings \<Rightarrow> vlanCache" where
  "configuredCache env s = \<lparr>vc_vlans = current (se_vlans env), vc_store = newStore, vc_failTTL = se_minimalTTL env,
     vc_prefetch = (\<not> prefetchDisabled (st_cache s)),
     vc_staleTTL = (if serveStaleDisabled (st_cache s) then 0 else 3600000000000)\<rparr>"

lemma cache_block:
  assumes "opens dp P ((if pd then [] else [[''prefetch'']]) @ (if sd then [] else [[''serve_stale'', ''1h'']])) d"
    and "vc_prefetch vc = False" "vc_staleTTL vc = 0"
  shows "\<exists>d'. blockLoop dp (vc_property dp) d (True, cap, vc) =
      Some (Inr ((True, cap, vc\<lparr>vc_prefetch := \<not> pd, vc_staleTTL := (if sd then 0 else 3600000000000)\<rparr>), d')) \<and> P d'"
proof -
  have stale: "\<exists>d'. blockLoop dp (vc_property dp) d (True, cap, vc) =
      Some (Inr ((True, cap, vc\<lparr>vc_staleTTL := (if sd then 0 else 3600000000000)\<rparr>), d')) \<and> P d'"
    if "opens dp P (if sd then [] else [[''serve_stale'', ''1h'']]) d" "vc_staleTTL vc = 0" for d vc
  proof (cases sd)
    case True
    with that blockLoop_end [of dp P d "vc_property dp"] show ?thesis by (cases vc) simp
  next
    case False
    with that(1) have "opens dp P [[''serve_stale'', ''1h'']] d" by simp
    then show ?thesis
    proof (rule blockLoop_line)
      fix d1 assume "dp_val dp d1 = ''serve_stale''" "reads dp P [''1h''] [] d1"
      then show "\<exists>d2. vc_property dp d1 (True, cap, vc) =
          Inr ((True, cap, vc\<lparr>vc_staleTTL := 3600000000000\<rparr>), d2) \<and> opens dp P [] d2"
        by (rule property_stale)
    qed (use False in \<open>simp add: blockLoop_end\<close>)
  qed
  show ?thesis
  proof (cases pd)
    case True
    with assms stale [of d vc] show ?thesis by (cases vc) simp
  next
    case False
    with assms(1) have "opens dp P ([''prefetch''] # (if sd then [] else [[''serve_stale'', ''1h'']])) d" by simp
    then show ?thesis
    proof (rule blockLoop_line)
      fix d1 assume "dp_val dp d1 = ''prefetch''"
        "reads dp P [] (if sd then [] else [[''serve_stale'', ''1h'']]) d1"
      then show "\<exists>d2. vc_property dp d1 (True, cap, vc) = Inr ((True, cap, vc\<lparr>vc_prefetch := True\<rparr>), d2) \<and>
          opens dp P (if sd then [] else [[''serve_stale'', ''1h'']]) d2"
        by (rule property_prefetch)
    qed (use False assms(3) stale [of _ "vc\<lparr>vc_prefetch := True\<rparr>"] in \<open>simp\<close>)
  qed
qed

lemma cache_settings_read:
  assumes "stanza_doc dp (stanza_of (blk_lines (writeCache s (newBlock a)))) d"
  shows "vc_parse dp env d = Some (Inr (defaultCap, configuredCache env s))"
proof -
  let ?vc = "\<lparr>vc_vlans = current (se_vlans env), vc_store = newStore, vc_failTTL = se_minimalTTL env,
           vc_prefetch = False, vc_staleTTL = 0\<rparr>"
  have "stanzaLoop dp (vc_stanza dp) d (False, defaultCap, ?vc) = Some (Inr (True, defaultCap, configuredCache env s))"
  proof (rule stanzaLoop_one [OF assms [unfolded cache_stanza]])
    fix d1 d2 P
    assume "[] = [] \<Longrightarrow> opens dp P ((if prefetchDisabled (st_cache s) then [] else [[''prefetch'']]) @
        (if serveStaleDisabled (st_cache s) then [] else [[''serve_stale'', ''1h'']])) d1"
    from cache_block [OF this, of ?vc defaultCap] show "\<exists>d'. vc_stanza dp d1 (False, defaultCap, ?vc) =
        Some (Inr ((True, defaultCap, configuredCache env s), d')) \<and> P d'"
      by (simp add: vc_stanza_def configuredCache_def)
  qed
  then show ?thesis by (simp add: vc_parse_def)
qed

section \<open>The query log reads its capacity back\<close>

lemma plain_itoa: "0 < n \<Longrightarrow> plain_word (itoa n)"
proof -
  assume "0 < n"
  have d: "list_all is_digit (itoa_nat (nat n))" "itoa_nat (nat n) \<noteq> []" using itoa_nat_digits by auto
  have "\<not> is_space c" if "is_digit c" for c
    using that by (auto simp: is_digit_def is_space_def Let_def)
  with d have "list_all (\<lambda>c. \<not> is_space c) (itoa_nat (nat n))" by (auto simp: list_all_iff)
  moreover have "itoa_nat (nat n) \<noteq> ''{''" using d by (auto simp: is_digit_def)
  ultimately show ?thesis using d \<open>0 < n\<close> by (simp add: plain_word_def itoa_def)
qed

lemma querylog_stanza:
  assumes "queryLog_enabled (st_queryLog s)"
  shows "stanza_of (blk_lines (writeQueryLog s (newBlock a))) =
    ([''querylog''], if capacity (st_queryLog s) \<le> 0 then [] else [[''capacity'', itoa (capacity (st_queryLog s))]])"
proof (cases "capacity (st_queryLog s) \<le> 0")
  case True
  with assms show ?thesis
    by (simp add: writeQueryLog_def stanza_of_line [of "[''querylog'']"] word_eval fields_word)
next
  case False
  have sub: "blk_lines (writeQueryLog s (newBlock a)) = (''querylog'' @ '' {'') #
      map (\<lambda>l. CHR 0x09 # l) [''capacity'' @ CHR '' '' # itoa (capacity (st_queryLog s))] @ [''}'']"
    using False assms by (simp add: writeQueryLog_def)
  show ?thesis unfolding sub stanza_of_sub
    using False line_words [OF word_eval(6) plain_itoa] by (simp add: fields_word word_eval)
qed

definition configuredCapacity :: "settings \<Rightarrow> nat" where
  "configuredCapacity s = (if capacity (st_queryLog s) \<le> 0 then defaultCapacity else nat (capacity (st_queryLog s)))"

lemma capacity_read:
  assumes "stanza_doc dp (stanza_of (blk_lines (writeQueryLog s (newBlock a)))) d"
    and "queryLog_enabled (st_queryLog s)" "capacity (st_queryLog s) < 2 ^ 63"
  shows "stanzaLoop dp (ql_stanza dp) d (int defaultCapacity) = Some (Inr (int (configuredCapacity s)))"
proof (rule stanzaLoop_one [OF assms(1) [unfolded querylog_stanza [OF assms(2)]]])
  let ?c = "capacity (st_queryLog s)"
  fix d1 d2 P
  assume r: "dp_remaining dp d1 = ([], d2)"
    and o: "opens dp P (if ?c \<le> 0 then [] else [[''capacity'', itoa ?c]]) d2"
  have "\<exists>d'. blockLoop dp (ql_property dp) d2 (int defaultCapacity) = Some (Inr (int (configuredCapacity s), d')) \<and> P d'"
  proof (cases "?c \<le> 0")
    case True
    with o blockLoop_end show ?thesis by (simp add: configuredCapacity_def)
  next
    case False
    with o have "opens dp P [[''capacity'', itoa ?c]] d2" by simp
    then show ?thesis
    proof (rule blockLoop_line)
      fix d3 assume v: "dp_val dp d3 = ''capacity''" and R: "reads dp P [itoa ?c] [] d3"
      have "atoi (itoa ?c) = Some ?c" using False assms(3) by (intro atoi_itoa) auto
      with withArg_reads [OF R, of "\<lambda>a. case atoi a of None \<Rightarrow> Inl (InvalidCapacity a)
          | Some n \<Rightarrow> if n \<le> 0 then Inl (InvalidCapacity a) else Inr n" ?c] False
      show "\<exists>d2. ql_property dp d3 (int defaultCapacity) = Inr (?c, d2) \<and> opens dp P [] d2"
        by (simp add: ql_property_def v lower_eval)
    qed (use False in \<open>simp add: blockLoop_end configuredCapacity_def\<close>)
  qed
  with r show "\<exists>d'. ql_stanza dp d1 (int defaultCapacity) = Some (Inr (int (configuredCapacity s), d')) \<and> P d'"
    by (simp add: ql_stanza_def)
qed

text \<open>The setups of the server blocks of one Corefile, in order.\<close>

fun ql_setups :: "'d dispenser \<Rightarrow> setup_env \<Rightarrow> 'd list \<Rightarrow> plugin_world \<Rightarrow>
    ((setup_error + queryLogPlugin \<times> ring option) list \<times> plugin_world) option" where
  "ql_setups dp env [] w = Some ([], w)"
| "ql_setups dp env (d # ds) w = Option.bind (ql_setup dp env d w) (\<lambda>(r, w').
     map_option (\<lambda>(rs, w''). (r # rs, w'')) (ql_setups dp env ds w'))"

text \<open>The ring in use after a Corefile with the query log has been read.\<close>

definition ringFor :: "nat \<Rightarrow> ring option \<Rightarrow> ring" where
  "ringFor n cur = (case cur of Some r \<Rightarrow> if ring_cap r = n then r else newRing n | None \<Rightarrow> newRing n)"

definition qlHandler :: "setup_env \<Rightarrow> queryLogPlugin" where
  "qlHandler env = \<lparr>ql_vlans = current (se_vlans env), ql_threshold = 0\<rparr>"

lemma ql_setup_reads:
  assumes "stanza_doc dp (stanza_of (blk_lines (writeQueryLog s (newBlock a)))) d"
    and "queryLog_enabled (st_queryLog s)" "capacity (st_queryLog s) < 2 ^ 63"
  shows "ql_setup dp env d w = Some (Inr (qlHandler env, currentRing (snd (setupRing (configuredCapacity s) (pw_ringMarked w) (pw_ring w)))),
    pw_loaded ''querylog'' (w\<lparr>pw_ring := snd (setupRing (configuredCapacity s) (pw_ringMarked w) (pw_ring w)),
      pw_ringMarked := fst (setupRing (configuredCapacity s) (pw_ringMarked w) (pw_ring w))\<rparr>))"
  by (simp add: ql_setup_def capacity_read [OF assms] qlHandler_def case_prod_unfold Let_def)

lemma ring_decided: "\<not> marked \<Longrightarrow> setupRing n marked rs = (True, rs\<lparr>rs_current := Some (ringFor n (currentRing rs))\<rparr>)"
  by (cases rs) (auto simp: setupRing_def ringFor_def setCurrentRing_def currentRing_def split: option.split)

lemma ring_kept: "setupRing n True rs = (True, rs)"
  by (simp add: setupRing_def)

lemma ql_setups_marked:
  assumes "\<forall>d\<in>set ds. stanza_doc dp (stanza_of (blk_lines (writeQueryLog s (newBlock a)))) d"
    and "queryLog_enabled (st_queryLog s)" "capacity (st_queryLog s) < 2 ^ 63"
    and "pw_ringMarked w" "currentRing (pw_ring w) = Some r"
  shows "\<exists>w'. ql_setups dp env ds w = Some (replicate (length ds) (Inr (qlHandler env, Some r)), w') \<and>
    currentRing (pw_ring w') = Some r \<and> (ds = [] \<or> pr_loaded ''querylog'' (pw_plugins w'))"
  using assms(1,4,5)
proof (induction ds arbitrary: w)
  case (Cons d ds)
  let ?w = "pw_loaded ''querylog'' (w\<lparr>pw_ring := pw_ring w, pw_ringMarked := True\<rparr>)"
  have "ql_setup dp env d w = Some (Inr (qlHandler env, Some r), ?w)"
    using ql_setup_reads [OF _ assms(2,3), of dp a d env w] Cons.prems by (simp add: ring_kept)
  moreover have "pw_ringMarked ?w" "currentRing (pw_ring ?w) = Some r" "pr_loaded ''querylog'' (pw_plugins ?w)"
    using Cons.prems by (simp_all add: pw_loaded_def pr_loaded_def setLoaded_def)
  ultimately show ?case using Cons.IH [of ?w] Cons.prems(1) by (cases ds) auto
qed simp

section \<open>The local records read their zones back\<close>

lemma localrecords_stanza:
  assumes "list_all plain_word (ownedZones s)"
  shows "stanza_of (blk_lines (writeLocalRecords s opts (newBlock a))) =
    (''localrecords'' # ownedZones s, [''zonedata'' # Net_Detect.fields (zoneDataPath (opt_configDir opts))] @
      (if fallthroughZones s = [] then [] else [''fallthrough'' # fallthroughZones s]))"
proof -
  have ft: "list_all plain_word (fallthroughZones s)"
    using assms fallthrough_subset_owned [of s] by (auto simp: list_all_iff)
  have sub: "blk_lines (writeLocalRecords s opts (newBlock a)) =
      ((''localrecords'' @ CHR '' '' # joinStr '' '' (ownedZones s)) @ '' {'') #
      map (\<lambda>l. CHR 0x09 # l) ((''zonedata'' @ CHR '' '' # zoneDataPath (opt_configDir opts)) #
        (if fallthroughZones s = [] then [] else [''fallthrough'' @ CHR '' '' # joinStr '' '' (fallthroughZones s)])) @ [''}'']"
    by (simp add: writeLocalRecords_def)
  show ?thesis unfolding sub stanza_of_sub
    by (simp only: fields_space fields_joinStr [OF assms] fields_joinStr [OF ft] fields_word [OF word_eval(7)]
        fields_word [OF word_eval(8)] fields_word [OF word_eval(9)] list.map if_distrib [of "map Net_Detect.fields"])
      simp
qed

lemma property_zonedata:
  assumes "dp_val dp d1 = ''zonedata''" "reads dp P [p] ls d1"
  shows "\<exists>d2. lr_property dp env d1 (p0, lr) = Inr ((p, lr), d2) \<and> opens dp P ls d2"
  using withArg_reads [OF assms(2), of "\<lambda>a. Inr (a, lr)"] by (simp add: lr_property_def assms(1) lower_eval)

lemma property_fallthrough:
  assumes "dp_val dp d1 = ''fallthrough''" "reads dp P zs ls d1" "zs \<noteq> []"
  shows "\<exists>d2. lr_property dp env d1 (p, lr) =
      Inr ((p, lr\<lparr>lr_fallthroughZones := lr_fallthroughZones lr @ map (se_canon env) zs\<rparr>), d2) \<and> opens dp P ls d2"
  using assms reads_remaining [of dp P "hd zs" "tl zs" ls d1] by (auto simp: lr_property_def lower_eval)

lemma localrecords_block:
  assumes "opens dp P ([[''zonedata'', path]] @ (if ft = [] then [] else [''fallthrough'' # ft])) d"
  shows "\<exists>d'. blockLoop dp (lr_property dp env) d (p0, lr) =
      Some (Inr ((path, lr\<lparr>lr_fallthroughZones := lr_fallthroughZones lr @ map (se_canon env) ft\<rparr>), d')) \<and> P d'"
proof -
  from assms have "opens dp P ([''zonedata'', path] # (if ft = [] then [] else [''fallthrough'' # ft])) d" by simp
  then show ?thesis
  proof (rule blockLoop_line)
    fix d2 assume o: "opens dp P (if ft = [] then [] else [''fallthrough'' # ft]) d2"
    show "\<exists>d'. blockLoop dp (lr_property dp env) d2 (path, lr) =
        Some (Inr ((path, lr\<lparr>lr_fallthroughZones := lr_fallthroughZones lr @ map (se_canon env) ft\<rparr>), d')) \<and> P d'"
    proof (cases "ft = []")
      case True
      with o blockLoop_end show ?thesis by simp
    next
      case False
      with o have "opens dp P [''fallthrough'' # ft] d2" by simp
      then show ?thesis
        by (rule blockLoop_line) (use False in \<open>auto intro: property_fallthrough blockLoop_end\<close>)
    qed
  qed (rule property_zonedata)
qed

lemma domain_plain:
  assumes "parseDomainName x = Inr n" "toLower (trimSpace x) \<noteq> ''{''"
  shows "plain_word (toLower (trimSpace x))"
proof -
  have "\<not> list_ex is_space (toLower (trimSpace x))"
    using parseDomainName_InrD(5) [OF assms(1)]
    by (auto simp: list_ex_iff toLower_def)
  then show ?thesis
    using parseDomainName_InrD(9) [OF assms(1)] assms(2) by (auto simp: plain_word_def list_ex_iff list_all_iff toLower_def)
qed

lemma zones_plain:
  assumes "validate s rs hs = None" "normalizedACMEDomain s \<noteq> ''{''"
  shows "list_all plain_word (ownedZones s)"
proof (cases "normalizedACMEDomain s = []")
  case True
  then show ?thesis by (simp add: ownedZones_def ownedZone_def ddrZone_def word_eval)
next
  case False
  from acme_valid [OF assms(1) False] obtain n where
    "acme_enabled (st_acme s)" "parseDomainName (acme_domain (st_acme s)) = Inr n" by blast
  then have "plain_word (normalizedACMEDomain s)"
    using domain_plain assms(2) by (simp add: normalizedACMEDomain_def)
  then show ?thesis by (simp add: ownedZones_def ownedZone_def ddrZone_def word_eval)
qed

lemma localrecords_read:
  assumes "stanza_doc dp (stanza_of (blk_lines (writeLocalRecords s opts (newBlock a)))) d"
    and "list_all plain_word (ownedZones s)" "plain_word (zoneDataPath (opt_configDir opts))"
    and "se_zoneFile env (zoneDataPath (opt_configDir opts)) = Zone z"
    and "loadZoneData (se_canon env) z (parsedStanza (se_canon env) (ownedZones s) (fallthroughZones s) (se_vlans env)) = Inr lr"
  shows "lr_parse dp env d = Some (Inr lr)"
proof -
  let ?lr = "\<lparr>lr_zones = [], lr_fallthroughZones = [], lr_defaultTTL = lrDefaultTTL,
           lr_vlans = current (se_vlans env), lr_records = (\<lambda>_. [])\<rparr>"
  let ?path = "zoneDataPath (opt_configDir opts)"
  have ne: "ownedZones s \<noteq> []" by (simp add: ownedZones_def)
  have "stanzaLoop dp (lr_stanza dp env) d (False, ?lr) = Some (Inr (True, lr))"
  proof (rule stanzaLoop_one [OF assms(1) [unfolded localrecords_stanza [OF assms(2)] fields_word [OF assms(3)]]])
    fix d1 d2 P
    let ?lr1 = "?lr\<lparr>lr_zones := map (se_canon env) (ownedZones s)\<rparr>"
    assume r: "dp_remaining dp d1 = (ownedZones s, d2)"
      and o: "opens dp P ([[''zonedata'', ?path]] @ (if fallthroughZones s = [] then [] else [''fallthrough'' # fallthroughZones s])) d2"
    obtain d' where d': "blockLoop dp (lr_property dp env) d2 ([], ?lr1) =
        Some (Inr ((?path, ?lr1\<lparr>lr_fallthroughZones := lr_fallthroughZones ?lr1 @ map (se_canon env) (fallthroughZones s)\<rparr>), d'))" "P d'"
      using localrecords_block [OF o, of env "[]" ?lr1] by blast
    have "?lr1\<lparr>lr_fallthroughZones := lr_fallthroughZones ?lr1 @ map (se_canon env) (fallthroughZones s)\<rparr> =
        parsedStanza (se_canon env) (ownedZones s) (fallthroughZones s) (se_vlans env)"
      using ne by (simp add: parsedStanza_def)
    with d' have "blockLoop dp (lr_property dp env) d2 ([], ?lr1) =
        Some (Inr ((?path, parsedStanza (se_canon env) (ownedZones s) (fallthroughZones s) (se_vlans env)), d'))" by simp
    moreover have "?path \<noteq> []" using assms(3) by (simp add: plain_word_def)
    moreover have "lr_loadFile env ?path (parsedStanza (se_canon env) (ownedZones s) (fallthroughZones s) (se_vlans env)) = Inr lr"
      using assms(4,5) by (simp add: lr_loadFile_def)
    ultimately show "\<exists>d'. lr_stanza dp env d1 (False, ?lr) = Some (Inr ((True, lr), d')) \<and> P d'"
      using r ne d'(2) by (simp add: lr_stanza_def)
  qed
  then show ?thesis by (simp add: lr_parse_def)
qed

section \<open>The stanzas of a server block\<close>

lemma write_lines:
  "blk_lines (writeCache s b) = blk_lines b @ blk_lines (writeCache s (newBlock []))"
  "blk_lines (writeQueryLog s b) = blk_lines b @ blk_lines (writeQueryLog s (newBlock []))"
  "blk_lines (writeLocalRecords s opts b) = blk_lines b @ blk_lines (writeLocalRecords s opts (newBlock []))"
  "blk_lines (writeForward u b) = blk_lines b @ blk_lines (writeForward u (newBlock []))"
  "blk_lines (writeErrors s b) = blk_lines b @ blk_lines (writeErrors s (newBlock []))"
  "blk_lines (writeLog s b) = blk_lines b @ blk_lines (writeLog s (newBlock []))"
  by (simp_all add: writeCache_def writeQueryLog_def writeLocalRecords_def writeForward_def writeErrors_def
      writeLog_def Let_def)

text \<open>The lines of a rendered server block contain the three stanzas as they are written.\<close>

lemma block_stanzas:
  "\<exists>l1 l2 l3 l4. blk_lines (buildServerBlock addr tls quic plug s opts obs) =
     l1 @ blk_lines (writeQueryLog s (newBlock [])) @ l2 @ blk_lines (writeLocalRecords s opts (newBlock [])) @ l3 @
     blk_lines (writeCache s (newBlock [])) @ l4"
proof -
  obtain b where b: "buildServerBlock addr tls quic plug s opts obs =
      writeLog s (writeErrors s (writeCache s (writeForward (st_upstream s)
        (directiveIf (up_ecs (st_upstream s)) ''rewrite edns0 subnet set 32 128'' (writeLocalRecords s opts
          (directiveIf (mdns_enabled (st_mdns s)) ''mdnsbridge'' (subBlock (''hosts '' @ hostsDataPath (opt_configDir opts) @ '' .'')
            (directive ''fallthrough'') (writeQueryLog s b))))))))"
    unfolding buildServerBlock_def Let_def by blast
  define b1 where "b1 = writeQueryLog s b"
  define b2 where "b2 = directiveIf (mdns_enabled (st_mdns s)) ''mdnsbridge''
    (subBlock (''hosts '' @ hostsDataPath (opt_configDir opts) @ '' .'') (directive ''fallthrough'') b1)"
  define b3 where "b3 = writeForward (st_upstream s)
    (directiveIf (up_ecs (st_upstream s)) ''rewrite edns0 subnet set 32 128'' (writeLocalRecords s opts b2))"
  define b4 where "b4 = writeErrors s (writeCache s b3)"
  have 1: "blk_lines b1 = blk_lines b @ blk_lines (writeQueryLog s (newBlock []))"
    unfolding b1_def by (rule write_lines)
  have 2: "\<exists>l. blk_lines b2 = blk_lines b1 @ l" by (simp add: b2_def)
  have "\<exists>l. blk_lines b3 = blk_lines (writeLocalRecords s opts b2) @ l"
    unfolding b3_def write_lines(4) [of _ "directiveIf _ _ _"] by simp
  then have 3: "\<exists>l. blk_lines b3 = blk_lines b2 @ blk_lines (writeLocalRecords s opts (newBlock [])) @ l"
    unfolding write_lines(3) [of s opts b2] by simp
  have "\<exists>l. blk_lines (writeLog s b4) = blk_lines (writeCache s b3) @ l"
    unfolding write_lines(6) [of s b4] unfolding b4_def write_lines(5) [of s "writeCache s b3"] by simp
  then have 4: "\<exists>l. blk_lines (writeLog s b4) = blk_lines b3 @ blk_lines (writeCache s (newBlock [])) @ l"
    unfolding write_lines(1) [of s b3] by simp
  have "buildServerBlock addr tls quic plug s opts obs = writeLog s b4"
    by (simp only: b b1_def b2_def b3_def b4_def)
  with 1 2 3 4 show ?thesis by (metis append_assoc)
qed

section \<open>An example of a dispenser\<close>

text \<open>The token last read and its line, the tokens to come with their lines, and whether a block is open.\<close>

type_synonym ex_tokens = "string \<times> nat \<times> (nat \<times> string) list \<times> bool"

fun ex_next :: "ex_tokens \<Rightarrow> bool \<times> ex_tokens" where
  "ex_next (v, l, [], n) = (False, (v, l, [], n))"
| "ex_next (v, l, (k, w) # ts, n) = (True, (w, k, ts, n))"

fun ex_nextArg :: "ex_tokens \<Rightarrow> bool \<times> ex_tokens" where
  "ex_nextArg (v, l, [], n) = (False, (v, l, [], n))"
| "ex_nextArg (v, l, (k, w) # ts, n) = (if k = l then (True, (w, k, ts, n)) else (False, (v, l, (k, w) # ts, n)))"

fun ex_remaining :: "ex_tokens \<Rightarrow> string list \<times> ex_tokens" where
  "ex_remaining (v, l, ts, n) = (let as = takeWhile (\<lambda>(k, w). k = l \<and> w \<noteq> ''{'') ts in
     (map snd as, (if as = [] then v else snd (last as), l, drop (length as) ts, n)))"

fun ex_nextBlock :: "ex_tokens \<Rightarrow> bool \<times> ex_tokens" where
  "ex_nextBlock (v, l, ts, n) =
     (if n then (case ts of [] \<Rightarrow> (False, (v, l, [], False))
        | (k, w) # us \<Rightarrow> if w = ''}'' then (False, (w, k, us, False)) else (True, (w, k, us, True)))
      else (case ts of (k, w) # us \<Rightarrow>
          if k = l \<and> w = ''{'' then (case us of [] \<Rightarrow> (False, (w, k, us, False))
            | (k', w') # us' \<Rightarrow> if w' = ''}'' then (False, (w', k', us', False)) else (True, (w', k', us', True)))
          else (False, (v, l, ts, False))
        | [] \<Rightarrow> (False, (v, l, ts, False))))"

definition exDispenser :: "ex_tokens dispenser" where
  "exDispenser = \<lparr>dp_next = ex_next, dp_nextArg = ex_nextArg, dp_remaining = ex_remaining,
     dp_nextBlock = ex_nextBlock, dp_val = fst\<rparr>"

fun numberLines :: "nat \<Rightarrow> string list list \<Rightarrow> (nat \<times> string) list" where
  "numberLines k [] = []"
| "numberLines k (l # ls) = map (Pair k) l @ numberLines (Suc k) ls"

definition exTokens :: "string list list \<Rightarrow> ex_tokens" where
  "exTokens ls = ([], 0, numberLines 1 ls, False)"

lemma exDispenser_fields [simp]: "dp_next exDispenser = ex_next" "dp_nextArg exDispenser = ex_nextArg"
  "dp_remaining exDispenser = ex_remaining" "dp_nextBlock exDispenser = ex_nextBlock" "dp_val exDispenser = fst"
  by (simp_all add: exDispenser_def)

lemma ex_cache: "stanza_doc exDispenser ([''vlancache''], [[''prefetch''], [''serve_stale'', ''1h'']])
    (exTokens [[''vlancache'', ''{''], [''prefetch''], [''serve_stale'', ''1h''], [''}'']])"
  by (simp add: stanza_doc_def exTokens_def opens_def reads.simps)

lemma itoa_eval: "itoa 4096 = ''4096''"
  by (simp add: itoa_def itoa_nat.simps [of 4096] itoa_nat.simps [of 409] itoa_nat.simps [of 40] itoa_nat.simps [of 4] digit_char_def)
    (simp add: char_of_def bit_0)

lemma ex_querylog: "stanza_doc exDispenser ([''querylog''], [[''capacity'', itoa 4096]])
    (exTokens [[''querylog'', ''{''], [''capacity'', itoa 4096], [''}'']])"
  by (simp add: itoa_eval stanza_doc_def exTokens_def opens_def reads.simps)

lemma ex_localrecords: "stanza_doc exDispenser
    ([''localrecords'', ''home.arpa''], [[''zonedata'', ''/config/.runtime/zones/records.json'']])
    (exTokens [[''localrecords'', ''home.arpa'', ''{''], [''zonedata'', ''/config/.runtime/zones/records.json''], [''}'']])"
  by (simp add: stanza_doc_def exTokens_def opens_def reads.simps)

lemma ex_blank: "stanza_doc exDispenser
    ([''localrecords'', ''home.arpa''], [[''zonedata'', ''/my'', ''config/.runtime/zones/records.json'']])
    (exTokens [[''localrecords'', ''home.arpa'', ''{''], [''zonedata'', ''/my'', ''config/.runtime/zones/records.json''], [''}'']])"
  by (simp add: stanza_doc_def exTokens_def opens_def reads.simps)

section \<open>Properties\<close>

text \<open>
  The settings of the cache and of the query log reach the plugins through the Corefile. Whatever
  dispenser reads the stanzas configgen writes, the setup of the cache succeeds, with prefetching
  and stale answers exactly as the settings ask, and its handler is among those a flush reaches;
  the setups of the query log in all server blocks of a render succeed and share one ring, of the
  capacity asked for, which is the one already in use, with its entries, if its capacity is the same.
\<close>

theorem settings_reach_plugins:
  assumes "stanza_doc dp (stanza_of (blk_lines (writeCache s (newBlock [])))) d0"
    and "ds \<noteq> []" "\<forall>d\<in>set ds. stanza_doc dp (stanza_of (blk_lines (writeQueryLog s (newBlock [])))) d"
    and "queryLog_enabled (st_queryLog s)" "capacity (st_queryLog s) < 2 ^ 63" "\<not> pw_ringMarked w"
  shows "(\<exists>w'. vc_setup dp env i d0 w = Some (Inr (configuredCache env s), w') \<and> i \<in> set (rg_live (pw_caches w')) \<and>
      rg_cache (pw_caches w') i = configuredCache env s \<and> pr_loaded ''vlancache'' (pw_plugins w')) \<and>
    (\<exists>w'. ql_setups dp env ds w = Some (replicate (length ds)
        (Inr (qlHandler env, Some (ringFor (configuredCapacity s) (currentRing (pw_ring w))))), w') \<and>
      currentRing (pw_ring w') = Some (ringFor (configuredCapacity s) (currentRing (pw_ring w))) \<and>
      pr_loaded ''querylog'' (pw_plugins w'))"
proof -
  have 1: "\<exists>w'. vc_setup dp env i d0 w = Some (Inr (configuredCache env s), w') \<and> i \<in> set (rg_live (pw_caches w')) \<and>
      rg_cache (pw_caches w') i = configuredCache env s \<and> pr_loaded ''vlancache'' (pw_plugins w')"
    by (simp add: vc_setup_def cache_settings_read [OF assms(1)] pw_loaded_def pr_loaded_def setLoaded_def vc_register_def)
  let ?r = "ringFor (configuredCapacity s) (currentRing (pw_ring w))"
  let ?w = "pw_loaded ''querylog'' (w\<lparr>pw_ring := (pw_ring w)\<lparr>rs_current := Some ?r\<rparr>, pw_ringMarked := True\<rparr>)"
  obtain d ds' where ds: "ds = d # ds'" using assms(2) by (cases ds) auto
  have step: "ql_setup dp env d w = Some (Inr (qlHandler env, Some ?r), ?w)"
    using ql_setup_reads [OF _ assms(4,5), of dp "[]" d env w] assms(3,6) ds by (simp add: ring_decided currentRing_def)
  have w: "pw_ringMarked ?w" "currentRing (pw_ring ?w) = Some ?r" "pr_loaded ''querylog'' (pw_plugins ?w)"
    by (simp_all add: pw_loaded_def pr_loaded_def setLoaded_def currentRing_def)
  obtain w' where "ql_setups dp env ds' ?w = Some (replicate (length ds') (Inr (qlHandler env, Some ?r)), w')"
    "currentRing (pw_ring w') = Some ?r" "ds' = [] \<or> pr_loaded ''querylog'' (pw_plugins w')"
    using ql_setups_marked [OF _ assms(4,5) w(1,2), of ds' dp "[]" env] assms(3) ds by auto
  with step w(3) have "\<exists>w'. ql_setups dp env ds w = Some (replicate (length ds) (Inr (qlHandler env, Some ?r)), w') \<and>
      currentRing (pw_ring w') = Some ?r \<and> pr_loaded ''querylog'' (pw_plugins w')"
    by (cases "ds' = []") (auto simp: ds)
  with 1 show ?thesis by blast
qed

definition exQuery :: settings where
  "exQuery = defaultSettings\<lparr>st_queryLog := (st_queryLog defaultSettings)\<lparr>queryLog_enabled := True, capacity := 4096\<rparr>\<rparr>"

definition exSetupEnv :: "wireZone \<Rightarrow> setup_env" where
  "exSetupEnv z = \<lparr>se_vlans = \<lparr>vm_current = zeroTable\<rparr>, se_zoneFile = (\<lambda>_. Zone z), se_canon = simpleCanon,
     se_errText = (\<lambda>_. []), se_minimalTTL = 5000000000, se_table = None\<rparr>"

definition exWorld :: plugin_world where
  "exWorld = \<lparr>pw_plugins = new_registry, pw_caches = \<lparr>rg_live = [], rg_cache = (\<lambda>_. configuredCache (exSetupEnv undefined) exQuery)\<rparr>,
     pw_ring = \<lparr>rs_current = None\<rparr>, pw_ringMarked = False\<rparr>"

theorem settings_reach_plugins_witness:
  "\<exists>vc w'. vc_setup exDispenser (exSetupEnv undefined) 7
      (exTokens [[''vlancache'', ''{''], [''prefetch''], [''serve_stale'', ''1h''], [''}'']]) exWorld = Some (Inr vc, w') \<and>
     vc_prefetch vc \<and> vc_staleTTL vc = 3600000000000 \<and> 7 \<in> set (rg_live (pw_caches w'))"
proof -
  have q: "st_cache exQuery = \<lparr>serveStaleDisabled = False, prefetchDisabled = False\<rparr>" "queryLog_enabled (st_queryLog exQuery)"
    "capacity (st_queryLog exQuery) = 4096"
    by (simp_all add: exQuery_def defaultSettings_def)
  have "stanza_doc exDispenser (stanza_of (blk_lines (writeCache exQuery (newBlock []))))
      (exTokens [[''vlancache'', ''{''], [''prefetch''], [''serve_stale'', ''1h''], [''}'']])"
    using ex_cache by (simp add: cache_stanza q)
  moreover have "stanza_doc exDispenser (stanza_of (blk_lines (writeQueryLog exQuery (newBlock []))))
      (exTokens [[''querylog'', ''{''], [''capacity'', itoa 4096], [''}'']])"
    using ex_querylog by (simp add: querylog_stanza q)
  moreover have "\<not> pw_ringMarked exWorld" by (simp add: exWorld_def)
  ultimately show ?thesis
    using settings_reach_plugins [of exDispenser exQuery _ "[exTokens [[''querylog'', ''{''], [''capacity'', itoa 4096], [''}'']]]" exWorld
        "exSetupEnv undefined" 7] q
    by (fastforce simp: configuredCache_def)
qed

text \<open>
  The stanza of the local records that is written with a render is read back, so that the plugin
  serves that render: for a configuration that renders, in a directory whose path has no blank,
  with the zone data of the render in its file, the setup succeeds and yields the handler that the
  zone data loads into, for exactly the owned zones and with the same zones falling through.
\<close>

theorem localrecords_serve_render:
  assumes "render s rs hs opts = Inr out"
    and "stanza_doc dp (stanza_of (blk_lines (writeLocalRecords s opts (newBlock [])))) d"
    and "plain_word (zoneDataPath (opt_configDir opts))" "normalizedACMEDomain s \<noteq> ''{''"
    and "se_zoneFile env (zoneDataPath (opt_configDir opts)) = Zone (wire_zone (rd_zoneData out))"
  shows "\<exists>lr. lr_setup dp env d w = Some (Inr lr, pw_loaded ''localrecords'' w) \<and>
    loadZoneData (se_canon env) (wire_zone (rd_zoneData out))
      (parsedStanza (se_canon env) (ownedZones s) (fallthroughZones s) (se_vlans env)) = Inr lr"
proof -
  have v: "validate s rs hs = None" using render_zoneData [OF assms(1)] by blast
  obtain lr where lr: "loadZoneData (se_canon env) (wire_zone (rd_zoneData out))
      (parsedStanza (se_canon env) (ownedZones s) (fallthroughZones s) (se_vlans env)) = Inr lr"
    using load_rendered [OF assms(1)] by blast
  have "lr_parse dp env d = Some (Inr lr)"
    by (rule localrecords_read [OF assms(2) zones_plain [OF v assms(4)] assms(3,5) lr])
  with lr show ?thesis by (simp add: lr_setup_def)
qed

lemma exHome_zones: "ownedZones exHome = [''home.arpa'']" "fallthroughZones exHome = []" "normalizedACMEDomain exHome = []"
  by (simp_all add: exHome_def defaultSettings_def ownedZones_def ownedZone_def fallthroughZones_def
      normalizedACMEDomain_def ddrRecords_def zero_acme_def)

theorem localrecords_serve_render_witness:
  "\<exists>out lr. render exHome [exNas] [] exOptions = Inr out \<and>
     lr_setup exDispenser (exSetupEnv (wire_zone (rd_zoneData out))) (exTokens [[''localrecords'', ''home.arpa'', ''{''],
       [''zonedata'', ''/config/.runtime/zones/records.json''], [''}'']]) exWorld = Some (Inr lr, pw_loaded ''localrecords'' exWorld)"
proof -
  obtain out where o: "render exHome [exNas] [] exOptions = Inr out"
    by (simp add: render_def exHome_valid exHome_settings)
  have p: "zoneDataPath (opt_configDir exOptions) = ''/config/.runtime/zones/records.json''"
    by (simp add: zoneDataPath_def exOptions_def)
  have pw: "plain_word ''/config/.runtime/zones/records.json''" by (simp add: plain_word_def is_space_def)
  have "stanza_doc exDispenser (stanza_of (blk_lines (writeLocalRecords exHome exOptions (newBlock []))))
      (exTokens [[''localrecords'', ''home.arpa'', ''{''], [''zonedata'', ''/config/.runtime/zones/records.json''], [''}'']])"
    using ex_localrecords by (simp add: localrecords_stanza exHome_zones p fields_word [OF pw] word_eval)
  then show ?thesis
    using localrecords_serve_render [OF o, of exDispenser _ "exSetupEnv (wire_zone (rd_zoneData out))"] o
    by (fastforce simp: p pw exHome_zones exSetupEnv_def)
qed

text \<open>
  A configuration directory with a blank in its path: configgen writes the path of the zone data
  without quotes, so the setup of the local records reads its first part as the path and refuses
  the rest as an unknown property, whatever is in the files.
\<close>

theorem blank_directory_refused:
  assumes "render s rs hs opts = Inr out"
    and "stanza_doc dp (stanza_of (blk_lines (writeLocalRecords s opts (newBlock [])))) d"
    and "opt_configDir opts = p @ '' '' @ q" "plain_word p" "list_all (\<lambda>c. \<not> is_space c) q"
    and "normalizedACMEDomain s \<noteq> ''{''"
  shows "lr_setup dp env d w = Some (Inl (UnknownProperty (zoneDataPath q)),
    pw_failed env ''localrecords'' (UnknownProperty (zoneDataPath q)) w)"
proof -
  have v: "validate s rs hs = None" using render_zoneData [OF assms(1)] by blast
  have q: "plain_word (zoneDataPath q)"
    using assms(5) by (auto simp: plain_word_def zoneDataPath_def is_space_def append_eq_Cons_conv)
  have path: "Net_Detect.fields (zoneDataPath (opt_configDir opts)) = [p, zoneDataPath q]"
    using line_words [OF assms(4) q] by (simp add: assms(3) zoneDataPath_def)
  have slash: "CHR ''/'' \<in> set (toLower (zoneDataPath q))"
    by (simp add: zoneDataPath_def toLower_def image_iff char_lower_def)
  have unknown: "lr_property dp env d1 (p', lr) = Inl (UnknownProperty (zoneDataPath q))" if "dp_val dp d1 = zoneDataPath q" for d1 p' lr
  proof -
    have "toLower (zoneDataPath q) \<noteq> ''zonedata''" "toLower (zoneDataPath q) \<noteq> ''fallthrough''"
      using slash by auto
    then show ?thesis by (simp add: lr_property_def that)
  qed
  let ?ls = "if fallthroughZones s = [] then [] else [''fallthrough'' # fallthroughZones s]"
  have block: "blockLoop dp (lr_property dp env) d1 c = Some (Inl (UnknownProperty (zoneDataPath q)))"
    if o: "opens dp P ([''zonedata'' # [p, zoneDataPath q]] @ ?ls) d1" for P d1 c
  proof -
    obtain d2 where d2: "dp_nextBlock dp d1 = (True, d2)" "dp_val dp d2 = ''zonedata''" "reads dp P [p, zoneDataPath q] ?ls d2"
      using o by (auto simp: opens_def split: prod.splits)
    obtain d3 where d3: "dp_nextArg dp d2 = (True, d3)" "dp_val dp d3 = p" "reads dp P [zoneDataPath q] ?ls d3"
      using d2(3) by (auto simp: reads.simps(1) [of dp P p] split: prod.splits)
    obtain d4 where d4: "dp_nextBlock dp d3 = (True, d4)" "dp_val dp d4 = zoneDataPath q"
      using d3(3) by (auto simp: reads.simps(1) split: prod.splits)
    have "lr_property dp env d2 c = Inr ((p, snd c), d3)"
      using d3 by (simp add: lr_property_def d2(2) lower_eval withArg_def case_prod_unfold)
    with d2(1) have "blockLoop dp (lr_property dp env) d1 c = blockLoop dp (lr_property dp env) d3 (p, snd c)"
      by (subst blockLoop.simps) simp
    also have "\<dots> = Some (Inl (UnknownProperty (zoneDataPath q)))"
      using d4 unknown by (subst blockLoop.simps) simp
    finally show ?thesis .
  qed
  have "stanzaLoop dp (lr_stanza dp env) d (False, lr) = Some (Inl (UnknownProperty (zoneDataPath q)))" for lr
  proof (rule stanzaLoop_error [OF assms(2) [unfolded localrecords_stanza [OF zones_plain [OF v assms(6)]] path]])
    fix d1 d2 P
    assume "dp_remaining dp d1 = (ownedZones s, d2)" "opens dp P ([''zonedata'' # [p, zoneDataPath q]] @ ?ls) d2"
    then show "lr_stanza dp env d1 (False, lr) = Some (Inl (UnknownProperty (zoneDataPath q)))"
      by (simp only: lr_stanza_def prod.case if_False block Let_def bind.bind_lunit sum.case)
  qed
  then show ?thesis by (simp add: lr_setup_def lr_parse_def)
qed

theorem blank_directory_refused_witness:
  "\<exists>out w'. render exHome [exNas] [] (exOptions\<lparr>opt_configDir := ''/my config''\<rparr>) = Inr out \<and>
     lr_setup exDispenser (exSetupEnv (wire_zone (rd_zoneData out))) (exTokens [[''localrecords'', ''home.arpa'', ''{''],
       [''zonedata'', ''/my'', ''config/.runtime/zones/records.json''], [''}'']]) exWorld =
     Some (Inl (UnknownProperty ''config/.runtime/zones/records.json''), w')"
proof -
  let ?opts = "exOptions\<lparr>opt_configDir := ''/my config''\<rparr>"
  obtain out where o: "render exHome [exNas] [] ?opts = Inr out"
    by (simp add: render_def exHome_valid exHome_settings)
  have w: "plain_word ''/my''" "plain_word ''config/.runtime/zones/records.json''"
    by (simp_all add: plain_word_def is_space_def)
  have f: "Net_Detect.fields (zoneDataPath (opt_configDir ?opts)) = [''/my'', ''config/.runtime/zones/records.json'']"
    using line_words [OF w] by (simp add: zoneDataPath_def)
  have "stanza_doc exDispenser (stanza_of (blk_lines (writeLocalRecords exHome ?opts (newBlock []))))
      (exTokens [[''localrecords'', ''home.arpa'', ''{''], [''zonedata'', ''/my'', ''config/.runtime/zones/records.json''], [''}'']])"
    using ex_blank by (simp only: localrecords_stanza exHome_zones f list.simps simp_thms word_eval list.pred_inject if_True append.simps)
  then show ?thesis
    using blank_directory_refused [OF o _ _ w(1), of exDispenser _ "''config''" "exSetupEnv (wire_zone (rd_zoneData out))" exWorld] o
    by (simp add: exHome_zones is_space_def zoneDataPath_def)
qed

end
