(* ===== verification/Spec2Isabelle.thy ===== *)
theory Spec2Isabelle
  imports Plugin_Chain Vlan_Cache Gui_Service Net_Detect Mdns_Browse Acme_Manager Mdns_Advertise Settings_Page Gui_Views Gui_Requests Startup Plugin_Setup
begin

text \<open>
  A model of BrambleGate, a DNS server for a home network. The user declares settings, records
  and hosts in three YAML files; the program validates them, renders a CoreDNS configuration and
  data files from them, and runs CoreDNS in its own process with plugins of its own. A GUI service
  turns an edit into validate, save, render, reload.

  \<^bold>\<open>How the parts work together.\<close> \<^verbatim>\<open>internal/gui/service.go\<close> is the hub: it loads and saves through
  \<^verbatim>\<open>internal/store\<close>, renders through \<^verbatim>\<open>internal/configgen\<close>, reloads the engine, and starts, stops and
  configures discovery, advertisement, the query-log store and client names. A query runs through
  the plugins in the order of \<^verbatim>\<open>internal/engine/directives.go\<close>: query log, hosts, mDNS bridge, local
  records, VLAN cache, forwarder. The plugins share the process-wide VLAN table of \<^verbatim>\<open>vlanmatch\<close> and
  the query-log entry in the request context.

  \<^bold>\<open>Theories and sources\<close> (paths below \<^verbatim>\<open>src\<close>).
  \<^item> \<open>BG_Prelude\<close>: the collections of rewrite rules, errors as values, lists and options.
    \<open>Go_Strings\<close>, \<open>Go_Net\<close>: what the sources use of Go's \<^verbatim>\<open>strings\<close> and \<^verbatim>\<open>net\<close>: trimming and
    cutting, IP addresses as byte lists, CIDR networks, parsing and printing. \<open>Go_Float\<close>: float64
    as correctly rounded rationals, with the error bounds the expiry times need.
  \<^item> \<open>Model_Types\<close>: \<^verbatim>\<open>model/*.go\<close>, records and enumerations of the configuration, its defaults and
    \<^verbatim>\<open>ParseDomainName\<close>. \<open>Vlan_Match\<close>: \<^verbatim>\<open>vlanmatch\<close>, \<^verbatim>\<open>internal/vlancfg\<close>.
  \<^item> \<open>Zones\<close>, \<open>Validate\<close>, \<open>Configgen\<close>: \<^verbatim>\<open>internal/configgen\<close>: owned zones, every check of
    \<^verbatim>\<open>validate.go\<close> in its order with its error as a value, \<^verbatim>\<open>Render\<close> with the Corefile as text.
  \<^item> \<open>Dns_Chain\<close>: messages, requests, the log entry in the context and the type of a handler.
    \<open>Local_Records\<close>: \<^verbatim>\<open>plugins/localrecords\<close>. \<open>Vlan_Cache\<close>: \<^verbatim>\<open>plugins/vlancache\<close>.
    \<open>Glob\<close>, \<open>Mdns_Table\<close>: \<^verbatim>\<open>plugins/mdnsbridge\<close>, \<^verbatim>\<open>internal/mdnscfg\<close>.
    \<open>Client_Names\<close>: \<^verbatim>\<open>plugins/clientnames\<close>.
  \<^item> \<open>Mdns_Browse\<close>: \<^verbatim>\<open>plugins/mdnsbridge/mdnssd\<close> and the listener over it: the cache of announced
    records, the queries with known answers, the browsers and the instances they report.
    \<open>Net_Detect\<close>: \<^verbatim>\<open>internal/configgen/selfip\<close>, \<^verbatim>\<open>plugins/gatewaydetect\<close>: own addresses, the
    default routes of the kernel's table.
  \<^item> \<open>Mdns_Advertise\<close>: \<^verbatim>\<open>plugins/mdnsadvertise\<close>: the wanted services and the reconciliation with its
    goroutines as steps in any order.
  \<^item> \<open>Acme_Manager\<close>: \<^verbatim>\<open>internal/acme\<close> and the self-signed certificate of \<^verbatim>\<open>internal/cli\<close>: which
    certificate is usable, installing it, the renewal loop, the reload hooks, the issuer's account.
  \<^item> \<open>Log_Ring\<close>, \<open>Log_Stats\<close>, \<open>Log_Store\<close>, \<open>Log_Reads\<close>, \<open>Query_Log\<close>: \<^verbatim>\<open>plugins/querylog\<close>: the ring of
    recent entries, the counters, the asynchronous SQLite writer, the queries, the handler.
  \<^item> \<open>Config_Store\<close>: \<^verbatim>\<open>internal/store\<close>, the writes of \<^verbatim>\<open>internal/configgen/runtime.go\<close>, \<^verbatim>\<open>pluginreg\<close>.
    \<open>Gui_Service\<close>: \<^verbatim>\<open>internal/gui/service.go\<close>. \<open>Plugin_Chain\<close>: the plugins in their order.
  \<^item> \<open>Gui_Forms\<close>, \<open>Settings_Page\<close>: the forms of \<^verbatim>\<open>internal/gui/ui\<close> as the fields a browser submits, and the
    functions of \<^verbatim>\<open>handlers_ui.go\<close> that read them. \<open>Gui_Views\<close>: what the pages compute to display, and
    \<^verbatim>\<open>internal/dnsstamp\<close>. \<open>Gui_Handlers\<close>: every handler of \<^verbatim>\<open>server.go\<close> and \<^verbatim>\<open>handlers_ui.go\<close>, \<open>serve\<close>
    takes a request and the state to a response and a state. \<open>Gui_Requests\<close>: what they guarantee.
  \<^item> \<open>Startup\<close>: \<^verbatim>\<open>internal/cli/cli.go\<close>, \<^verbatim>\<open>internal/engine/engine.go\<close>, \<^verbatim>\<open>internal/version\<close>: defaults of the
    flags, the start of the process, the reload for a new certificate, shutting down.
  \<^item> \<open>Plugin_Setup\<close>: \<^verbatim>\<open>setup.go\<close> of the plugins \<^verbatim>\<open>vlancache\<close>, \<^verbatim>\<open>querylog\<close>, \<^verbatim>\<open>localrecords\<close> and
    \<^verbatim>\<open>mdnsbridge\<close>: reading the stanzas that \<open>Configgen\<close> writes, with \<^verbatim>\<open>time.ParseDuration\<close>.

  \<^bold>\<open>State and effects.\<close> A component's state is a record and an operation a function that returns
  the new one. The process-wide variables of the sources (current VLAN table, ring, store, host
  names) are state components of their users. Errors are constructors of sum types, one per
  message of the source. Calls that can fail from outside (files, database, sockets) take which
  of them fail as an argument, so the theorems hold for every combination. Goroutines are
  sequences of steps: \<open>store_step\<close> is the relation of the log writer with its channel, ticker and
  context; flushes and fetches of the cache interleave in \<open>Vlan_Cache\<close>; the listener and the PTR worker
  are arbitrary sequences of table operations. Widths are kept where they matter (TTLs and keys
  are words); times and durations are integers, in nanoseconds.

  \<^bold>\<open>What is shown.\<close>
  \<^item> Configuration: the files on disk stay valid under every sequence of edits and failures, an edit
    that reports success is what the engine serves, a refused one changes nothing but the VLAN
    table, after a save and after a start each component runs with the configuration the
    settings give it, or not at all; saves are atomic.
  \<^item> Rendering: only valid configurations are rendered, the result is well formed and loads, VLAN
    lookup does not depend on the order of accepted VLANs, the overlap test is exact, upstreams
    that see client subnets are private.
  \<^item> Answering: a declared record is answered per VLAN as declared; owned names stay local, in the
    plugin and in the whole chain; alias chains are followed to their end exactly if they end;
    a promoted device is served; resolving discovered names is exact.
  \<^item> Cache: replies are meant for the client they go to, flushes are effective in every
    interleaving, the store is bounded, lifetimes are within limits, failures are cached.
  \<^item> Log: each query is logged once and attributed, the views agree, the writer keeps the order of the
    entries and loses them only with a transaction that fails or runs under the cancelled context,
    the table is exactly what was saved, pruning and the reports are exact.
  \<^item> Discovery: the instances a browser reports are the ones announced and not expired, a silent
    instance is asked for again before it expires, the table of names follows the browse events.
  \<^item> Advertising: what is announced is what the settings ask for, unless a reconciliation overlaps a
    registration, after which services no longer wanted are announced until the next one.
  \<^item> Dashboard: it stays available and the files valid under every sequence of requests; the status
    of a JSON edit is exactly that of its outcome and what it acknowledges it lists; an unchanged
    form changes at most white space; the pages of the log are exact; a VLAN in use is only half removed.
  \<^item> Process: a fresh installation starts; once started, the files stay valid and the dashboard
    available under every interleaving of requests and certificate reloads; such a reload can undo
    an edit in the engine. The plugins read the stanzas of a render back as the settings it was made
    from, unless the path of the configuration directory has a blank.
  \<^item> Certificates: an install that was interrupted at any write is redone, except after a promotion from
    the cache that failed with the pair already in place, which can leave a key that does not
    belong to the certificate (\<open>given_up_promotion_mismatch\<close>); a renewal that can succeed leaves a
    usable certificate after one attempt, going back to an earlier set of names orders nothing.

  \<^bold>\<open>Interfaces.\<close> Locales state what one part promises another: \<open>vlan_matcher\<close> (lookup of the VLAN
  table), \<open>bounded_log\<close> (the ring), \<open>config_file\<close> (each of the three files), \<open>authority\<close> (a plugin
  that answers what it owns) and \<open>authority_pair\<close> (two in a row); each is interpreted on the model's
  definitions and the properties use the interpretations.

  \<^bold>\<open>Loops.\<close> \<open>buildAnswers\<close> and the glob loop are partial functions into \<open>option\<close>, where \<open>None\<close> is a
  call that never returns; that they return is a theorem (always for the matcher, exactly when no
  alias chain is endless for the answers). The loops over a stanza's tokens are too, and end on every
  stanza configgen writes. \<open>durationParts\<close> has the length of the text as fuel, and each part takes at
  least one character of it. Everything else is total.

  \<^bold>\<open>Arguments.\<close> Code outside the repository is an argument with its documented behaviour as a named
  hypothesis: YAML (\<open>yaml_doc\<close>), CoreDNS's zone matching, \<^verbatim>\<open>CanonicalName\<close> and \<^verbatim>\<open>SetReply\<close>
  (\<open>zones_matches_doc\<close>, \<open>canonical_doc\<close>, \<open>set_reply_doc\<close>), the hosts plugin (\<open>hosts_doc\<close>), the
  rest of the plugin chain, hashing and wire functions of the cache, the database's success, the
  X.509 and PEM functions (\<open>acme_lib\<close>), the outcome of each call to the ACME server, the encoding of DNS stamps, the type tables
  of the \<^verbatim>\<open>dns\<close> package, the handles of the mDNS responder, the reader of the Corefile's tokens
  (\<open>stanza_doc\<close>), the router of the HTTP server, which
  enters as the request it routes with the parts of its path.

  \<^bold>\<open>Not modelled.\<close> Sockets, the markup of the pages, parsing of flags and signals: they are I/O around the
  modelled parts, whose results enter as arguments. \<open>localRecords\<close> values used before \<open>Plugin_Setup\<close> are
  the handler a parsed stanza yields (\<open>parsedStanza\<close>). Where a map is walked, the order is that of an
  association list, and the results are shown not to depend on it where the source needs that.
\<close>

end
